(* ===== verification/Prelude.thy ===== *)
theory Prelude
  imports Main "HOL-Library.Word"
begin

text \<open>
  What every component of the model shares: names for the C++ integer types, little-endian
  images of machine words (what \<open>memcpy\<close> of an integer produces on the little-endian
  targets the server is built for), and reads and writes of a contiguous range of a byte array.
  The collections \<open>buffer_simps\<close> and \<open>le_simps\<close> carry the proofs about buffers.
\<close>

unbundle bit_operations_syntax

named_theorems buffer_simps \<open>reads of a byte array after writes to it\<close>
named_theorems le_simps \<open>little-endian images of machine words\<close>

type_synonym byte = "8 word"
type_synonym u16 = "16 word"
type_synonym u32 = "32 word"
type_synonym u64 = "64 word"
type_synonym cstring = "byte list"

section \<open>Little-endian images\<close>

text \<open>The \<open>n\<close> bytes at the address of an integer, lowest byte first, and the integer they hold.\<close>

fun le_bytes :: "nat \<Rightarrow> 'a::len word \<Rightarrow> byte list" where
  "le_bytes 0 w = []"
| "le_bytes (Suc n) w = ucast w # le_bytes n (drop_bit 8 w)"

fun le_word :: "byte list \<Rightarrow> 'a::len word" where
  "le_word [] = 0"
| "le_word (b # bs) = ucast b OR push_bit 8 (le_word bs)"

lemma length_le_bytes [simp, le_simps]: "length (le_bytes n w) = n"
  by (induction n arbitrary: w) auto

lemma bit_le_word_le_bytes:
  fixes w :: "'a::len word"
  shows "bit (le_word (le_bytes n w) :: 'a word) i \<longleftrightarrow> bit w i \<and> i < 8 * n"
proof (induction n arbitrary: w i)
  case 0
  show ?case by simp
next
  case (Suc n)
  show ?case
  proof (cases "i < 8")
    case True
    with bit_imp_le_length [of w i] show ?thesis
      by (auto simp: bit_or_iff bit_push_bit_iff bit_ucast_iff)
  next
    case False
    with bit_imp_le_length [of w i] show ?thesis
      by (auto simp: bit_or_iff bit_push_bit_iff bit_ucast_iff Suc.IH bit_drop_bit_eq
          dest: bit_imp_le_length)
  qed
qed

lemma le_word_le_bytes [simp, le_simps]:
  fixes w :: "'a::len word"
  assumes "LENGTH('a) \<le> 8 * n"
  shows "le_word (le_bytes n w) = w"
proof (rule bit_eqI)
  fix i
  assume "possible_bit TYPE('a word) i"
  then have "i < LENGTH('a)" by simp
  with assms show "bit (le_word (le_bytes n w) :: 'a word) i \<longleftrightarrow> bit w i"
    by (simp add: bit_le_word_le_bytes)
qed

lemma le_bytes_le_word [simp, le_simps]:
  assumes "8 * length bs \<le> LENGTH('a::len)"
  shows "le_bytes (length bs) (le_word bs :: 'a word) = bs"
  using assms
proof (induction bs)
  case Nil
  show ?case by simp
next
  case (Cons b bs)
  have low: "ucast (le_word (b # bs) :: 'a word) = b"
  proof (rule bit_eqI)
    fix i
    assume "possible_bit TYPE(8 word) i"
    with Cons.prems show "bit (ucast (le_word (b # bs) :: 'a word) :: byte) i \<longleftrightarrow> bit b i"
      by (auto simp: bit_ucast_iff bit_or_iff bit_push_bit_iff)
  qed
  have len: "bit (le_word bs :: 'a word) i \<Longrightarrow> i < 8 * length bs" for i
  proof (induction bs arbitrary: i)
    case Nil
    then show ?case by simp
  next
    case (Cons c cs)
    then show ?case
      by (fastforce simp: bit_or_iff bit_push_bit_iff bit_ucast_iff dest: bit_imp_le_length)
  qed
  have high: "drop_bit 8 (le_word (b # bs) :: 'a word) = le_word bs"
  proof (rule bit_eqI)
    fix i
    show "bit (drop_bit 8 (le_word (b # bs) :: 'a word)) i \<longleftrightarrow> bit (le_word bs :: 'a word) i"
      using Cons.prems len [of i]
      by (auto simp: bit_drop_bit_eq bit_or_iff bit_push_bit_iff bit_ucast_iff
          dest: bit_imp_le_length)
  qed
  have "8 * length bs \<le> LENGTH('a)" using Cons.prems by simp
  then show ?case using Cons.IH low high by simp
qed

section \<open>Ranges of an array\<close>

text \<open>
  \<open>blit p xs buf\<close> writes \<open>xs\<close> at offset \<open>p\<close> (\<open>memcpy (buf + p, xs, length xs)\<close>);
  \<open>slice p n buf\<close> is the \<open>n\<close> bytes at offset \<open>p\<close>.
\<close>

definition blit :: "nat \<Rightarrow> 'a list \<Rightarrow> 'a list \<Rightarrow> 'a list" where
  "blit p xs buf = take p buf @ xs @ drop (p + length xs) buf"

definition slice :: "nat \<Rightarrow> nat \<Rightarrow> 'a list \<Rightarrow> 'a list" where
  "slice p n buf = take n (drop p buf)"

lemma length_blit [simp, buffer_simps]:
  "p + length xs \<le> length buf \<Longrightarrow> length (blit p xs buf) = length buf"
  by (simp add: blit_def)

lemma length_slice [simp, buffer_simps]:
  "p + n \<le> length buf \<Longrightarrow> length (slice p n buf) = n"
  by (simp add: slice_def)

lemma slice_blit_same [simp, buffer_simps]:
  "p + length xs \<le> length buf \<Longrightarrow> slice p (length xs) (blit p xs buf) = xs"
  by (simp add: slice_def blit_def)

lemma slice_blit_sub [buffer_simps]:
  "p + length xs \<le> length buf \<Longrightarrow> q + n \<le> length xs \<Longrightarrow>
   slice (p + q) n (blit p xs buf) = slice q n xs"
  by (simp add: slice_def blit_def)

lemma slice_blit_before [buffer_simps]:
  "p + length xs \<le> length buf \<Longrightarrow> q + n \<le> p \<Longrightarrow> slice q n (blit p xs buf) = slice q n buf"
proof -
  assume "p + length xs \<le> length buf" and "q + n \<le> p"
  then have "n \<le> p - q" and "q \<le> p" and "p \<le> length buf" by auto
  then have "take n (drop q (take p buf)) = take n (drop q buf)"
    by (simp add: drop_take min_def)
  with \<open>n \<le> p - q\<close> \<open>q \<le> p\<close> \<open>p \<le> length buf\<close> show ?thesis
    by (simp add: slice_def blit_def min_def)
qed

lemma slice_blit_after [buffer_simps]:
  "p + length xs \<le> length buf \<Longrightarrow> p + length xs \<le> q \<Longrightarrow>
   slice q n (blit p xs buf) = slice q n buf"
  by (simp add: slice_def blit_def)

lemma slice_append: "slice p (m + n) buf = slice p m buf @ slice (p + m) n buf"
  by (simp add: slice_def take_add add.commute)

lemma slice_0 [simp, buffer_simps]: "slice p 0 buf = []"
  by (simp add: slice_def)

lemma blit_slice_id: "p + n \<le> length buf \<Longrightarrow> blit p (slice p n buf) buf = buf"
  by (simp add: blit_def slice_def)
     (metis add.commute append_assoc append_take_drop_id take_add)

lemma blit_blit_adjacent:
  "p + length xs + length ys \<le> length buf \<Longrightarrow>
   blit (p + length xs) ys (blit p xs buf) = blit p (xs @ ys) buf"
  by (cases xs) (auto simp: blit_def min_def ac_simps)

lemma blit_Nil [simp]: "blit p [] buf = buf"
  by (simp add: blit_def)

section \<open>Small facts about machine words\<close>

lemma unat_add_no_wrap:
  fixes a b :: "'a::len word"
  assumes "unat a + unat b < 2 ^ LENGTH('a)"
  shows "unat (a + b) = unat a + unat b"
  using assms by (simp add: unat_word_ariths)

lemma unat_add_of_nat:
  fixes a :: "'a::len word"
  assumes "unat a + n < 2 ^ LENGTH('a)"
  shows "unat (a + word_of_nat n) = unat a + n"
proof -
  have "n < 2 ^ LENGTH('a)" using assms by simp
  then have "unat (word_of_nat n :: 'a word) = n"
    by (simp add: unat_of_nat take_bit_nat_eq_self_iff)
  with assms show ?thesis by (simp add: unat_add_no_wrap)
qed

end
