(* ===== verification/Xtea.thy ===== *)
theory Xtea
  imports Prelude
begin

text \<open>
  \<open>src/src/xtea.cpp\<close>: the XTEA block cipher over a byte buffer. A buffer is the list of bytes
  from the pointer passed to \<open>encrypt\<close> or \<open>decrypt\<close> on; the functions return it rewritten.
  \<open>apply_rounds\<close> walks the buffer in blocks of eight bytes as long as the block's offset is below
  \<open>length\<close>, so a length that is not a multiple of eight reads and writes up to seven bytes
  past it. A buffer without those bytes is undefined behaviour in the code; the model then leaves
  the short tail alone, and every caller modelled here owns the bytes.

  The locale \<open>block_cipher\<close> states what a pair of round functions owes its user, the lemmas about
  whole buffers are proved from it, and it is interpreted on the rounds of the code.
\<close>

section \<open>Rounds and key schedule\<close>

type_synonym block = "u32 \<times> u32"
type_synonym round_keys = "u32 list"

definition xtea_delta :: u32 where
  "xtea_delta = 0x9E3779B9"

text \<open>The bodies of the two lambdas; \<open>k\<close> and \<open>k'\<close> are \<open>k[i]\<close> and \<open>k[i + 1]\<close>.\<close>

definition encrypt_round :: "u32 \<Rightarrow> u32 \<Rightarrow> block \<Rightarrow> block" where
  "encrypt_round k k' b =
     (let (left, right) = b;
          left = left + (((push_bit 4 right XOR drop_bit 5 right) + right) XOR k);
          right = right + (((push_bit 4 left XOR drop_bit 5 left) + left) XOR k')
      in (left, right))"

definition decrypt_round :: "u32 \<Rightarrow> u32 \<Rightarrow> block \<Rightarrow> block" where
  "decrypt_round k k' b =
     (let (left, right) = b;
          right = right - (((push_bit 4 left XOR drop_bit 5 left) + left) XOR k');
          left = left - (((push_bit 4 right XOR drop_bit 5 right) + right) XOR k)
      in (left, right))"

lemma decrypt_encrypt_round [simp]: "decrypt_round k k' (encrypt_round k k' b) = b"
  by (cases b) (simp add: encrypt_round_def decrypt_round_def Let_def)

lemma encrypt_decrypt_round [simp]: "encrypt_round k k' (decrypt_round k k' b) = b"
  by (cases b) (simp add: encrypt_round_def decrypt_round_def Let_def)

text \<open>
  \<open>expand_key\<close>: the loop writes \<open>expanded[i]\<close> and \<open>expanded[i + 1]\<close> for
  \<open>i = 0, 2, \<dots>, 62\<close> while \<open>sum\<close> grows by \<open>delta\<close>; \<open>n\<close> is the number of turns left.
\<close>

fun expand_loop :: "u32 list \<Rightarrow> nat \<Rightarrow> u32 \<Rightarrow> u32 list" where
  "expand_loop k 0 s = []"
| "expand_loop k (Suc n) s =
     (let next_s = s + xtea_delta
      in (s + k ! unat (s AND 3)) # (next_s + k ! unat (drop_bit 11 next_s AND 3))
         # expand_loop k n next_s)"

definition expand_key :: "u32 list \<Rightarrow> round_keys" where
  "expand_key k = expand_loop k 32 0"

lemma length_expand_loop [simp]: "length (expand_loop k n s) = 2 * n"
  by (induction n arbitrary: s) (auto simp: Let_def)

lemma length_expand_key [simp]: "length (expand_key k) = 64"
  by (simp add: expand_key_def)

section \<open>Blocks of a buffer\<close>

definition load_block :: "byte list \<Rightarrow> block" where
  "load_block bs = (le_word (take 4 bs), le_word (take 4 (drop 4 bs)))"

definition store_block :: "block \<Rightarrow> byte list" where
  "store_block b = le_bytes 4 (fst b) @ le_bytes 4 (snd b)"

text \<open>\<open>apply_rounds data length round\<close>; the recursion is the loop over \<open>j\<close>.\<close>

function apply_rounds :: "(block \<Rightarrow> block) \<Rightarrow> nat \<Rightarrow> byte list \<Rightarrow> byte list" where
  "apply_rounds rnd n data =
     (if n = 0 \<or> length data < 8 then data
      else store_block (rnd (load_block (take 8 data))) @ apply_rounds rnd (n - 8) (drop 8 data))"
  by pat_completeness auto
termination
  by (relation "measure (\<lambda>(rnd, n, data). n)") auto

declare apply_rounds.simps [simp del]

lemma length_store_block [simp]: "length (store_block b) = 8"
  by (simp add: store_block_def)

lemma load_store_block [simp]: "load_block (store_block b) = b"
  by (simp add: load_block_def store_block_def)

lemma store_load_block [simp]:
  assumes "length bs = 8"
  shows "store_block (load_block bs) = bs"
proof -
  have "le_bytes 4 (le_word (take 4 bs) :: u32) = take 4 bs"
    using le_bytes_le_word [of "take 4 bs", where 'a = 32] assms by simp
  moreover have "le_bytes 4 (le_word (take 4 (drop 4 bs)) :: u32) = drop 4 bs"
    using le_bytes_le_word [of "drop 4 bs", where 'a = 32] assms by simp
  ultimately show ?thesis by (simp add: load_block_def store_block_def)
qed

lemma apply_rounds_block:
  "0 < n \<Longrightarrow> length bs = 8 \<Longrightarrow>
   apply_rounds rnd n (bs @ rest) = store_block (rnd (load_block bs)) @ apply_rounds rnd (n - 8) rest"
  by (subst apply_rounds.simps) simp

lemma apply_rounds_stop: "n = 0 \<or> length data < 8 \<Longrightarrow> apply_rounds rnd n data = data"
  by (subst apply_rounds.simps) simp

lemma length_apply_rounds [simp]: "length (apply_rounds rnd n data) = length data"
proof (induction rnd n data rule: apply_rounds.induct)
  case (1 rnd n data)
  then show ?case by (subst apply_rounds.simps) auto
qed

lemma apply_rounds_comp:
  "apply_rounds g n (apply_rounds f n data) = apply_rounds (\<lambda>b. g (f b)) n data"
proof (induction f n data rule: apply_rounds.induct)
  case (1 f n data)
  show ?case
  proof (cases "n = 0 \<or> length data < 8")
    case True
    then show ?thesis by (simp add: apply_rounds_stop)
  next
    case False
    then have "length (take 8 data) = 8" by simp
    with False 1 show ?thesis
      by (subst (2 3) apply_rounds.simps) (simp add: apply_rounds_block)
  qed
qed

lemma apply_rounds_id: "apply_rounds (\<lambda>b. b) n data = data"
proof (induction "\<lambda>b::block. b" n data rule: apply_rounds.induct)
  case (1 n data)
  then show ?case by (subst apply_rounds.simps) auto
qed

text \<open>Beyond the last block the walk touches, nothing changes.\<close>

lemma apply_rounds_append:
  "n = 8 * m \<Longrightarrow> length data = n \<Longrightarrow>
   apply_rounds rnd n (data @ rest) = apply_rounds rnd n data @ rest"
proof (induction m arbitrary: n data)
  case 0
  then show ?case by (simp add: apply_rounds_stop)
next
  case (Suc m)
  then have data: "data = take 8 data @ drop 8 data" and len: "length (take 8 data) = 8" by auto
  from Suc have "apply_rounds rnd (n - 8) (drop 8 data @ rest) =
      apply_rounds rnd (n - 8) (drop 8 data) @ rest" by simp
  then have "apply_rounds rnd n (take 8 data @ (drop 8 data @ rest)) =
      apply_rounds rnd n (take 8 data @ drop 8 data) @ rest"
    using Suc.prems by (simp add: apply_rounds_block [OF _ len] del: append_take_drop_id)
  with data show ?case by (metis append_assoc)
qed

section \<open>Encryption and decryption of a buffer\<close>

text \<open>The loops over the key: pairs of keys in order, and in reverse order.\<close>

fun key_pairs :: "round_keys \<Rightarrow> (u32 \<times> u32) list" where
  "key_pairs (k # k' # ks) = (k, k') # key_pairs ks"
| "key_pairs _ = []"

definition encrypt :: "nat \<Rightarrow> round_keys \<Rightarrow> byte list \<Rightarrow> byte list" where
  "encrypt n ks data =
     fold (\<lambda>(k, k'). apply_rounds (encrypt_round k k') n) (key_pairs ks) data"

definition decrypt :: "nat \<Rightarrow> round_keys \<Rightarrow> byte list \<Rightarrow> byte list" where
  "decrypt n ks data =
     fold (\<lambda>(k, k'). apply_rounds (decrypt_round k k') n) (rev (key_pairs ks)) data"

text \<open>The published cipher on one block: 32 turns of the reference code.\<close>

fun reference_loop :: "u32 list \<Rightarrow> nat \<Rightarrow> u32 \<Rightarrow> block \<Rightarrow> block" where
  "reference_loop k 0 s b = b"
| "reference_loop k (Suc n) s (v0, v1) =
     (let v0 = v0 + (((push_bit 4 v1 XOR drop_bit 5 v1) + v1) XOR (s + k ! unat (s AND 3)));
          s = s + xtea_delta;
          v1 = v1 + (((push_bit 4 v0 XOR drop_bit 5 v0) + v0) XOR
                 (s + k ! unat (drop_bit 11 s AND 3)))
      in reference_loop k n s (v0, v1))"

definition reference_encipher :: "u32 list \<Rightarrow> block \<Rightarrow> block" where
  "reference_encipher k = reference_loop k 32 0"

section \<open>What a pair of keyed rounds owes a buffer\<close>

locale block_cipher =
  fixes enc :: "'k \<Rightarrow> block \<Rightarrow> block" and dec :: "'k \<Rightarrow> block \<Rightarrow> block"
  assumes dec_enc: "dec k (enc k b) = b"
begin

text \<open>Rounds outside, blocks inside: the same as all rounds on each block.\<close>

lemma fold_rounds:
  "fold (\<lambda>k. apply_rounds (enc k) n) ks data = apply_rounds (fold enc ks) n data"
proof (induction ks arbitrary: data)
  case Nil
  show ?case using apply_rounds_id [of n data] by (simp add: id_def)
next
  case (Cons k ks)
  then show ?case by (simp add: apply_rounds_comp comp_def)
qed

lemma undo_rounds:
  "fold (\<lambda>k. apply_rounds (dec k) n) (rev ks) (fold (\<lambda>k. apply_rounds (enc k) n) ks data) = data"
proof (induction ks arbitrary: data)
  case Nil
  show ?case by simp
next
  case (Cons k ks)
  have "apply_rounds (dec k) n (apply_rounds (enc k) n data) = data"
    by (simp add: apply_rounds_comp dec_enc apply_rounds_id)
  with Cons show ?case by simp
qed

end

interpretation enc_rounds: block_cipher
  "\<lambda>(k, k'). encrypt_round k k'" "\<lambda>(k, k'). decrypt_round k k'"
  by unfold_locales auto

interpretation dec_rounds: block_cipher
  "\<lambda>(k, k'). decrypt_round k k'" "\<lambda>(k, k'). encrypt_round k k'"
  by unfold_locales auto

lemma encrypt_alt:
  "encrypt n ks data = fold (\<lambda>k. apply_rounds (case k of (k, k') \<Rightarrow> encrypt_round k k') n) (key_pairs ks) data"
  by (simp add: encrypt_def case_prod_unfold)

lemma decrypt_alt:
  "decrypt n ks data = fold (\<lambda>k. apply_rounds (case k of (k, k') \<Rightarrow> decrypt_round k k') n) (rev (key_pairs ks)) data"
  by (simp add: decrypt_def case_prod_unfold)

lemma length_encrypt [simp]: "length (encrypt n ks data) = length data"
  by (simp add: encrypt_alt enc_rounds.fold_rounds)

lemma length_decrypt [simp]: "length (decrypt n ks data) = length data"
  by (simp add: decrypt_alt dec_rounds.fold_rounds)

lemma decrypt_encrypt_buffer: "decrypt n ks (encrypt n ks data) = data"
  unfolding encrypt_alt decrypt_alt by (rule enc_rounds.undo_rounds)

lemma encrypt_decrypt_buffer: "encrypt n ks (decrypt n ks data) = data"
  using dec_rounds.undo_rounds [of n "rev (key_pairs ks)" data]
  by (simp add: encrypt_alt decrypt_alt)

lemma encrypt_append:
  "8 dvd n \<Longrightarrow> length data = n \<Longrightarrow> encrypt n ks (data @ rest) = encrypt n ks data @ rest"
  by (auto simp: encrypt_alt enc_rounds.fold_rounds apply_rounds_append elim!: dvdE)

lemma decrypt_append:
  "8 dvd n \<Longrightarrow> length data = n \<Longrightarrow> decrypt n ks (data @ rest) = decrypt n ks data @ rest"
  by (auto simp: decrypt_alt dec_rounds.fold_rounds apply_rounds_append elim!: dvdE)

lemma expand_loop_rounds:
  "fold (\<lambda>(k, k'). encrypt_round k k') (key_pairs (expand_loop k n s)) b = reference_loop k n s b"
  by (induction k n s b rule: reference_loop.induct)
     (auto simp: Let_def encrypt_round_def)

text \<open>
  C4: decrypting an encrypted buffer gives the buffer back, for every key schedule and every
  length, also one that is not a multiple of the block size.
\<close>

theorem xtea_decrypt_encrypt:
  "decrypt n ks (encrypt n ks data) = data \<and> encrypt n ks (decrypt n ks data) = data"
  by (simp add: decrypt_encrypt_buffer encrypt_decrypt_buffer)

text \<open>
  C3: the optimised encryption, which expands the key once and runs each round over the whole
  buffer before the next, applies the published 32-turn XTEA cipher to every block of the buffer.
\<close>

theorem xtea_encrypt_reference:
  "encrypt n (expand_key k) data = apply_rounds (reference_encipher k) n data"
proof -
  have "fold (\<lambda>(k, k'). encrypt_round k k') (key_pairs (expand_key k)) = reference_encipher k"
    by (rule ext) (simp add: expand_key_def reference_encipher_def expand_loop_rounds)
  then show ?thesis by (simp add: encrypt_alt enc_rounds.fold_rounds)
qed

end
