(* ===== verification/Net_Message.thy ===== *)
theory Net_Message
  imports Prelude
begin

text \<open>
  \<open>src/src/networkmessage.h\<close>, \<open>networkmessage.cpp\<close> and \<open>outputmessage.h\<close>: the byte
  buffer of a packet with its read and write position. A \<open>std::string\<close> is its list of bytes.
  The 16-bit \<open>info.position\<close> and \<open>info.length\<close> are words; \<open>size_t\<close> arguments are
  naturals, since every one the callers pass is the size of an object in memory, and
  the comparisons of \<open>canRead\<close>, made on \<open>int\<close> after promotion, are made on \<open>int\<close>.
  An access outside the buffer, which the code does not check, is the result \<open>None\<close>.
\<close>

section \<open>The message and its bounds\<close>

definition NETWORKMESSAGE_MAXSIZE :: nat where "NETWORKMESSAGE_MAXSIZE = 24590"
definition INITIAL_BUFFER_POSITION :: u16 where "INITIAL_BUFFER_POSITION = 8"
definition HEADER_LENGTH :: nat where "HEADER_LENGTH = 2"
definition CHECKSUM_LENGTH :: nat where "CHECKSUM_LENGTH = 4"
definition XTEA_MULTIPLE :: nat where "XTEA_MULTIPLE = 8"
definition MAX_BODY_LENGTH :: nat where
  "MAX_BODY_LENGTH = NETWORKMESSAGE_MAXSIZE - HEADER_LENGTH - CHECKSUM_LENGTH - XTEA_MULTIPLE"
definition MAX_PROTOCOL_BODY_LENGTH :: nat where
  "MAX_PROTOCOL_BODY_LENGTH = MAX_BODY_LENGTH - 10"

lemmas net_consts = NETWORKMESSAGE_MAXSIZE_def INITIAL_BUFFER_POSITION_def HEADER_LENGTH_def
  CHECKSUM_LENGTH_def XTEA_MULTIPLE_def MAX_BODY_LENGTH_def MAX_PROTOCOL_BODY_LENGTH_def

record network_message =
  msg_length :: u16
  msg_position :: u16
  msg_overrun :: bool
  msg_buffer :: "byte list"

text \<open>\<open>reset\<close> assigns a fresh \<open>NetworkMessageInfo\<close>; the bytes of the buffer stay.\<close>

definition reset :: "'a network_message_scheme \<Rightarrow> 'a network_message_scheme" where
  "reset m = m\<lparr>msg_length := 0, msg_position := INITIAL_BUFFER_POSITION, msg_overrun := False\<rparr>"

definition can_add :: "nat \<Rightarrow> 'a network_message_scheme \<Rightarrow> bool" where
  "can_add n m \<longleftrightarrow> n + unat (msg_position m) < MAX_BODY_LENGTH"

definition can_read :: "int \<Rightarrow> 'a network_message_scheme \<Rightarrow> bool \<times> 'a network_message_scheme" where
  "can_read n m =
     (if uint (msg_position m) + n > uint (msg_length m) + 8
         \<or> n \<ge> int NETWORKMESSAGE_MAXSIZE - uint (msg_position m)
      then (False, m\<lparr>msg_overrun := True\<rparr>) else (True, m))"

section \<open>Reading\<close>

definition getByte :: "'a network_message_scheme \<Rightarrow> byte \<times> 'a network_message_scheme" where
  "getByte m =
     (case can_read 1 m of (False, m) \<Rightarrow> (0, m)
      | (True, m) \<Rightarrow> (msg_buffer m ! unat (msg_position m), m\<lparr>msg_position := msg_position m + 1\<rparr>))"

definition getPreviousByte :: "'a network_message_scheme \<Rightarrow> (byte \<times> 'a network_message_scheme) option" where
  "getPreviousByte m =
     (let p = msg_position m - 1
      in if unat p < length (msg_buffer m)
         then Some (msg_buffer m ! unat p, m\<lparr>msg_position := p\<rparr>) else None)"

text \<open>\<open>get<T>\<close> for an integer of \<open>n\<close> bytes.\<close>

definition get_word :: "nat \<Rightarrow> 'a network_message_scheme \<Rightarrow> 'w::len word \<times> 'a network_message_scheme" where
  "get_word n m =
     (case can_read (int n) m of (False, m) \<Rightarrow> (0, m)
      | (True, m) \<Rightarrow> (le_word (slice (unat (msg_position m)) n (msg_buffer m)),
                     m\<lparr>msg_position := msg_position m + word_of_nat n\<rparr>))"

abbreviation get_u16 :: "'a network_message_scheme \<Rightarrow> u16 \<times> 'a network_message_scheme" where
  "get_u16 \<equiv> get_word 2"

abbreviation get_u32 :: "'a network_message_scheme \<Rightarrow> u32 \<times> 'a network_message_scheme" where
  "get_u32 \<equiv> get_word 4"

definition getString :: "u16 \<Rightarrow> 'a network_message_scheme \<Rightarrow> cstring \<times> 'a network_message_scheme" where
  "getString stringLen m =
     (let (stringLen, m) = (if stringLen = 0 then get_u16 m else (stringLen, m))
      in case can_read (uint stringLen) m of (False, m) \<Rightarrow> ([], m)
         | (True, m) \<Rightarrow> (slice (unat (msg_position m)) (unat stringLen) (msg_buffer m),
                        m\<lparr>msg_position := msg_position m + stringLen\<rparr>))"

definition getPosition :: "'a network_message_scheme \<Rightarrow> (u16 \<times> u16 \<times> byte) \<times> 'a network_message_scheme" where
  "getPosition m =
     (let (x, m) = get_u16 m; (y, m) = get_u16 m; (z, m) = getByte m in ((x, y, z), m))"

text \<open>\<open>skipBytes\<close> takes an \<open>int16_t\<close>; the sum is reduced to 16 bits.\<close>

definition skipBytes :: "int \<Rightarrow> 'a network_message_scheme \<Rightarrow> 'a network_message_scheme" where
  "skipBytes count m = m\<lparr>msg_position := word_of_int (uint (msg_position m) + count)\<rparr>"

section \<open>Writing\<close>

text \<open>The common tail of the writers: copy the bytes and move both counters.\<close>

definition append_bytes :: "byte list \<Rightarrow> 'a network_message_scheme \<Rightarrow> 'a network_message_scheme" where
  "append_bytes bs m =
     m\<lparr>msg_buffer := blit (unat (msg_position m)) bs (msg_buffer m),
       msg_position := msg_position m + word_of_nat (length bs),
       msg_length := msg_length m + word_of_nat (length bs)\<rparr>"

definition addByte :: "byte \<Rightarrow> 'a network_message_scheme \<Rightarrow> 'a network_message_scheme" where
  "addByte value m = (if \<not> can_add 1 m then m else append_bytes [value] m)"

definition add_word :: "nat \<Rightarrow> 'w::len word \<Rightarrow> 'a network_message_scheme \<Rightarrow> 'a network_message_scheme" where
  "add_word n value m = (if \<not> can_add n m then m else append_bytes (le_bytes n value) m)"

abbreviation add_u16 :: "u16 \<Rightarrow> 'a network_message_scheme \<Rightarrow> 'a network_message_scheme" where
  "add_u16 \<equiv> add_word 2"

abbreviation add_u32 :: "u32 \<Rightarrow> 'a network_message_scheme \<Rightarrow> 'a network_message_scheme" where
  "add_u32 \<equiv> add_word 4"

definition addString :: "cstring \<Rightarrow> 'a network_message_scheme \<Rightarrow> 'a network_message_scheme" where
  "addString value m =
     (let stringLen = length value
      in if \<not> can_add (stringLen + 2) m \<or> stringLen > 8192 then m
         else append_bytes value (add_u16 (word_of_nat stringLen) m))"

definition addBytes :: "byte list \<Rightarrow> 'a network_message_scheme \<Rightarrow> 'a network_message_scheme" where
  "addBytes bytes m =
     (if \<not> can_add (length bytes) m \<or> length bytes > 8192 then m else append_bytes bytes m)"

text \<open>Padding grows the length only; the position stays where it was.\<close>

definition addPaddingBytes :: "nat \<Rightarrow> 'a network_message_scheme \<Rightarrow> 'a network_message_scheme" where
  "addPaddingBytes n m =
     (if \<not> can_add n m then m
      else m\<lparr>msg_buffer := blit (unat (msg_position m)) (replicate n 0x33) (msg_buffer m),
             msg_length := msg_length m + word_of_nat n\<rparr>)"

definition addPosition :: "u16 \<times> u16 \<times> byte \<Rightarrow> 'a network_message_scheme \<Rightarrow> 'a network_message_scheme" where
  "addPosition pos m = (case pos of (x, y, z) \<Rightarrow> addByte z (add_u16 y (add_u16 x m)))"

text \<open>
  \<open>addItem\<close> and \<open>addItemId\<close> use four facts of the item's type, read from the item table
  \<open>Item::items\<close> which is loaded from data files; \<open>fluidMap\<close> is the table of \<open>const.h\<close>.
\<close>

record item_wire_type =
  clientId :: u16
  it_stackable :: bool
  it_splash :: bool
  it_fluid_container :: bool

definition fluidMap :: "byte list" where
  "fluidMap = [0, 1, 5, 3, 6, 8, 9, 2]"

definition addItem_count :: "item_wire_type \<Rightarrow> byte \<Rightarrow> 'a network_message_scheme \<Rightarrow> 'a network_message_scheme" where
  "addItem_count it count m =
     (let m = add_u16 (clientId it) m
      in if it_stackable it then addByte count m
         else if it_splash it \<or> it_fluid_container it then addByte (fluidMap ! unat (count AND 7)) m
         else m)"

definition addItem_item :: "item_wire_type \<Rightarrow> u16 \<Rightarrow> u16 \<Rightarrow> 'a network_message_scheme \<Rightarrow> 'a network_message_scheme" where
  "addItem_item it item_count fluid_type m =
     (let m = add_u16 (clientId it) m
      in if it_stackable it then addByte (ucast (min 0xFF item_count)) m
         else if it_splash it \<or> it_fluid_container it then addByte (fluidMap ! unat (fluid_type AND 7)) m
         else m)"

definition addItemId :: "item_wire_type \<Rightarrow> 'a network_message_scheme \<Rightarrow> 'a network_message_scheme" where
  "addItemId it m = add_u16 (clientId it) m"

section \<open>Length, position and the header\<close>

definition setLength :: "u16 \<Rightarrow> 'a network_message_scheme \<Rightarrow> 'a network_message_scheme" where
  "setLength n m = m\<lparr>msg_length := n\<rparr>"

definition setBufferPosition :: "u16 \<Rightarrow> 'a network_message_scheme \<Rightarrow> bool \<times> 'a network_message_scheme" where
  "setBufferPosition pos m =
     (if uint pos < int NETWORKMESSAGE_MAXSIZE - uint INITIAL_BUFFER_POSITION
      then (True, m\<lparr>msg_position := pos + INITIAL_BUFFER_POSITION\<rparr>) else (False, m))"

definition getLengthHeader :: "'a network_message_scheme \<Rightarrow> u16" where
  "getLengthHeader m = ucast (msg_buffer m ! 0) OR push_bit 8 (ucast (msg_buffer m ! 1))"

definition getBodyBuffer :: "'a network_message_scheme \<Rightarrow> nat \<times> 'a network_message_scheme" where
  "getBodyBuffer m = (HEADER_LENGTH, m\<lparr>msg_position := 2\<rparr>)"

section \<open>Output messages\<close>

record output_message = network_message +
  outputBufferStart :: u16

definition new_output :: "byte list \<Rightarrow> output_message" where
  "new_output buf = \<lparr>msg_length = 0, msg_position = INITIAL_BUFFER_POSITION, msg_overrun = False,
     msg_buffer = buf, outputBufferStart = INITIAL_BUFFER_POSITION\<rparr>"

text \<open>\<open>add_header\<close>: the assertion that there is room before the start is the \<open>None\<close> branch.\<close>

definition add_header :: "nat \<Rightarrow> 'w::len word \<Rightarrow> output_message \<Rightarrow> output_message option" where
  "add_header n v m =
     (if unat (outputBufferStart m) < n then None
      else (let start = outputBufferStart m - word_of_nat n
            in Some (m\<lparr>outputBufferStart := start,
                       msg_buffer := blit (unat start) (le_bytes n v) (msg_buffer m),
                       msg_length := msg_length m + word_of_nat n\<rparr>)))"

definition writeMessageLength :: "output_message \<Rightarrow> output_message option" where
  "writeMessageLength m = add_header 2 (msg_length m) m"

text \<open>\<open>append\<close> copies the other message's body with no check of the space left.\<close>

definition append_message :: "'b network_message_scheme \<Rightarrow> output_message \<Rightarrow> output_message option" where
  "append_message msg m =
     (let n = unat (msg_length msg)
      in if 8 + n \<le> length (msg_buffer msg) \<and> unat (msg_position m) + n \<le> length (msg_buffer m)
         then Some (append_bytes (slice 8 n (msg_buffer msg)) m) else None)"

section \<open>Well-formed messages\<close>

definition wf_message :: "'a network_message_scheme \<Rightarrow> bool" where
  "wf_message m \<longleftrightarrow> length (msg_buffer m) = NETWORKMESSAGE_MAXSIZE"

definition advance :: "nat \<Rightarrow> 'a network_message_scheme \<Rightarrow> 'a network_message_scheme" where
  "advance n m = m\<lparr>msg_position := msg_position m + word_of_nat n\<rparr>"

definition available :: "nat \<Rightarrow> 'a network_message_scheme \<Rightarrow> bool" where
  "available n m \<longleftrightarrow> unat (msg_position m) + n \<le> unat (msg_length m) + 8
     \<and> unat (msg_position m) + n < NETWORKMESSAGE_MAXSIZE"

lemma can_read_iff:
  "can_read (int n) m = (if available n m then (True, m) else (False, m\<lparr>msg_overrun := True\<rparr>))"
  unfolding can_read_def available_def uint_nat by (auto simp del: of_nat_unat)

lemma can_read_uint:
  "can_read (uint w) m = (if available (unat w) m then (True, m) else (False, m\<lparr>msg_overrun := True\<rparr>))"
  by (metis can_read_iff uint_nat)

lemma can_add_position:
  "can_add n m \<Longrightarrow> unat (msg_position m + word_of_nat n) = unat (msg_position m) + n"
  by (rule unat_add_of_nat) (simp add: can_add_def net_consts)

lemma available_position:
  "available n m \<Longrightarrow> unat (msg_position m + word_of_nat n) = unat (msg_position m) + n"
  by (rule unat_add_of_nat) (simp add: available_def net_consts)

lemma append_bytes_append:
  "can_add (length xs + length ys) m \<Longrightarrow> wf_message m \<Longrightarrow>
   append_bytes ys (append_bytes xs m) = append_bytes (xs @ ys) m"
  using can_add_position [of "length xs" m]
  by (simp add: append_bytes_def can_add_def wf_message_def net_consts blit_blit_adjacent add.assoc)

lemma can_add_append_bytes:
  "can_add (length xs + n) m \<Longrightarrow> can_add n (append_bytes xs m)"
  using can_add_position [of "length xs" m] by (simp add: can_add_def append_bytes_def)

lemma can_add_mono: "can_add n m \<Longrightarrow> k \<le> n \<Longrightarrow> can_add k m"
  by (simp add: can_add_def)

lemma wf_append_bytes:
  "can_add (length bs) m \<Longrightarrow> wf_message m \<Longrightarrow> wf_message (append_bytes bs m)"
  by (simp add: wf_message_def append_bytes_def can_add_def net_consts)

lemma advance_advance: "advance b (advance a m) = advance (a + b) m"
  by (simp add: advance_def add.assoc)

lemma available_advance:
  "available (a + b) m \<Longrightarrow> available b (advance a m)"
  using available_position [of a m] by (simp add: available_def advance_def)

lemma available_mono: "available n m \<Longrightarrow> k \<le> n \<Longrightarrow> available k m"
  by (simp add: available_def)

section \<open>What a writer and a reader of a value owe each other\<close>

text \<open>
  A pair of member functions \<open>put\<close> and \<open>get\<close> for one kind of value, with the bytes it
  occupies on the wire: within the bounds, writing appends those bytes and reading takes them off.
\<close>

locale wire_type =
  fixes put :: "'v \<Rightarrow> network_message \<Rightarrow> network_message"
    and get :: "network_message \<Rightarrow> 'v \<times> network_message"
    and image :: "'v \<Rightarrow> byte list"
    and valid :: "'v \<Rightarrow> bool"
  assumes put_image:
    "wf_message m \<Longrightarrow> can_add (length (image v)) m \<Longrightarrow> valid v \<Longrightarrow> put v m = append_bytes (image v) m"
    and get_image:
    "available (length (image v)) m \<Longrightarrow> valid v \<Longrightarrow>
     slice (unat (msg_position m)) (length (image v)) (msg_buffer m) = image v \<Longrightarrow>
     get m = (v, advance (length (image v)) m)"
begin

lemma get_put:
  assumes "wf_message m" "can_add (length (image v)) m" "valid v"
    and "available (length (image v)) m'"
    and "msg_position m' = msg_position m" "msg_buffer m' = msg_buffer (put v m)"
  shows "get m' = (v, advance (length (image v)) m')"
proof -
  have "unat (msg_position m) + length (image v) \<le> length (msg_buffer m)"
    using assms(1,2) by (simp add: wf_message_def can_add_def net_consts)
  with assms show ?thesis
    by (intro get_image) (simp_all add: put_image append_bytes_def)
qed

end

lemma get_word_image:
  fixes v :: "'w::len word"
  assumes "available n m" "LENGTH('w) \<le> 8 * n"
    "slice (unat (msg_position m)) n (msg_buffer m) = le_bytes n v"
  shows "get_word n m = (v, advance n m)"
  using assms by (simp add: get_word_def can_read_iff advance_def)

lemma getByte_image:
  assumes "available 1 m" "wf_message m \<or> unat (msg_position m) < length (msg_buffer m)"
    "slice (unat (msg_position m)) 1 (msg_buffer m) = [v]"
  shows "getByte m = (v, advance 1 m)"
proof -
  have "msg_buffer m ! unat (msg_position m) = v"
    using assms(3) by (cases "unat (msg_position m) < length (msg_buffer m)")
      (auto simp: slice_def take_Suc hd_drop_conv_nth)
  with assms(1) show ?thesis
    using can_read_iff [of 1 m] by (simp add: getByte_def advance_def)
qed

lemma slice_one_in_range: "slice p 1 buf = [v] \<Longrightarrow> p < length buf"
  by (cases "p < length buf") (auto simp: slice_def)

lemma slice_image_parts:
  "slice p (length xs + length ys) buf = xs @ ys \<Longrightarrow> length (slice p (length xs) buf) = length xs \<Longrightarrow>
   slice p (length xs) buf = xs \<and> slice (p + length xs) (length ys) buf = ys"
  by (simp add: slice_append)

lemma slice_len_of_image: "slice p n buf = bs \<Longrightarrow> length bs = n \<Longrightarrow> k \<le> n \<Longrightarrow> length (slice p k buf) = k"
  by (auto simp: slice_def min_def split: if_splits)

lemma slice_split:
  "slice p (length xs + length ys) buf = xs @ ys \<Longrightarrow>
   slice p (length xs) buf = xs \<and> slice (p + length xs) (length ys) buf = ys"
  by (rule slice_image_parts) (auto intro: slice_len_of_image)

definition string_image :: "cstring \<Rightarrow> byte list" where
  "string_image v = le_bytes 2 (word_of_nat (length v) :: u16) @ v"

definition position_image :: "u16 \<times> u16 \<times> byte \<Rightarrow> byte list" where
  "position_image p = (case p of (x, y, z) \<Rightarrow> le_bytes 2 x @ le_bytes 2 y @ [z])"

lemma length_position_image [simp]: "length (position_image p) = 5"
  by (cases p) (simp add: position_image_def)

lemma addString_image:
  assumes "wf_message m" "can_add (length (string_image v)) m" "length v \<le> 8192"
  shows "addString v m = append_bytes (string_image v) m"
proof -
  have fit: "can_add (length v + 2) m" using assms(2) by (simp add: string_image_def add.commute)
  then have "can_add 2 m" by (rule can_add_mono) simp
  with fit assms show ?thesis
    using append_bytes_append [of "le_bytes 2 (word_of_nat (length v) :: u16)" v m]
    by (simp add: addString_def add_word_def string_image_def add.commute)
qed

lemma getString_image:
  assumes "available (length (string_image v)) m" "length v \<le> 8192"
    "slice (unat (msg_position m)) (length (string_image v)) (msg_buffer m) = string_image v"
  shows "getString 0 m = (v, advance (length (string_image v)) m)"
proof -
  let ?n = "word_of_nat (length v) :: u16"
  have n: "unat ?n = length v"
    using assms(2) by (simp add: unat_of_nat take_bit_nat_eq_self_iff)
  have av: "available (2 + length v) m" using assms(1) by (simp add: string_image_def)
  have parts: "slice (unat (msg_position m)) 2 (msg_buffer m) = le_bytes 2 ?n"
    "slice (unat (msg_position m) + 2) (length v) (msg_buffer m) = v"
    using slice_split [of "unat (msg_position m)" "le_bytes 2 ?n" v "msg_buffer m"] assms(3)
    by (simp_all add: string_image_def)
  have "get_word 2 m = (?n, advance 2 m)"
    by (rule get_word_image) (use av parts(1) in \<open>auto elim: available_mono\<close>)
  moreover have "available (length v) (advance 2 m)" using av by (rule available_advance)
  moreover have "unat (msg_position (advance 2 m)) = unat (msg_position m) + 2"
    using available_position [of 2 m] av by (simp add: advance_def available_def)
  ultimately show ?thesis
    using parts(2) n
    by (simp add: getString_def Let_def can_read_uint string_image_def)
       (simp add: advance_def add.assoc)
qed

lemma addPosition_image:
  assumes "wf_message m" "can_add (length (position_image p)) m"
  shows "addPosition p m = append_bytes (position_image p) m"
proof (cases p)
  case (fields x y z)
  have fit: "can_add 5 m" using assms(2) by simp
  have "add_u16 x m = append_bytes (le_bytes 2 x) m"
    using can_add_mono [OF fit, of 2] by (simp add: add_word_def)
  moreover have "add_u16 y (append_bytes (le_bytes 2 x) m) = append_bytes (le_bytes 2 x @ le_bytes 2 y) m"
    using can_add_append_bytes [of "le_bytes 2 x" 2 m] can_add_mono [OF fit, of 4] assms(1)
    by (simp add: add_word_def append_bytes_append)
  moreover have "addByte z (append_bytes (le_bytes 2 x @ le_bytes 2 y) m) = append_bytes (position_image p) m"
    using can_add_append_bytes [of "le_bytes 2 x @ le_bytes 2 y" 1 m] fit assms(1) fields
      append_bytes_append [of "le_bytes 2 x @ le_bytes 2 y" "[z]" m]
    by (simp add: addByte_def position_image_def)
  ultimately show ?thesis using fields by (simp add: addPosition_def)
qed

lemma getPosition_image:
  assumes "available (length (position_image p)) m"
    "slice (unat (msg_position m)) (length (position_image p)) (msg_buffer m) = position_image p"
  shows "getPosition m = (p, advance (length (position_image p)) m)"
proof (cases p)
  case (fields x y z)
  let ?q = "unat (msg_position m)"
  have av: "available 5 m" using assms(1) by simp
  have pos: "unat (msg_position (advance k m)) = ?q + k" if "k \<le> 5" for k
    using available_position [OF available_mono [OF av that]] by (simp add: advance_def)
  have sx: "slice ?q 2 (msg_buffer m) = le_bytes 2 x"
    and rest: "slice (?q + 2) 3 (msg_buffer m) = le_bytes 2 y @ [z]"
    using slice_split [of ?q "le_bytes 2 x" "le_bytes 2 y @ [z]" "msg_buffer m"] assms(2) fields
    by (simp_all add: position_image_def)
  have sy: "slice (?q + 2) 2 (msg_buffer m) = le_bytes 2 y"
    and sz: "slice (?q + 4) 1 (msg_buffer m) = [z]"
    using slice_split [of "?q + 2" "le_bytes 2 y" "[z]" "msg_buffer m"] rest
    by (simp_all add: eval_nat_numeral)
  have "get_word 2 m = (x, advance 2 m)"
    by (rule get_word_image) (use av sx in \<open>auto elim: available_mono\<close>)
  moreover have "get_word 2 (advance 2 m) = (y, advance 4 m)"
    using get_word_image [of 2 "advance 2 m" y] available_advance [of 2 2 m] av pos [of 2] sy
    by (simp add: advance_advance available_mono) (simp add: advance_def)
  moreover have "getByte (advance 4 m) = (z, advance 5 m)"
    using getByte_image [of "advance 4 m" z] available_advance [of 4 1 m] av pos [of 4] sz
      slice_one_in_range [OF sz]
    by (simp add: advance_advance) (simp add: advance_def)
  ultimately show ?thesis using fields by (simp add: getPosition_def)
qed

interpretation byte_wire: wire_type addByte getByte "\<lambda>v. [v]" "\<lambda>_. True"
proof (unfold_locales, goal_cases)
  case (1 m v) then show ?case by (simp add: addByte_def)
next
  case (2 v m) then show ?case
    using slice_one_in_range [of "unat (msg_position m)" "msg_buffer m" v] getByte_image [of m v]
    by simp
qed

interpretation u16_wire: wire_type add_u16 get_u16 "le_bytes 2" "\<lambda>_. True"
  by unfold_locales (auto simp: add_word_def intro: get_word_image)

interpretation u32_wire: wire_type add_u32 get_u32 "le_bytes 4" "\<lambda>_. True"
  by unfold_locales (auto simp: add_word_def intro: get_word_image)

interpretation string_wire: wire_type addString "getString 0" string_image "\<lambda>v. length v \<le> 8192"
  by unfold_locales (auto intro: addString_image getString_image)

interpretation position_wire: wire_type addPosition getPosition position_image "\<lambda>_. True"
  by unfold_locales (use addPosition_image getPosition_image in auto)

section \<open>Sequences of values\<close>

text \<open>
  A packet is a sequence of such values; the reader knows the kinds, as a protocol's parser does.
\<close>

datatype wire = W8 byte | W16 u16 | W32 u32 | WString cstring | WPosition "u16 \<times> u16 \<times> byte"
datatype wire_kind = K8 | K16 | K32 | KString | KPosition

fun kind_of :: "wire \<Rightarrow> wire_kind" where
  "kind_of (W8 _) = K8" | "kind_of (W16 _) = K16" | "kind_of (W32 _) = K32"
| "kind_of (WString _) = KString" | "kind_of (WPosition _) = KPosition"

fun wire_image :: "wire \<Rightarrow> byte list" where
  "wire_image (W8 v) = [v]" | "wire_image (W16 v) = le_bytes 2 v" | "wire_image (W32 v) = le_bytes 4 v"
| "wire_image (WString v) = string_image v" | "wire_image (WPosition v) = position_image v"

fun wire_valid :: "wire \<Rightarrow> bool" where
  "wire_valid (WString v) = (length v \<le> 8192)"
| "wire_valid _ = True"

fun put_wire :: "wire \<Rightarrow> network_message \<Rightarrow> network_message" where
  "put_wire (W8 v) m = addByte v m" | "put_wire (W16 v) m = add_u16 v m" | "put_wire (W32 v) m = add_u32 v m"
| "put_wire (WString v) m = addString v m" | "put_wire (WPosition v) m = addPosition v m"

fun get_wire :: "wire_kind \<Rightarrow> network_message \<Rightarrow> wire \<times> network_message" where
  "get_wire K8 m = apfst W8 (getByte m)" | "get_wire K16 m = apfst W16 (get_u16 m)"
| "get_wire K32 m = apfst W32 (get_u32 m)" | "get_wire KString m = apfst WString (getString 0 m)"
| "get_wire KPosition m = apfst WPosition (getPosition m)"

fun get_wires :: "wire_kind list \<Rightarrow> network_message \<Rightarrow> wire list \<times> network_message" where
  "get_wires [] m = ([], m)"
| "get_wires (k # ks) m = (let (v, m) = get_wire k m; (vs, m) = get_wires ks m in (v # vs, m))"

definition wires_image :: "wire list \<Rightarrow> byte list" where
  "wires_image vs = concat (map wire_image vs)"

interpretation any_wire: wire_type put_wire "get_wire k" wire_image "\<lambda>v. kind_of v = k \<and> wire_valid v" for k
proof (unfold_locales, goal_cases)
  case (1 m v)
  then show ?case
    using byte_wire.put_image u16_wire.put_image u32_wire.put_image string_wire.put_image
      position_wire.put_image
    by (cases v) auto
next
  case (2 v m)
  then show ?case
    using byte_wire.get_image [of _ m] u16_wire.get_image [of _ m] u32_wire.get_image [of _ m]
      string_wire.get_image [of _ m] position_wire.get_image [of _ m]
    by (cases v) auto
qed

lemma put_wires_image:
  assumes "wf_message m" "can_add (length (wires_image vs)) m" "list_all wire_valid vs"
  shows "fold put_wire vs m = append_bytes (wires_image vs) m"
  using assms
proof (induction vs arbitrary: m)
  case Nil
  then show ?case by (simp add: append_bytes_def wires_image_def)
next
  case (Cons v vs)
  then have fit: "can_add (length (wire_image v) + length (wires_image vs)) m"
    by (simp add: wires_image_def)
  then have one: "put_wire v m = append_bytes (wire_image v) m"
    using Cons.prems by (intro any_wire.put_image) (auto elim: can_add_mono)
  have "fold put_wire vs (append_bytes (wire_image v) m) =
      append_bytes (wires_image vs) (append_bytes (wire_image v) m)"
    using Cons.prems fit
    using can_add_append_bytes [OF fit] wf_append_bytes [OF can_add_mono [OF fit le_add1]]
    by (intro Cons.IH) auto
  with one fit Cons.prems show ?case
    by (simp add: append_bytes_append wires_image_def)
qed

lemma get_wires_image:
  assumes "available (length (wires_image vs)) m" "list_all wire_valid vs"
    and "slice (unat (msg_position m)) (length (wires_image vs)) (msg_buffer m) = wires_image vs"
  shows "get_wires (map kind_of vs) m = (vs, advance (length (wires_image vs)) m)"
  using assms
proof (induction vs arbitrary: m)
  case Nil
  then show ?case by (simp add: wires_image_def advance_def)
next
  case (Cons v vs)
  let ?a = "length (wire_image v)" and ?b = "length (wires_image vs)"
  have av: "available (?a + ?b) m" using Cons.prems by (simp add: wires_image_def)
  have parts: "slice (unat (msg_position m)) ?a (msg_buffer m) = wire_image v"
    "slice (unat (msg_position m) + ?a) ?b (msg_buffer m) = wires_image vs"
    using slice_split [of "unat (msg_position m)" "wire_image v" "wires_image vs" "msg_buffer m"]
      Cons.prems(3) by (simp_all add: wires_image_def)
  have "get_wire (kind_of v) m = (v, advance ?a m)"
    using av parts(1) Cons.prems(2) by (intro any_wire.get_image) (auto elim: available_mono)
  moreover have "unat (msg_position (advance ?a m)) = unat (msg_position m) + ?a"
    using available_position [OF available_mono [OF av, of ?a]] by (simp add: advance_def)
  then have "get_wires (map kind_of vs) (advance ?a m) = (vs, advance ?b (advance ?a m))"
    using Cons.prems(2) parts(2) available_advance [OF av]
    by (intro Cons.IH) (simp_all add: advance_def)
  ultimately show ?case
    by (simp add: advance_advance) (simp add: wires_image_def)
qed

lemma overrun_advance [simp]: "msg_overrun (advance n m) = msg_overrun m"
  by (simp add: advance_def)

text \<open>
  C6: any sequence of bytes, 16- and 32-bit integers, strings and positions that fits the body of
  a packet is read back value by value, with no overrun flagged, and the length counter is the
  number of bytes the values occupy.
\<close>

theorem packet_roundtrip:
  assumes "wf_message m" "list_all wire_valid vs" "length (wires_image vs) + 8 < MAX_BODY_LENGTH"
    and "m1 = fold put_wire vs (reset m)"
    and "(rs, m2) = get_wires (map kind_of vs) (snd (setBufferPosition 0 m1))"
  shows "rs = vs \<and> \<not> msg_overrun m2 \<and> unat (msg_length m1) = length (wires_image vs)"
proof -
  let ?bs = "wires_image vs"
  have small: "length ?bs < 24568" using assms(3) by (simp add: net_consts)
  then have n: "unat (word_of_nat (length ?bs) :: u16) = length ?bs"
    by (simp add: unat_of_nat take_bit_nat_eq_self_iff)
  have m1: "m1 = append_bytes ?bs (reset m)"
    using assms by (simp add: put_wires_image wf_message_def reset_def can_add_def net_consts)
  let ?m = "snd (setBufferPosition 0 m1)"
  have at: "msg_position ?m = 8" "msg_length ?m = word_of_nat (length ?bs)"
    "msg_buffer ?m = blit 8 ?bs (msg_buffer m)" "\<not> msg_overrun ?m"
    by (simp_all add: m1 setBufferPosition_def append_bytes_def reset_def net_consts)
  have "get_wires (map kind_of vs) ?m = (vs, advance (length ?bs) ?m)"
    using assms(1,2) small n at
    by (intro get_wires_image) (simp_all add: available_def wf_message_def net_consts)
  with assms(5) at n show ?thesis
    by (simp add: m1 append_bytes_def reset_def)
qed

theorem packet_roundtrip_witness:
  "\<exists>m1 m2. m1 = fold put_wire [W8 0x0A, WString [72, 105], WPosition (1000, 1001, 7)]
        (reset \<lparr>msg_length = 5, msg_position = 3, msg_overrun = True, msg_buffer = replicate 24590 0\<rparr>)
     \<and> ([W8 0x0A, WString [72, 105], WPosition (1000, 1001, 7)], m2) =
       get_wires [K8, KString, KPosition] (snd (setBufferPosition 0 m1))
     \<and> \<not> msg_overrun m2 \<and> unat (msg_length m1) = 10"
proof -
  let ?vs = "[W8 0x0A, WString [72, 105], WPosition (1000, 1001, 7)]"
  let ?m = "\<lparr>msg_length = 5, msg_position = 3, msg_overrun = True, msg_buffer = replicate 24590 0\<rparr>"
  obtain rs m2 where r: "(rs, m2) = get_wires (map kind_of ?vs) (snd (setBufferPosition 0 (fold put_wire ?vs (reset ?m))))"
    by (metis surj_pair)
  have "length (wires_image ?vs) = 10" by (simp add: wires_image_def string_image_def)
  with packet_roundtrip [of ?m ?vs, OF _ _ _ refl r] r show ?thesis
    by (force simp: wf_message_def net_consts simp del: fold_simps get_wires.simps)
qed

text \<open>
  C7: whatever length prefix an untrusted packet carries, \<open>getString\<close> either flags an overrun and
  returns the empty string, or returns bytes that lie inside the buffer and inside the packet, and
  moves the position just past them.
\<close>

theorem getString_safe:
  assumes "wf_message m" "getString k m = (v, m')"
  shows "(msg_overrun m' \<and> v = [])
    \<or> (unat (msg_position m') = unat (msg_position m) + (if k = 0 then 2 else 0) + length v
       \<and> unat (msg_position m') < length (msg_buffer m)
       \<and> unat (msg_position m') \<le> unat (msg_length m) + 8
       \<and> v = slice (unat (msg_position m') - length v) (length v) (msg_buffer m)
       \<and> msg_overrun m' = msg_overrun m)"
proof -
  have body: "(msg_overrun q' \<and> w = []) \<or>
      (unat (msg_position q') = unat (msg_position q) + length w \<and> length w = unat n
       \<and> available (unat n) q \<and> w = slice (unat (msg_position q)) (unat n) (msg_buffer q)
       \<and> msg_overrun q' = msg_overrun q)"
    if "(case can_read (uint n) q of (False, m) \<Rightarrow> ([], m)
         | (True, m) \<Rightarrow> (slice (unat (msg_position m)) (unat n) (msg_buffer m),
                        m\<lparr>msg_position := msg_position m + n\<rparr>)) = (w, q')"
      and "length (msg_buffer q) = NETWORKMESSAGE_MAXSIZE"
    for q q' :: "'a network_message_scheme" and n w
  proof (cases "available (unat n) q")
    case True
    with that available_position [OF True] show ?thesis
      by (auto simp: can_read_uint available_def)
  next
    case False
    with that show ?thesis by (auto simp: can_read_uint)
  qed
  have len: "length (msg_buffer m) = NETWORKMESSAGE_MAXSIZE" using assms(1) by (simp add: wf_message_def)
  show ?thesis
  proof (cases "k = 0")
    case False
    with assms(2) body [of k m v m'] len show ?thesis
      by (auto simp: getString_def available_def)
  next
    case True
    show ?thesis
    proof (cases "available 2 m")
      case True
      let ?n = "le_word (slice (unat (msg_position m)) 2 (msg_buffer m)) :: u16"
      have p: "unat (msg_position m + 2) = unat (msg_position m) + 2"
        using available_position [OF True] by simp
      from True \<open>k = 0\<close> assms(2) body [of ?n "m\<lparr>msg_position := msg_position m + 2\<rparr>" v m'] len p
      show ?thesis
        using can_read_iff [of 2 m] by (auto simp: getString_def get_word_def available_def)
    next
      case False
      with \<open>k = 0\<close> assms(2) show ?thesis
        using can_read_iff [of 2 m]
        by (auto simp: getString_def get_word_def can_read_def split: if_splits)
    qed
  qed
qed

theorem getString_safe_witness:
  "snd (getString 7 \<lparr>msg_length = 3, msg_position = 8, msg_overrun = False, msg_buffer = replicate 24590 (0 :: byte)\<rparr>)
     = \<lparr>msg_length = 3, msg_position = 8, msg_overrun = True, msg_buffer = replicate 24590 0\<rparr>"
proof -
  let ?m = "\<lparr>msg_length = 3, msg_position = 8, msg_overrun = False, msg_buffer = replicate 24590 (0 :: byte)\<rparr>"
  have "wf_message ?m" by (simp add: wf_message_def net_consts)
  note getString_safe [OF this, of 7 "fst (getString 7 ?m)" "snd (getString 7 ?m)"]
  then show ?thesis by (simp add: getString_def can_read_uint available_def)
qed

end
