(* ===== verification/Checksum.thy ===== *)
theory Checksum
  imports Net_Message
begin

text \<open>
  \<open>adlerChecksum\<close> of \<open>src/src/tools.cpp\<close>. The sums are 32-bit words and are reduced
  modulo 65521 only once per chunk of 5552 bytes; the data is the list of the \<open>length\<close> bytes read.
\<close>

definition adler_step :: "byte \<Rightarrow> u32 \<times> u32 \<Rightarrow> u32 \<times> u32" where
  "adler_step d s = (let (a, b) = s; a = a + ucast d in (a, b + a))"

function adler_loop :: "byte list \<Rightarrow> u32 \<times> u32 \<Rightarrow> u32 \<times> u32" where
  "adler_loop data s =
     (if data = [] then s
      else let (a, b) = fold adler_step (take 5552 data) s
           in adler_loop (drop 5552 data) (a mod 65521, b mod 65521))"
  by pat_completeness auto
termination
  by (relation "measure (\<lambda>(data, s). length data)") auto

declare adler_loop.simps [simp del]

definition adlerChecksum :: "byte list \<Rightarrow> u32" where
  "adlerChecksum data =
     (if length data > NETWORKMESSAGE_MAXSIZE then 0
      else let (a, b) = adler_loop data (1, 0) in push_bit 16 b OR a)"

text \<open>The definition of Adler-32: both sums over all the data, reduced modulo 65521 at the end.\<close>

definition adler_sum :: "byte \<Rightarrow> nat \<times> nat \<Rightarrow> nat \<times> nat" where
  "adler_sum d s = (fst s + unat d, snd s + (fst s + unat d))"

definition adler32 :: "byte list \<Rightarrow> nat" where
  "adler32 data =
     (let (a, b) = fold adler_sum data (1, 0) in (b mod 65521) * 2 ^ 16 + a mod 65521)"

text \<open>
  After \<open>i\<close> bytes of a chunk the sums are bounded by a linear and a quadratic function of \<open>i\<close>;
  5552 is the largest chunk for which the second stays below \<open>2 ^ 32\<close>.
\<close>

definition chunk_bound :: "nat \<Rightarrow> nat \<times> nat \<Rightarrow> bool" where
  "chunk_bound i s \<longleftrightarrow> fst s \<le> 65520 + 255 * i
     \<and> 2 * snd s \<le> 2 * (i + 1) * 65520 + 255 * i * (i + 1)"

lemma chunk_bound_step: "chunk_bound i s \<Longrightarrow> chunk_bound (Suc i) (adler_sum d s)"
proof -
  assume "chunk_bound i s"
  moreover have "unat d < 256" by (rule order.strict_trans2 [OF unsigned_less]) simp
  ultimately show ?thesis by (auto simp: chunk_bound_def adler_sum_def algebra_simps)
qed

lemma chunk_bound_small:
  assumes "chunk_bound i s" "i \<le> 5552"
  shows "fst s < 2 ^ 32 \<and> snd s < 2 ^ 32"
proof -
  have "i * (i + 1) \<le> 5552 * 5553" using assms(2) by (intro mult_le_mono) auto
  with assms show ?thesis by (auto simp: chunk_bound_def algebra_simps)
qed

lemma chunk_bound_fold: "chunk_bound i s \<Longrightarrow> chunk_bound (i + length ds) (fold adler_sum ds s)"
proof (induction ds arbitrary: i s)
  case Nil
  then show ?case by simp
next
  case (Cons d ds)
  from Cons.IH [OF chunk_bound_step [OF Cons.prems, of d]] show ?case by simp
qed

text \<open>Within a chunk the words are the images of the unreduced sums.\<close>

definition to_words :: "nat \<times> nat \<Rightarrow> u32 \<times> u32" where
  "to_words s = (word_of_nat (fst s), word_of_nat (snd s))"

lemma adler_step_words: "adler_step d (to_words s) = to_words (adler_sum d s)"
  by (simp add: adler_step_def adler_sum_def to_words_def Let_def)

lemma fold_adler_words: "fold adler_step ds (to_words s) = to_words (fold adler_sum ds s)"
  by (induction ds arbitrary: s) (simp_all add: adler_step_words)

lemma word_of_nat_mod:
  assumes "n < 2 ^ 32"
  shows "(word_of_nat n :: u32) mod 65521 = word_of_nat (n mod 65521)"
proof (rule word_unat_eq_iff [THEN iffD2])
  have "n mod 65521 < 2 ^ 32" using assms by (meson le_less_trans mod_less_eq_dividend)
  with assms show "unat ((word_of_nat n :: u32) mod 65521) = unat (word_of_nat (n mod 65521) :: u32)"
    by (simp add: unat_mod_distrib unat_of_nat take_bit_nat_eq_self_iff)
qed

text \<open>Reducing the starting sums does not change the reduced results.\<close>

lemma adler_sum_mod:
  "(fst (fold adler_sum ds (a mod 65521, b mod 65521)) mod 65521,
    snd (fold adler_sum ds (a mod 65521, b mod 65521)) mod 65521) =
   (fst (fold adler_sum ds (a, b)) mod 65521, snd (fold adler_sum ds (a, b)) mod 65521)"
proof -
  have "fst (fold adler_sum ds s) mod 65521 = fst (fold adler_sum ds t) mod 65521
      \<and> snd (fold adler_sum ds s) mod 65521 = snd (fold adler_sum ds t) mod 65521"
    if "fst s mod 65521 = fst t mod 65521" "snd s mod 65521 = snd t mod 65521" for s t
    using that
  proof (induction ds arbitrary: s t)
    case Nil
    then show ?case by simp
  next
    case (Cons d ds)
    have 1: "fst (adler_sum d s) mod 65521 = fst (adler_sum d t) mod 65521"
      unfolding adler_sum_def fst_conv using Cons.prems(1) by (rule mod_add_cong) simp
    have 2: "snd (adler_sum d s) mod 65521 = snd (adler_sum d t) mod 65521"
      unfolding adler_sum_def fst_conv snd_conv
      by (rule mod_add_cong [OF Cons.prems(2) mod_add_cong [OF Cons.prems(1) refl]])
    from Cons.IH [OF 1 2] show ?case by (simp only: fold_simps)
  qed
  then show ?thesis by simp
qed

lemma adler_loop_sums:
  "fst s \<le> 65520 \<Longrightarrow> snd s \<le> 65520 \<Longrightarrow>
   adler_loop data (to_words s) =
     to_words (fst (fold adler_sum data s) mod 65521, snd (fold adler_sum data s) mod 65521)"
proof (induction "length data" arbitrary: data s rule: less_induct)
  case less
  show ?case
  proof (cases "data = []")
    case True
    with less.prems show ?thesis by (subst adler_loop.simps) simp
  next
    case False
    let ?t = "fold adler_sum (take 5552 data) s"
    let ?r = "(fst ?t mod 65521, snd ?t mod 65521)"
    have "chunk_bound 0 s" using less.prems by (simp add: chunk_bound_def)
    then have small: "fst ?t < 2 ^ 32" "snd ?t < 2 ^ 32"
      using chunk_bound_fold [of 0 s "take 5552 data"]
        chunk_bound_small [of "length (take 5552 data)" ?t] by auto
    have "adler_loop data (to_words s) = adler_loop (drop 5552 data) (to_words ?r)"
      using False small fold_adler_words [of "take 5552 data" s]
      by (subst adler_loop.simps) (simp add: to_words_def word_of_nat_mod)
    also have "\<dots> = to_words (fst (fold adler_sum (drop 5552 data) ?r) mod 65521,
        snd (fold adler_sum (drop 5552 data) ?r) mod 65521)"
      using False by (intro less.hyps) (simp_all add: less_Suc_eq_le [symmetric])
    also have "\<dots> = to_words (fst (fold adler_sum (drop 5552 data) ?t) mod 65521,
        snd (fold adler_sum (drop 5552 data) ?t) mod 65521)"
      using adler_sum_mod [of "drop 5552 data" "fst ?t" "snd ?t"] by simp
    also have "fold adler_sum (drop 5552 data) ?t = fold adler_sum data s"
      by (metis append_take_drop_id comp_apply fold_append)
    finally show ?thesis .
  qed
qed

text \<open>
  C8: for every buffer the server can hold, the checksum with its deferred reduction is Adler-32;
  no 32-bit addition of it wraps around.
\<close>

theorem adlerChecksum_adler32:
  assumes "length data \<le> NETWORKMESSAGE_MAXSIZE"
  shows "adlerChecksum data = word_of_nat (adler32 data)"
proof -
  let ?s = "fold adler_sum data (1, 0)"
  have or_plus: "push_bit 16 (word_of_nat b :: u32) OR word_of_nat a = word_of_nat (b * 2 ^ 16 + a)"
    if "a < 65521" for a b :: nat
  proof -
    have "take_bit 16 a = a" using that by (simp add: take_bit_nat_eq_self)
    moreover have "push_bit 16 b AND take_bit 16 a = 0" by (simp add: bit_eq_iff bit_simps)
    ultimately have "push_bit 16 b OR a = push_bit 16 b + a"
      by (simp add: disjunctive_add_eq_or)
    then have "(word_of_nat (push_bit 16 b OR a) :: u32) = word_of_nat (b * 2 ^ 16 + a)"
      by (simp add: push_bit_eq_mult)
    then show ?thesis by (simp add: of_nat_or_eq push_bit_of_nat)
  qed
  have "adlerChecksum data = push_bit 16 (word_of_nat (snd ?s mod 65521)) OR word_of_nat (fst ?s mod 65521)"
    using assms adler_loop_sums [of "(1, 0)" data] by (simp add: adlerChecksum_def to_words_def)
  also have "\<dots> = word_of_nat ((snd ?s mod 65521) * 2 ^ 16 + fst ?s mod 65521)"
    by (rule or_plus) simp
  finally show ?thesis by (simp add: adler32_def split_def Let_def)
qed

theorem adlerChecksum_adler32_witness:
  "adlerChecksum [87, 105, 107, 105] = 0x03DA0195"
proof -
  have "adlerChecksum [87, 105, 107, 105] = word_of_nat (adler32 [87, 105, 107, 105])"
    by (rule adlerChecksum_adler32) (simp add: net_consts)
  then show ?thesis by (simp add: adler32_def adler_sum_def)
qed

end
