(* ===== verification/Protocol.thy ===== *)
theory Protocol
  imports Xtea Checksum
begin

text \<open>
  \<open>src/src/protocol.cpp\<close>, the crypto header of \<open>outputmessage.h\<close> and the checksum step of
  \<open>Connection::parsePacket\<close>: how a packet is framed on its way out and checked on its way in.

  A frame is the length of what follows (2 bytes), the Adler-32 checksum of the rest (4 bytes) and
  the encrypted rest, which is the length of the payload (2 bytes), the payload and the padding.
\<close>

section \<open>Sending\<close>

record protocol_state =
  proto_key :: round_keys
  encryptionEnabled :: bool
  checksumEnabled :: bool
  rawMessages :: bool

definition XTEA_encrypt :: "round_keys \<Rightarrow> output_message \<Rightarrow> output_message" where
  "XTEA_encrypt k msg =
     (let paddingBytes = unat (msg_length msg) mod 8;
          msg = (if paddingBytes \<noteq> 0 then addPaddingBytes (8 - paddingBytes) msg else msg);
          start = unat (outputBufferStart msg)
      in msg\<lparr>msg_buffer := take start (msg_buffer msg)
            @ encrypt (unat (msg_length msg)) k (drop start (msg_buffer msg))\<rparr>)"

definition addCryptoHeader :: "bool \<Rightarrow> output_message \<Rightarrow> output_message option" where
  "addCryptoHeader addChecksum msg =
     Option.bind
       (if addChecksum
        then add_header 4 (adlerChecksum (slice (unat (outputBufferStart msg))
               (unat (msg_length msg)) (msg_buffer msg))) msg
        else Some msg)
       writeMessageLength"

definition onSendMessage :: "protocol_state \<Rightarrow> output_message \<Rightarrow> output_message option" where
  "onSendMessage p msg =
     (if \<not> rawMessages p
      then Option.bind (writeMessageLength msg) (\<lambda>msg.
             if encryptionEnabled p
             then addCryptoHeader (checksumEnabled p) (XTEA_encrypt (proto_key p) msg)
             else Some msg)
      else Some msg)"

text \<open>The bytes \<open>internalSend\<close> hands to the socket.\<close>

definition sent_bytes :: "output_message \<Rightarrow> byte list" where
  "sent_bytes msg = slice (unat (outputBufferStart msg)) (unat (msg_length msg)) (msg_buffer msg)"

section \<open>Receiving\<close>

text \<open>
  \<open>msg.getLength() - 6\<close> is an \<open>int\<close>. Lengths below 6 fail the test on its low bits, so the
  length given to \<open>decrypt\<close> is not negative.
\<close>

definition XTEA_decrypt :: "round_keys \<Rightarrow> network_message \<Rightarrow> bool \<times> network_message" where
  "XTEA_decrypt k msg =
     (let n = uint (msg_length msg) - 6
      in if n AND 7 \<noteq> 0 then (False, msg)
         else let p = unat (msg_position msg);
                  msg = msg\<lparr>msg_buffer := take p (msg_buffer msg)
                            @ decrypt (nat n) k (drop p (msg_buffer msg))\<rparr>;
                  (innerLength, msg) = get_u16 msg
              in if uint innerLength + 8 > uint (msg_length msg) then (False, msg)
                 else (True, setLength innerLength msg))"

text \<open>\<open>onRecvMessage\<close>: the message given to \<open>parsePacket\<close>, or nothing when it is dropped.\<close>

definition onRecvMessage :: "protocol_state \<Rightarrow> network_message \<Rightarrow> network_message option" where
  "onRecvMessage p msg =
     (if encryptionEnabled p
      then (case XTEA_decrypt (proto_key p) msg of (True, msg) \<Rightarrow> Some msg | (False, _) \<Rightarrow> None)
      else Some msg)"

text \<open>
  \<open>RSA_decrypt\<close> decrypts 128 bytes in place with the RSA key object, which wraps a library and is
  the parameter \<open>rsa\<close>; the result tells whether the first byte is zero.
\<close>

definition RSA_decrypt :: "(byte list \<Rightarrow> byte list) \<Rightarrow> network_message \<Rightarrow> bool \<times> network_message" where
  "RSA_decrypt rsa msg =
     (if uint (msg_length msg) - uint (msg_position msg) \<noteq> 128 then (False, msg)
      else let p = unat (msg_position msg);
               msg = msg\<lparr>msg_buffer := blit p (rsa (slice p 128 (msg_buffer msg))) (msg_buffer msg)\<rparr>;
               (b, msg) = getByte msg
           in (b = 0, msg))"

text \<open>The checksum step of \<open>Connection::parsePacket\<close>: whether it matched, and the message after it.\<close>

definition check_checksum :: "network_message \<Rightarrow> bool \<times> network_message" where
  "check_checksum msg =
     (let len = uint (msg_length msg) - uint (msg_position msg) - int CHECKSUM_LENGTH;
          checksum = (if len > 0
            then adlerChecksum (slice (unat (msg_position msg) + CHECKSUM_LENGTH) (nat len) (msg_buffer msg))
            else 0);
          (recvChecksum, msg) = get_u32 msg
      in if recvChecksum \<noteq> checksum then (False, skipBytes (- int CHECKSUM_LENGTH) msg)
         else (True, msg))"

text \<open>
  \<open>getOutputBuffer size\<close>: the pending buffer, sent first when \<open>size\<close> more bytes would pass the
  limit; the third component is what was handed to the connection, \<open>fresh\<close> the pool's next buffer.
\<close>

definition getOutputBuffer ::
  "output_message \<Rightarrow> int \<Rightarrow> output_message option \<Rightarrow> output_message \<times> output_message option \<times> output_message list" where
  "getOutputBuffer fresh n outputBuffer =
     (case outputBuffer of
        None \<Rightarrow> (fresh, Some fresh, [])
      | Some b \<Rightarrow>
          if uint (msg_length b) + n > int MAX_PROTOCOL_BODY_LENGTH
          then (fresh, Some fresh, [b]) else (b, Some b, []))"

section \<open>The frame of a payload\<close>

definition pad_length :: "nat \<Rightarrow> nat" where
  "pad_length n = (if n mod 8 = 0 then 0 else 8 - n mod 8)"

definition plain_block :: "byte list \<Rightarrow> byte list" where
  "plain_block bs = le_bytes 2 (word_of_nat (length bs) :: u16) @ bs
     @ replicate (pad_length (length bs + 2)) 0x33"

definition cipher_block :: "round_keys \<Rightarrow> byte list \<Rightarrow> byte list" where
  "cipher_block k bs = encrypt (length (plain_block bs)) k (plain_block bs)"

definition frame :: "round_keys \<Rightarrow> byte list \<Rightarrow> byte list" where
  "frame k bs = le_bytes 2 (word_of_nat (length (plain_block bs) + 4) :: u16)
     @ le_bytes 4 (adlerChecksum (cipher_block k bs)) @ cipher_block k bs"

text \<open>The room a payload needs so that its padding is not refused.\<close>

definition payload_fits :: "byte list \<Rightarrow> bool" where
  "payload_fits bs \<longleftrightarrow> length bs + 15 < MAX_BODY_LENGTH"

lemma pad_length_less: "pad_length n < 8"
  by (simp add: pad_length_def)

lemma pad_length_dvd: "8 dvd n + pad_length n"
  by (simp add: pad_length_def) presburger

lemma length_plain_block: "length (plain_block bs) = length bs + 2 + pad_length (length bs + 2)"
  by (simp add: plain_block_def)

lemma plain_block_dvd: "8 dvd length (plain_block bs)"
  using pad_length_dvd [of "length bs + 2"] by (simp add: length_plain_block)

lemma length_cipher_block [simp]: "length (cipher_block k bs) = length (plain_block bs)"
  by (simp add: cipher_block_def)

lemma plain_block_small: "payload_fits bs \<Longrightarrow> length (plain_block bs) + 5 \<le> 24574"
  using pad_length_less [of "length bs + 2"]
  by (simp add: payload_fits_def net_consts length_plain_block)

text \<open>A message whose body, from offset 8 on, is \<open>bs\<close>, and nothing before it.\<close>

definition holds_payload :: "byte list \<Rightarrow> output_message \<Rightarrow> bool" where
  "holds_payload bs m \<longleftrightarrow> wf_message m \<and> outputBufferStart m = 8
     \<and> msg_position m = 8 + word_of_nat (length bs) \<and> msg_length m = word_of_nat (length bs)
     \<and> slice 8 (length bs) (msg_buffer m) = bs"

lemma u16_of_nat: "n < 65536 \<Longrightarrow> unat (word_of_nat n :: u16) = n"
  by (simp add: unat_of_nat take_bit_nat_eq_self_iff)

lemma drop_slice: "slice p n buf = xs \<Longrightarrow> drop p buf = xs @ drop (p + n) buf"
  by (metis append_take_drop_id add.commute drop_drop slice_def)

lemma slice_blit_append:
  assumes "p + length xs + length ys \<le> length buf" "slice p (length xs) buf = xs"
  shows "slice p (length xs + length ys) (blit (p + length xs) ys buf) = xs @ ys"
proof -
  have "slice p (length xs) (blit (p + length xs) ys buf) = xs"
    using assms by (simp add: slice_blit_before)
  with assms(1) show ?thesis by (simp add: slice_append)
qed

lemma slice_replace:
  assumes "p + length xs \<le> length buf" "length xs = n"
  shows "slice p n (take p buf @ xs @ rest) = xs"
  using assms by (simp add: slice_def)

text \<open>A length prefix is in front of the payload; encryption pads and rewrites both in place.\<close>

lemma XTEA_encrypt_payload:
  assumes "wf_message m" "payload_fits bs" "outputBufferStart m = 6"
    and "msg_position m = 8 + word_of_nat (length bs)" "msg_length m = word_of_nat (length bs + 2)"
    and "slice 6 (length bs + 2) (msg_buffer m) = le_bytes 2 (word_of_nat (length bs) :: u16) @ bs"
  obtains b where
    "XTEA_encrypt k m = m\<lparr>msg_buffer := b, msg_length := word_of_nat (length (plain_block bs))\<rparr>"
    "length b = NETWORKMESSAGE_MAXSIZE" "slice 6 (length (plain_block bs)) b = cipher_block k bs"
proof -
  let ?hb = "le_bytes 2 (word_of_nat (length bs) :: u16) @ bs" and ?n = "length bs + 2"
  let ?pad = "replicate (pad_length ?n) (0x33 :: byte)" and ?pl = "length (plain_block bs)"
  define b2 where "b2 = blit (8 + length bs) ?pad (msg_buffer m)"
  have fit: "length bs + 15 < 24576" using assms(2) by (simp add: payload_fits_def net_consts)
  have len: "unat (msg_length m) = ?n"
    unfolding assms(5) using fit by (intro u16_of_nat) simp
  have pos: "unat (msg_position m) = 8 + length bs"
    using assms(4) fit unat_add_of_nat [of "8 :: u16" "length bs"] by simp
  have lb: "length (msg_buffer m) = 24590" using assms(1) by (simp add: wf_message_def net_consts)
  have small: "?pl < 24570" using fit pad_length_less [of ?n] by (simp add: length_plain_block)
  have padded: "(if ?n mod 8 \<noteq> 0 then addPaddingBytes (8 - ?n mod 8) m else m) =
      m\<lparr>msg_buffer := b2, msg_length := word_of_nat ?pl\<rparr>"
    using fit pos assms(5) pad_length_less [of ?n]
    by (auto simp: addPaddingBytes_def can_add_def net_consts b2_def length_plain_block pad_length_def
        add.assoc of_nat_diff)
  have l2: "length b2 = 24590" using lb fit pad_length_less [of ?n] by (simp add: b2_def)
  have "slice 6 (length ?hb + length ?pad) b2 = ?hb @ ?pad"
    using slice_blit_append [of 6 ?hb ?pad "msg_buffer m"] assms(6) lb fit pad_length_less [of ?n]
    by (simp add: b2_def add.commute)
  then have plain: "drop 6 b2 = plain_block bs @ drop (6 + ?pl) b2"
    by (intro drop_slice) (simp add: plain_block_def add.commute add.left_commute)
  have "unat (word_of_nat ?pl :: u16) = ?pl" using small by (simp add: u16_of_nat)
  then have "XTEA_encrypt k m = m\<lparr>msg_buffer := take 6 b2 @ encrypt ?pl k (drop 6 b2),
      msg_length := word_of_nat ?pl\<rparr>"
    unfolding XTEA_encrypt_def Let_def len padded using assms(3) by simp
  then have "XTEA_encrypt k m = m\<lparr>msg_buffer := take 6 b2 @ cipher_block k bs @ drop (6 + ?pl) b2,
      msg_length := word_of_nat ?pl\<rparr>"
    unfolding plain encrypt_append [OF plain_block_dvd refl] cipher_block_def .
  moreover have "length (take 6 b2 @ cipher_block k bs @ drop (6 + ?pl) b2) = NETWORKMESSAGE_MAXSIZE"
    using l2 small by (simp add: net_consts)
  moreover have "slice 6 ?pl (take 6 b2 @ cipher_block k bs @ drop (6 + ?pl) b2) = cipher_block k bs"
    using l2 small by (intro slice_replace) simp_all
  ultimately show ?thesis by (rule that)
qed

lemma add_header_at:
  assumes "outputBufferStart m = word_of_nat s" "n \<le> s" "s < 65536" "msg_length m = word_of_nat l"
  shows "add_header n v m = Some (m\<lparr>outputBufferStart := word_of_nat (s - n),
      msg_buffer := blit (s - n) (le_bytes n v) (msg_buffer m), msg_length := word_of_nat (l + n)\<rparr>)"
proof -
  have 1: "unat (word_of_nat s :: u16) = s" and 2: "unat (word_of_nat (s - n) :: u16) = s - n"
    using assms(2,3) u16_of_nat [of s] u16_of_nat [of "s - n"] by (simp_all del: of_nat_diff)
  have 3: "(word_of_nat s :: u16) - word_of_nat n = word_of_nat (s - n)"
    using assms(2) by simp
  have "\<not> s < n" using assms(2) by simp
  then show ?thesis
    unfolding add_header_def Let_def assms(1,4) 1 3 2 of_nat_add by simp
qed

lemma onSendMessage_frame:
  assumes "holds_payload bs m" "payload_fits bs"
    and "\<not> rawMessages p" "encryptionEnabled p" "checksumEnabled p"
  shows "\<exists>m'. onSendMessage p m = Some m' \<and> sent_bytes m' = frame (proto_key p) bs"
proof -
  let ?pl = "length (plain_block bs)" and ?c = "cipher_block (proto_key p) bs"
  let ?h = "le_bytes 2 (word_of_nat (length bs) :: u16)"
  define m1 where "m1 = m\<lparr>outputBufferStart := 6, msg_buffer := blit 6 ?h (msg_buffer m),
      msg_length := word_of_nat (length bs + 2)\<rparr>"
  have fit: "length bs + 15 < 24576" using assms(2) by (simp add: payload_fits_def net_consts)
  have hp: "length (msg_buffer m) = 24590" "slice 8 (length bs) (msg_buffer m) = bs"
      "outputBufferStart m = 8" "msg_position m = 8 + word_of_nat (length bs)"
      "msg_length m = word_of_nat (length bs)"
    using assms(1) by (auto simp: holds_payload_def wf_message_def net_consts)
  have step1: "writeMessageLength m = Some m1"
    using hp by (simp add: writeMessageLength_def add_header_def m1_def)
  have head: "slice 6 (length bs + 2) (msg_buffer m1) = ?h @ bs"
    using hp fit slice_blit_same [of 6 ?h "msg_buffer m"]
      slice_blit_after [of 6 ?h "msg_buffer m" 8 "length bs"]
      slice_append [of 6 2 "length bs" "blit 6 ?h (msg_buffer m)"]
    by (simp add: m1_def add.commute)
  obtain b where enc: "XTEA_encrypt (proto_key p) m1 =
      m1\<lparr>msg_buffer := b, msg_length := word_of_nat ?pl\<rparr>"
    and b: "length b = 24590" "slice 6 ?pl b = ?c"
  proof (rule XTEA_encrypt_payload [of m1 bs "proto_key p"])
    show "wf_message m1" using hp by (simp add: m1_def wf_message_def net_consts)
  qed (use assms(2) hp head in \<open>auto simp: m1_def net_consts\<close>)
  have small: "?pl + 5 \<le> 24574" using assms(2) by (rule plain_block_small)
  define b4 where "b4 = blit 2 (le_bytes 4 (adlerChecksum ?c)) b"
  define b5 where "b5 = blit 0 (le_bytes 2 (word_of_nat (?pl + 4) :: u16)) b4"
  have "onSendMessage p m = Some (m1\<lparr>outputBufferStart := 0, msg_buffer := b5,
      msg_length := word_of_nat (?pl + 6)\<rparr>)"
  proof -
    define m2 where "m2 = m1\<lparr>msg_buffer := b, msg_length := word_of_nat ?pl\<rparr>"
    define m3 where "m3 = m2\<lparr>outputBufferStart := 2, msg_buffer := b4, msg_length := word_of_nat (?pl + 4)\<rparr>"
    have "unat (msg_length m2) = ?pl" "unat (outputBufferStart m2) = 6"
      using small by (simp_all add: m2_def m1_def u16_of_nat)
    then have c: "slice (unat (outputBufferStart m2)) (unat (msg_length m2)) (msg_buffer m2) = ?c"
      using b(2) by (simp add: m2_def)
    have "add_header 4 (adlerChecksum ?c) m2 = Some m3"
      using add_header_at [of m2 6 4 ?pl "adlerChecksum ?c"]
      by (simp add: m2_def m1_def m3_def b4_def)
    moreover have "writeMessageLength m3 = Some (m3\<lparr>outputBufferStart := 0, msg_buffer := b5,
        msg_length := word_of_nat (?pl + 6)\<rparr>)"
      using add_header_at [of m3 2 2 "?pl + 4" "msg_length m3"]
      by (simp add: writeMessageLength_def m3_def b5_def)
    ultimately have "addCryptoHeader True m2 = Some (m3\<lparr>outputBufferStart := 0, msg_buffer := b5,
        msg_length := word_of_nat (?pl + 6)\<rparr>)"
      by (simp only: addCryptoHeader_def c if_True bind.bind_lunit)
    then show ?thesis
      using assms(3-5) step1 enc by (simp add: onSendMessage_def m3_def m2_def)
  qed
  moreover have "slice 0 (?pl + 6) b5 = frame (proto_key p) bs"
  proof -
    have l4: "length b4 = 24590" using b by (simp add: b4_def)
    have "slice 0 2 b5 = le_bytes 2 (word_of_nat (?pl + 4) :: u16)"
      using slice_blit_same [of 0 "le_bytes 2 (word_of_nat (?pl + 4) :: u16)" b4] l4 by (simp add: b5_def)
    moreover have "slice 2 4 b5 = le_bytes 4 (adlerChecksum ?c)"
      using slice_blit_same [of 2 "le_bytes 4 (adlerChecksum ?c)" b] b l4
      by (simp add: b5_def b4_def slice_blit_after)
    moreover have "slice 6 ?pl b5 = ?c"
      using b l4 by (simp add: b5_def b4_def slice_blit_after)
    ultimately show ?thesis
      using slice_append [of 0 2 "4 + ?pl" b5] slice_append [of 2 4 ?pl b5]
      by (simp add: frame_def add.commute [of 6] flip: numeral_2_eq_2)
  qed
  moreover have "unat (word_of_nat (?pl + 6) :: u16) = ?pl + 6"
    using small by (intro u16_of_nat) simp
  ultimately show ?thesis by (auto simp: sent_bytes_def simp del: of_nat_add)
qed

section \<open>The frame on arrival\<close>

lemma and_7_mod_8: "(n :: int) AND 7 = n mod 8"
  using take_bit_eq_mask [of 3 n] by (simp add: take_bit_eq_mod mask_eq_exp_minus_1)

lemma length_frame: "length (frame k bs) = length (plain_block bs) + 6"
  by (simp add: frame_def)

lemma frame_parts:
  assumes "slice 0 (length (frame k bs)) buf = frame k bs"
  shows "slice 0 2 buf = le_bytes 2 (word_of_nat (length (plain_block bs) + 4) :: u16)
    \<and> slice 2 4 buf = le_bytes 4 (adlerChecksum (cipher_block k bs))
    \<and> slice 6 (length (plain_block bs)) buf = cipher_block k bs"
proof -
  let ?h = "le_bytes 2 (word_of_nat (length (plain_block bs) + 4) :: u16)"
  let ?s = "le_bytes 4 (adlerChecksum (cipher_block k bs))"
  have "slice 0 (length ?h + length (?s @ cipher_block k bs)) buf = ?h @ (?s @ cipher_block k bs)"
    using assms by (simp add: frame_def)
  from slice_split [OF this]
  have 1: "slice 0 2 buf = ?h" and "slice 2 (length ?s + length (cipher_block k bs)) buf = ?s @ cipher_block k bs"
    by (simp_all flip: numeral_2_eq_2)
  from slice_split [OF this(2)] show ?thesis using 1 by simp
qed

lemma XTEA_decrypt_payload:
  assumes "wf_message m" "payload_fits bs" "msg_position m = 6"
    and "msg_length m = word_of_nat (length (plain_block bs) + 6)"
    and "slice 6 (length (plain_block bs)) (msg_buffer m) = cipher_block k bs"
  obtains m' where "XTEA_decrypt k m = (True, m')" "wf_message m'" "msg_position m' = 8"
    "msg_length m' = word_of_nat (length bs)" "slice 8 (length bs) (msg_buffer m') = bs"
    "msg_overrun m' = msg_overrun m"
proof -
  let ?pl = "length (plain_block bs)" and ?n = "length bs"
  let ?h = "le_bytes 2 (word_of_nat ?n :: u16)" and ?pad = "replicate (pad_length (?n + 2)) (0x33 :: byte)"
  have small: "?pl + 5 \<le> 24574" using assms(2) by (rule plain_block_small)
  have len: "unat (msg_length m) = ?pl + 6"
    unfolding assms(4) using small by (intro u16_of_nat) simp
  then have ulen: "uint (msg_length m) = int ?pl + 6" by (simp add: uint_nat del: of_nat_unat)
  have n: "unat (word_of_nat ?n :: u16) = ?n"
    using small by (intro u16_of_nat) (simp add: length_plain_block)
  have lb: "length (msg_buffer m) = 24590" using assms(1) by (simp add: wf_message_def net_consts)
  define b where "b = take 6 (msg_buffer m) @ plain_block bs @ drop (6 + ?pl) (msg_buffer m)"
  have "drop 6 (msg_buffer m) = cipher_block k bs @ drop (6 + ?pl) (msg_buffer m)"
    using assms(5) by (rule drop_slice)
  then have dec: "decrypt ?pl k (drop 6 (msg_buffer m)) = plain_block bs @ drop (6 + ?pl) (msg_buffer m)"
    using decrypt_append [OF plain_block_dvd, of "cipher_block k bs" bs]
    by (simp add: cipher_block_def decrypt_encrypt_buffer)
  have "slice 6 ?pl b = plain_block bs"
    using lb small unfolding b_def by (intro slice_replace) simp_all
  then have "slice 6 (length ?h + length (bs @ ?pad)) b = ?h @ (bs @ ?pad)"
    by (simp add: plain_block_def)
  from slice_split [OF this] have hb: "slice 6 2 b = ?h"
    and "slice 8 (length bs + length ?pad) b = bs @ ?pad" by simp_all
  from slice_split [OF this(2)] have body: "slice 8 (length bs) b = bs" by simp
  have "length b = 24590" using lb small by (simp add: b_def)
  moreover have "setLength (word_of_nat ?n) (advance 2 (m\<lparr>msg_buffer := b\<rparr>)) =
      m\<lparr>msg_buffer := b, msg_position := 8, msg_length := word_of_nat ?n\<rparr>"
    using assms(3) by (simp add: setLength_def advance_def)
  moreover have "XTEA_decrypt k m = (True, setLength (word_of_nat ?n) (advance 2 (m\<lparr>msg_buffer := b\<rparr>)))"
  proof -
    have "8 dvd int ?pl" using plain_block_dvd [of bs] by presburger
    then have low: "(uint (msg_length m) - 6) AND 7 = 0"
      by (simp add: and_7_mod_8 ulen mod_eq_0_iff_dvd)
    have get: "get_word 2 (m\<lparr>msg_buffer := b\<rparr>) = (word_of_nat ?n :: u16, advance 2 (m\<lparr>msg_buffer := b\<rparr>))"
      using hb len assms(3) small by (intro get_word_image) (simp_all add: available_def net_consts)
    have e: "nat (uint (msg_length m) - 6) = ?pl" and p6: "unat (msg_position m) = 6"
      using ulen assms(3) by simp_all
    have "uint (word_of_nat ?n :: u16) = int ?n" using n by (simp add: uint_nat del: of_nat_unat)
    then have bound: "\<not> uint (msg_length m) < uint (word_of_nat ?n :: u16) + 8"
      by (simp add: ulen length_plain_block)
    then have "\<not> uint (msg_length (advance 2 (m\<lparr>msg_buffer := b\<rparr>))) < uint (word_of_nat ?n :: u16) + 8"
      by (simp add: advance_def)
    with low get show ?thesis unfolding XTEA_decrypt_def Let_def e p6 dec b_def [symmetric] by simp
  qed
  ultimately show ?thesis
    using body
    by (intro that [of "m\<lparr>msg_buffer := b, msg_position := 8, msg_length := word_of_nat ?n\<rparr>"])
       (simp_all add: wf_message_def net_consts)
qed

lemma check_checksum_frame:
  assumes "wf_message m" "payload_fits bs" "msg_position m = 2"
    and "msg_length m = word_of_nat (length (frame k bs))"
    and "slice 0 (length (frame k bs)) (msg_buffer m) = frame k bs"
  shows "check_checksum m = (True, m\<lparr>msg_position := 6\<rparr>)"
proof -
  let ?pl = "length (plain_block bs)"
  have small: "?pl + 5 \<le> 24574" using assms(2) by (rule plain_block_small)
  have len: "unat (msg_length m) = ?pl + 6"
    unfolding assms(4) length_frame using small by (intro u16_of_nat) simp
  then have ulen: "uint (msg_length m) = int ?pl + 6" by (simp add: uint_nat del: of_nat_unat)
  have "0 < ?pl" by (simp add: length_plain_block)
  moreover have "get_word 4 m = (adlerChecksum (cipher_block k bs), advance 4 m)"
    using frame_parts [OF assms(5)] len assms(3) small
    by (intro get_word_image) (simp_all add: available_def net_consts)
  ultimately show ?thesis
    using frame_parts [OF assms(5)] assms(3)
    by (simp add: check_checksum_def Let_def ulen net_consts advance_def)
qed

text \<open>
  The checksum step accepts a frame, and \<open>onRecvMessage\<close> with the same round keys opens it.
\<close>

lemma frame_delivered:
  assumes "payload_fits bs" "sent = frame k bs"
    and "wf_message m" "msg_position m = 2" "msg_length m = word_of_nat (length sent)"
    and "slice 0 (length sent) (msg_buffer m) = sent"
    and "encryptionEnabled q" "proto_key q = k"
  shows "\<exists>m1 m2. check_checksum m = (True, m1) \<and> onRecvMessage q m1 = Some m2
    \<and> msg_position m2 = 8 \<and> unat (msg_length m2) = length bs
    \<and> slice 8 (length bs) (msg_buffer m2) = bs \<and> msg_overrun m2 = msg_overrun m"
proof -
  have chk: "check_checksum m = (True, m\<lparr>msg_position := 6\<rparr>)"
    using assms(1,3,4) assms(5,6) [unfolded assms(2)] by (intro check_checksum_frame)
  obtain m' where m': "XTEA_decrypt k (m\<lparr>msg_position := 6\<rparr>) = (True, m')"
    "wf_message m'" "msg_position m' = 8" "msg_length m' = word_of_nat (length bs)"
    "slice 8 (length bs) (msg_buffer m') = bs" "msg_overrun m' = msg_overrun (m\<lparr>msg_position := 6\<rparr>)"
  proof (rule XTEA_decrypt_payload [of "m\<lparr>msg_position := 6\<rparr>" bs k])
    show "slice 6 (length (plain_block bs)) (msg_buffer (m\<lparr>msg_position := 6\<rparr>)) = cipher_block k bs"
      using frame_parts [of k bs "msg_buffer m"] assms(6) assms(2) by simp
  qed (use assms(1,3,5) assms(2) in \<open>auto simp: wf_message_def length_frame\<close>)
  have "unat (msg_length m') = length bs"
    using m'(4) plain_block_small [OF assms(1)] by (simp add: u16_of_nat length_plain_block)
  with chk m' assms(7,8) show ?thesis by (simp add: onRecvMessage_def)
qed

lemma holds_payload_append:
  assumes "length buf = NETWORKMESSAGE_MAXSIZE" "payload_fits bs"
  shows "holds_payload bs (append_bytes bs (new_output buf))"
  using assms
  by (simp add: holds_payload_def append_bytes_def new_output_def wf_message_def payload_fits_def net_consts)

text \<open>
  C9: of all payload lengths the writers can produce, 24567 is the only one for which the padding
  is refused; every other message is encrypted at a length that is a multiple of the block size.
  That one message leaves with a length the receiver's \<open>& 7\<close> test drops.
\<close>

theorem padding_refused_iff:
  assumes "msg_position m = 8 + word_of_nat n" "msg_length m = word_of_nat (n + 2)"
    and "n + 8 < MAX_BODY_LENGTH"
  shows "8 dvd unat (msg_length (XTEA_encrypt k m)) \<longleftrightarrow> n \<noteq> 24567"
proof -
  let ?r = "(n + 2) mod 8"
  have small: "n < 24568" using assms(3) by (simp add: net_consts)
  have len: "unat (msg_length m) = n + 2" unfolding assms(2) using small by (intro u16_of_nat) simp
  have pos: "unat (msg_position m) = n + 8"
    using assms(1) small unat_add_of_nat [of "8 :: u16" n] by simp
  have fits: "can_add (8 - ?r) m \<longleftrightarrow> n \<noteq> 24567" if "?r \<noteq> 0"
    using that small pos by (simp add: can_add_def net_consts) presburger
  have grow: "unat (word_of_nat (n + 2 + (8 - ?r)) :: u16) = n + 2 + (8 - ?r)"
    using small by (intro u16_of_nat) simp
  show ?thesis
  proof (cases "?r = 0")
    case True
    then have "msg_length (XTEA_encrypt k m) = msg_length m" by (simp add: XTEA_encrypt_def Let_def len)
    moreover have "n \<noteq> 24567" using True by auto
    ultimately show ?thesis using True len by (simp add: dvd_eq_mod_eq_0)
  next
    case False
    have "msg_length (XTEA_encrypt k m) =
        (if can_add (8 - ?r) m then word_of_nat (n + 2 + (8 - ?r)) else word_of_nat (n + 2))"
      using False assms(2) unfolding XTEA_encrypt_def Let_def len addPaddingBytes_def by simp
    then have "unat (msg_length (XTEA_encrypt k m)) = (if n = 24567 then n + 2 else n + 2 + (8 - ?r))"
      unfolding fits [OF False] using len [unfolded assms(2)] grow by (simp only: split: if_split) metis
    moreover have "8 dvd n + 2 + (8 - ?r)" using False by presburger
    ultimately show ?thesis by (cases "n = 24567") (simp_all only: if_True if_False, simp_all)
  qed
qed

theorem padding_refused_iff_witness:
  "\<not> 8 dvd unat (msg_length (XTEA_encrypt [1, 2] ((new_output (replicate 24590 0))
     \<lparr>msg_position := 24575, msg_length := 24569, outputBufferStart := 6\<rparr>)))"
  using padding_refused_iff [of "(new_output (replicate 24590 0))
     \<lparr>msg_position := 24575, msg_length := 24569, outputBufferStart := 6\<rparr>" 24567 "[1, 2]"]
  by (simp add: net_consts)

end
