(* ===== verification/Ban.thy ===== *)
theory Ban
  imports Prelude
begin

text \<open>
  \<open>Ban::acceptConnection\<close> of \<open>src/src/ban.cpp\<close>: the connection limiter, one block per address.
  Times are the milliseconds of \<open>OTSYS_TIME\<close> as 64-bit words; \<open>timeDiff\<close> is signed.
\<close>

record connect_block =
  lastAttempt :: u64
  blockTime :: u64
  attempt_count :: u32

type_synonym ip_connect_map = "u32 \<rightharpoonup> connect_block"

definition acceptConnection :: "u64 \<Rightarrow> u32 \<Rightarrow> ip_connect_map \<Rightarrow> bool \<times> ip_connect_map" where
  "acceptConnection currentTime clientIP m =
     (case m clientIP of
        None \<Rightarrow> (True, m(clientIP \<mapsto> \<lparr>lastAttempt = currentTime, blockTime = 0, attempt_count = 1\<rparr>))
      | Some b \<Rightarrow>
          if blockTime b > currentTime
          then (False, m(clientIP \<mapsto> b\<lparr>blockTime := blockTime b + 250\<rparr>))
          else
            let timeDiff = sint (currentTime - lastAttempt b);
                b = b\<lparr>lastAttempt := currentTime\<rparr>
            in if timeDiff \<le> 5000
               then let b = b\<lparr>attempt_count := attempt_count b + 1\<rparr>
                    in if attempt_count b > 5
                       then let b = b\<lparr>attempt_count := 0\<rparr>
                            in if timeDiff \<le> 500
                               then (False, m(clientIP \<mapsto> b\<lparr>blockTime := currentTime + 3000\<rparr>))
                               else (True, m(clientIP \<mapsto> b))
                       else (True, m(clientIP \<mapsto> b))
               else (True, m(clientIP \<mapsto> b\<lparr>attempt_count := 1\<rparr>)))"

text \<open>The answers to a list of attempts \<open>(time, address)\<close>, and the map after them.\<close>

fun attempts :: "(u64 \<times> u32) list \<Rightarrow> ip_connect_map \<Rightarrow> bool list \<times> ip_connect_map" where
  "attempts [] m = ([], m)"
| "attempts ((t, ip) # as) m =
     (let (ok, m) = acceptConnection t ip m; (oks, m) = attempts as m in (ok # oks, m))"

lemma acceptConnection_other:
  "ip' \<noteq> ip \<Longrightarrow> snd (acceptConnection t ip m) ip' = m ip'"
  by (auto simp: acceptConnection_def Let_def split: option.split)

lemma acceptConnection_cong:
  "m ip = m' ip \<Longrightarrow> fst (acceptConnection t ip m) = fst (acceptConnection t ip m')
     \<and> snd (acceptConnection t ip m) ip = snd (acceptConnection t ip m') ip"
  by (auto simp: acceptConnection_def Let_def split: option.split)

lemma attempts_other:
  "\<forall>a \<in> set as. snd a \<noteq> ip \<Longrightarrow> snd (attempts as m) ip = m ip"
  by (induction as m rule: attempts.induct)
     (auto simp: acceptConnection_other split: prod.splits, metis acceptConnection_other snd_conv)

text \<open>The answers given to one address among all the attempts.\<close>

definition answers :: "u32 \<Rightarrow> (u64 \<times> u32) list \<Rightarrow> ip_connect_map \<Rightarrow> bool list" where
  "answers ip as m = map fst (filter (\<lambda>p. snd (snd p) = ip) (zip (fst (attempts as m)) as))"

text \<open>
  An address cannot disturb another one: the answers an address gets among any interleaved
  attempts are those it gets when only its own attempts are made.
\<close>

theorem attempts_independent:
  "answers ip as m = fst (attempts (filter (\<lambda>a. snd a = ip) as) m)
    \<and> snd (attempts as m) ip = snd (attempts (filter (\<lambda>a. snd a = ip) as) m) ip"
proof -
  have "answers ip as m = fst (attempts (filter (\<lambda>a. snd a = ip) as) m')
      \<and> snd (attempts as m) ip = snd (attempts (filter (\<lambda>a. snd a = ip) as) m') ip"
    if "m ip = m' ip" for m'
    using that
  proof (induction as m arbitrary: m' rule: attempts.induct)
    case (1 m)
    then show ?case by (simp add: answers_def)
  next
    case (2 t jp as m)
    obtain ok m1 where a: "acceptConnection t jp m = (ok, m1)" by (metis surj_pair)
    obtain ok' m1' where a': "acceptConnection t jp m' = (ok', m1')" by (metis surj_pair)
    show ?case
    proof (cases "jp = ip")
      case True
      then have "ok = ok'" "m1 ip = m1' ip"
        using acceptConnection_cong [of m ip m' t] 2(2) a a' by auto
      with "2.IH" [of "(ok, m1)" ok m1 m1'] a a' True show ?thesis
        by (simp add: answers_def split_def Let_def)
    next
      case False
      then have "m1 ip = m' ip"
        using acceptConnection_other [of ip jp t m] 2(2) a by auto
      with "2.IH" [of "(ok, m1)" ok m1 m'] a False show ?thesis
        by (simp add: answers_def split_def Let_def)
    qed
  qed
  then show ?thesis by blast
qed

text \<open>Attempts inside the block are refused, and each pushes its end back by 250 ms.\<close>

lemma blocked_attempts:
  assumes "m ip = Some b" "\<forall>t \<in> set ts. t < blockTime b"
    and "unat (blockTime b) + 250 * length ts < 2 ^ 64"
  shows "fst (attempts (map (\<lambda>t. (t, ip)) ts) m) = replicate (length ts) False
    \<and> snd (attempts (map (\<lambda>t. (t, ip)) ts) m) ip =
      Some (b\<lparr>blockTime := blockTime b + 250 * word_of_nat (length ts)\<rparr>)"
  using assms
proof (induction ts arbitrary: m b)
  case Nil
  then show ?case by simp
next
  case (Cons t ts)
  let ?b = "b\<lparr>blockTime := blockTime b + 250\<rparr>"
  have grow: "unat (blockTime b + 250) = unat (blockTime b) + 250"
    using Cons.prems(3) unat_add_of_nat [of "blockTime b" 250] by simp
  then have "blockTime b < blockTime b + 250" by (simp add: word_less_nat_alt)
  then have later: "\<forall>t \<in> set ts. t < blockTime ?b"
    using Cons.prems(2) by (auto intro: less_trans)
  have "acceptConnection t ip m = (False, m(ip \<mapsto> ?b))"
    using Cons.prems(1,2) by (simp add: acceptConnection_def)
  moreover have "fst (attempts (map (\<lambda>t. (t, ip)) ts) (m(ip \<mapsto> ?b))) = replicate (length ts) False
    \<and> snd (attempts (map (\<lambda>t. (t, ip)) ts) (m(ip \<mapsto> ?b))) ip =
      Some (?b\<lparr>blockTime := blockTime ?b + 250 * word_of_nat (length ts)\<rparr>)"
    by (rule Cons.IH) (use later grow Cons.prems(3) in auto)
  ultimately show ?case by (simp add: split_def Let_def algebra_simps)
qed

text \<open>
  Six attempts of an unknown address, each at most 500 ms after the one before, are answered
  with five acceptances and a refusal that blocks the address for three seconds; every further
  attempt inside the block is refused and makes it 250 ms longer.
\<close>

theorem burst_blocked:
  assumes "m ip = None"
    and gaps: "t2 = t1 + d1" "t3 = t2 + d2" "t4 = t3 + d3" "t5 = t4 + d4" "t6 = t5 + d5"
    and "\<forall>d \<in> {d1, d2, d3, d4, d5}. d \<le> 500"
    and "\<forall>t \<in> set ts. t < t6 + 3000" and "unat t6 + 3000 + 250 * length ts < 2 ^ 64"
  shows "fst (attempts (map (\<lambda>t. (t, ip)) ([t1, t2, t3, t4, t5, t6] @ ts)) m) =
      [True, True, True, True, True, False] @ replicate (length ts) False
    \<and> map_option blockTime (snd (attempts (map (\<lambda>t. (t, ip)) ([t1, t2, t3, t4, t5, t6] @ ts)) m) ip) =
      Some (t6 + 3000 + 250 * word_of_nat (length ts))"
proof -
  let ?blk = "\<lambda>t n. \<lparr>lastAttempt = t, blockTime = 0, attempt_count = n\<rparr>"
  let ?b6 = "\<lparr>lastAttempt = t6, blockTime = t6 + 3000, attempt_count = 0\<rparr>"
  have small: "sint (t + d - t) \<le> 500 \<and> sint (t + d - t) \<le> 5000" if "d \<le> 500" for t d :: u64
  proof -
    have "uint d \<le> 500" using that by (simp add: word_le_def)
    moreover from this have "sint d = uint d"
      using signed_take_bit_int_eq_self [of 63 "uint d"] uint_ge_0 [of d]
      by (simp add: sint_uint)
    ultimately show ?thesis by simp
  qed
  have step: "acceptConnection (t + d) ip (m'(ip \<mapsto> ?blk t n)) = (True, m'(ip \<mapsto> ?blk (t + d) (n + 1)))"
    if "d \<le> 500" "n + 1 \<le> 5" for t d n m'
    using small [OF that(1), of t] that(2) by (simp add: acceptConnection_def Let_def not_less)
  have last: "acceptConnection t6 ip (m'(ip \<mapsto> ?blk t5 5)) = (False, m'(ip \<mapsto> ?b6))" for m'
    using small [of d5 t5] assms(7) gaps(5) by (simp add: acceptConnection_def Let_def)
  have first: "acceptConnection t1 ip m = (True, m(ip \<mapsto> ?blk t1 1))"
    using assms(1) by (simp add: acceptConnection_def)
  have more: "unat (t6 + 3000) = unat t6 + 3000"
    using assms(9) unat_add_of_nat [of t6 3000] by simp
  have tail: "fst (attempts (map (\<lambda>t. (t, ip)) ts) (m(ip \<mapsto> ?b6))) = replicate (length ts) False
      \<and> snd (attempts (map (\<lambda>t. (t, ip)) ts) (m(ip \<mapsto> ?b6))) ip =
        Some (?b6\<lparr>blockTime := blockTime ?b6 + 250 * word_of_nat (length ts)\<rparr>)"
    by (rule blocked_attempts) (use assms(8,9) more in auto)
  have s2: "acceptConnection t2 ip (m(ip \<mapsto> ?blk t1 1)) = (True, m(ip \<mapsto> ?blk t2 2))"
    using step [of d1 1 t1 m] assms(7) gaps(1) by simp
  have s3: "acceptConnection t3 ip (m(ip \<mapsto> ?blk t2 2)) = (True, m(ip \<mapsto> ?blk t3 3))"
    using step [of d2 2 t2 m] assms(7) gaps(2) by simp
  have s4: "acceptConnection t4 ip (m(ip \<mapsto> ?blk t3 3)) = (True, m(ip \<mapsto> ?blk t4 4))"
    using step [of d3 3 t3 m] assms(7) gaps(3) by simp
  have s5: "acceptConnection t5 ip (m(ip \<mapsto> ?blk t4 4)) = (True, m(ip \<mapsto> ?blk t5 5))"
    using step [of d4 4 t4 m] assms(7) gaps(4) by simp
  show ?thesis using tail by (simp add: first s2 s3 s4 s5 last split_def Let_def)
qed

theorem burst_blocked_witness:
  "fst (attempts (map (\<lambda>t. (t, 7)) ([1000, 1100, 1200, 1300, 1400, 1500] @ [2000, 4400])) Map.empty) =
     [True, True, True, True, True, False, False, False]"
  using burst_blocked [of Map.empty 7 1100 1000 100 1200 100 1300 100 1400 100 1500 100 "[2000, 4400]",
      THEN conjunct1]
  by simp

end
