(* ===== verification/Connection.thy ===== *)
theory Connection
  imports Protocol Ban
begin

text \<open>
  \<open>src/src/connection.cpp\<close>: the handlers of one connection. The socket, its timers and the
  thread that runs the handlers are outside the model: a handler is a function from the state and
  the outcome of the operation that completed to the new state and to the operation it starts.
  The clock, the peer's address and the configured packet rate are arguments.
\<close>

section \<open>Reading\<close>

record connection =
  conn_msg :: network_message
  conn_protocol :: "protocol_state option"
  timeConnected :: int
  packetsSent :: u32
  realIP :: u32
  conn_closed :: bool
  receivedFirst :: bool
  receivedFirstHeader :: bool

text \<open>The read a handler starts: of the header, of a proxy's announcement, of a body.\<close>

datatype read_operation = ReadHeader | ReadProxy nat | ReadBody nat | NoRead

definition conn_close :: "connection \<Rightarrow> connection" where
  "conn_close c = c\<lparr>conn_closed := True\<rparr>"

definition conn_getIP :: "u32 \<Rightarrow> connection \<Rightarrow> u32" where
  "conn_getIP remote c = (if realIP c > 0 then realIP c else remote)"

definition header_size_ok :: "u16 \<Rightarrow> bool" where
  "header_size_ok n \<longleftrightarrow> \<not> (n = 0 \<or> int (NETWORKMESSAGE_MAXSIZE - 16) \<le> uint n)"

definition start_body :: "u16 \<Rightarrow> connection \<Rightarrow> connection \<times> read_operation" where
  "start_body n c =
     (if \<not> header_size_ok n then (conn_close c, NoRead)
      else (c\<lparr>conn_msg := snd (getBodyBuffer (setLength (n + word_of_nat HEADER_LENGTH) (conn_msg c)))\<rparr>,
            ReadBody (unat n)))"

text \<open>
  \<open>parseHeader\<close>. \<open>now\<close> is \<open>time(nullptr)\<close>, \<open>ms\<close> is \<open>OTSYS_TIME()\<close>, \<open>rate\<close> the
  configured maximum of packets per second and \<open>remote\<close> the socket's address.
\<close>

definition parseHeader ::
  "int \<Rightarrow> u64 \<Rightarrow> u32 \<Rightarrow> u32 \<Rightarrow> bool \<Rightarrow> connection \<times> ip_connect_map \<Rightarrow>
   (connection \<times> ip_connect_map) \<times> read_operation" where
  "parseHeader now ms rate remote err s =
     (let (c, bans) = s in
      if err then ((conn_close c, bans), NoRead)
      else if conn_closed c then ((c, bans), NoRead)
      else
        let timePassed = max 1 (word_of_int (now - timeConnected c + 1) :: u32);
            c = c\<lparr>packetsSent := packetsSent c + 1\<rparr>
        in if packetsSent c div timePassed > rate then ((conn_close c, bans), NoRead)
        else
          let c = (if timePassed > 2 then c\<lparr>timeConnected := now, packetsSent := 0\<rparr> else c);
              n = getLengthHeader (conn_msg c)
          in if \<not> receivedFirstHeader c
             then let c = c\<lparr>receivedFirstHeader := True\<rparr>
                  in if n = 0xFFFE then ((c, bans), ReadProxy 4)
                     else if n = 0x0A0D then ((c, bans), ReadProxy 26)
                     else let (ok, bans) = acceptConnection ms (conn_getIP remote c) bans
                          in if \<not> ok then ((conn_close c, bans), NoRead)
                             else let (c, r) = start_body n c in ((c, bans), r)
             else let (c, r) = start_body n c in ((c, bans), r))"

text \<open>The completion of the read a proxy's announcement starts; \<open>n\<close> is its length.\<close>

definition proxyRead ::
  "u64 \<Rightarrow> u32 \<Rightarrow> nat \<Rightarrow> bool \<Rightarrow> connection \<times> ip_connect_map \<Rightarrow>
   (connection \<times> ip_connect_map) \<times> read_operation" where
  "proxyRead ms remote n err s =
     (let (c, bans) = s in
      if err then ((conn_close c, bans), NoRead)
      else
        let c = c\<lparr>realIP := le_word (slice (if n = 4 then 0 else 14) 4 (msg_buffer (conn_msg c)))\<rparr>;
            (ok, bans) = acceptConnection ms (conn_getIP remote c) bans
        in if \<not> ok then ((conn_close c, bans), NoRead) else ((c, bans), ReadHeader))"

text \<open>
  \<open>parsePacket\<close>. What is delivered: the first message of a connection goes to
  \<open>onRecvFirstMessage\<close>, with the protocol \<open>make_protocol\<close> builds from the checksum flag and the
  message (in \<open>server.cpp\<close>) unless there is one, then only its identification byte is skipped; later
  messages go to \<open>onRecvMessage\<close>. The packet handlers of the protocols may do anything to the
  connection's own message, which the next header overwrites.
\<close>

datatype delivery = FirstMessage network_message | NextMessage network_message | Nothing

definition parsePacket ::
  "(bool \<Rightarrow> network_message \<Rightarrow> (protocol_state \<times> network_message) option) \<Rightarrow> bool \<Rightarrow> connection \<Rightarrow>
   connection \<times> delivery \<times> read_operation" where
  "parsePacket make_protocol err c =
     (if err then (conn_close c, Nothing, NoRead)
      else if conn_closed c then (c, Nothing, NoRead)
      else
        let (checksummed, msg) = check_checksum (conn_msg c) in
        if \<not> receivedFirst c
        then let c = c\<lparr>receivedFirst := True\<rparr> in
             case conn_protocol c of
               None \<Rightarrow>
                 (case make_protocol checksummed msg of
                    None \<Rightarrow> (conn_close (c\<lparr>conn_msg := msg\<rparr>), Nothing, NoRead)
                  | Some (p, msg) \<Rightarrow>
                      (c\<lparr>conn_protocol := Some p, conn_msg := msg\<rparr>, FirstMessage msg, ReadHeader))
             | Some p \<Rightarrow>
                 let msg = skipBytes 1 msg
                 in (c\<lparr>conn_msg := msg\<rparr>, FirstMessage msg, ReadHeader)
        else
          case conn_protocol c of
            None \<Rightarrow> (c\<lparr>conn_msg := msg\<rparr>, Nothing, ReadHeader)
          | Some p \<Rightarrow>
              (c\<lparr>conn_msg := msg\<rparr>,
               (case onRecvMessage p msg of None \<Rightarrow> Nothing | Some msg \<Rightarrow> NextMessage msg),
               ReadHeader))"

text \<open>The socket fills the part of the buffer the read asked for.\<close>

definition fill :: "nat \<Rightarrow> byte list \<Rightarrow> connection \<Rightarrow> connection" where
  "fill p bs c = c\<lparr>conn_msg := (conn_msg c)\<lparr>msg_buffer := blit p bs (msg_buffer (conn_msg c))\<rparr>\<rparr>"

text \<open>One packet of an established connection: its header arrives, then its body.\<close>

definition receive_packet ::
  "(bool \<Rightarrow> network_message \<Rightarrow> (protocol_state \<times> network_message) option) \<Rightarrow>
   int \<Rightarrow> u64 \<Rightarrow> u32 \<Rightarrow> u32 \<Rightarrow> byte list \<Rightarrow> connection \<times> ip_connect_map \<Rightarrow> connection \<times> delivery" where
  "receive_packet make_protocol now ms rate remote bytes s =
     (case parseHeader now ms rate remote False (fill 0 (take 2 bytes) (fst s), snd s) of
        ((c, bans), ReadBody n) \<Rightarrow>
          (case parsePacket make_protocol False (fill HEADER_LENGTH (take n (drop 2 bytes)) c) of
             (c, d, _) \<Rightarrow> (c, d))
      | ((c, bans), _) \<Rightarrow> (c, Nothing))"

text \<open>The packets per second stay below the limit: the test of \<open>parseHeader\<close> passes.\<close>

definition rate_ok :: "int \<Rightarrow> u32 \<Rightarrow> connection \<Rightarrow> bool" where
  "rate_ok now rate c \<longleftrightarrow>
     (packetsSent c + 1) div max 1 (word_of_int (now - timeConnected c + 1)) \<le> rate"

lemma getLengthHeader_image:
  assumes "slice 0 2 (msg_buffer m) = le_bytes 2 n" "2 \<le> length (msg_buffer m)"
  shows "getLengthHeader m = n"
proof -
  have "[msg_buffer m ! 0, msg_buffer m ! 1] = slice 0 2 (msg_buffer m)"
    using assms(2) by (cases "msg_buffer m"; cases "tl (msg_buffer m)") (auto simp: slice_def)
  then have "getLengthHeader m = le_word (slice 0 2 (msg_buffer m))"
    by (simp add: getLengthHeader_def flip: \<open>[msg_buffer m ! 0, msg_buffer m ! 1] = _\<close>)
  with assms(1) show ?thesis by simp
qed

text \<open>The first two bytes of a frame announce a body of acceptable size.\<close>

lemma header_size_frame:
  assumes "payload_fits bs"
  shows "header_size_ok (word_of_nat (length (plain_block bs) + 4))"
proof -
  have "unat (word_of_nat (length (plain_block bs) + 4) :: u16) = length (plain_block bs) + 4"
    using plain_block_small [OF assms] by (intro u16_of_nat) simp
  then show ?thesis
    using plain_block_small [OF assms]
    by (simp add: header_size_ok_def uint_nat net_consts del: of_nat_unat of_nat_add)
       (metis add_is_0 unat_0 zero_neq_numeral)
qed

lemma blit_header_body:
  assumes "2 \<le> length xs" "length xs \<le> length buf"
  shows "blit 2 (drop 2 xs) (blit 0 (take 2 xs) buf) = blit 0 xs buf"
proof -
  have "length (take 2 xs) = 2" using assms(1) by simp
  moreover have "blit (0 + length (take 2 xs)) (drop 2 xs) (blit 0 (take 2 xs) buf) =
      blit 0 (take 2 xs @ drop 2 xs) buf"
    by (rule blit_blit_adjacent) (use assms in simp)
  ultimately show ?thesis by (simp only: append_take_drop_id add_0)
qed

text \<open>
  C1: end to end. A payload sent through \<open>onSendMessage\<close> with encryption and checksum on, and
  received by an established connection whose protocol has the same round keys, below its packet
  rate, passes the header test, the checksum and the decryption, and what the protocol's parser is
  given is a message whose readable part is exactly the payload.
\<close>

theorem packet_delivery:
  assumes "holds_payload bs out" "payload_fits bs"
    and "\<not> rawMessages p" "encryptionEnabled p" "checksumEnabled p"
    and "onSendMessage p out = Some out'"
    and "wf_message (conn_msg c)" "\<not> conn_closed c" "receivedFirst c" "receivedFirstHeader c"
    and "rate_ok now rate c"
    and "conn_protocol c = Some q" "encryptionEnabled q" "proto_key q = proto_key p"
  shows "\<exists>m c'. receive_packet mk now ms rate remote (sent_bytes out') (c, bans) = (c', NextMessage m)
    \<and> \<not> conn_closed c' \<and> msg_position m = 8 \<and> unat (msg_length m) = length bs
    \<and> slice 8 (length bs) (msg_buffer m) = bs"
proof -
  let ?sent = "frame (proto_key p) bs" and ?pl = "length (plain_block bs)"
  let ?n = "word_of_nat (?pl + 4) :: u16"
  have sent: "sent_bytes out' = ?sent" using onSendMessage_frame [OF assms(1-5)] assms(6) by auto
  have small: "?pl + 5 \<le> 24574" using assms(2) by (rule plain_block_small)
  have n: "unat ?n = ?pl + 4" using small by (intro u16_of_nat) simp
  have lf: "length ?sent = ?pl + 6" by (rule length_frame)
  have lb: "length (msg_buffer (conn_msg c)) = 24590" using assms(7) by (simp add: wf_message_def net_consts)
  define b where "b = blit 0 ?sent (msg_buffer (conn_msg c))"
  have "take 2 ?sent = le_bytes 2 ?n" by (simp add: frame_def)
  then have hdr: "getLengthHeader (conn_msg (fill 0 (take 2 ?sent) c)) = ?n"
    using slice_blit_same [of 0 "take 2 ?sent" "msg_buffer (conn_msg c)"] lb lf
    by (intro getLengthHeader_image) (simp_all add: fill_def)
  define c1 where "c1 = (fill 0 (take 2 ?sent) c)\<lparr>packetsSent := packetsSent c + 1\<rparr>"
  define c2 where "c2 = (if max 1 (word_of_int (now - timeConnected c + 1) :: u32) > 2
      then c1\<lparr>timeConnected := now, packetsSent := 0\<rparr> else c1)"
  define m2 where "m2 = snd (getBodyBuffer (setLength (?n + word_of_nat HEADER_LENGTH) (conn_msg c2)))"
  have c2: "conn_msg c2 = conn_msg (fill 0 (take 2 ?sent) c)" "receivedFirst c2" "\<not> conn_closed c2"
      "conn_protocol c2 = Some q" "receivedFirstHeader c2"
    using assms(8-12) by (simp_all add: c2_def c1_def fill_def)
  have below: "\<not> rate < (packetsSent c + 1) div max 1 (word_of_int (now - timeConnected c + 1))"
    using assms(11) by (simp add: rate_ok_def not_less)
  have "parseHeader now ms rate remote False (fill 0 (take 2 ?sent) c, bans) =
      ((c2\<lparr>conn_msg := m2\<rparr>, bans), ReadBody (?pl + 4))"
    using assms(8,10) below hdr header_size_frame [OF assms(2)] c2(1,5) n
    by (simp add: parseHeader_def Let_def fill_def start_body_def m2_def c2_def c1_def)
  moreover have "take (?pl + 4) (drop 2 ?sent) = drop 2 ?sent" using lf by simp
  ultimately have rp: "receive_packet mk now ms rate remote ?sent (c, bans) =
      (case parsePacket mk False (fill 2 (drop 2 ?sent) (c2\<lparr>conn_msg := m2\<rparr>)) of (c, d, _) \<Rightarrow> (c, d))"
    by (simp add: receive_packet_def HEADER_LENGTH_def)
  define m where "m = conn_msg (fill 2 (drop 2 ?sent) (c2\<lparr>conn_msg := m2\<rparr>))"
  have m: "m = (conn_msg c)\<lparr>msg_buffer := b, msg_position := 2, msg_length := word_of_nat (length ?sent)\<rparr>"
    using blit_header_body [of ?sent "msg_buffer (conn_msg c)"] lb lf small
    by (simp add: m_def m2_def c2(1) fill_def getBodyBuffer_def setLength_def HEADER_LENGTH_def b_def)
  have at: "wf_message m" "msg_position m = 2" "msg_length m = word_of_nat (length ?sent)"
      "slice 0 (length ?sent) (msg_buffer m) = ?sent"
    using lb lf small slice_blit_same [of 0 ?sent "msg_buffer (conn_msg c)"]
    by (simp_all add: m b_def wf_message_def net_consts)
  obtain m3 m4 where chk: "check_checksum m = (True, m3)" and rcv: "onRecvMessage q m3 = Some m4"
    and m4: "msg_position m4 = 8" "unat (msg_length m4) = length bs" "slice 8 (length bs) (msg_buffer m4) = bs"
    using frame_delivered [OF assms(2) refl at assms(13,14)] by blast
  have "parsePacket mk False (fill 2 (drop 2 ?sent) (c2\<lparr>conn_msg := m2\<rparr>)) =
      ((fill 2 (drop 2 ?sent) (c2\<lparr>conn_msg := m2\<rparr>))\<lparr>conn_msg := m3\<rparr>, NextMessage m4, ReadHeader)"
    using c2 chk rcv unfolding m_def by (simp add: parsePacket_def fill_def)
  with rp m4 c2(3) sent show ?thesis by (auto simp: fill_def)
qed

theorem packet_delivery_witness:
  "\<exists>out' m c'.
     onSendMessage \<lparr>proto_key = expand_key [1, 2, 3, 4], encryptionEnabled = True, checksumEnabled = True,
       rawMessages = False\<rparr> (append_bytes [0x14, 0x41] (new_output (replicate 24590 0))) = Some out'
     \<and> receive_packet (\<lambda>_ _. None) 100 0 25 1 (sent_bytes out')
         (\<lparr>conn_msg = \<lparr>msg_length = 0, msg_position = 8, msg_overrun = False, msg_buffer = replicate 24590 7\<rparr>,
           conn_protocol = Some \<lparr>proto_key = expand_key [1, 2, 3, 4], encryptionEnabled = True,
             checksumEnabled = True, rawMessages = False\<rparr>,
           timeConnected = 100, packetsSent = 3, realIP = 0, conn_closed = False, receivedFirst = True,
           receivedFirstHeader = True\<rparr>, Map.empty) = (c', NextMessage m)
     \<and> slice 8 2 (msg_buffer m) = [0x14, 0x41]"
proof -
  let ?p = "\<lparr>proto_key = expand_key [1, 2, 3, 4], encryptionEnabled = True, checksumEnabled = True,
       rawMessages = False\<rparr>"
  let ?c = "\<lparr>conn_msg = \<lparr>msg_length = 0, msg_position = 8, msg_overrun = False, msg_buffer = replicate 24590 7\<rparr>,
     conn_protocol = Some ?p, timeConnected = 100, packetsSent = 3, realIP = 0, conn_closed = False,
     receivedFirst = True, receivedFirstHeader = True\<rparr>"
  have fit: "payload_fits [0x14, 0x41]" by (simp add: payload_fits_def net_consts)
  have hold: "holds_payload [0x14, 0x41] (append_bytes [0x14, 0x41] (new_output (replicate 24590 0)))"
    using fit by (intro holds_payload_append) (simp_all add: net_consts)
  obtain out' where out': "onSendMessage ?p (append_bytes [0x14, 0x41] (new_output (replicate 24590 0))) = Some out'"
    using onSendMessage_frame [OF hold fit, of ?p] by auto
  have "wf_message (conn_msg ?c)" "rate_ok 100 25 ?c"
    by (simp_all add: wf_message_def net_consts rate_ok_def)
  from packet_delivery [OF hold fit _ _ _ out' this(1) _ _ _ this(2), of ?p "\<lambda>_ _. None" 0 1 Map.empty]
  have "\<exists>m c'. receive_packet (\<lambda>_ _. None) 100 0 25 1 (sent_bytes out') (?c, Map.empty) = (c', NextMessage m)
      \<and> slice 8 2 (msg_buffer m) = [0x14, 0x41]"
    by (simp flip: numeral_2_eq_2) blast
  with out' show ?thesis by blast
qed

section \<open>Writing: the queue of outgoing messages\<close>

text \<open>
  At most one write is under way, that of the front of \<open>messageQueue\<close>, whose completion pops it.
  \<open>written\<close> and \<open>accepted\<close> are the messages whose write completed without error and those
  \<open>send\<close> took, and \<open>write_failed\<close> whether a write failed; the code does not keep the three. The write fails in
  \<open>onWriteOperation\<close> only: a socket error raised by the call that starts it is not modelled.
\<close>

record 'm outgoing =
  messageQueue :: "'m list"
  write_pending :: "'m option"
  out_closed :: bool
  socket_open :: bool
  written :: "'m list"
  accepted :: "'m list"
  write_failed :: bool

definition out_init :: "'m outgoing" where
  "out_init = \<lparr>messageQueue = [], write_pending = None, out_closed = False, socket_open = True,
     written = [], accepted = [], write_failed = False\<rparr>"

definition internalSend :: "'m \<Rightarrow> 'm outgoing \<Rightarrow> 'm outgoing" where
  "internalSend m s = s\<lparr>write_pending := Some m\<rparr>"

definition out_send :: "'m \<Rightarrow> 'm outgoing \<Rightarrow> 'm outgoing" where
  "out_send m s =
     (if out_closed s then s
      else let noPendingWrite = (messageQueue s = []);
               s = s\<lparr>messageQueue := messageQueue s @ [m], accepted := accepted s @ [m]\<rparr>
           in if noPendingWrite then internalSend m s else s)"

definition closeSocket :: "'m outgoing \<Rightarrow> 'm outgoing" where
  "closeSocket s = s\<lparr>socket_open := False\<rparr>"

definition out_close :: "bool \<Rightarrow> 'm outgoing \<Rightarrow> 'm outgoing" where
  "out_close force s =
     (if out_closed s then s
      else let s = s\<lparr>out_closed := True\<rparr>
           in if messageQueue s = [] \<or> force then closeSocket s else s)"

text \<open>\<open>pop_front\<close> of an empty list is undefined behaviour: \<open>None\<close>.\<close>

definition onWriteOperation :: "bool \<Rightarrow> 'm outgoing \<Rightarrow> 'm outgoing option" where
  "onWriteOperation err s =
     (case messageQueue s of
        [] \<Rightarrow> None
      | m # rest \<Rightarrow>
          let s = s\<lparr>messageQueue := rest, write_pending := None,
                    written := (if err then written s else written s @ [m]),
                    write_failed := write_failed s \<or> err\<rparr>
          in if err then Some (out_close True (s\<lparr>messageQueue := []\<rparr>))
             else if messageQueue s \<noteq> [] then Some (internalSend (hd (messageQueue s)) s)
             else if out_closed s then Some (closeSocket s)
             else Some s)"

inductive out_step :: "'m outgoing \<Rightarrow> 'm outgoing \<Rightarrow> bool" where
  step_send: "out_step s (out_send m s)"
| step_close: "out_step s (out_close force s)"
| step_written: "write_pending s = Some m \<Longrightarrow> onWriteOperation err s = Some t \<Longrightarrow> out_step s t"

inductive_cases out_stepE: "out_step s t"

inductive out_reachable :: "'m outgoing \<Rightarrow> bool" where
  reach_init: "out_reachable out_init"
| reach_step: "out_reachable s \<Longrightarrow> out_step s t \<Longrightarrow> out_reachable t"

definition out_inv :: "'m outgoing \<Rightarrow> bool" where
  "out_inv s \<longleftrightarrow>
     write_pending s = (case messageQueue s of [] \<Rightarrow> None | m # _ \<Rightarrow> Some m)
     \<and> (\<exists>lost. accepted s = written s @ messageQueue s @ lost
          \<and> (lost \<noteq> [] \<longrightarrow> write_failed s))
     \<and> (write_failed s \<or> \<not> socket_open s \<longrightarrow> out_closed s)
     \<and> (out_closed s \<and> messageQueue s = [] \<and> \<not> write_failed s \<longrightarrow> \<not> socket_open s)"

lemma out_inv_send: "out_inv s \<Longrightarrow> out_inv (out_send m s)"
  by (auto simp: out_inv_def out_send_def internalSend_def Let_def split: list.splits)

lemma out_inv_close: "out_inv s \<Longrightarrow> out_inv (out_close f s)"
  by (auto simp: out_inv_def out_close_def closeSocket_def Let_def)

lemma out_inv_written:
  assumes "out_inv s" "onWriteOperation err s = Some t"
  shows "out_inv t"
proof (cases "messageQueue s")
  case Nil
  with assms(2) show ?thesis by (simp add: onWriteOperation_def)
next
  case (Cons m rest)
  with assms show ?thesis
    by (cases rest; cases err; cases "out_closed s")
       (auto simp: out_inv_def onWriteOperation_def out_close_def closeSocket_def internalSend_def Let_def)
qed

lemma out_step_inv: "out_step s t \<Longrightarrow> out_inv s \<Longrightarrow> out_inv t"
  by (auto elim!: out_stepE intro: out_inv_send out_inv_close out_inv_written)

lemma out_inv_init: "out_inv out_init"
  by (simp add: out_inv_def out_init_def)

lemma out_reachable_inv: "out_reachable s \<Longrightarrow> out_inv s"
  by (induction rule: out_reachable.induct) (blast intro: out_inv_init out_step_inv)+



end
