(* ===== verification/File_Loader.thy ===== *)
theory File_Loader
  imports Prelude
begin

text \<open>
  \<open>src/src/fileloader.h\<close> and \<open>fileloader.cpp\<close>: the property streams that items, containers and
  maps are stored in, and the loader of the node tree of an OTB file. The mapped file is its list of
  bytes, an iterator into it is an offset, and the exceptions are the values of \<open>otb_error\<close>.
\<close>

section \<open>Property streams\<close>

text \<open>A \<open>PropStream\<close> is the list of the bytes from \<open>p\<close> to \<open>end\<close>; a failed read is \<open>None\<close>.\<close>

type_synonym prop_stream = "byte list"

definition prop_read :: "nat \<Rightarrow> prop_stream \<Rightarrow> ('w::len word \<times> prop_stream) option" where
  "prop_read n s = (if length s < n then None else Some (le_word (take n s), drop n s))"

definition prop_readString :: "prop_stream \<Rightarrow> (cstring \<times> prop_stream) option" where
  "prop_readString s =
     (case prop_read 2 s :: (u16 \<times> prop_stream) option of
        None \<Rightarrow> None
      | Some (strLen, s) \<Rightarrow>
          if length s < unat strLen then None
          else Some (take (unat strLen) s, drop (unat strLen) s))"

definition prop_skip :: "nat \<Rightarrow> prop_stream \<Rightarrow> prop_stream option" where
  "prop_skip n s = (if length s < n then None else Some (drop n s))"

text \<open>A \<open>PropWriteStream\<close> is the vector of the bytes written.\<close>

definition prop_write :: "nat \<Rightarrow> 'w::len word \<Rightarrow> byte list \<Rightarrow> byte list" where
  "prop_write n v buf = buf @ le_bytes n v"

definition prop_writeString :: "cstring \<Rightarrow> byte list \<Rightarrow> byte list" where
  "prop_writeString str buf =
     (if length str > 65535 then prop_write 2 (0 :: u16) buf
      else prop_write 2 (word_of_nat (length str) :: u16) buf @ str)"

text \<open>
  What a writer and a reader owe each other: what was appended comes back first, and the rest of
  the stream is left for the next read.
\<close>

fun read_many :: "(prop_stream \<Rightarrow> ('v \<times> prop_stream) option) \<Rightarrow> nat \<Rightarrow> prop_stream \<Rightarrow> ('v list \<times> prop_stream) option" where
  "read_many rd 0 s = Some ([], s)"
| "read_many rd (Suc n) s =
     (case rd s of None \<Rightarrow> None
      | Some (v, s) \<Rightarrow> map_option (apfst ((#) v)) (read_many rd n s))"

locale prop_codec =
  fixes wr :: "'v \<Rightarrow> byte list \<Rightarrow> byte list"
    and rd :: "prop_stream \<Rightarrow> ('v \<times> prop_stream) option"
    and ok :: "'v \<Rightarrow> bool"
  assumes write_appends: "wr v buf = buf @ wr v []"
    and read_written: "ok v \<Longrightarrow> rd (wr v [] @ rest) = Some (v, rest)"
begin

lemma fold_write: "fold wr vs buf = buf @ concat (map (\<lambda>v. wr v []) vs)"
proof (induction vs arbitrary: buf)
  case Nil
  show ?case by simp
next
  case (Cons v vs)
  have "fold wr (v # vs) buf = wr v buf @ concat (map (\<lambda>v. wr v []) vs)"
    by (simp add: Cons.IH)
  also have "wr v buf = buf @ wr v []" by (rule write_appends)
  finally show ?case by simp
qed

text \<open>A sequence of values written one after the other is read back one after the other.\<close>

lemma read_many_written:
  "list_all ok vs \<Longrightarrow> read_many rd (length vs) (fold wr vs [] @ rest) = Some (vs, rest)"
  by (simp add: fold_write) (induction vs; simp add: read_written)

end

lemma prop_read_le_bytes:
  fixes v :: "'w::len word"
  assumes "LENGTH('w) \<le> 8 * n"
  shows "prop_read n (le_bytes n v @ rest) = Some (v, rest)"
  using assms by (simp add: prop_read_def)

interpretation u8_prop: prop_codec "prop_write 1" "prop_read 1" "\<lambda>_ :: byte. True"
  by unfold_locales (simp_all add: prop_write_def prop_read_le_bytes del: One_nat_def le_bytes.simps)

interpretation u16_prop: prop_codec "prop_write 2" "prop_read 2" "\<lambda>_ :: u16. True"
  by unfold_locales (simp_all add: prop_write_def prop_read_le_bytes)

interpretation u32_prop: prop_codec "prop_write 4" "prop_read 4" "\<lambda>_ :: u32. True"
  by unfold_locales (simp_all add: prop_write_def prop_read_le_bytes)

interpretation u64_prop: prop_codec "prop_write 8" "prop_read 8" "\<lambda>_ :: u64. True"
  by unfold_locales (simp_all add: prop_write_def prop_read_le_bytes)

interpretation string_prop: prop_codec prop_writeString prop_readString "\<lambda>v. length v \<le> 65535"
proof (unfold_locales, goal_cases)
  case (1 v buf)
  show ?case by (simp add: prop_writeString_def prop_write_def)
next
  case (2 v rest)
  then have "unat (word_of_nat (length v) :: u16) = length v"
    by (simp add: unat_of_nat take_bit_nat_eq_self_iff)
  with 2 show ?case
    by (simp add: prop_writeString_def prop_write_def prop_readString_def prop_read_le_bytes)
qed

section \<open>The node tree\<close>

datatype otb_error = InvalidOTBFormat

definition node_ESCAPE :: byte where "node_ESCAPE = 0xFD"
definition node_START :: byte where "node_START = 0xFE"
definition node_END :: byte where "node_END = 0xFF"

lemmas node_chars = node_ESCAPE_def node_START_def node_END_def

text \<open>\<open>propsEnd\<close> is not initialised by the code: \<open>None\<close> until it is assigned.\<close>

datatype otb_node = Node (node_type: byte) (propsBegin: nat) (propsEnd: "nat option") (node_children: "otb_node list")

text \<open>
  The constructor of \<open>Loader\<close>: the file must be longer than an identifier and one empty node, and
  its identifier the accepted one or the wildcard of four zero bytes.
\<close>

definition loader_open :: "byte list \<Rightarrow> byte list \<Rightarrow> otb_error + byte list" where
  "loader_open acceptedIdentifier contents =
     (if length contents \<le> 4 + 1 + 1 + 1 then Inl InvalidOTBFormat
      else let fileIdentifier = take 4 contents
           in if fileIdentifier \<noteq> acceptedIdentifier \<and> fileIdentifier \<noteq> [0, 0, 0, 0]
              then Inl InvalidOTBFormat else Inr contents)"

text \<open>
  The parse stack, its top first. The code keeps pointers into the tree under construction; since
  only the last child of a node can be open, a node is here appended to its parent when it is popped.
  The second component is the root once it has been popped.
\<close>

type_synonym parse_state = "otb_node list \<times> otb_node option"

definition set_end :: "nat \<Rightarrow> otb_node \<Rightarrow> otb_node" where
  "set_end i n = (case n of Node t b e cs \<Rightarrow> if cs = [] then Node t b (Some i) cs else n)"

definition add_child :: "otb_node \<Rightarrow> otb_node \<Rightarrow> otb_node" where
  "add_child c n = (case n of Node t b e cs \<Rightarrow> Node t b e (cs @ [c]))"

fun pop_node :: "otb_node \<Rightarrow> otb_node list \<Rightarrow> otb_node option \<Rightarrow> parse_state" where
  "pop_node n [] root = ([], Some n)"
| "pop_node n (p # stk) root = (add_child n p # stk, root)"

text \<open>The loop of \<open>parseTree\<close>: \<open>i\<close> is the offset of the first byte of the list.\<close>

fun parse_loop :: "nat \<Rightarrow> byte list \<Rightarrow> parse_state \<Rightarrow> otb_error + parse_state" where
  "parse_loop i [] st = Inr st"
| "parse_loop i (c # cs) (stk, root) =
     (if c = node_START then
        (case stk of
           [] \<Rightarrow> Inl InvalidOTBFormat
         | p # stk' \<Rightarrow>
             (case cs of
                [] \<Rightarrow> Inl InvalidOTBFormat
              | ty # cs' \<Rightarrow> parse_loop (i + 2) cs' (Node ty (i + 2) None [] # set_end i p # stk', root)))
      else if c = node_END then
        (case stk of
           [] \<Rightarrow> Inl InvalidOTBFormat
         | p # stk' \<Rightarrow> parse_loop (i + 1) cs (pop_node (set_end i p) stk' root))
      else if c = node_ESCAPE then
        (case cs of [] \<Rightarrow> Inl InvalidOTBFormat | _ # cs' \<Rightarrow> parse_loop (i + 2) cs' (stk, root))
      else parse_loop (i + 1) cs (stk, root))"

definition parseTree :: "byte list \<Rightarrow> otb_error + otb_node" where
  "parseTree contents =
     (if contents ! 4 \<noteq> node_START then Inl InvalidOTBFormat
      else case parse_loop 6 (drop 6 contents) ([Node (contents ! 5) 6 None []], None) of
             Inl e \<Rightarrow> Inl e
           | Inr ([], Some root) \<Rightarrow> Inr root
           | Inr _ \<Rightarrow> Inl InvalidOTBFormat)"

text \<open>The predicate of \<open>copy_if\<close> with its captured flag.\<close>

fun unescape :: "bool \<Rightarrow> byte list \<Rightarrow> byte list" where
  "unescape lastEscaped [] = []"
| "unescape lastEscaped (b # bs) =
     (let lastEscaped = (b = node_ESCAPE \<and> \<not> lastEscaped)
      in if \<not> lastEscaped then b # unescape lastEscaped bs else unescape lastEscaped bs)"

definition getProps :: "byte list \<Rightarrow> otb_node \<Rightarrow> prop_stream option" where
  "getProps contents n =
     (case propsEnd n of
        None \<Rightarrow> None
      | Some e \<Rightarrow> if e - propsBegin n = 0 then None
                  else Some (unescape False (slice (propsBegin n) (e - propsBegin n) contents)))"

section \<open>The format\<close>

text \<open>
  The tree a file stands for, and how it is laid out: a node is a start mark, its type, its
  properties with every mark in them escaped, its children, and an end mark.
\<close>

datatype otree = OTree byte "byte list" "otree list"

definition escape :: "byte list \<Rightarrow> byte list" where
  "escape ps = concat (map (\<lambda>b. if b \<in> {node_ESCAPE, node_START, node_END} then [node_ESCAPE, b] else [b]) ps)"

fun layout :: "otree \<Rightarrow> byte list" and layouts :: "otree list \<Rightarrow> byte list" where
  "layout (OTree t ps cs) = [node_START, t] @ escape ps @ layouts cs @ [node_END]"
| "layouts [] = []"
| "layouts (c # cs) = layout c @ layouts cs"

text \<open>The node the loader should build for a tree laid out at an offset.\<close>

fun node_at :: "nat \<Rightarrow> otree \<Rightarrow> otb_node" and nodes_at :: "nat \<Rightarrow> otree list \<Rightarrow> otb_node list" where
  "node_at i (OTree t ps cs) =
     Node t (i + 2) (Some (i + 2 + length (escape ps))) (nodes_at (i + 2 + length (escape ps)) cs)"
| "nodes_at i [] = []"
| "nodes_at i (c # cs) = node_at i c # nodes_at (i + length (layout c)) cs"

text \<open>What a reader of the tree sees: the types, the unescaped properties, the children.\<close>

function tree_of :: "byte list \<Rightarrow> otb_node \<Rightarrow> otree" where
  "tree_of contents (Node t b e cs) =
     OTree t (case getProps contents (Node t b e cs) of None \<Rightarrow> [] | Some ps \<Rightarrow> ps) (map (tree_of contents) cs)"
  by pat_completeness auto
termination
  by (relation "measure (\<lambda>(contents, n). size n)") (auto simp: less_Suc_eq_le size_list_estimation')

lemma unescape_escape [simp]: "unescape False (escape ps) = ps"
  by (induction ps) (auto simp: escape_def Let_def node_chars)

lemma escape_eq_Nil [simp]: "escape ps = [] \<longleftrightarrow> ps = []"
  by (cases ps) (auto simp: escape_def)

lemma parse_loop_escape:
  "parse_loop i (escape ps @ rest) st = parse_loop (i + length (escape ps)) rest st"
proof (induction ps arbitrary: i)
  case Nil
  show ?case by (simp add: escape_def)
next
  case (Cons b ps)
  show ?case
    using Cons.IH [of "i + 2"] Cons.IH [of "i + 1"]
    by (cases st) (auto simp: escape_def node_chars)
qed

text \<open>Parsing the layout of a tree, or of a list of them, leaves them as children of the open node.\<close>

definition open_with :: "nat \<Rightarrow> otb_node \<Rightarrow> otb_node list \<Rightarrow> otb_node" where
  "open_with i p ns = (if ns = [] then p else case set_end i p of Node t b e cs \<Rightarrow> Node t b e (cs @ ns))"

lemma open_with_Cons:
  "open_with j (add_child n (set_end i p)) ns = open_with i p (n # ns)"
  by (cases p) (auto simp: open_with_def add_child_def set_end_def)

lemma parse_layout:
  "parse_loop i (layout t @ rest) (p # stk, root) =
     parse_loop (i + length (layout t)) rest (open_with i p [node_at i t] # stk, root)"
  and parse_layouts:
  "parse_loop i (layouts ts @ rest) (p # stk, root) =
     parse_loop (i + length (layouts ts)) rest (open_with i p (nodes_at i ts) # stk, root)"
proof (induction t and ts arbitrary: i rest p stk root and i rest p stk root rule: layout_layouts.induct)
  case (1 ty ps cs)
  let ?j = "i + 2 + length (escape ps)"
  have "parse_loop i (layout (OTree ty ps cs) @ rest) (p # stk, root) =
      parse_loop ?j (layouts cs @ node_END # rest) (Node ty (i + 2) None [] # set_end i p # stk, root)"
    using parse_loop_escape [of "i + 2" ps "layouts cs @ node_END # rest"
        "(Node ty (i + 2) None [] # set_end i p # stk, root)"]
    by (simp add: node_chars)
  also have "\<dots> = parse_loop (?j + length (layouts cs)) (node_END # rest)
      (open_with ?j (Node ty (i + 2) None []) (nodes_at ?j cs) # set_end i p # stk, root)"
    by (rule 1)
  also have "\<dots> = parse_loop (i + length (layout (OTree ty ps cs))) rest
      (add_child (node_at i (OTree ty ps cs)) (set_end i p) # stk, root)"
  proof -
    have "set_end (?j + length (layouts cs)) (open_with ?j (Node ty (i + 2) None []) (nodes_at ?j cs)) =
        node_at i (OTree ty ps cs)"
      by (cases cs) (auto simp: open_with_def set_end_def)
    then show ?thesis by (simp add: node_chars add.commute add.left_commute)
  qed
  also have "add_child (node_at i (OTree ty ps cs)) (set_end i p) = open_with i p [node_at i (OTree ty ps cs)]"
    by (cases p) (auto simp: open_with_def add_child_def set_end_def)
  finally show ?case .
next
  case 2
  show ?case by (simp add: open_with_def)
next
  case (3 c cs)
  have "open_with (i + length (layout c)) (open_with i p [node_at i c]) (nodes_at (i + length (layout c)) cs)
      = open_with i p (node_at i c # nodes_at (i + length (layout c)) cs)"
    by (cases p) (auto simp: open_with_def set_end_def)
  with 3 show ?case by (simp add: add.assoc)
qed


lemma tree_of_node_at:
  "contents = pre @ layout t @ post \<Longrightarrow> tree_of contents (node_at (length pre) t) = t"
  and trees_of_nodes_at:
  "contents = pre @ layouts ts @ post \<Longrightarrow> map (tree_of contents) (nodes_at (length pre) ts) = ts"
proof (induction t and ts arbitrary: pre post and pre post rule: layout_layouts.induct)
  case (1 ty ps cs)
  let ?pre = "pre @ [node_START, ty] @ escape ps"
  have "map (tree_of contents) (nodes_at (length ?pre) cs) = cs"
    by (rule 1(1) [of _ "node_END # post"]) (simp add: 1(2))
  moreover have "slice (length pre + 2) (length (escape ps)) contents = escape ps"
    by (simp add: 1(2) slice_def)
  ultimately show ?case by (simp add: getProps_def add.assoc)
next
  case 2
  show ?case by simp
next
  case (3 c cs)
  have "map (tree_of contents) (nodes_at (length (pre @ layout c)) cs) = cs"
    by (rule 3(2) [of _ post]) (simp add: 3(3))
  moreover have "tree_of contents (node_at (length pre) c) = c"
    by (rule 3(1) [of _ "layouts cs @ post"]) (simp add: 3(3))
  ultimately show ?case by simp
qed

lemma parseTree_layout:
  assumes "length ident = 4"
  shows "parseTree (ident @ layout t) = Inr (node_at 4 t)"
proof (cases t)
  case (OTree ty ps cs)
  let ?root = "Node ty 6 None []" and ?j = "6 + length (escape ps)"
  have "parse_loop 6 (escape ps @ layouts cs @ [node_END]) ([?root], None) =
      parse_loop (?j + length (layouts cs)) [node_END] ([open_with ?j ?root (nodes_at ?j cs)], None)"
    by (simp add: parse_loop_escape parse_layouts)
  moreover have "set_end (?j + length (layouts cs)) (open_with ?j ?root (nodes_at ?j cs)) = node_at 4 t"
    using OTree by (cases cs) (auto simp: open_with_def set_end_def)
  moreover have "parse_loop 6 (escape ps @ layouts cs @ [node_END]) ([?root], None) =
      parse_loop 6 (drop 6 (ident @ layout t)) ([?root], None)"
    using assms OTree by simp
  ultimately have "parse_loop 6 (drop 6 (ident @ layout t)) ([?root], None) = Inr ([], Some (node_at 4 t))"
    by (simp add: node_chars)
  moreover have "(ident @ layout t) ! 4 = node_START" and "(ident @ layout t) ! 5 = ty"
    using assms OTree by (simp_all add: nth_append)
  ultimately show ?thesis by (simp add: parseTree_def)
qed

text \<open>How the server loads a file: open it, then parse it.\<close>

definition load_file :: "byte list \<Rightarrow> byte list \<Rightarrow> otb_error + otb_node" where
  "load_file acceptedIdentifier contents =
     (case loader_open acceptedIdentifier contents of Inl e \<Rightarrow> Inl e | Inr c \<Rightarrow> parseTree c)"

text \<open>
  C5: A file that lays out any tree of nodes, other than the one of a single empty node, after an
  identifier the caller accepts (or the wildcard) is loaded, and the loaded nodes with the streams
  \<open>getProps\<close> gives for them are the tree: every type, every property byte with its escapes
  undone, every child in its order. The file of a single empty node is refused although it is well
  formed, since the size test of the constructor is not strict.
\<close>

theorem load_file_layout:
  assumes "length ident = 4" and "ident = accepted \<or> ident = [0, 0, 0, 0]"
  shows "if ps = [] \<and> cs = []
         then load_file accepted (ident @ layout (OTree ty ps cs)) = Inl InvalidOTBFormat
         else \<exists>n. load_file accepted (ident @ layout (OTree ty ps cs)) = Inr n \<and>
                tree_of (ident @ layout (OTree ty ps cs)) n = OTree ty ps cs"
proof (cases "ps = [] \<and> cs = []")
  case True
  with assms show ?thesis by (simp add: load_file_def loader_open_def escape_def)
next
  case False
  let ?c = "ident @ layout (OTree ty ps cs)"
  have "length (escape ps @ layouts cs) \<noteq> 0"
    using False by (cases cs rule: list.exhaust; cases "hd cs") auto
  then have "loader_open accepted ?c = Inr ?c"
    using assms by (auto simp: loader_open_def Let_def)
  then have "load_file accepted ?c = Inr (node_at 4 (OTree ty ps cs))"
    using assms by (simp only: load_file_def sum.case parseTree_layout)
  moreover have "tree_of ?c (node_at 4 (OTree ty ps cs)) = OTree ty ps cs"
    using tree_of_node_at [of ?c ident "OTree ty ps cs" "[]"] assms by simp
  ultimately show ?thesis using False by auto
qed

theorem load_file_layout_witness:
  "(\<exists>n. load_file [1, 2, 3, 4] ([0, 0, 0, 0] @ layout (OTree 7 [0xFE, 1, 0xFD] [OTree 0xFF [] [], OTree 2 [0xFF] []])) = Inr n \<and>
      tree_of ([0, 0, 0, 0] @ layout (OTree 7 [0xFE, 1, 0xFD] [OTree 0xFF [] [], OTree 2 [0xFF] []])) n =
      OTree 7 [0xFE, 1, 0xFD] [OTree 0xFF [] [], OTree 2 [0xFF] []])"
  using load_file_layout [of "[0, 0, 0, 0]" "[1, 2, 3, 4]" "[0xFE, 1, 0xFD]"
      "[OTree 0xFF [] [], OTree 2 [0xFF] []]" 7] by (simp del: layout.simps tree_of.simps)

text \<open>
  Strings written one after the other to a property stream are read back in order, with what
  follows them left in the stream, when each fits the 16-bit length; a longer string is written as
  the empty string.
\<close>

theorem prop_strings_roundtrip:
  assumes "\<forall>v\<in>set vs. length v \<le> 65535" and "length long > 65535"
  shows "read_many prop_readString (length vs) (fold prop_writeString vs [] @ rest) = Some (vs, rest) \<and>
         prop_readString (prop_writeString long [] @ rest) = Some ([], rest)"
  using string_prop.read_many_written [of vs rest] string_prop.read_written [of "[]" rest] assms
  by (simp add: list_all_iff prop_writeString_def)

theorem prop_strings_roundtrip_witness:
  "read_many prop_readString (length [[1, 2], [], [3 :: byte]]) (fold prop_writeString [[1, 2], [], [3]] [] @ [9]) =
     Some ([[1, 2], [], [3]], [9]) \<and>
   prop_readString (prop_writeString (replicate 65536 (0 :: byte)) [] @ [9]) = Some ([], [9])"
  using prop_strings_roundtrip [of "[[1, 2], [], [3]]" "replicate 65536 0" "[9]"]
  by (simp only: length_replicate) simp

end
