(* ===== verification/Text.thy ===== *)
theory Text
  imports Main
begin

text \<open>
  The string routines of \<open>src/src/tools.cpp\<close>. A \<open>std::string\<close> is a list of characters;
  \<open>npos\<close> is \<open>None\<close>. A loop that may run forever is a partial function, \<open>None\<close> if it does.
\<close>

section \<open>The members of \<open>std::string\<close> the routines use\<close>

definition starts_with :: "string \<Rightarrow> string \<Rightarrow> bool" where
  "starts_with p s \<longleftrightarrow> take (length p) s = p"

fun find_sub :: "string \<Rightarrow> string \<Rightarrow> nat option" where
  "find_sub sought [] = (if sought = [] then Some 0 else None)"
| "find_sub sought (c # cs) =
     (if starts_with sought (c # cs) then Some 0 else map_option Suc (find_sub sought cs))"

text \<open>\<open>str.find(sought, start)\<close>.\<close>

definition find_from :: "string \<Rightarrow> string \<Rightarrow> nat \<Rightarrow> nat option" where
  "find_from str sought start =
     (if length str < start then None else map_option ((+) start) (find_sub sought (drop start str)))"

definition tolower :: "char \<Rightarrow> char" where
  "tolower c = (let n = of_char c :: nat in if 65 \<le> n \<and> n \<le> 90 then char_of (n + 32) else c)"

definition toupper :: "char \<Rightarrow> char" where
  "toupper c = (let n = of_char c :: nat in if 97 \<le> n \<and> n \<le> 122 then char_of (n - 32) else c)"

section \<open>The routines\<close>

partial_function (option) replace_loop :: "string \<Rightarrow> string \<Rightarrow> nat \<Rightarrow> string \<Rightarrow> string option" where
  "replace_loop sought replacement start str =
     (case find_from str sought start of
        None \<Rightarrow> Some str
      | Some pos \<Rightarrow> replace_loop sought replacement (pos + length replacement)
                    (take pos str @ replacement @ drop (pos + length sought) str))"

definition replaceString :: "string \<Rightarrow> string \<Rightarrow> string \<Rightarrow> string option" where
  "replaceString str sought replacement = replace_loop sought replacement 0 str"

definition trim_right :: "string \<Rightarrow> char \<Rightarrow> string" where
  "trim_right source t = rev (dropWhile ((=) t) (rev source))"

definition trim_left :: "string \<Rightarrow> char \<Rightarrow> string" where
  "trim_left source t = dropWhile ((=) t) source"

definition trimString :: "string \<Rightarrow> string" where
  "trimString str = trim_left (trim_right str CHR '' '') CHR '' ''"

definition asLowerCaseString :: "string \<Rightarrow> string" where
  "asLowerCaseString source = map tolower source"

definition asUpperCaseString :: "string \<Rightarrow> string" where
  "asUpperCaseString source = map toupper source"

text \<open>The loop of \<open>explodeString\<close> on what is left of the string from \<open>start\<close> on.\<close>

partial_function (option) explode_loop ::
  "string \<Rightarrow> int \<Rightarrow> string list \<Rightarrow> string \<Rightarrow> string list option" where
  "explode_loop separator limit returnVector rest =
     (if limit - 1 = -1 then Some (returnVector @ [rest])
      else case find_sub separator rest of
             None \<Rightarrow> Some (returnVector @ [rest])
           | Some e \<Rightarrow> explode_loop separator (limit - 1) (returnVector @ [take e rest])
                         (drop (e + length separator) rest))"

definition explodeString :: "string \<Rightarrow> string \<Rightarrow> int \<Rightarrow> string list option" where
  "explodeString inString separator limit = explode_loop separator limit [] inString"

fun ucfirst :: "string \<Rightarrow> string" where
  "ucfirst [] = []"
| "ucfirst (c # cs) = (if c \<noteq> CHR '' '' then toupper c # cs else c # ucfirst cs)"

text \<open>The loop of \<open>ucwords\<close>: \<open>prev\<close> is \<open>str[i - 1]\<close>.\<close>

fun ucwords_loop :: "char \<Rightarrow> string \<Rightarrow> string" where
  "ucwords_loop prev [] = []"
| "ucwords_loop prev (c # cs) =
     (let c = (if prev = CHR '' '' then toupper c else c) in c # ucwords_loop c cs)"

fun ucwords :: "string \<Rightarrow> string" where
  "ucwords [] = []"
| "ucwords (c # cs) = toupper c # ucwords_loop (toupper c) cs"

fun booleanString :: "string \<Rightarrow> bool" where
  "booleanString [] = False"
| "booleanString (c # cs) = (tolower c \<notin> {CHR ''f'', CHR ''n'', CHR ''0''})"

definition getFirstLine :: "string \<Rightarrow> string" where
  "getFirstLine str = takeWhile (\<lambda>c. c \<noteq> CHR 0x0A) str"

section \<open>Search\<close>

lemma starts_with_append: "starts_with p s \<longleftrightarrow> (\<exists>r. s = p @ r)"
  unfolding starts_with_def by (metis append_eq_conv_conj)

lemma find_sub_Some:
  "find_sub sought s = Some k \<Longrightarrow>
   s = take k s @ sought @ drop (k + length sought) s \<and> k + length sought \<le> length s"
proof (induction s arbitrary: k)
  case Nil
  then show ?case by (simp split: if_splits)
next
  case (Cons c cs)
  show ?case
  proof (cases "starts_with sought (c # cs)")
    case True
    with Cons.prems have "k = 0" by simp
    from True obtain r where "c # cs = sought @ r" by (auto simp: starts_with_append)
    then show ?thesis using \<open>k = 0\<close> arg_cong [of "c # cs" _ length] by simp
  next
    case False
    with Cons.prems obtain j where "find_sub sought cs = Some j" and "k = Suc j" by auto
    with Cons.IH [of j] show ?thesis by auto
  qed
qed

lemma find_sub_take_None:
  "find_sub sought s = Some k \<Longrightarrow> j < k \<Longrightarrow> \<not> starts_with sought (drop j s)"
proof (induction s arbitrary: j k)
  case Nil
  then show ?case by (simp split: if_splits)
next
  case (Cons c cs)
  then show ?case by (cases j) (auto split: if_splits)
qed

lemma find_sub_None: "find_sub sought s = None \<Longrightarrow> \<not> starts_with sought (drop j s)"
proof (induction s arbitrary: j)
  case Nil
  then show ?case by (simp add: starts_with_def split: if_splits)
next
  case (Cons c cs)
  then show ?case by (cases j) (auto split: if_splits)
qed

lemma find_sub_NoneI: "(\<And>j. j \<le> length s \<Longrightarrow> \<not> starts_with sought (drop j s)) \<Longrightarrow> find_sub sought s = None"
proof (induction s)
  case Nil
  from Nil [of 0] show ?case by (auto simp: starts_with_def)
next
  case (Cons c cs)
  have "find_sub sought cs = None"
    by (rule Cons.IH) (use Cons.prems in \<open>metis Suc_le_mono drop_Suc_Cons length_Cons\<close>)
  with Cons.prems [of 0] show ?case by simp
qed

lemma find_from_append:
  "find_from (pre @ s) sought (length pre) = map_option ((+) (length pre)) (find_sub sought s)"
  by (simp add: find_from_def)

section \<open>Replacement\<close>

text \<open>Every occurrence replaced, from the left and without overlaps, the replacements not searched.\<close>

function replace_all :: "string \<Rightarrow> string \<Rightarrow> string \<Rightarrow> string" where
  "replace_all sought replacement [] = []"
| "replace_all sought replacement (c # cs) =
     (if sought \<noteq> [] \<and> starts_with sought (c # cs)
      then replacement @ replace_all sought replacement (drop (length sought) (c # cs))
      else c # replace_all sought replacement cs)"
  by pat_completeness auto
termination
proof (relation "measure (\<lambda>(s, r, str). length str)", goal_cases)
  case (2 sought replacement c cs)
  then show ?case by (cases sought) auto
qed auto

lemma replace_all_None: "find_sub sought s = None \<Longrightarrow> replace_all sought replacement s = s"
proof (induction s)
  case Nil
  show ?case by simp
next
  case (Cons c cs)
  then show ?case by (auto split: if_splits)
qed

lemma replace_all_Some:
  "find_sub sought s = Some k \<Longrightarrow> sought \<noteq> [] \<Longrightarrow>
   replace_all sought replacement s =
     take k s @ replacement @ replace_all sought replacement (drop (k + length sought) s)"
proof (induction s arbitrary: k)
  case Nil
  then show ?case by simp
next
  case (Cons c cs)
  show ?case
  proof (cases "starts_with sought (c # cs)")
    case True
    with Cons.prems show ?thesis by simp
  next
    case False
    with Cons.prems obtain j where "find_sub sought cs = Some j" and "k = Suc j" by auto
    with Cons.IH [of j] Cons.prems False show ?thesis by simp
  qed
qed

lemma replace_loop_replace_all:
  "sought \<noteq> [] \<Longrightarrow>
   replace_loop sought replacement (length pre) (pre @ s) = Some (pre @ replace_all sought replacement s)"
proof (induction s arbitrary: pre rule: length_induct)
  case (1 s)
  show ?case
  proof (cases "find_sub sought s")
    case None
    then show ?thesis
      by (subst replace_loop.simps) (simp add: find_from_append replace_all_None)
  next
    case (Some k)
    let ?pre = "pre @ take k s @ replacement" and ?rest = "drop (k + length sought) s"
    from Some have k: "k + length sought \<le> length s" using find_sub_Some by blast
    have "replace_loop sought replacement (length ?pre) (?pre @ ?rest) =
        Some (?pre @ replace_all sought replacement ?rest)"
      using 1(1) [rule_format, of ?rest ?pre] 1(2) k by (cases sought) auto
    moreover have "length ?pre = length pre + k + length replacement" using k by simp
    ultimately show ?thesis
      using Some 1(2) k
      by (subst replace_loop.simps) (simp add: find_from_append replace_all_Some min_def add.assoc)
  qed
qed

lemma find_from_empty: "start \<le> length str \<Longrightarrow> find_from str [] start = Some start"
proof -
  have "find_sub [] s = Some 0" for s by (cases s) (auto simp: starts_with_def)
  then show "start \<le> length str \<Longrightarrow> find_from str [] start = Some start" by (simp add: find_from_def)
qed

lemma replace_loop_empty:
  assumes "replace_loop sought replacement start str = Some r"
  shows "sought = [] \<longrightarrow> \<not> start \<le> length str"
proof (rule replace_loop.raw_induct [where P = "\<lambda>sought replacement start str r. sought = [] \<longrightarrow> \<not> start \<le> length str",
      OF _ assms], intro impI notI)
  fix loop sought replacement start str r
  assume ih: "\<And>sought replacement start str r.
      loop sought replacement start str = Some r \<Longrightarrow> sought = [] \<longrightarrow> \<not> start \<le> length str"
    and step: "(case find_from str sought start of None \<Rightarrow> Some str
      | Some pos \<Rightarrow> loop sought replacement (pos + length replacement)
          (take pos str @ replacement @ drop (pos + length sought) str)) = Some r"
    and "sought = []" and "start \<le> length str"
  then have "loop [] replacement (start + length replacement)
      (take start str @ replacement @ drop start str) = Some r"
    by (simp add: find_from_empty)
  from ih [OF this] \<open>start \<le> length str\<close> show False by simp
qed

text \<open>
  C10: \<open>replaceString\<close> returns, with every occurrence replaced from the left, exactly when the
  string it looks for is not empty; for the empty string its loop never ends.
\<close>

theorem replaceString_replace_all:
  "replaceString str sought replacement =
     (if sought = [] then None else Some (replace_all sought replacement str))"
  using replace_loop_replace_all [of sought replacement "[]" str]
    replace_loop_empty [of sought replacement 0 str]
  by (cases "replace_loop sought replacement 0 str") (auto simp: replaceString_def)

section \<open>Splitting\<close>

fun join :: "string \<Rightarrow> string list \<Rightarrow> string" where
  "join sep [] = []"
| "join sep [p] = p"
| "join sep (p # q # ps) = p @ sep @ join sep (q # ps)"

lemma find_sub_before:
  assumes "find_sub sought s = Some k" and "sought \<noteq> []"
  shows "find_sub sought (take k s) = None"
proof (rule find_sub_NoneI)
  fix j
  have k: "k + length sought \<le> length s" using find_sub_Some [OF assms(1)] by blast
  assume j: "j \<le> length (take k s)"
  show "\<not> starts_with sought (drop j (take k s))"
  proof
    assume "starts_with sought (drop j (take k s))"
    then obtain r where r: "drop j (take k s) = sought @ r" by (auto simp: starts_with_append)
    then have "j < k" using j k assms(2) by (cases "j = k") auto
    moreover have "drop j s = drop j (take k s) @ drop k s"
      using j k by (metis append_take_drop_id drop_append drop_0 diff_is_0_eq)
    with r have "starts_with sought (drop j s)" by (auto simp: starts_with_append)
    ultimately show False using find_sub_take_None [OF assms(1)] by blast
  qed
qed

text \<open>What \<open>explodeString\<close> promises of the parts of a string.\<close>

definition split_of :: "string \<Rightarrow> int \<Rightarrow> string \<Rightarrow> string list \<Rightarrow> bool" where
  "split_of separator limit s ps \<longleftrightarrow>
     ps \<noteq> [] \<and> join separator ps = s \<and> (\<forall>p\<in>set (butlast ps). find_sub separator p = None) \<and>
     (0 \<le> limit \<longrightarrow> int (length ps) \<le> limit + 1) \<and>
     (limit < 0 \<or> int (length ps) \<le> limit \<longrightarrow> find_sub separator (last ps) = None)"

lemma split_of_Cons:
  assumes "split_of separator (limit - 1) (drop (k + length separator) s) ps"
    and "find_sub separator s = Some k" and "separator \<noteq> []" and "limit \<noteq> 0"
  shows "split_of separator limit s (take k s # ps)"
proof -
  have "join separator (take k s # ps) = s"
    using assms find_sub_Some [OF assms(2)] by (cases ps) (auto simp: split_of_def)
  with assms find_sub_before [OF assms(2,3)] show ?thesis by (auto simp: split_of_def)
qed

lemma explode_loop_split:
  "separator \<noteq> [] \<Longrightarrow>
   \<exists>ps. explode_loop separator limit returnVector s = Some (returnVector @ ps) \<and> split_of separator limit s ps"
proof (induction s arbitrary: limit returnVector rule: length_induct)
  case (1 s)
  show ?case
  proof (cases "limit = 0 \<or> find_sub separator s = None")
    case True
    then show ?thesis by (subst explode_loop.simps) (auto simp: split_of_def)
  next
    case False
    then obtain k where k: "find_sub separator s = Some k" and "limit \<noteq> 0" by auto
    let ?rest = "drop (k + length separator) s"
    have "length ?rest < length s" using find_sub_Some [OF k] 1(2) by (cases separator) auto
    with 1 obtain ps where
      ps: "explode_loop separator (limit - 1) (returnVector @ [take k s]) ?rest =
             Some ((returnVector @ [take k s]) @ ps)" "split_of separator (limit - 1) ?rest ps"
      by blast
    with k \<open>limit \<noteq> 0\<close> 1(2) have "split_of separator limit s (take k s # ps)"
      by (intro split_of_Cons) auto
    moreover have "explode_loop separator limit returnVector s = Some (returnVector @ take k s # ps)"
      using k \<open>limit \<noteq> 0\<close> ps by (subst explode_loop.simps) simp
    ultimately show ?thesis by blast
  qed
qed

text \<open>
  For a separator that is not empty \<open>explodeString\<close> returns, and its parts joined by the
  separator are the string; no part but the last contains the separator, and the last one neither
  unless the limit stopped the search; a limit that is not negative bounds the number of parts.
\<close>

theorem explodeString_split:
  assumes "separator \<noteq> []"
  shows "\<exists>ps. explodeString s separator limit = Some ps \<and> split_of separator limit s ps"
  using explode_loop_split [OF assms, of limit "[]" s] by (simp add: explodeString_def)

theorem explodeString_split_witness:
  "\<exists>ps. explodeString ''a, b, c'' '', '' 1 = Some ps \<and> split_of '', '' 1 ''a, b, c'' ps"
  by (rule explodeString_split) simp

end
