(* ===== verification/Wildcard_Tree.thy ===== *)
theory Wildcard_Tree
  imports Text Return_Value "HOL-Library.Sublist" "HOL-Library.AList"
begin

text \<open>
  \<open>src/src/wildcardtree.cpp\<close>, the trie of the names of the players that are online, and the
  registry of players in \<open>game.cpp\<close> that keeps it beside its maps. A node's \<open>std::map\<close> of
  children is an association list with one entry per character; the order of the entries is not
  used, since \<open>findOne\<close> asks for the first entry of a map of one entry only.
\<close>


datatype wnode = WNode (wchildren: "(char \<times> wnode) list") (breakpoint: bool)

definition getChild :: "char \<Rightarrow> wnode \<Rightarrow> wnode option" where
  "getChild ch n = map_of (wchildren n) ch"

definition set_child :: "char \<Rightarrow> wnode \<Rightarrow> wnode \<Rightarrow> wnode" where
  "set_child ch c n = WNode (AList.update ch c (wchildren n)) (breakpoint n)"

definition erase_child :: "char \<Rightarrow> wnode \<Rightarrow> wnode" where
  "erase_child ch n = WNode (AList.delete ch (wchildren n)) (breakpoint n)"

text \<open>The child \<open>addChild\<close> returns, which it has put in the map.\<close>

definition addChild :: "char \<Rightarrow> bool \<Rightarrow> wnode \<Rightarrow> wnode" where
  "addChild ch bp n =
     (case getChild ch n of
        Some child \<Rightarrow> if bp \<and> \<not> breakpoint child then WNode (wchildren child) True else child
      | None \<Rightarrow> WNode [] bp)"

text \<open>
  \<open>insert\<close>: the length of the empty string minus one is the largest \<open>size_t\<close>, and the code
  then reads past the string; it is called with names only, which are not empty.
\<close>

fun insert_chars :: "string \<Rightarrow> wnode \<Rightarrow> wnode" where
  "insert_chars [] n = n"
| "insert_chars [c] n = set_child c (addChild c True n) n"
| "insert_chars (c # d # cs) n = set_child c (insert_chars (d # cs) (addChild c False n)) n"

definition tree_insert :: "string \<Rightarrow> wnode \<Rightarrow> wnode option" where
  "tree_insert str n = (if str = [] then None else Some (insert_chars str n))"

text \<open>
  \<open>remove\<close>: \<open>None\<close> when the path leaves the tree. On the way back a child that has become a dead
  end is erased from its parent; a child that stays ends the loop, and so do all nodes above it,
  which have children.
\<close>

fun remove_path :: "string \<Rightarrow> wnode \<Rightarrow> wnode option" where
  "remove_path [] n = Some (WNode (wchildren n) False)"
| "remove_path (c # cs) n =
     (case getChild c n of
        None \<Rightarrow> None
      | Some child \<Rightarrow>
          (case remove_path cs child of
             None \<Rightarrow> None
           | Some child \<Rightarrow>
               Some (if wchildren child \<noteq> [] \<or> breakpoint child then set_child c child n else erase_child c n)))"

definition tree_remove :: "string \<Rightarrow> wnode \<Rightarrow> wnode" where
  "tree_remove str n = (case remove_path str n of None \<Rightarrow> n | Some n \<Rightarrow> n)"

text \<open>The two loops of \<open>findOne\<close>: along the query, then along the only children.\<close>

fun follow :: "string \<Rightarrow> wnode \<Rightarrow> wnode option" where
  "follow [] n = Some n"
| "follow (c # cs) n = (case getChild c n of None \<Rightarrow> None | Some child \<Rightarrow> follow cs child)"

function complete :: "string \<Rightarrow> wnode \<Rightarrow> return_value \<times> string" where
  "complete result (WNode cs bp) =
     (case cs of
        [] \<Rightarrow> (RETURNVALUE_NOERROR, result)
      | [(c, child)] \<Rightarrow> if bp then (RETURNVALUE_NAMEISTOOAMBIGUOUS, result) else complete (result @ [c]) child
      | _ \<Rightarrow> (RETURNVALUE_NAMEISTOOAMBIGUOUS, result))"
  by pat_completeness auto
termination by (relation "measure (\<lambda>(r, n). size n)") auto

definition findOne :: "string \<Rightarrow> wnode \<Rightarrow> return_value \<times> string" where
  "findOne query n =
     (case follow query n of
        None \<Rightarrow> (RETURNVALUE_PLAYERWITHTHISNAMEISNOTONLINE, [])
      | Some n \<Rightarrow> complete query n)"

section \<open>The set of names a tree holds\<close>

definition member :: "wnode \<Rightarrow> string \<Rightarrow> bool" where
  "member n s = (case follow s n of None \<Rightarrow> False | Some n \<Rightarrow> breakpoint n)"

definition wnames :: "wnode \<Rightarrow> string set" where
  "wnames n = {s. member n s}"

text \<open>Every child leads to a name: it has children of its own or is the end of a name.\<close>

fun live :: "wnode \<Rightarrow> bool" where
  "live (WNode cs bp) \<longleftrightarrow>
     distinct (map fst cs) \<and> (\<forall>(c, n) \<in> set cs. (wchildren n \<noteq> [] \<or> breakpoint n) \<and> live n)"

lemma member_simps [simp]:
  "member n [] = breakpoint n"
  "member n (c # cs) = (case getChild c n of None \<Rightarrow> False | Some child \<Rightarrow> member child cs)"
  by (auto simp: member_def split: option.split)

lemma getChild_set_child [simp]:
  "getChild d (set_child c x n) = (if c = d then Some x else getChild d n)"
  by (simp add: getChild_def set_child_def update_conv')

lemma getChild_erase_child [simp]:
  "getChild d (erase_child c n) = (if c = d then None else getChild d n)"
  by (simp add: getChild_def erase_child_def delete_conv')

lemma breakpoint_set_child [simp]: "breakpoint (set_child c x n) = breakpoint n"
  by (simp add: set_child_def)

lemma breakpoint_erase_child [simp]: "breakpoint (erase_child c n) = breakpoint n"
  by (simp add: erase_child_def)

lemma getChild_leaf [simp]: "getChild c (WNode [] bp) = None"
  by (simp add: getChild_def)

lemma getChild_WNode_bp: "getChild c (WNode (wchildren n) bp) = getChild c n"
  by (simp add: getChild_def)

lemma member_insert_chars:
  "str \<noteq> [] \<Longrightarrow> member (insert_chars str n) s \<longleftrightarrow> s = str \<or> member n s"
proof (induction str n arbitrary: s rule: insert_chars.induct)
  case (2 c n)
  then show ?case
    by (cases s; cases "tl s") (auto simp: addChild_def getChild_WNode_bp split: option.splits)
next
  case (3 c d cs n)
  have "member (insert_chars (d # cs) (addChild c False n)) t \<longleftrightarrow> t = d # cs \<or> member (addChild c False n) t" for t
    by (rule 3) simp
  moreover have "member (addChild c False n) t \<longleftrightarrow> (case getChild c n of None \<Rightarrow> False | Some m \<Rightarrow> member m t)" for t
    by (cases t) (auto simp: addChild_def split: option.splits)
  ultimately show ?case by (cases s) auto
qed simp

lemma remove_path_member:
  "remove_path str n = Some m \<Longrightarrow> member m s \<longleftrightarrow> s \<noteq> str \<and> member n s"
proof (induction str n arbitrary: m s rule: remove_path.induct)
  case (1 n)
  then show ?case by (cases s) (auto simp: getChild_WNode_bp)
next
  case (2 c cs n)
  from 2(2) obtain child child' where
    child: "getChild c n = Some child" "remove_path cs child = Some child'"
    and m: "m = (if wchildren child' \<noteq> [] \<or> breakpoint child' then set_child c child' n else erase_child c n)"
    by (auto split: option.splits)
  from 2(1) child have sub: "member child' t \<longleftrightarrow> t \<noteq> cs \<and> member child t" for t by blast
  have dead: "\<not> member child' t" if "\<not> (wchildren child' \<noteq> [] \<or> breakpoint child')" for t
    using that by (cases t) (auto simp: getChild_def)
  show ?case
  proof (cases s)
    case Nil
    then show ?thesis by (simp add: m)
  next
    case (Cons d ds)
    then show ?thesis using child sub dead
      by (auto simp: m split: option.splits if_splits) blast
  qed
qed

lemma remove_path_None: "remove_path str n = None \<Longrightarrow> \<not> member n str"
  by (induction str n rule: remove_path.induct) (auto split: option.splits)

lemma live_iff:
  "live n \<longleftrightarrow> distinct (map fst (wchildren n)) \<and>
     (\<forall>c m. getChild c n = Some m \<longrightarrow> (wchildren m \<noteq> [] \<or> breakpoint m) \<and> live m)"
  by (cases n) (fastforce simp: getChild_def map_of_eq_Some_iff dest: map_of_SomeD)

declare live.simps [simp del]

lemma live_breakpoint: "live (WNode (wchildren n) bp) \<longleftrightarrow> live n"
  by (cases n) (simp add: live.simps)

lemma live_leaf [simp]: "live (WNode [] bp)"
  by (simp add: live.simps)

lemma live_child: "live n \<Longrightarrow> getChild c n = Some m \<Longrightarrow> live m"
  by (simp add: live_iff [of n])

lemma live_child_live: "live n \<Longrightarrow> getChild c n = Some m \<Longrightarrow> wchildren m \<noteq> [] \<or> breakpoint m"
  by (simp add: live_iff [of n])

lemma live_addChild: "live n \<Longrightarrow> live (addChild c bp n)"
  by (auto simp: addChild_def live_breakpoint dest: live_child split: option.splits)

lemma live_set_child:
  assumes "live n" and "live x" and "wchildren x \<noteq> [] \<or> breakpoint x"
  shows "live (set_child c x n)"
proof -
  have "distinct (map fst (wchildren (set_child c x n)))"
    using assms(1) by (simp add: set_child_def distinct_update live_iff [of n])
  with assms show ?thesis by (subst live_iff) (auto simp: live_iff [of n])
qed

lemma live_erase_child:
  assumes "live n"
  shows "live (erase_child c n)"
proof -
  have "distinct (map fst (wchildren (erase_child c n)))"
    using assms by (simp add: erase_child_def distinct_delete live_iff [of n])
  with assms show ?thesis by (subst live_iff) (auto simp: live_iff [of n])
qed

lemma wchildren_set_child [simp]: "wchildren (set_child c x n) \<noteq> []"
  by (cases "wchildren n") (auto simp: set_child_def)

lemma live_insert_chars:
  "live n \<Longrightarrow> str \<noteq> [] \<Longrightarrow> live (insert_chars str n) \<and> wchildren (insert_chars str n) \<noteq> []"
proof (induction str n rule: insert_chars.induct)
  case (2 c n)
  have "breakpoint (addChild c True n)" by (auto simp: addChild_def split: option.splits)
  with 2 show ?case by (simp add: live_set_child live_addChild)
next
  case (3 c d cs n)
  then show ?case by (simp add: live_set_child live_addChild)
qed simp

lemma live_remove_path: "remove_path str n = Some m \<Longrightarrow> live n \<Longrightarrow> live m"
proof (induction str n arbitrary: m rule: remove_path.induct)
  case (1 n)
  then show ?case by (auto simp: live_breakpoint)
next
  case (2 c cs n)
  from 2(2) obtain child child' where
    child: "getChild c n = Some child" "remove_path cs child = Some child'"
    and m: "m = (if wchildren child' \<noteq> [] \<or> breakpoint child' then set_child c child' n else erase_child c n)"
    by (auto split: option.splits)
  with 2 have "live child'" by (auto dest: live_child)
  then show ?case using 2(3) live_set_child [of n child' c] live_erase_child [of n c]
    by (simp add: m)
qed

section \<open>Searching\<close>

text \<open>In a live tree every node but the root leads to a name.\<close>

lemma live_has_name: "live n \<Longrightarrow> wchildren n \<noteq> [] \<or> breakpoint n \<Longrightarrow> \<exists>s. member n s"
proof (induction n)
  case (WNode cs bp)
  show ?case
  proof (cases "bp \<or> cs = []")
    case True
    with WNode(3) have "member (WNode cs bp) []" by auto
    then show ?thesis by blast
  next
    case False
    then obtain c m cs' where cs: "cs = (c, m) # cs'" by (cases cs) auto
    then have "getChild c (WNode cs bp) = Some m" by (simp add: getChild_def)
    moreover from this have "live m" and "wchildren m \<noteq> [] \<or> breakpoint m"
      using WNode(2) live_iff [of "WNode cs bp"] by blast+
    then obtain s where "member m s" using WNode(1) [of "(c, m)" m] cs by auto
    ultimately have "member (WNode cs bp) (c # s)" by simp
    then show ?thesis by blast
  qed
qed

lemma wnames_WNode:
  "wnames n = (if breakpoint n then {[]} else {}) \<union>
     (\<Union>(c, m) \<in> {(c, m). getChild c n = Some m}. (#) c ` wnames m)"
proof (intro set_eqI iffI)
  fix s
  assume "s \<in> wnames n"
  then show "s \<in> (if breakpoint n then {[]} else {}) \<union>
     (\<Union>(c, m) \<in> {(c, m). getChild c n = Some m}. (#) c ` wnames m)"
    by (cases s) (auto simp: wnames_def split: option.splits)
qed (auto simp: wnames_def split: if_splits)

text \<open>What a search should answer, by the set of the names that match.\<close>

definition answer :: "string set \<Rightarrow> return_value" where
  "answer S = (if S = {} then RETURNVALUE_PLAYERWITHTHISNAMEISNOTONLINE
               else if \<exists>s. S = {s} then RETURNVALUE_NOERROR else RETURNVALUE_NAMEISTOOAMBIGUOUS)"

lemma two_names: "s \<in> S \<Longrightarrow> t \<in> S \<Longrightarrow> s \<noteq> t \<Longrightarrow> \<nexists>u. S = {u}"
  by auto

lemma singleton_Cons_image [simp]: "(\<exists>s. (#) c ` S = {s}) \<longleftrightarrow> (\<exists>s. S = {s})"
proof -
  have "card ((#) c ` S) = card S" by (simp add: card_image inj_on_def)
  then show ?thesis by (simp flip: card_1_singleton_iff)
qed

definition completes :: "string set \<Rightarrow> string \<Rightarrow> return_value \<times> string \<Rightarrow> bool" where
  "completes S q p \<longleftrightarrow>
     (if \<exists>s. S = {s} then fst p = RETURNVALUE_NOERROR \<and> (\<forall>s. S = {s} \<longrightarrow> snd p = q @ s)
      else S \<noteq> {} \<and> fst p = RETURNVALUE_NAMEISTOOAMBIGUOUS)"

lemma completes_unique: "completes {s} q (RETURNVALUE_NOERROR, q @ s)"
  by (simp add: completes_def)

lemma completes_many: "\<lbrakk>S \<noteq> {}; \<nexists>s. S = {s}\<rbrakk> \<Longrightarrow> completes S q (RETURNVALUE_NAMEISTOOAMBIGUOUS, r)"
  by (simp add: completes_def)

lemma completes_Cons: "completes S (q @ [c]) p \<Longrightarrow> completes ((#) c ` S) q p"
  by (auto simp: completes_def split: if_splits)

lemma complete_names:
  "live n \<Longrightarrow> wchildren n \<noteq> [] \<or> breakpoint n \<Longrightarrow>
   completes (wnames n) q (complete q n)"
proof (induction q n rule: complete.induct)
  case (1 q cs bp)
  let ?n = "WNode cs bp"
  consider "cs = []" | c m where "cs = [(c, m)]" | c m d k rest where "cs = (c, m) # (d, k) # rest"
    by (metis list.exhaust surj_pair)
  then show ?case
  proof cases
    case 1
    then have "wnames ?n = {[]}" using \<open>wchildren ?n \<noteq> [] \<or> breakpoint ?n\<close>
      by (subst wnames_WNode) auto
    then show ?thesis using \<open>cs = []\<close> completes_unique [of "[]" q] by simp
  next
    case (2 c m)
    then have child: "getChild c ?n = Some m" by (simp add: getChild_def)
    have m: "live m" "wchildren m \<noteq> [] \<or> breakpoint m"
      using live_child [OF 1(2) child] live_child_live [OF 1(2) child] by simp_all
    have "{(d, k). getChild d ?n = Some k} = {(c, m)}" using 2 by (auto simp: getChild_def split: if_splits)
    then have names: "wnames ?n = (if bp then {[]} else {}) \<union> (#) c ` wnames m"
      by (simp add: wnames_WNode [of ?n])
    show ?thesis
    proof (cases bp)
      case True
      obtain s where "member m s" using live_has_name m by blast
      then have "[] \<in> wnames ?n" and "c # s \<in> wnames ?n"
        using names True by (auto simp: wnames_def)
      with two_names [of "[]" "wnames ?n" "c # s"] completes_many [of "wnames ?n" q q]
      show ?thesis using 2 True by auto
    next
      case False
      from 1(1) [of "(c, m)" "[]" c m] 2 False m
      have "completes (wnames m) (q @ [c]) (complete (q @ [c]) m)" by simp
      moreover have "complete q ?n = complete (q @ [c]) m" "wnames ?n = (#) c ` wnames m"
        using False names 2 by simp_all
      ultimately show ?thesis using completes_Cons by simp
    qed
  next
    case (3 c m d k rest)
    have dist: "c \<noteq> d" using \<open>live ?n\<close> 3 by (simp add: live.simps)
    then have child: "getChild c ?n = Some m" "getChild d ?n = Some k"
      using 3 by (auto simp: getChild_def)
    obtain s where "member m s"
      using live_has_name [OF live_child live_child_live, OF 1(2) child(1) 1(2) child(1)] by blast
    moreover obtain t where "member k t"
      using live_has_name [OF live_child live_child_live, OF 1(2) child(2) 1(2) child(2)] by blast
    ultimately have "c # s \<in> wnames ?n" "d # t \<in> wnames ?n"
      using child by (auto simp: wnames_def)
    with two_names [of "c # s" "wnames ?n" "d # t"] completes_many [of "wnames ?n" q q] dist 3
    show ?thesis by auto
  qed
qed

lemma follow_live: "follow q n = Some m \<Longrightarrow> live n \<Longrightarrow> live m"
  by (induction q n rule: follow.induct) (auto dest: live_child split: option.splits)

lemma follow_live_child:
  "follow q n = Some m \<Longrightarrow> live n \<Longrightarrow> q \<noteq> [] \<Longrightarrow> wchildren m \<noteq> [] \<or> breakpoint m"
proof (induction q n rule: follow.induct)
  case (2 c cs n)
  then obtain k where "getChild c n = Some k" and "follow cs k = Some m" by (auto split: option.splits)
  with 2 live_child [of n c k] live_child_live [of n c k] show ?case by (cases cs) auto
qed simp

lemma names_with_prefix:
  "{s \<in> wnames n. prefix q s} = (case follow q n of None \<Rightarrow> {} | Some m \<Rightarrow> (@) q ` wnames m)"
proof (induction q n rule: follow.induct)
  case (1 n)
  then show ?case by (auto simp: image_def)
next
  case (2 c cs n)
  have "s \<in> {s \<in> wnames n. prefix (c # cs) s} \<longleftrightarrow>
      s \<in> (case getChild c n of None \<Rightarrow> {} | Some m \<Rightarrow> (#) c ` {s \<in> wnames m. prefix cs s})" for s
    by (cases s) (auto simp: wnames_def split: option.splits)
  then have "{s \<in> wnames n. prefix (c # cs) s} =
      (case getChild c n of None \<Rightarrow> {} | Some m \<Rightarrow> (#) c ` {s \<in> wnames m. prefix cs s})"
    by (rule set_eqI)
  with 2 show ?case by (auto split: option.splits)
qed

lemma singleton_append_image [simp]: "(\<exists>s. (@) q ` S = {s}) \<longleftrightarrow> (\<exists>s. S = {s})"
proof -
  have "card ((@) q ` S) = card S" by (simp add: card_image inj_on_def)
  then show ?thesis by (simp flip: card_1_singleton_iff)
qed

lemma findOne_names:
  assumes "live n" and "q \<noteq> [] \<or> wnames n \<noteq> {}"
  shows "fst (findOne q n) = answer {s \<in> wnames n. prefix q s} \<and>
         (\<forall>s. {s \<in> wnames n. prefix q s} = {s} \<longrightarrow> snd (findOne q n) = s)"
proof (cases "follow q n")
  case None
  then show ?thesis by (simp add: names_with_prefix findOne_def answer_def)
next
  case (Some m)
  have m: "live m" using Some assms follow_live by blast
  have "wchildren m \<noteq> [] \<or> breakpoint m"
  proof (cases "q = []")
    case True
    with assms obtain s where "member n s" by (auto simp: wnames_def)
    with True Some show ?thesis by (cases s) (auto simp: getChild_def split: option.splits)
  next
    case False
    with Some assms follow_live_child show ?thesis by blast
  qed
  note * = complete_names [OF m this, of q]
  have S: "{s \<in> wnames n. prefix q s} = (@) q ` wnames m" by (simp add: names_with_prefix Some)
  have "fst (complete q m) = answer ((@) q ` wnames m) \<and> (\<forall>s. (@) q ` wnames m = {s} \<longrightarrow> snd (complete q m) = s)"
  proof (cases "\<exists>s. wnames m = {s}")
    case True
    then show ?thesis using * by (auto simp: completes_def answer_def)
  next
    case False
    then have "(@) q ` wnames m \<noteq> {s}" for s using singleton_append_image [of q "wnames m"] by metis
    then show ?thesis using * False by (simp add: completes_def answer_def)
  qed
  then show ?thesis
    by (simp add: S findOne_def Some)
qed

section \<open>The contract of an index of names\<close>

locale name_index =
  fixes ins :: "string \<Rightarrow> 't \<Rightarrow> 't"
    and rem :: "string \<Rightarrow> 't \<Rightarrow> 't"
    and search :: "string \<Rightarrow> 't \<Rightarrow> return_value \<times> string"
    and names :: "'t \<Rightarrow> string set"
    and inv :: "'t \<Rightarrow> bool"
  assumes names_ins: "inv t \<Longrightarrow> s \<noteq> [] \<Longrightarrow> names (ins s t) = insert s (names t)"
    and names_rem: "inv t \<Longrightarrow> names (rem s t) = names t - {s}"
    and inv_ins: "inv t \<Longrightarrow> s \<noteq> [] \<Longrightarrow> inv (ins s t)"
    and inv_rem: "inv t \<Longrightarrow> inv (rem s t)"
    and search_names: "inv t \<Longrightarrow> q \<noteq> [] \<or> names t \<noteq> {} \<Longrightarrow>
      fst (search q t) = answer {s \<in> names t. prefix q s} \<and>
      (\<forall>s. {s \<in> names t. prefix q s} = {s} \<longrightarrow> snd (search q t) = s)"
begin

text \<open>A map and the index of its keys stay in step, and the index answers for the map.\<close>

lemma keys_ins: "inv t \<and> names t = dom m \<Longrightarrow> s \<noteq> [] \<Longrightarrow> inv (ins s t) \<and> names (ins s t) = dom (m(s \<mapsto> p))"
  by (simp add: names_ins inv_ins)

lemma keys_rem: "inv t \<and> names t = dom m \<Longrightarrow> inv (rem s t) \<and> names (rem s t) = dom (m(s := None))"
  by (simp add: names_rem inv_rem)

lemma search_keys:
  assumes "inv t \<and> names t = dom m" and "q \<noteq> [] \<or> dom m \<noteq> {}"
  shows "fst (search q t) = answer {s \<in> dom m. prefix q s}"
    and "{s \<in> dom m. prefix q s} = {s} \<Longrightarrow> search q t = (RETURNVALUE_NOERROR, s)"
  using assms search_names [of t q] by (auto simp: answer_def prod_eq_iff)

end

lemma wnames_insert_chars: "str \<noteq> [] \<Longrightarrow> wnames (insert_chars str n) = insert str (wnames n)"
  by (auto simp: wnames_def member_insert_chars)

lemma wnames_tree_remove: "wnames (tree_remove str n) = wnames n - {str}"
  by (auto simp: wnames_def tree_remove_def remove_path_member dest: remove_path_None split: option.splits)

lemma live_tree_remove: "live n \<Longrightarrow> live (tree_remove str n)"
  by (auto simp: tree_remove_def live_remove_path split: option.split)

interpretation wildcard: name_index insert_chars tree_remove findOne wnames live
  by unfold_locales
    (simp_all add: wnames_insert_chars wnames_tree_remove live_insert_chars live_tree_remove findOne_names)

text \<open>
  C11: the tree is a set of names. From the empty root, after any sequence of insertions of names
  and of removals, it holds the names inserted and not removed since, and \<open>findOne\<close> answers by the
  set of those that complete the query: the only one, that there are several, or that there is none.
\<close>

datatype tree_op = Insert string | Remove string

fun tree_run :: "tree_op list \<Rightarrow> wnode \<Rightarrow> wnode option" where
  "tree_run [] n = Some n"
| "tree_run (Insert s # ops) n = Option.bind (tree_insert s n) (tree_run ops)"
| "tree_run (Remove s # ops) n = tree_run ops (tree_remove s n)"

fun set_run :: "tree_op list \<Rightarrow> string set \<Rightarrow> string set" where
  "set_run [] S = S"
| "set_run (Insert s # ops) S = set_run ops (insert s S)"
| "set_run (Remove s # ops) S = set_run ops (S - {s})"

lemma tree_run_set:
  "tree_run ops n = Some m \<Longrightarrow> live n \<Longrightarrow> live m \<and> wnames m = set_run ops (wnames n)"
proof (induction ops n rule: tree_run.induct)
  case (2 s ops n)
  then have "s \<noteq> []" by (auto simp: tree_insert_def)
  with 2 show ?case by (simp add: tree_insert_def live_insert_chars wnames_insert_chars)
next
  case (3 s ops n)
  then show ?case by (simp add: live_tree_remove wnames_tree_remove)
qed simp

theorem wildcard_tree_is_set:
  assumes "tree_run ops (WNode [] False) = Some n" and "S = {s \<in> set_run ops {}. prefix q s}"
    and "q \<noteq> []"
  shows "fst (findOne q n) = answer S \<and> (\<forall>s. S = {s} \<longrightarrow> snd (findOne q n) = s)"
proof -
  have "wnames (WNode [] False) = {}" by (auto simp: wnames_WNode [of "WNode [] False"])
  with tree_run_set [OF assms(1)] have "live n" and "wnames n = set_run ops {}" by simp_all
  with findOne_names [of n q] assms(2,3) show ?thesis by simp
qed

theorem wildcard_tree_is_set_witness:
  "fst (findOne ''a'' (the (tree_run [Insert ''ab'', Insert ''abc'', Remove ''ab''] (WNode [] False)))) = answer {''abc''}"
proof -
  have "tree_run [Insert ''ab'', Insert ''abc'', Remove ''ab''] (WNode [] False) =
      Some (WNode [(CHR ''a'', WNode [(CHR ''b'', WNode [(CHR ''c'', WNode [] True)] False)] False)] False)"
    by (simp add: tree_insert_def tree_remove_def addChild_def set_child_def getChild_def)
  moreover have "{''abc''} = {s \<in> set_run [Insert ''ab'', Insert ''abc'', Remove ''ab''] {}. prefix ''a'' s}"
    by auto
  ultimately show ?thesis
    using wildcard_tree_is_set [of "[Insert ''ab'', Insert ''abc'', Remove ''ab'']" _ "{''abc''}" "''a''"] by simp
qed

end
