(* ===== verification/Registry.thy ===== *)
theory Registry
  imports Wildcard_Tree "HOL-Library.Word"
begin

text \<open>
  The registry of online players in \<open>src/src/game.cpp\<close>: \<open>addPlayer\<close>, \<open>removePlayer\<close> and the
  lookups by name, by GUID and by a name with a wildcard, over the maps the class \<open>Game\<close> keeps
  beside the wildcard tree. Of a player only what the registry reads is kept.
\<close>

record player_entry =
  pl_name :: string
  pl_guid :: "32 word"
  pl_id :: "32 word"

record registry =
  mappedPlayerNames :: "string \<rightharpoonup> player_entry"
  mappedPlayerGuids :: "32 word \<rightharpoonup> player_entry"
  players :: "32 word \<rightharpoonup> player_entry"
  wildcardTree :: wnode

definition PLAYER_NAME_LENGTH :: nat where
  "PLAYER_NAME_LENGTH = 25"

text \<open>\<open>None\<close> where the code has no defined behaviour: the name is empty.\<close>

definition addPlayer :: "player_entry \<Rightarrow> registry \<Rightarrow> registry option" where
  "addPlayer p r =
     (let lowercase_name = asLowerCaseString (pl_name p) in
      case tree_insert lowercase_name (wildcardTree r) of
        None \<Rightarrow> None
      | Some t \<Rightarrow> Some (r\<lparr>mappedPlayerNames := (mappedPlayerNames r)(lowercase_name \<mapsto> p),
                        mappedPlayerGuids := (mappedPlayerGuids r)(pl_guid p \<mapsto> p),
                        wildcardTree := t,
                        players := (players r)(pl_id p \<mapsto> p)\<rparr>))"

definition removePlayer :: "player_entry \<Rightarrow> registry \<Rightarrow> registry" where
  "removePlayer p r =
     (let lowercase_name = asLowerCaseString (pl_name p) in
      r\<lparr>mappedPlayerNames := (mappedPlayerNames r)(lowercase_name := None),
        mappedPlayerGuids := (mappedPlayerGuids r)(pl_guid p := None),
        wildcardTree := tree_remove lowercase_name (wildcardTree r),
        players := (players r)(pl_id p := None)\<rparr>)"

definition getPlayerByName :: "string \<Rightarrow> registry \<Rightarrow> player_entry option" where
  "getPlayerByName s r = (if s = [] then None else mappedPlayerNames r (asLowerCaseString s))"

definition getPlayerByGUID :: "32 word \<Rightarrow> registry \<Rightarrow> player_entry option" where
  "getPlayerByGUID guid r = (if guid = 0 then None else mappedPlayerGuids r guid)"

text \<open>\<open>player\<close> is the caller's pointer, which the code leaves alone on the first returns.\<close>

definition getPlayerByNameWildcard ::
  "string \<Rightarrow> player_entry option \<Rightarrow> registry \<Rightarrow> return_value \<times> player_entry option" where
  "getPlayerByNameWildcard s player r =
     (let strlen = length s;
          found = (\<lambda>player. if player = None then (RETURNVALUE_PLAYERWITHTHISNAMEISNOTONLINE, player) else (RETURNVALUE_NOERROR, player))
      in if strlen = 0 \<or> strlen > PLAYER_NAME_LENGTH then (RETURNVALUE_PLAYERWITHTHISNAMEISNOTONLINE, player)
      else if last s = CHR ''~'' then
        let query = asLowerCaseString (take (strlen - 1) s);
            (ret, result) = findOne query (wildcardTree r)
        in if ret \<noteq> RETURNVALUE_NOERROR then (ret, player)
           else found (getPlayerByName result r)
      else found (getPlayerByName s r))"

section \<open>Histories\<close>

datatype registry_event = Login player_entry | Logout player_entry

fun run_registry :: "registry_event list \<Rightarrow> registry \<Rightarrow> registry option" where
  "run_registry [] r = Some r"
| "run_registry (Login p # es) r = Option.bind (addPlayer p r) (run_registry es)"
| "run_registry (Logout p # es) r = run_registry es (removePlayer p r)"

definition empty_registry :: registry where
  "empty_registry = \<lparr>mappedPlayerNames = (\<lambda>_. None), mappedPlayerGuids = (\<lambda>_. None),
     players = (\<lambda>_. None), wildcardTree = WNode [] False\<rparr>"

text \<open>The tree indexes the names, which are lower case and not empty.\<close>

definition registry_inv :: "registry \<Rightarrow> bool" where
  "registry_inv r \<longleftrightarrow>
     (live (wildcardTree r) \<and> wnames (wildcardTree r) = dom (mappedPlayerNames r)) \<and>
     (\<forall>n p. mappedPlayerNames r n = Some p \<longrightarrow> n \<noteq> [] \<and> asLowerCaseString n = n)"

lemma tolower_idem [simp]: "tolower (tolower c) = tolower c"
proof (cases "65 \<le> (of_char c :: nat) \<and> (of_char c :: nat) \<le> 90")
  case True
  then have "(of_char (char_of (of_char c + 32 :: nat)) :: nat) = of_char c + 32"
    by (simp add: of_char_of take_bit_nat_eq_self)
  with True show ?thesis by (simp add: tolower_def Let_def)
next
  case False
  then show ?thesis by (auto simp: tolower_def Let_def)
qed

lemma asLowerCaseString_idem [simp]: "asLowerCaseString (asLowerCaseString s) = asLowerCaseString s"
  by (simp add: asLowerCaseString_def)

lemma asLowerCaseString_Nil [simp]: "asLowerCaseString s = [] \<longleftrightarrow> s = []"
  "[] = asLowerCaseString s \<longleftrightarrow> s = []"
  "asLowerCaseString [] = []"
  by (simp_all add: asLowerCaseString_def)

lemma addPlayer_inv: "registry_inv r \<Longrightarrow> addPlayer p r = Some r' \<Longrightarrow> registry_inv r'"
  using wildcard.keys_ins [of "wildcardTree r" "mappedPlayerNames r" "asLowerCaseString (pl_name p)" p]
  by (auto simp: registry_inv_def addPlayer_def tree_insert_def Let_def split: if_splits) blast+

lemma removePlayer_inv: "registry_inv r \<Longrightarrow> registry_inv (removePlayer p r)"
  using wildcard.keys_rem [of "wildcardTree r" "mappedPlayerNames r" "asLowerCaseString (pl_name p)"]
  by (auto simp: registry_inv_def removePlayer_def Let_def)

lemma run_registry_inv: "run_registry es r = Some r' \<Longrightarrow> registry_inv r \<Longrightarrow> registry_inv r'"
proof (induction es r rule: run_registry.induct)
  case (2 p es r)
  then obtain s where "addPlayer p r = Some s" and "run_registry es s = Some r'"
    by (auto split: bind_splits)
  with 2 addPlayer_inv show ?case by auto
qed (auto simp: removePlayer_inv)

lemma empty_registry_inv: "registry_inv empty_registry"
  using wnames_WNode [of "WNode [] False"] by (simp add: registry_inv_def empty_registry_def)

text \<open>
  C12: after any history of logins and logouts a name with a wildcard (one of at most 24
  characters before the tilde) finds the player whose name it begins, in whatever case it is
  written, when exactly one name online does; otherwise it says that there are several, or none.
\<close>

theorem wildcard_lookup:
  assumes "run_registry es empty_registry = Some r" and "length q < PLAYER_NAME_LENGTH"
    and "S = {n \<in> dom (mappedPlayerNames r). prefix (asLowerCaseString q) n}"
  shows "fst (getPlayerByNameWildcard (q @ ''~'') None r) = answer S \<and>
         (\<forall>n. S = {n} \<longrightarrow> snd (getPlayerByNameWildcard (q @ ''~'') None r) = mappedPlayerNames r n) \<and>
         ((\<nexists>n. S = {n}) \<longrightarrow> snd (getPlayerByNameWildcard (q @ ''~'') None r) = None)"
proof -
  let ?q = "asLowerCaseString q"
  have inv: "registry_inv r" using run_registry_inv [OF assms(1) empty_registry_inv] .
  then have keys: "live (wildcardTree r) \<and> wnames (wildcardTree r) = dom (mappedPlayerNames r)"
    by (simp add: registry_inv_def)
  show ?thesis
  proof (cases "?q = [] \<and> dom (mappedPlayerNames r) = {}")
    case True
    then have "S = {}" using assms(3) by auto
    moreover have "wchildren (wildcardTree r) = []"
      using live_has_name [of "wildcardTree r"] keys True by (auto simp: wnames_def)
    then have "findOne [] (wildcardTree r) = (RETURNVALUE_NOERROR, [])"
      by (cases "wildcardTree r") (simp add: findOne_def)
    then have "getPlayerByNameWildcard (q @ ''~'') None r = (RETURNVALUE_PLAYERWITHTHISNAMEISNOTONLINE, None)"
      using True by (auto simp: getPlayerByNameWildcard_def getPlayerByName_def Let_def PLAYER_NAME_LENGTH_def)
    ultimately show ?thesis by (simp add: answer_def)
  next
    case False
    then have found: "fst (findOne ?q (wildcardTree r)) = answer S"
      "S = {n} \<Longrightarrow> findOne ?q (wildcardTree r) = (RETURNVALUE_NOERROR, n)" for n
      using wildcard.search_keys [OF keys, of ?q] assms(3) by auto
    show ?thesis
    proof (cases "\<exists>n. S = {n}")
      case True
      then obtain n where n: "S = {n}" by blast
      then have "n \<in> dom (mappedPlayerNames r)" using assms(3) by auto
      then obtain p where p: "mappedPlayerNames r n = Some p" by auto
      with inv have "n \<noteq> []" "asLowerCaseString n = n" by (auto simp: registry_inv_def)
      then have "getPlayerByName n r = Some p" using p by (simp add: getPlayerByName_def)
      with found(2) [OF n] n p assms(2) show ?thesis
        by (auto simp: getPlayerByNameWildcard_def Let_def answer_def PLAYER_NAME_LENGTH_def)
    next
      case no: False
      with found(1) obtain ret result where
        "findOne ?q (wildcardTree r) = (ret, result)" and "ret \<noteq> RETURNVALUE_NOERROR" and "ret = answer S"
        by (cases "findOne ?q (wildcardTree r)") (auto simp: answer_def)
      with no assms(2) show ?thesis
        by (auto simp: getPlayerByNameWildcard_def Let_def PLAYER_NAME_LENGTH_def)
    qed
  qed
qed

text \<open>Two players online, one of them found by a prefix of his name.\<close>

definition demo_player :: "string \<Rightarrow> 32 word \<Rightarrow> player_entry" where
  "demo_player n g = \<lparr>pl_name = n, pl_guid = g, pl_id = g + 0x10000000\<rparr>"

theorem wildcard_lookup_witness:
  "\<exists>r. run_registry [Login (demo_player ''Ann'' 1), Login (demo_player ''Bob'' 2)] empty_registry = Some r \<and>
     fst (getPlayerByNameWildcard (''B'' @ ''~'') None r) =
       answer {n \<in> dom (mappedPlayerNames r). prefix (asLowerCaseString ''B'') n}"
proof -
  have "\<exists>r. run_registry [Login (demo_player ''Ann'' 1), Login (demo_player ''Bob'' 2)] empty_registry = Some r"
    by (simp add: addPlayer_def tree_insert_def demo_player_def Let_def)
  then obtain r where "run_registry [Login (demo_player ''Ann'' 1), Login (demo_player ''Bob'' 2)] empty_registry = Some r"
    by blast
  moreover from wildcard_lookup [OF this _ refl, of "''B''"] have
    "fst (getPlayerByNameWildcard (''B'' @ ''~'') None r) =
       answer {n \<in> dom (mappedPlayerNames r). prefix (asLowerCaseString ''B'') n}"
    by (simp add: PLAYER_NAME_LENGTH_def)
  ultimately show ?thesis by blast
qed

end
