(* ===== verification/Party.thy ===== *)
theory Party
  imports Main "HOL-Library.Word"
begin

text \<open>
  \<open>src/src/party.cpp\<close>, the party handlers of \<open>game.cpp\<close> and the party members of
  \<open>player.cpp\<close>. The pointers between parties and players are the identifiers of an explicit store;
  \<open>delete this\<close> removes the party from it. What the server only sends to a client (texts, skulls,
  shields) is left out; \<open>sendClosePrivate\<close> is recorded, since it also leaves the party channel.
  The Lua events are a parameter: an event that is not installed answers \<open>true\<close>.
\<close>

type_synonym pid = "32 word"

record party =
  leader :: pid
  memberList :: "pid list"
  inviteList :: "pid list"
  ticksMap :: "pid \<rightharpoonup> 64 word"
  sharedExpActive :: bool
  sharedExpEnabled :: bool

record party_state =
  online :: "pid set"
  party_of :: "pid \<Rightarrow> nat option"
  invitePartyList :: "pid \<Rightarrow> nat list"
  parties :: "nat \<rightharpoonup> party"
  next_party :: nat
  closed_private :: "pid list"

record party_events =
  on_join :: "nat \<Rightarrow> pid \<Rightarrow> bool"
  on_leave :: "nat \<Rightarrow> pid \<Rightarrow> bool"
  on_disband :: "nat \<Rightarrow> bool"

text \<open>What the handlers read of the players and of the clock.\<close>

record party_world =
  level :: "pid \<Rightarrow> nat"
  position :: "pid \<Rightarrow> int \<times> int \<times> int"
  not_gain_in_fight :: "pid \<Rightarrow> bool"
  now_ms :: "64 word"
  pz_locked :: "64 word"
  infight :: "pid \<Rightarrow> bool"
  in_protection :: "pid \<Rightarrow> bool"

section \<open>The store\<close>

definition setParty :: "pid \<Rightarrow> nat option \<Rightarrow> party_state \<Rightarrow> party_state" where
  "setParty x p s = s\<lparr>party_of := (party_of s)(x := p)\<rparr>"

definition sendClosePrivate :: "pid \<Rightarrow> party_state \<Rightarrow> party_state" where
  "sendClosePrivate x s = s\<lparr>closed_private := closed_private s @ [x]\<rparr>"

definition addPartyInvitation :: "pid \<Rightarrow> nat \<Rightarrow> party_state \<Rightarrow> bool \<times> party_state" where
  "addPartyInvitation x p s =
     (if p \<in> set (invitePartyList s x) then (False, s)
      else (True, s\<lparr>invitePartyList := (invitePartyList s)(x := p # invitePartyList s x)\<rparr>))"

definition removePartyInvitation :: "pid \<Rightarrow> nat \<Rightarrow> party_state \<Rightarrow> party_state" where
  "removePartyInvitation x p s =
     s\<lparr>invitePartyList := (invitePartyList s)(x := removeAll p (invitePartyList s x))\<rparr>"

definition update_party :: "nat \<Rightarrow> (party \<Rightarrow> party) \<Rightarrow> party_state \<Rightarrow> party_state" where
  "update_party p f s = s\<lparr>parties := (parties s)(p := map_option f (parties s p))\<rparr>"

definition party_empty :: "party \<Rightarrow> bool" where
  "party_empty P \<longleftrightarrow> memberList P = [] \<and> inviteList P = []"

section \<open>Shared experience\<close>

text \<open>
  \<open>Position::areInRange<30, 30, 1>\<close>, and the level a player needs: two thirds of the highest one,
  rounded up, which the \<open>float\<close> of the code computes exactly for every level below \<open>2^22\<close>.
\<close>

definition in_share_range :: "int \<times> int \<times> int \<Rightarrow> int \<times> int \<times> int \<Rightarrow> bool" where
  "in_share_range a b =
     (case (a, b) of ((x, y, z), (x', y', z')) \<Rightarrow> \<bar>x - x'\<bar> \<le> 30 \<and> \<bar>y - y'\<bar> \<le> 30 \<and> \<bar>z - z'\<bar> \<le> 1)"

definition canUseSharedExperience :: "party_world \<Rightarrow> party \<Rightarrow> pid \<Rightarrow> bool" where
  "canUseSharedExperience w P x =
     (if memberList P = [] then False
      else
        let highestLevel = fold (\<lambda>m h. max (level w m) h) (memberList P) (level w (leader P));
            minLevel = (2 * highestLevel + 2) div 3
        in if level w x < minLevel then False
        else if \<not> in_share_range (position w (leader P)) (position w x) then False
        else if \<not> not_gain_in_fight w x then
          (case ticksMap P x of
             None \<Rightarrow> False
           | Some t \<Rightarrow> \<not> now_ms w - t > pz_locked w)
        else True)"

definition canEnableSharedExperience :: "party_world \<Rightarrow> party \<Rightarrow> bool" where
  "canEnableSharedExperience w P \<longleftrightarrow>
     canUseSharedExperience w P (leader P) \<and> list_all (canUseSharedExperience w P) (memberList P)"

definition update_shared :: "party_world \<Rightarrow> party \<Rightarrow> party" where
  "update_shared w P =
     (if sharedExpActive P then P\<lparr>sharedExpEnabled := canEnableSharedExperience w P\<rparr> else P)"

definition updateSharedExperience :: "party_world \<Rightarrow> nat \<Rightarrow> party_state \<Rightarrow> party_state" where
  "updateSharedExperience w p s = update_party p (update_shared w) s"

definition setSharedExperience :: "party_world \<Rightarrow> nat \<Rightarrow> pid \<Rightarrow> bool \<Rightarrow> party_state \<Rightarrow> bool \<times> party_state" where
  "setSharedExperience w p x active s =
     (case parties s p of
        None \<Rightarrow> (False, s)
      | Some P \<Rightarrow>
          if leader P \<noteq> x then (False, s)
          else if sharedExpActive P = active then (True, s)
          else (True, update_party p (\<lambda>P. let P = P\<lparr>sharedExpActive := active\<rparr> in
                  if active then P\<lparr>sharedExpEnabled := canEnableSharedExperience w P\<rparr> else P) s))"

definition updatePlayerTicks :: "party_world \<Rightarrow> nat \<Rightarrow> pid \<Rightarrow> 32 word \<Rightarrow> party_state \<Rightarrow> party_state" where
  "updatePlayerTicks w p x points s =
     (if points \<noteq> 0 \<and> \<not> not_gain_in_fight w x
      then updateSharedExperience w p (update_party p (\<lambda>P. P\<lparr>ticksMap := (ticksMap P)(x \<mapsto> now_ms w)\<rparr>) s)
      else s)"

definition clearPlayerPoints :: "party_world \<Rightarrow> nat \<Rightarrow> pid \<Rightarrow> party_state \<Rightarrow> party_state" where
  "clearPlayerPoints w p x s =
     (case parties s p of
        None \<Rightarrow> s
      | Some P \<Rightarrow>
          if ticksMap P x = None then s
          else updateSharedExperience w p (update_party p (\<lambda>P. P\<lparr>ticksMap := (ticksMap P)(x := None)\<rparr>) s))"

section \<open>Membership\<close>

definition disband :: "party_events \<Rightarrow> nat \<Rightarrow> party_state \<Rightarrow> party_state" where
  "disband ev p s =
     (case parties s p of
        None \<Rightarrow> s
      | Some P \<Rightarrow>
          if \<not> on_disband ev p then s
          else
            let s = sendClosePrivate (leader P) (setParty (leader P) None s);
                s = fold (\<lambda>x. removePartyInvitation x p) (inviteList P) s;
                s = fold (\<lambda>x s. sendClosePrivate x (setParty x None s)) (memberList P) s
            in s\<lparr>parties := (parties s)(p := None)\<rparr>)"

definition passPartyLeadership :: "party_world \<Rightarrow> nat \<Rightarrow> pid \<Rightarrow> party_state \<Rightarrow> bool \<times> party_state" where
  "passPartyLeadership w p x s =
     (case parties s p of
        None \<Rightarrow> (False, s)
      | Some P \<Rightarrow>
          if leader P = x \<or> party_of s x \<noteq> Some p then (False, s)
          else (True, updateSharedExperience w p
                  (update_party p (\<lambda>P. P\<lparr>leader := x, memberList := leader P # remove1 x (memberList P)\<rparr>) s)))"

definition leaveParty :: "party_events \<Rightarrow> party_world \<Rightarrow> nat \<Rightarrow> pid \<Rightarrow> party_state \<Rightarrow> bool \<times> party_state" where
  "leaveParty ev w p x s =
     (case parties s p of
        None \<Rightarrow> (False, s)
      | Some P \<Rightarrow>
          if party_of s x \<noteq> Some p \<and> leader P \<noteq> x then (False, s)
          else if \<not> on_leave ev p x then (False, s)
          else
            let missingLeader = (leader P = x \<and>
                  (memberList P = [] \<or> length (memberList P) = 1 \<and> inviteList P = []));
                s = (if leader P = x \<and> \<not> missingLeader then snd (passPartyLeadership w p (hd (memberList P)) s) else s);
                s = update_party p (\<lambda>P. P\<lparr>memberList := remove1 x (memberList P)\<rparr>) s;
                s = sendClosePrivate x (setParty x None s);
                s = updateSharedExperience w p s;
                s = clearPlayerPoints w p x s
            in (True, if missingLeader \<or> (case parties s p of None \<Rightarrow> True | Some P \<Rightarrow> party_empty P)
                      then disband ev p s else s))"

definition joinParty :: "party_events \<Rightarrow> party_world \<Rightarrow> nat \<Rightarrow> pid \<Rightarrow> party_state \<Rightarrow> bool \<times> party_state" where
  "joinParty ev w p x s =
     (case parties s p of
        None \<Rightarrow> (False, s)
      | Some P \<Rightarrow>
          if \<not> on_join ev p x then (False, s)
          else if x \<notin> set (inviteList P) then (False, s)
          else
            let s = update_party p (\<lambda>P. P\<lparr>inviteList := remove1 x (inviteList P)\<rparr>) s;
                s = setParty x (Some p) s;
                s = update_party p (\<lambda>P. P\<lparr>memberList := memberList P @ [x]\<rparr>) s;
                s = removePartyInvitation x p s
            in (True, updateSharedExperience w p s))"

definition removeInvite :: "party_events \<Rightarrow> nat \<Rightarrow> pid \<Rightarrow> bool \<Rightarrow> party_state \<Rightarrow> bool \<times> party_state" where
  "removeInvite ev p x removeFromPlayer s =
     (case parties s p of
        None \<Rightarrow> (False, s)
      | Some P \<Rightarrow>
          if x \<notin> set (inviteList P) then (False, s)
          else
            let P = P\<lparr>inviteList := remove1 x (inviteList P)\<rparr>;
                s = s\<lparr>parties := (parties s)(p \<mapsto> P)\<rparr>;
                s = (if removeFromPlayer then removePartyInvitation x p s else s)
            in (True, if party_empty P then disband ev p s else s))"

definition revokeInvitation :: "party_events \<Rightarrow> nat \<Rightarrow> pid \<Rightarrow> party_state \<Rightarrow> party_state" where
  "revokeInvitation ev p x s = snd (removeInvite ev p x True s)"

definition isPlayerInvited :: "nat \<Rightarrow> pid \<Rightarrow> party_state \<Rightarrow> bool" where
  "isPlayerInvited p x s = (case parties s p of None \<Rightarrow> False | Some P \<Rightarrow> x \<in> set (inviteList P))"

definition invitePlayer :: "nat \<Rightarrow> pid \<Rightarrow> party_state \<Rightarrow> bool \<times> party_state" where
  "invitePlayer p x s =
     (if isPlayerInvited p x s then (False, s)
      else (True, snd (addPartyInvitation x p
                    (update_party p (\<lambda>P. P\<lparr>inviteList := inviteList P @ [x]\<rparr>) s))))"

text \<open>\<open>new Party(player)\<close>, at an address not in use.\<close>

definition new_party :: "pid \<Rightarrow> party_state \<Rightarrow> nat \<times> party_state" where
  "new_party x s =
     (let p = next_party s;
          P = \<lparr>leader = x, memberList = [], inviteList = [], ticksMap = (\<lambda>_. None),
               sharedExpActive = False, sharedExpEnabled = False\<rparr>
      in (p, setParty x (Some p) (s\<lparr>parties := (parties s)(p \<mapsto> P), next_party := Suc p\<rparr>)))"

definition party_leader :: "nat \<Rightarrow> party_state \<Rightarrow> pid option" where
  "party_leader p s = map_option leader (parties s p)"

definition isInviting :: "pid \<Rightarrow> pid \<Rightarrow> party_state \<Rightarrow> bool" where
  "isInviting x y s =
     (case party_of s x of
        None \<Rightarrow> False
      | Some p \<Rightarrow> if party_leader p s \<noteq> Some x then False else isPlayerInvited p y s)"

definition isPartner :: "pid \<Rightarrow> pid \<Rightarrow> party_state \<Rightarrow> bool" where
  "isPartner x y s =
     (case party_of s x of None \<Rightarrow> False | Some p \<Rightarrow> if y = x then False else party_of s y = Some p)"

definition clearPartyInvitations :: "party_events \<Rightarrow> pid \<Rightarrow> party_state \<Rightarrow> party_state" where
  "clearPartyInvitations ev x s =
     (let s = fold (\<lambda>p s. snd (removeInvite ev p x False s)) (invitePartyList s x) s
      in s\<lparr>invitePartyList := (invitePartyList s)(x := [])\<rparr>)"

section \<open>The handlers\<close>

definition playerInviteToParty :: "pid \<Rightarrow> pid \<Rightarrow> party_state \<Rightarrow> party_state" where
  "playerInviteToParty x y s =
     (if x = y then s
      else if x \<notin> online s then s
      else if y \<notin> online s \<or> isInviting y x s then s
      else if party_of s y \<noteq> None then s
      else case party_of s x of
             None \<Rightarrow> (let (p, s) = new_party x s in snd (invitePlayer p y s))
           | Some p \<Rightarrow> if party_leader p s \<noteq> Some x then s else snd (invitePlayer p y s))"

definition playerJoinParty :: "party_events \<Rightarrow> party_world \<Rightarrow> pid \<Rightarrow> pid \<Rightarrow> party_state \<Rightarrow> party_state" where
  "playerJoinParty ev w x l s =
     (if x \<notin> online s then s
      else if l \<notin> online s \<or> \<not> isInviting l x s then s
      else case party_of s l of
             None \<Rightarrow> s
           | Some p \<Rightarrow>
               if party_leader p s \<noteq> Some l then s
               else if party_of s x \<noteq> None then s
               else snd (joinParty ev w p x s))"

definition playerRevokePartyInvitation :: "party_events \<Rightarrow> pid \<Rightarrow> pid \<Rightarrow> party_state \<Rightarrow> party_state" where
  "playerRevokePartyInvitation ev x y s =
     (if x \<notin> online s then s
      else case party_of s x of
             None \<Rightarrow> s
           | Some p \<Rightarrow>
               if party_leader p s \<noteq> Some x then s
               else if y \<notin> online s \<or> \<not> isInviting x y s then s
               else revokeInvitation ev p y s)"

definition playerPassPartyLeadership :: "party_world \<Rightarrow> pid \<Rightarrow> pid \<Rightarrow> party_state \<Rightarrow> party_state" where
  "playerPassPartyLeadership w x y s =
     (if x \<notin> online s then s
      else case party_of s x of
             None \<Rightarrow> s
           | Some p \<Rightarrow>
               if party_leader p s \<noteq> Some x then s
               else if y \<notin> online s \<or> \<not> isPartner x y s then s
               else snd (passPartyLeadership w p y s))"

definition playerLeaveParty :: "party_events \<Rightarrow> party_world \<Rightarrow> pid \<Rightarrow> party_state \<Rightarrow> party_state" where
  "playerLeaveParty ev w x s =
     (if x \<notin> online s then s
      else case party_of s x of
             None \<Rightarrow> s
           | Some p \<Rightarrow> if infight w x then s else snd (leaveParty ev w p x s))"

definition playerEnableSharedPartyExperience :: "party_world \<Rightarrow> pid \<Rightarrow> bool \<Rightarrow> party_state \<Rightarrow> party_state" where
  "playerEnableSharedPartyExperience w x active s =
     (if x \<notin> online s then s
      else case party_of s x of
             None \<Rightarrow> s
           | Some p \<Rightarrow> if infight w x \<and> \<not> in_protection w x then s
                       else snd (setSharedExperience w p x active s))"

text \<open>The party part of \<open>Player::onRemoveCreature\<close>; then the player's object goes away.\<close>

definition party_logout :: "party_events \<Rightarrow> party_world \<Rightarrow> pid \<Rightarrow> party_state \<Rightarrow> party_state" where
  "party_logout ev w x s =
     (let s = clearPartyInvitations ev x s;
          s = (case party_of s x of None \<Rightarrow> s | Some p \<Rightarrow> snd (leaveParty ev w p x s))
      in s\<lparr>online := online s - {x}\<rparr>)"

definition party_login :: "pid \<Rightarrow> party_state \<Rightarrow> party_state" where
  "party_login x s =
     (if x \<in> online s then s
      else s\<lparr>online := insert x (online s), party_of := (party_of s)(x := None),
             invitePartyList := (invitePartyList s)(x := [])\<rparr>)"

section \<open>The invariant\<close>

text \<open>
  A party knows its players and they know it: its leader and its members, all different, are the
  players whose party it is; its invitees are the players who hold its invitation.
\<close>

definition roster_ok :: "party_state \<Rightarrow> nat \<Rightarrow> party \<Rightarrow> bool" where
  "roster_ok s p P \<longleftrightarrow>
     distinct (leader P # memberList P) \<and> distinct (inviteList P) \<and>
     (\<forall>x. party_of s x = Some p \<longleftrightarrow> x \<in> set (leader P # memberList P)) \<and>
     (\<forall>x. p \<in> set (invitePartyList s x) \<longleftrightarrow> x \<in> set (inviteList P)) \<and>
     set (inviteList P) \<inter> set (leader P # memberList P) = {}"

definition party_ok :: "party_state \<Rightarrow> nat \<Rightarrow> party \<Rightarrow> bool" where
  "party_ok s p P \<longleftrightarrow> roster_ok s p P \<and> \<not> party_empty P"

lemmas party_ok_defs = party_ok_def roster_ok_def

text \<open>
  No pointer dangles: a party a player points to exists, and a player who is not online is in no
  party and holds no invitation. The party \<open>e\<close>, if any, is left out.
\<close>

definition party_inv_but :: "nat option \<Rightarrow> party_state \<Rightarrow> bool" where
  "party_inv_but e s \<longleftrightarrow>
     (\<forall>q P. Some q \<noteq> e \<longrightarrow> parties s q = Some P \<longrightarrow> party_ok s q P) \<and>
     (\<forall>x q. party_of s x = Some q \<or> q \<in> set (invitePartyList s x) \<longrightarrow> parties s q \<noteq> None) \<and>
     (\<forall>q. next_party s \<le> q \<longrightarrow> parties s q = None) \<and>
     (\<forall>x. x \<notin> online s \<longrightarrow> party_of s x = None \<and> invitePartyList s x = [])"

abbreviation party_inv :: "party_state \<Rightarrow> bool" where
  "party_inv \<equiv> party_inv_but None"

text \<open>\<open>s'\<close> is \<open>s\<close> but for the party \<open>p\<close> and the players' pointers to it.\<close>

definition only_at :: "nat \<Rightarrow> party_state \<Rightarrow> party_state \<Rightarrow> bool" where
  "only_at p s s' \<longleftrightarrow>
     online s' = online s \<and> next_party s' = next_party s \<and>
     (\<forall>q. q \<noteq> p \<longrightarrow> parties s' q = parties s q) \<and>
     (\<forall>x q. q \<noteq> p \<longrightarrow> (party_of s' x = Some q \<longleftrightarrow> party_of s x = Some q) \<and>
                    (q \<in> set (invitePartyList s' x) \<longleftrightarrow> q \<in> set (invitePartyList s x))) \<and>
     (\<forall>x. x \<notin> online s \<longrightarrow> party_of s' x = party_of s x \<and> invitePartyList s' x = invitePartyList s x)"

lemma only_at_inv:
  assumes "only_at p s s'" and "party_inv_but (Some p) s"
    and "parties s p \<noteq> None" and "parties s' p \<noteq> None"
  shows "party_inv_but (Some p) s'"
  unfolding party_inv_but_def
proof (intro conjI allI impI)
  fix q P
  assume "Some q \<noteq> Some p" and "parties s' q = Some P"
  then have "parties s q = Some P" and "q \<noteq> p" using assms(1) by (auto simp: only_at_def)
  then have "party_ok s q P" using assms(2) by (simp add: party_inv_but_def)
  then show "party_ok s' q P" using assms(1) \<open>q \<noteq> p\<close> by (simp add: party_ok_defs only_at_def)
next
  fix x q
  assume "party_of s' x = Some q \<or> q \<in> set (invitePartyList s' x)"
  then show "parties s' q \<noteq> None" using assms by (cases "q = p") (auto simp: only_at_def party_inv_but_def)
next
  fix q
  assume "next_party s' \<le> q"
  then show "parties s' q = None"
    using assms by (cases "q = p") (auto simp: only_at_def party_inv_but_def)
next
  fix x
  assume "x \<notin> online s'"
  then show "party_of s' x = None" and "invitePartyList s' x = []"
    using assms by (auto simp: only_at_def party_inv_but_def)
qed

lemma party_inv_weaken: "party_inv s \<Longrightarrow> party_inv_but (Some p) s"
  by (simp add: party_inv_but_def)

lemma party_inv_ok: "party_inv s \<Longrightarrow> parties s p = Some P \<Longrightarrow> party_ok s p P"
  by (simp add: party_inv_but_def)

lemma party_inv_fill: "party_inv_but (Some p) s \<Longrightarrow> parties s p = Some P \<Longrightarrow> party_ok s p P \<Longrightarrow> party_inv s"
  unfolding party_inv_but_def by (metis option.inject)

text \<open>How a step that changes one party is shown to keep the invariant.\<close>

lemma party_inv_step:
  assumes "party_inv s" and "parties s p = Some P" and "only_at p s s'"
    and "parties s' p = Some P'" and "party_ok s' p P'"
  shows "party_inv s'"
  using party_inv_fill [OF only_at_inv [OF assms(3) party_inv_weaken [OF assms(1)]]] assms by simp

section \<open>Each operation keeps it\<close>

text \<open>Updates of the shared experience leave the lists alone.\<close>

definition same_roster :: "party_state \<Rightarrow> party_state \<Rightarrow> bool" where
  "same_roster s t \<longleftrightarrow>
     online s = online t \<and> party_of s = party_of t \<and> invitePartyList s = invitePartyList t \<and>
     next_party s = next_party t \<and>
     (\<forall>p. map_option (\<lambda>P. (leader P, memberList P, inviteList P)) (parties s p) =
          map_option (\<lambda>P. (leader P, memberList P, inviteList P)) (parties t p))"

lemma same_roster_party:
  "same_roster s t \<Longrightarrow> parties s p = Some P \<Longrightarrow>
   \<exists>Q. parties t p = Some Q \<and> leader Q = leader P \<and> memberList Q = memberList P \<and> inviteList Q = inviteList P"
  by (cases "parties t p") (auto simp: same_roster_def dest: spec [of _ p])

lemma same_roster_sym: "same_roster s t \<Longrightarrow> same_roster t s"
  by (simp add: same_roster_def)

lemma same_roster_trans: "same_roster s t \<Longrightarrow> same_roster t u \<Longrightarrow> same_roster s u"
  by (simp add: same_roster_def)

lemma same_roster_refl [simp]: "same_roster s s"
  by (simp add: same_roster_def)

lemma same_roster_inv:
  assumes "same_roster s t" and "party_inv_but e s"
  shows "party_inv_but e t"
proof -
  have same: "online s = online t" "party_of s = party_of t" "invitePartyList s = invitePartyList t"
    "next_party s = next_party t"
    using assms(1) by (auto simp: same_roster_def)
  have none: "parties s q = None \<longleftrightarrow> parties t q = None" for q
    using assms(1) by (auto simp: same_roster_def dest: spec [of _ q])
  have "party_ok t q P" if q: "Some q \<noteq> e" "parties t q = Some P" for q P
  proof -
    obtain Q where "parties s q = Some Q" and
      "leader Q = leader P" "memberList Q = memberList P" "inviteList Q = inviteList P"
      using same_roster_party [OF same_roster_sym [OF assms(1)] q(2)] by blast
    moreover from this have "party_ok s q Q" using assms(2) q by (simp add: party_inv_but_def)
    ultimately show ?thesis using same by (simp add: party_ok_defs party_empty_def)
  qed
  with assms(2) show ?thesis unfolding party_inv_but_def same none by blast
qed

lemma update_shared_lists [simp]:
  "leader (update_shared w P) = leader P"
  "memberList (update_shared w P) = memberList P"
  "inviteList (update_shared w P) = inviteList P"
  by (simp_all add: update_shared_def)

lemma same_roster_update:
  "(\<And>P. leader (f P) = leader P \<and> memberList (f P) = memberList P \<and> inviteList (f P) = inviteList P) \<Longrightarrow>
   same_roster (update_party p f s) s"
  by (cases "parties s p") (auto simp: same_roster_def update_party_def)

lemma same_roster_updateSharedExperience [simp]: "same_roster (updateSharedExperience w p s) s"
  unfolding updateSharedExperience_def by (rule same_roster_update) simp

lemma same_roster_clearPlayerPoints [simp]: "same_roster (clearPlayerPoints w p x s) s"
  by (auto simp: clearPlayerPoints_def split: option.split
      intro: same_roster_trans [OF same_roster_updateSharedExperience same_roster_update])

lemma same_roster_updatePlayerTicks [simp]: "same_roster (updatePlayerTicks w p x n s) s"
  by (auto simp: updatePlayerTicks_def
      intro: same_roster_trans [OF same_roster_updateSharedExperience same_roster_update])

lemma same_roster_setSharedExperience [simp]: "same_roster (snd (setSharedExperience w p x a s)) s"
  by (auto simp: setSharedExperience_def Let_def split: option.split intro!: same_roster_update)

text \<open>\<open>disband\<close> needs only that it finds every pointer to the party.\<close>

definition findable :: "nat \<Rightarrow> party_state \<Rightarrow> party \<Rightarrow> bool" where
  "findable p s P \<longleftrightarrow>
     (\<forall>x. party_of s x = Some p \<longrightarrow> x \<in> set (leader P # memberList P)) \<and>
     (\<forall>x. x \<in> set (leader P # memberList P) \<longrightarrow> party_of s x \<in> {None, Some p}) \<and>
     (\<forall>x. p \<in> set (invitePartyList s x) \<longrightarrow> x \<in> set (inviteList P))"

lemma fold_removePartyInvitation:
  "fold (\<lambda>x. removePartyInvitation x p) xs s =
     s\<lparr>invitePartyList := (\<lambda>x. if x \<in> set xs then removeAll p (invitePartyList s x) else invitePartyList s x)\<rparr>"
  by (induction xs arbitrary: s) (auto simp: removePartyInvitation_def fun_eq_iff)

lemma fold_close_party:
  "fold (\<lambda>x s. sendClosePrivate x (setParty x None s)) xs s =
     s\<lparr>party_of := (\<lambda>x. if x \<in> set xs then None else party_of s x), closed_private := closed_private s @ xs\<rparr>"
  by (induction xs arbitrary: s) (auto simp: sendClosePrivate_def setParty_def fun_eq_iff)

lemma disband_eq:
  "parties s p = Some P \<Longrightarrow> on_disband ev p \<Longrightarrow>
   disband ev p s =
     s\<lparr>party_of := (\<lambda>x. if x \<in> set (leader P # memberList P) then None else party_of s x),
       invitePartyList := (\<lambda>x. if x \<in> set (inviteList P) then removeAll p (invitePartyList s x) else invitePartyList s x),
       closed_private := closed_private s @ leader P # memberList P,
       parties := (parties s)(p := None)\<rparr>"
  by (simp only: disband_def Let_def option.case if_False not_True_eq_False fold_removePartyInvitation fold_close_party)
    (auto simp: sendClosePrivate_def setParty_def fun_eq_iff)

lemma disband_inv:
  assumes "party_inv_but (Some p) s" and "parties s p = Some P" and "findable p s P" and "on_disband ev p"
  shows "party_inv (disband ev p s)"
proof -
  let ?s = "disband ev p s"
  note eq = disband_eq [of s p P ev, OF assms(2,4)]
  have "party_ok ?s q Q" if "parties ?s q = Some Q" for q Q
  proof -
    have "q \<noteq> p" and "parties s q = Some Q" using that eq by (auto split: if_splits)
    then have "party_ok s q Q" using assms(1) by (simp add: party_inv_but_def)
    moreover have "party_of ?s x = Some q \<longleftrightarrow> party_of s x = Some q" for x
      using assms(3) \<open>q \<noteq> p\<close> by (auto simp: eq findable_def)
    moreover have "q \<in> set (invitePartyList ?s x) \<longleftrightarrow> q \<in> set (invitePartyList s x)" for x
      using \<open>q \<noteq> p\<close> by (auto simp: eq)
    ultimately show ?thesis by (simp add: party_ok_defs)
  qed
  moreover have "parties ?s q \<noteq> None" if "party_of ?s x = Some q \<or> q \<in> set (invitePartyList ?s x)" for x q
  proof -
    have "party_of s x = Some q \<or> q \<in> set (invitePartyList s x)" using that by (auto simp: eq split: if_splits)
    moreover have "q \<noteq> p" using that assms(3) by (auto simp: eq findable_def split: if_splits)
    ultimately show ?thesis using assms(1) by (auto simp: eq party_inv_but_def)
  qed
  ultimately show ?thesis
    using assms(1) unfolding party_inv_but_def by (auto simp: eq)
qed

lemma findable_roster: "roster_ok s p P \<Longrightarrow> findable p s P"
  by (auto simp: findable_def roster_ok_def)

lemma findable_same:
  "findable p s P \<Longrightarrow> same_roster s t \<Longrightarrow> leader Q = leader P \<Longrightarrow> memberList Q = memberList P \<Longrightarrow>
   inviteList Q = inviteList P \<Longrightarrow> findable p t Q"
  by (simp add: findable_def same_roster_def)

lemma findable_ok: "party_ok s p P \<Longrightarrow> findable p s P"
  by (auto simp: findable_def party_ok_defs)

lemma update_party_simps [simp]:
  "online (update_party p f s) = online s"
  "party_of (update_party p f s) = party_of s"
  "invitePartyList (update_party p f s) = invitePartyList s"
  "next_party (update_party p f s) = next_party s"
  "closed_private (update_party p f s) = closed_private s"
  "parties (update_party p f s) q = (if q = p then map_option f (parties s p) else parties s q)"
  by (auto simp: update_party_def)

lemma pointer_simps [simp]:
  "online (setParty x r s) = online s"
  "party_of (setParty x r s) = (party_of s)(x := r)"
  "invitePartyList (setParty x r s) = invitePartyList s"
  "next_party (setParty x r s) = next_party s"
  "parties (setParty x r s) = parties s"
  "online (sendClosePrivate x s) = online s"
  "party_of (sendClosePrivate x s) = party_of s"
  "invitePartyList (sendClosePrivate x s) = invitePartyList s"
  "next_party (sendClosePrivate x s) = next_party s"
  "parties (sendClosePrivate x s) = parties s"
  "online (removePartyInvitation x p s) = online s"
  "party_of (removePartyInvitation x p s) = party_of s"
  "invitePartyList (removePartyInvitation x p s) = (invitePartyList s)(x := removeAll p (invitePartyList s x))"
  "next_party (removePartyInvitation x p s) = next_party s"
  "parties (removePartyInvitation x p s) = parties s"
  by (simp_all add: setParty_def sendClosePrivate_def removePartyInvitation_def)

lemma party_online: "party_inv_but e s \<Longrightarrow> party_of s x = Some p \<Longrightarrow> x \<in> online s"
  by (auto simp: party_inv_but_def)

lemma invited_online: "party_inv_but e s \<Longrightarrow> p \<in> set (invitePartyList s x) \<Longrightarrow> x \<in> online s"
  by (auto simp: party_inv_but_def)

lemma updateSharedExperience_inv [simp]:
  "party_inv_but e (updateSharedExperience w p s) \<longleftrightarrow> party_inv_but e s"
  using same_roster_inv same_roster_sym same_roster_updateSharedExperience by blast

lemma clearPlayerPoints_inv [simp]:
  "party_inv_but e (clearPlayerPoints w p x s) \<longleftrightarrow> party_inv_but e s"
  using same_roster_inv same_roster_sym same_roster_clearPlayerPoints by blast

lemma pointer_valid:
  "party_inv_but e s \<Longrightarrow> party_of s x = Some q \<or> q \<in> set (invitePartyList s x) \<Longrightarrow> parties s q \<noteq> None"
  unfolding party_inv_but_def by blast

lemma passPartyLeadership_inv:
  assumes inv: "party_inv s"
  shows "party_inv (snd (passPartyLeadership w p x s))"
proof (cases "parties s p")
  case None
  with inv show ?thesis by (simp add: passPartyLeadership_def)
next
  case (Some P)
  let ?P = "P\<lparr>leader := x, memberList := leader P # remove1 x (memberList P)\<rparr>"
  let ?s = "update_party p (\<lambda>P. P\<lparr>leader := x, memberList := leader P # remove1 x (memberList P)\<rparr>) s"
  show ?thesis
  proof (cases "leader P = x \<or> party_of s x \<noteq> Some p")
    case True
    with inv Some show ?thesis by (simp add: passPartyLeadership_def)
  next
    case False
    note ok = party_inv_ok [OF inv Some]
    then have x: "x \<in> set (memberList P)" using False by (auto simp: party_ok_defs)
    have "party_ok ?s p ?P"
      using ok x by (auto simp: party_ok_defs party_empty_def)
    moreover have "only_at p s ?s" by (simp add: only_at_def)
    ultimately have "party_inv ?s" using party_inv_step [OF inv Some, of ?s ?P] Some by simp
    with Some False show ?thesis
      by (simp add: passPartyLeadership_def)
  qed
qed

lemma joinParty_inv:
  assumes inv: "party_inv s" and "party_of s x = None"
  shows "party_inv (snd (joinParty ev w p x s))"
proof (cases "parties s p")
  case None
  with inv show ?thesis by (simp add: joinParty_def)
next
  case (Some P)
  note ok = party_inv_ok [OF inv Some]
  let ?P = "P\<lparr>inviteList := remove1 x (inviteList P), memberList := memberList P @ [x]\<rparr>"
  let ?s = "removePartyInvitation x p (update_party p (\<lambda>P. P\<lparr>memberList := memberList P @ [x]\<rparr>)
      (setParty x (Some p) (update_party p (\<lambda>P. P\<lparr>inviteList := remove1 x (inviteList P)\<rparr>) s)))"
  show ?thesis
  proof (cases "on_join ev p x \<and> x \<in> set (inviteList P)")
    case False
    with inv Some show ?thesis by (auto simp: joinParty_def)
  next
    case True
    have "x \<in> online s" using invited_online [OF inv, of p x] ok True by (auto simp: party_ok_defs)
    then have "only_at p s ?s" using assms(2) by (auto simp: only_at_def)
    moreover have "party_ok ?s p ?P"
      using ok True assms(2) by (auto simp: party_ok_defs party_empty_def)
    ultimately have "party_inv ?s" using party_inv_step [OF inv Some, of ?s ?P] Some by simp
    with True Some show ?thesis
      by (simp add: joinParty_def Let_def)
  qed
qed

lemma removeInvite_inv:
  assumes inv: "party_inv s" and ev: "on_disband ev p"
  shows "party_inv (snd (removeInvite ev p x True s))"
proof (cases "parties s p")
  case None
  with inv show ?thesis by (simp add: removeInvite_def)
next
  case (Some P)
  note ok = party_inv_ok [OF inv Some]
  let ?P = "P\<lparr>inviteList := remove1 x (inviteList P)\<rparr>"
  let ?s = "removePartyInvitation x p (s\<lparr>parties := (parties s)(p \<mapsto> ?P)\<rparr>)"
  show ?thesis
  proof (cases "x \<in> set (inviteList P)")
    case False
    with inv Some show ?thesis by (simp add: removeInvite_def)
  next
    case True
    have "x \<in> online s" using invited_online [OF inv, of p x] ok True by (auto simp: party_ok_defs)
    then have only: "only_at p s ?s" by (auto simp: only_at_def)
    show ?thesis
    proof (cases "party_empty ?P")
      case False
      then have "party_ok ?s p ?P" using ok by (auto simp: party_ok_defs)
      then have "party_inv ?s" using party_inv_step [OF inv Some only, of ?P] by simp
      with True Some False show ?thesis by (simp add: removeInvite_def Let_def)
    next
      case empty: True
      have "findable p ?s ?P" using ok by (auto simp: findable_def party_ok_defs)
      moreover have "party_inv_but (Some p) ?s"
        using only_at_inv [OF only party_inv_weaken [OF inv]] Some by simp
      ultimately have "party_inv (disband ev p ?s)" using disband_inv [of p ?s ?P ev] ev by simp
      with True Some empty show ?thesis by (simp add: removeInvite_def Let_def)
    qed
  qed
qed

lemma invitePlayer_inv:
  assumes but: "party_inv_but (Some p) s" and P: "parties s p = Some P" and ok: "roster_ok s p P"
    and x: "x \<in> online s" "party_of s x \<noteq> Some p" and ne: "\<not> party_empty P \<or> inviteList P = []"
  shows "party_inv (snd (invitePlayer p x s))"
proof (cases "x \<in> set (inviteList P)")
  case True
  then have "party_ok s p P" using ok ne by (auto simp: party_ok_def)
  with True P but show ?thesis by (simp add: invitePlayer_def isPlayerInvited_def party_inv_fill)
next
  case False
  let ?P = "P\<lparr>inviteList := inviteList P @ [x]\<rparr>"
  let ?s = "update_party p (\<lambda>P. P\<lparr>inviteList := inviteList P @ [x]\<rparr>) s"
  have "p \<notin> set (invitePartyList s x)" using False ok by (auto simp: roster_ok_def)
  then have eq: "snd (invitePlayer p x s) = ?s\<lparr>invitePartyList := (invitePartyList s)(x := p # invitePartyList s x)\<rparr>"
    using False P by (simp add: invitePlayer_def isPlayerInvited_def addPartyInvitation_def)
  have "party_ok (snd (invitePlayer p x s)) p ?P"
    using ok False x by (auto simp: party_ok_defs party_empty_def eq)
  moreover have "only_at p s (snd (invitePlayer p x s))"
    using x by (auto simp: only_at_def eq)
  ultimately show ?thesis
    using party_inv_fill [OF only_at_inv [OF _ but]] P by (simp add: eq)
qed

lemma new_party_inv:
  assumes inv: "party_inv s" and x: "x \<in> online s" "party_of s x = None"
    and new: "new_party x s = (p, t)"
  shows "party_inv_but (Some p) t \<and> online t = online s \<and> party_of t = (party_of s)(x \<mapsto> p) \<and>
    (\<exists>P. parties t p = Some P \<and> roster_ok t p P \<and> inviteList P = [])"
proof -
  have p: "p = next_party s" using new by (simp add: new_party_def Let_def)
  have fresh: "parties s p = None" using inv by (simp add: party_inv_but_def p)
  then have none: "party_of s y \<noteq> Some p" "p \<notin> set (invitePartyList s y)" for y
    using pointer_valid [OF inv, of y p] by auto
  have t: "online t = online s" "party_of t = (party_of s)(x \<mapsto> p)" "invitePartyList t = invitePartyList s"
    "next_party t = Suc p" "\<And>q. q \<noteq> p \<Longrightarrow> parties t q = parties s q"
    using new by (auto simp: new_party_def Let_def)
  have P: "parties t p = Some \<lparr>leader = x, memberList = [], inviteList = [], ticksMap = (\<lambda>_. None),
      sharedExpActive = False, sharedExpEnabled = False\<rparr>" (is "_ = Some ?P")
    using new by (auto simp: new_party_def Let_def)
  have "roster_ok t p ?P" using none by (auto simp: roster_ok_def t)
  moreover have "party_ok t q Q" if "q \<noteq> p" and "parties t q = Some Q" for q Q
  proof -
    have "party_ok s q Q" using that t(5) party_inv_ok [OF inv] by simp
    moreover have "party_of t y = Some q \<longleftrightarrow> party_of s y = Some q" for y using that(1) x by (simp add: t)
    ultimately show ?thesis by (simp add: party_ok_defs t)
  qed
  then have "party_inv_but (Some p) t"
    using inv x P unfolding party_inv_but_def
    by (auto simp: t p split: if_splits) (metis t(5) p option.distinct(1))+
  ultimately show ?thesis using P t by auto
qed

lemma playerInviteToParty_inv:
  assumes inv: "party_inv s"
  shows "party_inv (playerInviteToParty x y s)"
proof (cases "x = y \<or> x \<notin> online s \<or> y \<notin> online s \<or> isInviting y x s \<or> party_of s y \<noteq> None")
  case True
  with inv show ?thesis by (auto simp: playerInviteToParty_def)
next
  case False
  show ?thesis
  proof (cases "party_of s x")
    case None
    obtain p t where new: "new_party x s = (p, t)" by (cases "new_party x s")
    with new_party_inv [OF inv _ None new] False obtain P where
      "party_inv_but (Some p) t" "y \<in> online t" "party_of t y \<noteq> Some p" "parties t p = Some P"
      "roster_ok t p P" "inviteList P = []" by auto
    then have "party_inv (snd (invitePlayer p y t))" by (intro invitePlayer_inv) auto
    then show ?thesis using False None new by (simp add: playerInviteToParty_def)
  next
    case (Some p)
    then obtain P where P: "parties s p = Some P" using pointer_valid [OF inv, of x p] by auto
    then have "party_ok s p P" using inv party_inv_ok by blast
    then have "party_inv (snd (invitePlayer p y s))"
      using False inv P by (intro invitePlayer_inv) (auto simp: party_inv_weaken party_ok_def)
    then show ?thesis using False Some inv by (simp add: playerInviteToParty_def)
  qed
qed

text \<open>A party someone has left: its pointers are all found by \<open>disband\<close>, or it goes on.\<close>

lemma leave_list_inv:
  assumes inv: "party_inv s" and P: "parties s p = Some P"
    and x: "x \<in> set (memberList P)" and ev: "on_disband ev p"
    and s': "same_roster (sendClosePrivate x (setParty x None
        (update_party p (\<lambda>P. P\<lparr>memberList := remove1 x (memberList P)\<rparr>) s))) s'"
  shows "party_inv (if (case parties s' p of None \<Rightarrow> True | Some P \<Rightarrow> party_empty P) then disband ev p s' else s')"
proof -
  let ?P = "P\<lparr>memberList := remove1 x (memberList P)\<rparr>"
  let ?s = "sendClosePrivate x (setParty x None (update_party p (\<lambda>P. P\<lparr>memberList := remove1 x (memberList P)\<rparr>) s))"
  note ok = party_inv_ok [OF inv P]
  have p: "party_of s x = Some p" and "x \<in> online s"
    using ok x party_online [OF inv, of x p] by (auto simp: party_ok_defs)
  then have only: "only_at p s ?s" by (auto simp: only_at_def)
  have roster: "roster_ok ?s p ?P" using ok x p by (auto simp: party_ok_defs)
  have P': "parties ?s p = Some ?P" using P by simp
  have but: "party_inv_but (Some p) ?s"
    using only_at_inv [OF only party_inv_weaken [OF inv]] P by simp
  obtain Q where Q: "parties s' p = Some Q" "leader Q = leader ?P" "memberList Q = memberList ?P"
    "inviteList Q = inviteList ?P" using same_roster_party [OF s' P'] by auto
  then have empty: "party_empty Q \<longleftrightarrow> party_empty ?P" by (simp add: party_empty_def)
  show ?thesis
  proof (cases "party_empty ?P")
    case True
    have "findable p s' Q"
      using findable_same [OF findable_roster [OF roster] s' Q(2-4)] .
    then have "party_inv (disband ev p s')"
      using disband_inv [OF same_roster_inv [OF s' but] Q(1)] ev by simp
    with True Q empty show ?thesis by simp
  next
    case False
    then have "party_inv ?s"
      using party_inv_fill [OF but P'] roster by (simp add: party_ok_def)
    with False Q empty same_roster_inv [OF s'] show ?thesis by simp
  qed
qed

lemma leaveParty_inv:
  assumes inv: "party_inv s" and ev: "on_leave ev p x" "on_disband ev p"
  shows "party_inv (snd (leaveParty ev w p x s))"
proof (cases "parties s p")
  case None
  with inv show ?thesis by (simp add: leaveParty_def)
next
  case (Some P)
  note ok = party_inv_ok [OF inv Some]
  show ?thesis
  proof (cases "party_of s x = Some p \<or> leader P = x")
    case False
    with inv Some show ?thesis by (simp add: leaveParty_def)
  next
    case True
    then have x: "party_of s x = Some p" "x \<in> set (leader P # memberList P)"
      using ok by (auto simp: party_ok_defs)
    define after where "after = (\<lambda>s. clearPlayerPoints w p x (updateSharedExperience w p
      (sendClosePrivate x (setParty x None
        (update_party p (\<lambda>P. P\<lparr>memberList := remove1 x (memberList P)\<rparr>) s)))))"
    have same: "same_roster (sendClosePrivate x (setParty x None
        (update_party p (\<lambda>P. P\<lparr>memberList := remove1 x (memberList P)\<rparr>) s))) (after s)" for s
      unfolding after_def
      by (rule same_roster_sym [OF same_roster_trans [OF same_roster_clearPlayerPoints same_roster_updateSharedExperience]])
    define missing where "missing = (leader P = x \<and>
      (memberList P = [] \<or> length (memberList P) = 1 \<and> inviteList P = []))"
    define t where "t = (if leader P = x \<and> \<not> missing then snd (passPartyLeadership w p (hd (memberList P)) s) else s)"
    have leave: "snd (leaveParty ev w p x s) =
        (if missing \<or> (case parties (after t) p of None \<Rightarrow> True | Some P \<Rightarrow> party_empty P)
         then disband ev p (after t) else after t)"
      using Some True ev(1) by (auto simp: leaveParty_def Let_def after_def missing_def t_def)
    show ?thesis
    proof (cases missing)
      case True
      then have "leader P = x" and t: "t = s" by (auto simp: missing_def t_def)
      let ?s = "sendClosePrivate x (setParty x None
        (update_party p (\<lambda>P. P\<lparr>memberList := remove1 x (memberList P)\<rparr>) s))"
      have "x \<in> online s" using party_online [OF inv x(1)] .
      then have "only_at p s ?s" using x(1) by (auto simp: only_at_def)
      then have but: "party_inv_but (Some p) (after s)"
        using only_at_inv [of p s ?s] party_inv_weaken [OF inv] Some same_roster_inv [OF same [of s]] by simp
      obtain Q where Q: "parties (after s) p = Some Q" "leader Q = leader P"
        "memberList Q = remove1 x (memberList P)" "inviteList Q = inviteList P"
        using same_roster_party [OF same [of s], of p] Some by auto
      have "remove1 x (memberList P) = memberList P"
        using ok \<open>leader P = x\<close> by (auto simp: party_ok_defs remove1_idem)
      moreover have "party_of (after s) = (party_of s)(x := None)" "invitePartyList (after s) = invitePartyList s"
        using same [of s] by (simp_all add: same_roster_def)
      ultimately have "findable p (after s) Q"
        using findable_ok [OF ok] Q by (simp add: findable_def)
      from disband_inv [OF but Q(1) this ev(2)] leave True t show ?thesis by simp
    next
      case False
      have "party_inv t" using inv by (simp add: t_def passPartyLeadership_inv)
      moreover have "\<exists>T. parties t p = Some T \<and> x \<in> set (memberList T)"
      proof (cases "leader P = x")
        case True
        then have "memberList P \<noteq> []" using False by (auto simp: missing_def)
        then have "hd (memberList P) \<in> set (memberList P)" by simp
        then have "party_of s (hd (memberList P)) = Some p" "hd (memberList P) \<noteq> x"
          using ok True by (auto simp: party_ok_defs)
        then have "same_roster t (update_party p (\<lambda>R. R\<lparr>leader := hd (memberList P),
            memberList := leader R # remove1 (hd (memberList P)) (memberList R)\<rparr>) s)"
          using Some True False by (auto simp: t_def passPartyLeadership_def)
        from same_roster_party [OF same_roster_sym [OF this], of p] Some True show ?thesis by auto
      next
        case False
        then show ?thesis using x Some by (simp add: t_def)
      qed
      ultimately show ?thesis
        using leave_list_inv [of t p _ x ev "after t"] same [of t] ev(2) leave False by auto
    qed
  qed
qed


text \<open>
  \<open>clearPartyInvitations\<close> walks the player's list while it removes the player from the parties, and
  empties the list at the end: the same as removing each invitation on both sides.
\<close>

definition no_invitations :: "pid \<Rightarrow> party_state \<Rightarrow> party_state" where
  "no_invitations x s = s\<lparr>invitePartyList := (invitePartyList s)(x := [])\<rparr>"

lemma no_invitations_disband:
  "no_invitations x (disband ev p (no_invitations x s)) = no_invitations x (disband ev p s)"
proof (cases "parties s p")
  case None
  then show ?thesis by (simp add: disband_def no_invitations_def)
next
  case (Some P)
  show ?thesis
  proof (cases "on_disband ev p")
    case True
    then show ?thesis
      using Some disband_eq [of s p P ev] disband_eq [of "no_invitations x s" p P ev]
      by (auto simp: no_invitations_def fun_eq_iff)
  next
    case False
    with Some show ?thesis by (simp add: disband_def no_invitations_def)
  qed
qed

lemma no_invitations_removeInvite:
  "no_invitations x (snd (removeInvite ev p x b s)) =
   no_invitations x (snd (removeInvite ev p x True (no_invitations x s)))"
proof (cases "parties s p")
  case None
  then show ?thesis by (simp add: removeInvite_def no_invitations_def)
next
  case (Some P)
  let ?s = "s\<lparr>parties := (parties s)(p \<mapsto> P\<lparr>inviteList := remove1 x (inviteList P)\<rparr>)\<rparr>"
  have *: "no_invitations x (if b then removePartyInvitation x p ?s else ?s) =
      no_invitations x (removePartyInvitation x p (no_invitations x ?s))"
    by (simp add: removePartyInvitation_def no_invitations_def)
  have **: "no_invitations x ?s = (no_invitations x s)\<lparr>parties := (parties s)(p \<mapsto> P\<lparr>inviteList := remove1 x (inviteList P)\<rparr>)\<rparr>"
    by (simp add: no_invitations_def)
  show ?thesis
    using Some * no_invitations_disband [of x ev p "if b then removePartyInvitation x p ?s else ?s"]
      no_invitations_disband [of x ev p "removePartyInvitation x p (no_invitations x ?s)"]
    by (simp add: removeInvite_def Let_def ** del: fun_upd_apply)
       (simp add: no_invitations_def)
qed

lemma fold_removeInvite_both:
  "no_invitations x s = no_invitations x t \<Longrightarrow>
   no_invitations x (fold (\<lambda>p s. snd (removeInvite ev p x False s)) ps s) =
   no_invitations x (fold (\<lambda>p s. snd (removeInvite ev p x True s)) ps t)"
proof (induction ps arbitrary: s t)
  case (Cons p ps)
  have "no_invitations x (snd (removeInvite ev p x False s)) = no_invitations x (snd (removeInvite ev p x True t))"
    using no_invitations_removeInvite [of x ev p False s] no_invitations_removeInvite [of x ev p True t] Cons.prems
    by simp
  with Cons.IH show ?case by simp
qed simp

lemma removeInvite_invitations:
  assumes "party_inv s" and "on_disband ev p"
  shows "set (invitePartyList (snd (removeInvite ev p x True s)) x) \<subseteq> set (invitePartyList s x) - {p}"
proof (cases "parties s p")
  case None
  with pointer_valid [OF assms(1), of x p] show ?thesis by (auto simp: removeInvite_def)
next
  case (Some P)
  with party_inv_ok [OF assms(1) Some] disband_eq [of _ p _ ev] assms(2) show ?thesis
    by (auto simp: removeInvite_def Let_def party_ok_defs)
qed

lemma fold_removeInvite_inv:
  assumes "\<And>p. on_disband ev p"
  shows "party_inv s \<Longrightarrow>
    party_inv (fold (\<lambda>p s. snd (removeInvite ev p x True s)) ps s) \<and>
    set (invitePartyList (fold (\<lambda>p s. snd (removeInvite ev p x True s)) ps s) x) \<subseteq> set (invitePartyList s x) - set ps"
proof (induction ps arbitrary: s)
  case (Cons p ps)
  let ?s = "snd (removeInvite ev p x True s)"
  have "party_inv ?s" using removeInvite_inv [OF Cons.prems] assms by blast
  from Cons.IH [OF this] removeInvite_invitations [OF Cons.prems, of ev p x] assms show ?case by auto
qed simp

lemma clearPartyInvitations_inv:
  assumes inv: "party_inv s" and ev: "\<And>p. on_disband ev p"
  shows "party_inv (clearPartyInvitations ev x s) \<and> invitePartyList (clearPartyInvitations ev x s) x = []"
proof -
  let ?t = "fold (\<lambda>p s. snd (removeInvite ev p x True s)) (invitePartyList s x) s"
  have "clearPartyInvitations ev x s = no_invitations x ?t"
    using fold_removeInvite_both [of x s s ev "invitePartyList s x"]
    by (simp add: clearPartyInvitations_def Let_def no_invitations_def)
  moreover have "party_inv ?t" and "invitePartyList ?t x = []"
    using fold_removeInvite_inv [OF ev inv, of x "invitePartyList s x"] by auto
  moreover from this(2) have "no_invitations x ?t = ?t"
    by (simp add: no_invitations_def fun_upd_idem)
  ultimately show ?thesis by simp
qed


lemma passPartyLeadership_pointers [simp]:
  "party_of (snd (passPartyLeadership w p x s)) = party_of s"
  "invitePartyList (snd (passPartyLeadership w p x s)) = invitePartyList s"
  using same_roster_updateSharedExperience [of w p] unfolding same_roster_def
  by (auto simp: passPartyLeadership_def split: option.split)

lemma disband_pointers:
  "party_of (disband ev p s) x = None \<or> party_of (disband ev p s) x = party_of s x"
  "set (invitePartyList (disband ev p s) x) \<subseteq> set (invitePartyList s x)"
proof (atomize(full), cases "parties s p")
  case None
  then show "(party_of (disband ev p s) x = None \<or> party_of (disband ev p s) x = party_of s x) \<and>
      set (invitePartyList (disband ev p s) x) \<subseteq> set (invitePartyList s x)"
    by (simp add: disband_def)
next
  case (Some P)
  then show "(party_of (disband ev p s) x = None \<or> party_of (disband ev p s) x = party_of s x) \<and>
      set (invitePartyList (disband ev p s) x) \<subseteq> set (invitePartyList s x)"
    using disband_eq [of s p P ev, OF Some] by (cases "on_disband ev p") (auto simp: disband_def)
qed

lemma leaveParty_pointers:
  assumes "parties s p = Some P" and "party_of s x = Some p" and "on_leave ev p x"
  shows "party_of (snd (leaveParty ev w p x s)) x = None \<and>
    set (invitePartyList (snd (leaveParty ev w p x s)) x) \<subseteq> set (invitePartyList s x)"
proof -
  have same: "party_of (clearPlayerPoints w p x (updateSharedExperience w p t)) = party_of t"
    "invitePartyList (clearPlayerPoints w p x (updateSharedExperience w p t)) = invitePartyList t" for t
    using same_roster_trans [OF same_roster_clearPlayerPoints same_roster_updateSharedExperience]
    by (auto simp: same_roster_def)
  define t where "t b = clearPlayerPoints w p x (updateSharedExperience w p (sendClosePrivate x (setParty x None
      (update_party p (\<lambda>P. P\<lparr>memberList := remove1 x (memberList P)\<rparr>)
        (if b then snd (passPartyLeadership w p (hd (memberList P)) s) else s)))))" for b
  have t: "party_of (t b) x = None" "invitePartyList (t b) = invitePartyList s" for b
    by (simp_all add: t_def same)
  have "\<exists>b. snd (leaveParty ev w p x s) = t b \<or> snd (leaveParty ev w p x s) = disband ev p (t b)"
    using assms unfolding t_def leaveParty_def Let_def
    by (intro exI [of _ "leader P = x \<and> \<not> (leader P = x \<and>
          (memberList P = [] \<or> length (memberList P) = 1 \<and> inviteList P = []))"]) auto
  then show ?thesis
    using t disband_pointers [of ev p "t _" x] by (metis set_eq_subset)
qed

lemma party_logout_inv:
  assumes inv: "party_inv s" and ev: "\<And>p x. on_leave ev p x" "\<And>p. on_disband ev p"
  shows "party_inv (party_logout ev w x s) \<and> party_of (party_logout ev w x s) x = None \<and>
    invitePartyList (party_logout ev w x s) x = []"
proof -
  let ?s = "clearPartyInvitations ev x s"
  have inv': "party_inv ?s" and none: "invitePartyList ?s x = []"
    using clearPartyInvitations_inv [OF inv ev(2)] by auto
  have offline: "party_inv (t\<lparr>online := online t - {x}\<rparr>)"
    if "party_inv t" and "party_of t x = None" and "invitePartyList t x = []" for t
    using that by (auto simp: party_inv_but_def party_ok_defs)
  show ?thesis
  proof (cases "party_of ?s x")
    case None
    with none offline [OF inv'] show ?thesis by (simp add: party_logout_def Let_def)
  next
    case (Some p)
    then obtain P where "parties ?s p = Some P" using pointer_valid [OF inv', of x p] by auto
    note left = leaveParty_pointers [OF this Some ev(1), of w]
    with none have "invitePartyList (snd (leaveParty ev w p x ?s)) x = []" by simp
    with left offline [OF leaveParty_inv [OF inv' ev(1,2)]] Some show ?thesis
      by (simp add: party_logout_def Let_def)
  qed
qed

lemma party_login_inv:
  assumes inv: "party_inv s"
  shows "party_inv (party_login x s)"
proof (cases "x \<in> online s")
  case True
  with inv show ?thesis by (simp add: party_login_def)
next
  case False
  then have "party_of s x = None" "invitePartyList s x = []" using inv by (auto simp: party_inv_but_def)
  then have "party_login x s = s\<lparr>online := insert x (online s)\<rparr>"
    using False by (simp add: party_login_def fun_upd_idem)
  with inv show ?thesis by (auto simp: party_inv_but_def party_ok_defs)
qed

lemma playerJoinParty_inv: "party_inv s \<Longrightarrow> party_inv (playerJoinParty ev w x l s)"
  by (simp add: playerJoinParty_def joinParty_inv split: option.split)

lemma playerRevokePartyInvitation_inv:
  "party_inv s \<Longrightarrow> (\<And>p. on_disband ev p) \<Longrightarrow> party_inv (playerRevokePartyInvitation ev x y s)"
  by (simp add: playerRevokePartyInvitation_def revokeInvitation_def removeInvite_inv split: option.split)

lemma playerPassPartyLeadership_inv: "party_inv s \<Longrightarrow> party_inv (playerPassPartyLeadership w x y s)"
  by (simp add: playerPassPartyLeadership_def passPartyLeadership_inv split: option.split)

lemma playerLeaveParty_inv:
  "party_inv s \<Longrightarrow> (\<And>p x. on_leave ev p x) \<Longrightarrow> (\<And>p. on_disband ev p) \<Longrightarrow> party_inv (playerLeaveParty ev w x s)"
  by (simp add: playerLeaveParty_def leaveParty_inv split: option.split)

lemma playerEnableSharedPartyExperience_inv:
  "party_inv s \<Longrightarrow> party_inv (playerEnableSharedPartyExperience w x a s)"
  using same_roster_inv [OF same_roster_sym [OF same_roster_setSharedExperience]]
  by (simp add: playerEnableSharedPartyExperience_def split: option.split)

section \<open>Reachable states\<close>

datatype party_command =
  Invite pid pid | Join pid pid | Revoke pid pid | PassLeadership pid pid | Leave pid |
  EnableShared pid bool | Attack pid "32 word" | Idle pid | PartyLogin pid | PartyLogout pid

text \<open>
  \<open>Attack\<close> is the call of \<open>updatePlayerTicks\<close> in \<open>onAttackedCreatureDrainHealth\<close>,
  \<open>Idle\<close> the one of \<open>clearPlayerPoints\<close> in \<open>onIdleStatus\<close>.
\<close>

fun party_do :: "party_events \<Rightarrow> party_world \<Rightarrow> party_command \<Rightarrow> party_state \<Rightarrow> party_state" where
  "party_do ev w (Invite x y) s = playerInviteToParty x y s"
| "party_do ev w (Join x y) s = playerJoinParty ev w x y s"
| "party_do ev w (Revoke x y) s = playerRevokePartyInvitation ev x y s"
| "party_do ev w (PassLeadership x y) s = playerPassPartyLeadership w x y s"
| "party_do ev w (Leave x) s = playerLeaveParty ev w x s"
| "party_do ev w (EnableShared x a) s = playerEnableSharedPartyExperience w x a s"
| "party_do ev w (Attack x n) s = (case party_of s x of None \<Rightarrow> s | Some p \<Rightarrow> updatePlayerTicks w p x n s)"
| "party_do ev w (Idle x) s = (case party_of s x of None \<Rightarrow> s | Some p \<Rightarrow> clearPlayerPoints w p x s)"
| "party_do ev w (PartyLogin x) s = party_login x s"
| "party_do ev w (PartyLogout x) s = party_logout ev w x s"

definition no_parties :: party_state where
  "no_parties = \<lparr>online = {}, party_of = (\<lambda>_. None), invitePartyList = (\<lambda>_. []),
     parties = (\<lambda>_. None), next_party = 0, closed_private = []\<rparr>"

inductive party_reachable :: "party_events \<Rightarrow> party_state \<Rightarrow> bool" for ev where
  start: "party_reachable ev no_parties"
| step: "party_reachable ev s \<Longrightarrow> party_reachable ev (party_do ev w c s)"

definition permissive :: "party_events \<Rightarrow> bool" where
  "permissive ev \<longleftrightarrow> (\<forall>p x. on_leave ev p x) \<and> (\<forall>p. on_disband ev p)"

lemma party_do_inv: "permissive ev \<Longrightarrow> party_inv s \<Longrightarrow> party_inv (party_do ev w c s)"
  using same_roster_inv [OF same_roster_sym [OF same_roster_updatePlayerTicks]]
  by (cases c) (auto simp: permissive_def playerInviteToParty_inv playerJoinParty_inv
      playerRevokePartyInvitation_inv playerPassPartyLeadership_inv playerLeaveParty_inv
      playerEnableSharedPartyExperience_inv party_login_inv party_logout_inv split: option.split)

lemma party_reachable_inv: "party_reachable ev s \<Longrightarrow> permissive ev \<Longrightarrow> party_inv s"
  by (induction rule: party_reachable.induct) (auto simp: party_do_inv, simp add: no_parties_def party_inv_but_def)


text \<open>
  C13: in every reachable state of the server, when the scripts let players leave, the players
  whose party is \<open>p\<close> are exactly its leader and its members, all different, the players who hold
  its invitation exactly its invitees, all of them are online, and the party is not empty.
\<close>

theorem party_roster:
  assumes "party_reachable ev s" and "permissive ev" and "parties s p = Some P"
  shows "distinct (leader P # memberList P) \<and> distinct (inviteList P) \<and>
         (\<forall>x. party_of s x = Some p \<longleftrightarrow> x \<in> set (leader P # memberList P)) \<and>
         (\<forall>x. p \<in> set (invitePartyList s x) \<longleftrightarrow> x \<in> set (inviteList P)) \<and>
         set (leader P # memberList P) \<union> set (inviteList P) \<subseteq> online s \<and>
         \<not> (memberList P = [] \<and> inviteList P = [])"
proof -
  have inv: "party_inv s" using assms(1,2) by (rule party_reachable_inv)
  note ok = party_inv_ok [OF inv assms(3)]
  then have "party_of s x = Some p" if "x \<in> set (leader P # memberList P)" for x
    using that by (auto simp: party_ok_defs)
  moreover have "p \<in> set (invitePartyList s x)" if "x \<in> set (inviteList P)" for x
    using ok that by (auto simp: party_ok_defs)
  ultimately have "set (leader P # memberList P) \<union> set (inviteList P) \<subseteq> online s"
    using party_online [OF inv] invited_online [OF inv] by blast
  with ok show ?thesis by (auto simp: party_ok_defs party_empty_def)
qed

definition all_permitted :: party_events where
  "all_permitted = \<lparr>on_join = (\<lambda>_ _. True), on_leave = (\<lambda>_ _. True), on_disband = (\<lambda>_. True)\<rparr>"

definition quiet_world :: party_world where
  "quiet_world = \<lparr>level = (\<lambda>_. 8), position = (\<lambda>_. (0, 0, 7)), not_gain_in_fight = (\<lambda>_. False),
     now_ms = 0, pz_locked = 60000, infight = (\<lambda>_. False), in_protection = (\<lambda>_. False)\<rparr>"

text \<open>Three players; the first one invites the others, one of whom has joined.\<close>

definition demo_party :: party_state where
  "demo_party = fold (party_do all_permitted quiet_world)
     [PartyLogin 1, PartyLogin 2, PartyLogin 3, Invite 1 2, Invite 1 3, Join 2 1] no_parties"

lemma demo_party_reachable: "party_reachable all_permitted demo_party"
proof -
  have "party_reachable all_permitted s \<Longrightarrow>
      party_reachable all_permitted (fold (party_do all_permitted quiet_world) cs s)" for cs s
    by (induction cs arbitrary: s) (auto intro: party_reachable.step)
  then show ?thesis unfolding demo_party_def using party_reachable.start .
qed

lemma permissive_all [simp]: "permissive all_permitted"
  by (simp add: permissive_def all_permitted_def)

lemmas party_handlers = playerInviteToParty_def playerJoinParty_def isInviting_def isPlayerInvited_def
  party_leader_def new_party_def invitePlayer_def addPartyInvitation_def joinParty_def party_login_def

lemma demo_party_eq:
  "parties demo_party 0 = Some \<lparr>leader = 1, memberList = [2], inviteList = [3], ticksMap = (\<lambda>_. None),
     sharedExpActive = False, sharedExpEnabled = False\<rparr>"
  by (simp add: demo_party_def no_parties_def party_handlers all_permitted_def quiet_world_def Let_def
      updateSharedExperience_def update_shared_def)

theorem party_roster_witness:
  "distinct [1 :: pid, 2] \<and> (\<forall>x. party_of demo_party x = Some 0 \<longleftrightarrow> x = 1 \<or> x = 2)"
  using party_roster [OF demo_party_reachable permissive_all demo_party_eq] by simp

text \<open>
  C14: when a player logs out, no party is left with a pointer to the object that goes away: the
  player is in no party, holds no invitation, and is in no list of any party.
\<close>

theorem logout_leaves_no_pointer:
  assumes "party_reachable ev s" and "permissive ev" and "parties (party_logout ev w x s) p = Some P"
  shows "x \<notin> set (leader P # memberList P) \<union> set (inviteList P) \<and>
         party_of (party_logout ev w x s) x = None \<and> invitePartyList (party_logout ev w x s) x = []"
proof -
  have "party_inv s" using assms(1,2) by (rule party_reachable_inv)
  then have *: "party_inv (party_logout ev w x s) \<and> party_of (party_logout ev w x s) x = None \<and>
      invitePartyList (party_logout ev w x s) x = []"
    by (rule party_logout_inv) (use assms(2) in \<open>auto simp: permissive_def\<close>)
  with party_inv_ok [of "party_logout ev w x s", OF _ assms(3)]
  have ok: "party_ok (party_logout ev w x s) p P" by blast
  then have "party_of (party_logout ev w x s) x = Some p \<longleftrightarrow> x \<in> set (leader P # memberList P)"
    and "p \<in> set (invitePartyList (party_logout ev w x s) x) \<longleftrightarrow> x \<in> set (inviteList P)"
    unfolding party_ok_defs by blast+
  with * show ?thesis by simp
qed

lemma demo_logout_eq:
  "parties (party_logout all_permitted quiet_world 3 demo_party) 0 =
     Some \<lparr>leader = 1, memberList = [2], inviteList = [], ticksMap = (\<lambda>_. None),
       sharedExpActive = False, sharedExpEnabled = False\<rparr>"
  by (simp add: demo_party_def no_parties_def party_handlers all_permitted_def quiet_world_def Let_def
      updateSharedExperience_def update_shared_def party_logout_def clearPartyInvitations_def
      removeInvite_def party_empty_def)

theorem logout_leaves_no_pointer_witness:
  "3 \<notin> set [1 :: pid, 2] \<and> party_of (party_logout all_permitted quiet_world 3 demo_party) 3 = None"
  using logout_leaves_no_pointer [OF demo_party_reachable permissive_all demo_logout_eq] by simp

text \<open>
  When the leader leaves and the party goes on (it has a second member, or someone is
  invited), its first member leads it, the other members stay in their order, the invitations
  stand, and the old leader is in no party.
\<close>

theorem leader_leaves:
  assumes "party_reachable ev s" and "permissive ev" and "parties s p = Some P"
    and "memberList P = m # ms" and "ms \<noteq> [] \<or> inviteList P \<noteq> []" and "\<not> infight w (leader P)"
  shows "\<exists>Q. parties (playerLeaveParty ev w (leader P) s) p = Some Q \<and>
             leader Q = m \<and> memberList Q = ms \<and> inviteList Q = inviteList P \<and>
             party_of (playerLeaveParty ev w (leader P) s) (leader P) = None"
proof -
  have inv: "party_inv s" using assms(1,2) by (rule party_reachable_inv)
  note ok = party_inv_ok [OF inv assms(3)]
  let ?x = "leader P"
  let ?R = "\<lambda>R. R\<lparr>leader := m, memberList := leader R # remove1 m (memberList R)\<rparr>"
  have x: "party_of s ?x = Some p" "party_of s m = Some p" "m \<noteq> ?x" using ok assms(4) by (auto simp: party_ok_defs)
  have "same_roster (snd (passPartyLeadership w p m s)) (update_party p ?R s)"
    using assms(3) x by (simp add: passPartyLeadership_def)
  from same_roster_party [OF same_roster_sym [OF this], of p] assms(3,4) obtain T where
    T: "parties (snd (passPartyLeadership w p m s)) p = Some T" "leader T = m" "memberList T = ?x # ms"
    "inviteList T = inviteList P" by auto
  define u where "u = sendClosePrivate ?x (setParty ?x None
      (update_party p (\<lambda>P. P\<lparr>memberList := remove1 ?x (memberList P)\<rparr>) (snd (passPartyLeadership w p m s))))"
  have same: "same_roster u (clearPlayerPoints w p ?x (updateSharedExperience w p u))"
    by (rule same_roster_sym [OF same_roster_trans [OF same_roster_clearPlayerPoints same_roster_updateSharedExperience]])
  have "parties u p = Some (T\<lparr>memberList := ms\<rparr>)" using T by (simp add: u_def)
  from same_roster_party [OF same this] T obtain Q where
    Q: "parties (clearPlayerPoints w p ?x (updateSharedExperience w p u)) p = Some Q"
    "leader Q = m" "memberList Q = ms" "inviteList Q = inviteList P" by auto
  then have "\<not> party_empty Q" using assms(5) by (auto simp: party_empty_def)
  then have "playerLeaveParty ev w ?x s = clearPlayerPoints w p ?x (updateSharedExperience w p u)"
    using assms(2-6) x party_online [OF inv x(1)] Q(1)
    by (auto simp: playerLeaveParty_def leaveParty_def Let_def u_def permissive_def)
  moreover have "party_of (clearPlayerPoints w p ?x (updateSharedExperience w p u)) ?x = None"
  proof -
    have "party_of u ?x = None" by (simp add: u_def)
    with same show ?thesis by (simp add: same_roster_def)
  qed
  ultimately show ?thesis using Q by auto
qed

theorem leader_leaves_witness:
  "\<exists>Q. parties (playerLeaveParty all_permitted quiet_world 1 demo_party) 0 = Some Q \<and>
     leader Q = 2 \<and> memberList Q = [] \<and> inviteList Q = [3]"
  using leader_leaves [OF demo_party_reachable permissive_all demo_party_eq, of 2 "[]" quiet_world]
  by (auto simp: quiet_world_def)

lemma minLevel_le:
  "(2 * fold (\<lambda>m h. max (level w m) h) ms h + 2) div 3 \<le> n \<longleftrightarrow>
     (\<forall>y \<in> set ms. 2 * level w y \<le> 3 * n) \<and> 2 * h \<le> 3 * n"
proof (induction ms arbitrary: h)
  case Nil
  show ?case by (simp, arith)
next
  case (Cons m ms)
  show ?case using Cons [of "max (level w m) h"] by (auto simp: max_def)
qed



end
