(* ===== verification/Geometry.thy ===== *)
theory Geometry
  imports Prelude
begin

text \<open>
  Positions and directions: \<open>src/src/position.h\<close>, \<open>position.cpp\<close> and the direction routines of
  \<open>tools.cpp\<close>. Coordinates are 16-bit words and a floor is 8 bits, as in the struct; offsets are
  the integers of \<open>int_fast32_t\<close>, which they fit.
\<close>

datatype position = Position (px: u16) (py: u16) (pz: byte)

definition getOffsetX :: "position \<Rightarrow> position \<Rightarrow> int" where
  "getOffsetX p q = uint (px p) - uint (px q)"

definition getOffsetY :: "position \<Rightarrow> position \<Rightarrow> int" where
  "getOffsetY p q = uint (py p) - uint (py q)"

definition getOffsetZ :: "position \<Rightarrow> position \<Rightarrow> int" where
  "getOffsetZ p q = uint (pz p) - uint (pz q)"

definition getDistanceX :: "position \<Rightarrow> position \<Rightarrow> int" where
  "getDistanceX p q = \<bar>getOffsetX p q\<bar>"

definition getDistanceY :: "position \<Rightarrow> position \<Rightarrow> int" where
  "getDistanceY p q = \<bar>getOffsetY p q\<bar>"

definition getDistanceZ :: "position \<Rightarrow> position \<Rightarrow> int" where
  "getDistanceZ p q = \<bar>getOffsetZ p q\<bar>"

definition areInRange2 :: "int \<Rightarrow> int \<Rightarrow> position \<Rightarrow> position \<Rightarrow> bool" where
  "areInRange2 deltax deltay p q \<longleftrightarrow> getDistanceX p q \<le> deltax \<and> getDistanceY p q \<le> deltay"

definition areInRange3 :: "int \<Rightarrow> int \<Rightarrow> int \<Rightarrow> position \<Rightarrow> position \<Rightarrow> bool" where
  "areInRange3 deltax deltay deltaz p q \<longleftrightarrow>
     getDistanceX p q \<le> deltax \<and> getDistanceY p q \<le> deltay \<and> getDistanceZ p q \<le> deltaz"

section \<open>The order of positions\<close>

text \<open>\<open>operator<\<close>, which the maps keyed by positions use: by floor, then row, then column.\<close>

definition position_less :: "position \<Rightarrow> position \<Rightarrow> bool" where
  "position_less a p =
     (if pz a < pz p then True
      else if pz a > pz p then False
      else if py a < py p then True
      else if py a > py p then False
      else if px a < px p then True
      else if px a > px p then False
      else False)"

definition position_greater :: "position \<Rightarrow> position \<Rightarrow> bool" where
  "position_greater a p \<longleftrightarrow> \<not> position_less a p"

instantiation position :: linorder
begin

definition less_position :: "position \<Rightarrow> position \<Rightarrow> bool" where
  "less_position = position_less"

definition less_eq_position :: "position \<Rightarrow> position \<Rightarrow> bool" where
  "less_eq_position a p \<longleftrightarrow> a = p \<or> position_less a p"

instance
proof
  fix a b c :: position
  show "a < b \<longleftrightarrow> a \<le> b \<and> \<not> b \<le> a"
    by (auto simp: less_position_def less_eq_position_def position_less_def split: if_splits)
  show "a \<le> a" by (simp add: less_eq_position_def)
  show "a \<le> b \<Longrightarrow> b \<le> c \<Longrightarrow> a \<le> c"
    by (auto simp: less_eq_position_def position_less_def split: if_splits)
  show "a \<le> b \<Longrightarrow> b \<le> a \<Longrightarrow> a = b"
    by (auto simp: less_eq_position_def position_less_def split: if_splits)
  show "a \<le> b \<or> b \<le> a"
    by (cases a; cases b) (auto simp: less_eq_position_def position_less_def)
qed

end

section \<open>Directions\<close>

datatype direction = NORTH | EAST | SOUTH | WEST | SOUTHWEST | SOUTHEAST | NORTHWEST | NORTHEAST | NONE

fun direction_code :: "direction \<Rightarrow> byte" where
  "direction_code NORTH = 0"
| "direction_code EAST = 1"
| "direction_code SOUTH = 2"
| "direction_code WEST = 3"
| "direction_code SOUTHWEST = 4 OR 0"
| "direction_code SOUTHEAST = 4 OR 1"
| "direction_code NORTHWEST = 4 OR 2"
| "direction_code NORTHEAST = 4 OR 3"
| "direction_code NONE = 8"

definition getDirection :: "string \<Rightarrow> direction" where
  "getDirection str =
     (if str \<in> {''north'', ''n'', ''0''} then NORTH
      else if str \<in> {''east'', ''e'', ''1''} then EAST
      else if str \<in> {''south'', ''s'', ''2''} then SOUTH
      else if str \<in> {''west'', ''w'', ''3''} then WEST
      else if str \<in> {''southwest'', ''south west'', ''south-west'', ''sw'', ''4''} then SOUTHWEST
      else if str \<in> {''southeast'', ''south east'', ''south-east'', ''se'', ''5''} then SOUTHEAST
      else if str \<in> {''northwest'', ''north west'', ''north-west'', ''nw'', ''6''} then NORTHWEST
      else if str \<in> {''northeast'', ''north east'', ''north-east'', ''ne'', ''7''} then NORTHEAST
      else NORTH)"

text \<open>What the stream operator prints of a direction.\<close>

definition show_direction :: "direction \<Rightarrow> string" where
  "show_direction dir =
     (case dir of
        NORTH \<Rightarrow> ''North'' | EAST \<Rightarrow> ''East'' | WEST \<Rightarrow> ''West'' | SOUTH \<Rightarrow> ''South''
      | SOUTHWEST \<Rightarrow> ''South-West'' | SOUTHEAST \<Rightarrow> ''South-East''
      | NORTHWEST \<Rightarrow> ''North-West'' | NORTHEAST \<Rightarrow> ''North-East''
      | NONE \<Rightarrow> [])"

fun getNextPosition :: "direction \<Rightarrow> position \<Rightarrow> position" where
  "getNextPosition NORTH (Position x y z) = Position x (y - 1) z"
| "getNextPosition SOUTH (Position x y z) = Position x (y + 1) z"
| "getNextPosition WEST (Position x y z) = Position (x - 1) y z"
| "getNextPosition EAST (Position x y z) = Position (x + 1) y z"
| "getNextPosition SOUTHWEST (Position x y z) = Position (x - 1) (y + 1) z"
| "getNextPosition NORTHWEST (Position x y z) = Position (x - 1) (y - 1) z"
| "getNextPosition NORTHEAST (Position x y z) = Position (x + 1) (y - 1) z"
| "getNextPosition SOUTHEAST (Position x y z) = Position (x + 1) (y + 1) z"
| "getNextPosition NONE pos = pos"

definition getDirectionTo :: "position \<Rightarrow> position \<Rightarrow> direction" where
  "getDirectionTo from to =
     (if from = to then NONE
      else
        let x_offset = getOffsetX from to;
            (dir, x_offset) = (if x_offset < 0 then (EAST, \<bar>x_offset\<bar>) else (WEST, x_offset));
            y_offset = getOffsetY from to
        in if y_offset \<ge> 0 then
             (if y_offset > x_offset then NORTH
              else if y_offset = x_offset then (if dir = EAST then NORTHEAST else NORTHWEST)
              else dir)
           else
             (let y_offset = \<bar>y_offset\<bar> in
              if y_offset > x_offset then SOUTH
              else if y_offset = x_offset then (if dir = EAST then SOUTHEAST else SOUTHWEST)
              else dir))"

text \<open>The distance in steps, diagonal ones included.\<close>

definition steps_to :: "position \<Rightarrow> position \<Rightarrow> int" where
  "steps_to p q = max (getDistanceX p q) (getDistanceY p q)"

fun walk :: "nat \<Rightarrow> position \<Rightarrow> position \<Rightarrow> position" where
  "walk 0 to p = p"
| "walk (Suc n) to p = walk n to (getNextPosition (getDirectionTo p to) p)"

lemma uint_bound16: "0 \<le> uint (a :: u16) \<and> uint a < 65536"
  using unsigned_less [of a, where ?'a = int] by simp

lemma uint_step_up: "uint (a :: u16) < uint (b :: u16) \<Longrightarrow> uint (a + 1) = uint a + 1"
  using uint_bound16 [of a] uint_bound16 [of b] by (simp add: uint_word_ariths)

lemma uint_step_down: "uint (b :: u16) < uint (a :: u16) \<Longrightarrow> uint (a - 1) = uint a - 1"
proof -
  assume "uint b < uint a"
  then have "(uint a - 1) mod 65536 = uint a - 1"
    using uint_bound16 [of a] uint_bound16 [of b] by (intro mod_pos_pos_trivial) linarith+
  then show ?thesis by (simp add: uint_word_ariths)
qed

lemmas offset_defs = getOffsetX_def getOffsetY_def getDistanceX_def getDistanceY_def

lemma step_closer:
  assumes "pz p = pz q" and "p \<noteq> q"
  shows "pz (getNextPosition (getDirectionTo p q) p) = pz q \<and>
    steps_to (getNextPosition (getDirectionTo p q) p) q = steps_to p q - 1"
proof (cases p, cases q)
  fix x y z x' y' z'
  assume p: "p = Position x y z" and q: "q = Position x' y' z'"
  have "uint x \<noteq> uint x' \<or> uint y \<noteq> uint y'" using assms p q by (auto simp: word_uint_eq_iff)
  then show ?thesis
    using assms uint_step_up [of x x'] uint_step_up [of y y'] uint_step_down [of x' x] uint_step_down [of y' y]
    by (cases "uint x < uint x'"; cases "uint y < uint y'")
      (auto simp: p q getDirectionTo_def Let_def offset_defs steps_to_def split: if_splits)
qed


lemma walk_reaches: "pz p = pz q \<Longrightarrow> n = nat (steps_to p q) \<Longrightarrow> walk n q p = q"
proof (induction n arbitrary: p)
  case 0
  then have "steps_to p q \<le> 0" by simp
  then have "px p = px q" "py p = py q"
    by (auto simp: steps_to_def offset_defs word_uint_eq_iff)
  with 0 show ?case by (cases p; cases q) simp
next
  case (Suc n)
  then have "p \<noteq> q" by (auto simp: steps_to_def offset_defs)
  let ?p = "getNextPosition (getDirectionTo p q) p"
  have "walk n q ?p = q"
    using step_closer [OF Suc.prems(1) \<open>p \<noteq> q\<close>] Suc.prems(2) by (intro Suc.IH) auto
  then show ?case by simp
qed

text \<open>
  A creature that keeps stepping in the direction \<open>getDirectionTo\<close> gives reaches the position
  on its floor in as many steps as the larger of the two offsets, the least there can be when
  a step changes each coordinate by at most one.
\<close>

theorem direct_walk:
  assumes "pz p = pz q"
  shows "walk (nat (steps_to p q)) q p = q \<and>
         (\<forall>n < nat (steps_to p q). walk n q p \<noteq> q)"
proof (intro conjI allI impI)
  show "walk (nat (steps_to p q)) q p = q" using walk_reaches [OF assms refl] .
next
  fix n
  assume "n < nat (steps_to p q)"
  with assms have "pz (walk n q p) = pz q \<and> steps_to (walk n q p) q = steps_to p q - int n"
  proof (induction n arbitrary: p)
    case 0
    then show ?case by simp
  next
    case (Suc n)
    then have "p \<noteq> q" by (auto simp: steps_to_def offset_defs)
    from step_closer [OF Suc.prems(1) this] Suc show ?case by simp
  qed
  with \<open>n < nat (steps_to p q)\<close> show "walk n q p \<noteq> q"
    by (auto simp: steps_to_def offset_defs)
qed

theorem direct_walk_witness:
  "walk 5 (Position 105 98 7) (Position 100 100 7) = Position 105 98 7"
  using direct_walk [of "Position 100 100 7" "Position 105 98 7"]
  by (simp add: steps_to_def offset_defs)

end
