(* ===== verification/Map_Tree.thy ===== *)
theory Map_Tree
  imports Geometry
begin

text \<open>
  The quad tree of the map: \<open>QTreeNode\<close>, \<open>QTreeLeafNode\<close>, \<open>Map::getTile\<close> and \<open>Map::setTile\<close> of
  \<open>src/src/map.h\<close> and \<open>map.cpp\<close>. Inner nodes branch on bit 15 of the coordinates, which every level
  shifts left; a leaf is the square of 8 by 8 columns that share the bits 15 to 3. The pointers
  between neighbouring leaves are their coordinates. What a tile is belongs to \<open>tile.cpp\<close>: it is a
  type variable, and the merge of a second tile into one that is there an argument.
\<close>

datatype 'l qtree = QLeaf 'l | QNode "'l qtree option" "'l qtree option" "'l qtree option" "'l qtree option"

definition empty_node :: "'l qtree" where
  "empty_node = QNode None None None None"

definition qindex :: "u32 \<Rightarrow> u32 \<Rightarrow> u32" where
  "qindex x y = drop_bit 15 (x AND 0x8000) OR drop_bit 14 (y AND 0x8000)"

fun qchild :: "u32 \<Rightarrow> 'l qtree \<Rightarrow> 'l qtree option" where
  "qchild i (QLeaf l) = None"
| "qchild i (QNode a b c d) = (if i = 0 then a else if i = 1 then b else if i = 2 then c else d)"

fun set_qchild :: "u32 \<Rightarrow> 'l qtree \<Rightarrow> 'l qtree \<Rightarrow> 'l qtree" where
  "set_qchild i n (QLeaf l) = QLeaf l"
| "set_qchild i n (QNode a b c d) =
     (if i = 0 then QNode (Some n) b c d else if i = 1 then QNode a (Some n) c d
      else if i = 2 then QNode a b (Some n) d else QNode a b c (Some n))"

text \<open>\<open>QTreeNode::getLeaf\<close>.\<close>

function getLeaf :: "'l qtree \<Rightarrow> u32 \<Rightarrow> u32 \<Rightarrow> 'l option" where
  "getLeaf (QLeaf l) x y = Some l"
| "getLeaf (QNode a b c d) x y =
     (case qchild (qindex x y) (QNode a b c d) of
        None \<Rightarrow> None
      | Some n \<Rightarrow> getLeaf n (push_bit 1 x) (push_bit 1 y))"
  by pat_completeness auto
termination
  by (relation "measure (\<lambda>(n, x, y). size n)") (auto split: if_splits)

text \<open>
  \<open>QTreeNode::createLeaf\<close> with \<open>FLOOR_BITS\<close> as the level of the leaves: the tree with the leaf in
  it, and whether the leaf is new. The code would recurse on below the leaves of a tree that is not
  of the right height; \<open>None\<close> is such a tree.
\<close>

definition FLOOR_BITS :: nat where "FLOOR_BITS = 3"

fun createLeaf :: "'l \<Rightarrow> nat \<Rightarrow> 'l qtree \<Rightarrow> u32 \<Rightarrow> u32 \<Rightarrow> ('l qtree \<times> bool) option" where
  "createLeaf new level (QLeaf l) x y = Some (QLeaf l, False)"
| "createLeaf new 0 (QNode a b c d) x y = None"
| "createLeaf new (Suc level) (QNode a b c d) x y =
     (let index = qindex x y;
          (child, newLeaf) =
            (case qchild index (QNode a b c d) of
               Some n \<Rightarrow> (n, False)
             | None \<Rightarrow> if Suc level \<noteq> FLOOR_BITS then (empty_node, False) else (QLeaf new, True))
      in case createLeaf new level child (x * 2) (y * 2) of
           None \<Rightarrow> None
         | Some (child, created) \<Rightarrow> Some (set_qchild index child (QNode a b c d), newLeaf \<or> created))"

text \<open>A write through the pointer to a leaf.\<close>

function modify_leaf :: "('l \<Rightarrow> 'l) \<Rightarrow> 'l qtree \<Rightarrow> u32 \<Rightarrow> u32 \<Rightarrow> 'l qtree" where
  "modify_leaf f (QLeaf l) x y = QLeaf (f l)"
| "modify_leaf f (QNode a b c d) x y =
     (case qchild (qindex x y) (QNode a b c d) of
        None \<Rightarrow> QNode a b c d
      | Some n \<Rightarrow> set_qchild (qindex x y) (modify_leaf f n (push_bit 1 x) (push_bit 1 y)) (QNode a b c d))"
  by pat_completeness auto
termination
  by (relation "measure (\<lambda>(f, n, x, y). size n)") (auto split: if_splits)

section \<open>The tree as a map from squares to leaves\<close>

text \<open>Every leaf is at the same depth: \<open>h\<close> below this node.\<close>

fun height_ok :: "nat \<Rightarrow> 'l qtree \<Rightarrow> bool" where
  "height_ok 0 (QLeaf l) = True"
| "height_ok (Suc h) (QNode a b c d) =
     (list_all (\<lambda>n. case n of None \<Rightarrow> True | Some n \<Rightarrow> height_ok h n) [a, b, c, d])"
| "height_ok _ _ = False"

text \<open>Two columns take the same way for \<open>h\<close> levels.\<close>

definition same_path :: "nat \<Rightarrow> u32 \<Rightarrow> u32 \<Rightarrow> u32 \<Rightarrow> u32 \<Rightarrow> bool" where
  "same_path h x y x' y' \<longleftrightarrow> (\<forall>i<h. bit x (15 - i) = bit x' (15 - i) \<and> bit y (15 - i) = bit y' (15 - i))"

lemma bit_0x8000: "bit (0x8000 :: u32) k \<longleftrightarrow> k = 15"
proof -
  have "(0x8000 :: u32) = push_bit 15 1" by simp
  then show ?thesis by (simp only: bit_push_bit_iff bit_1_iff) auto
qed

lemma qindex_bits: "qindex x y = of_bool (bit x 15) + 2 * of_bool (bit y 15)"
proof -
  have "drop_bit 15 (x AND 0x8000) = of_bool (bit x 15)"
    by (rule bit_eqI) (auto simp: bit_drop_bit_eq bit_and_iff bit_0x8000 bit_of_bool_iff bit_1_iff)
  moreover have "drop_bit 14 (y AND 0x8000) = push_bit 1 (of_bool (bit y 15))"
    by (rule bit_eqI, unfold bit_drop_bit_eq bit_and_iff bit_push_bit_iff bit_of_bool_iff o_apply bit_0x8000)
      auto
  ultimately show ?thesis by (cases "bit x 15"; cases "bit y 15") (simp_all add: qindex_def)
qed

lemma qindex_eq_iff: "qindex x y = qindex x' y' \<longleftrightarrow> bit x 15 = bit x' 15 \<and> bit y 15 = bit y' 15"
  by (simp add: qindex_bits)

lemma qindex_cases: "qindex x y = 0 \<or> qindex x y = 1 \<or> qindex x y = 2 \<or> qindex x y = 3"
  by (cases "bit x 15"; cases "bit y 15") (simp_all add: qindex_bits)

lemma qchild_set:
  "qchild (qindex x' y') (set_qchild (qindex x y) n (QNode a b c d)) =
     (if qindex x' y' = qindex x y then Some n else qchild (qindex x' y') (QNode a b c d))"
  using qindex_cases [of x y] qindex_cases [of x' y'] by auto

lemma same_path_0 [simp]: "same_path 0 x y x' y'"
  by (simp add: same_path_def)

lemma same_path_Suc:
  "same_path (Suc h) x y x' y' \<longleftrightarrow>
     qindex x y = qindex x' y' \<and> same_path h (push_bit 1 x) (push_bit 1 y) (push_bit 1 x') (push_bit 1 y')"
  if "h < 15"
proof -
  have "bit (push_bit 1 w :: u32) (15 - i) \<longleftrightarrow> bit w (15 - Suc i)" if "i < h" for w i
    using that \<open>h < 15\<close> unfolding bit_push_bit_iff by auto
  then have "same_path h (push_bit 1 x) (push_bit 1 y) (push_bit 1 x') (push_bit 1 y') \<longleftrightarrow>
      (\<forall>i<h. bit x (15 - Suc i) = bit x' (15 - Suc i) \<and> bit y (15 - Suc i) = bit y' (15 - Suc i))"
    by (simp add: same_path_def)
  then show ?thesis
    by (auto simp: same_path_def qindex_eq_iff All_less_Suc2)
qed

lemma same_path_refl [simp]: "same_path h x y x y"
  by (simp add: same_path_def)

lemma height_ok_child:
  "height_ok (Suc h) (QNode a b c d) \<Longrightarrow> qchild i (QNode a b c d) = Some n \<Longrightarrow> height_ok h n"
  by (auto split: if_splits)

lemma height_ok_set:
  "height_ok (Suc h) (QNode a b c d) \<Longrightarrow> height_ok h n \<Longrightarrow> height_ok (Suc h) (set_qchild i n (QNode a b c d))"
  by auto

lemma set_qchild_node: "\<exists>a' b' c' d'. set_qchild i n (QNode a b c d) = QNode a' b' c' d'"
  by auto

lemma getLeaf_node: "getLeaf (QNode a b c d) x y =
   (case qchild (qindex x y) (QNode a b c d) of None \<Rightarrow> None | Some n \<Rightarrow> getLeaf n (push_bit 1 x) (push_bit 1 y))"
  by simp

lemma getLeaf_set_qchild:
  "getLeaf (set_qchild (qindex x y) n (QNode a b c d)) x' y' =
     (if qindex x' y' = qindex x y then getLeaf n (push_bit 1 x') (push_bit 1 y')
      else getLeaf (QNode a b c d) x' y')"
proof -
  obtain a' b' c' d' where q: "set_qchild (qindex x y) n (QNode a b c d) = QNode a' b' c' d'"
    using set_qchild_node by blast
  show ?thesis
    using qchild_set [of x' y' x y n a b c d] unfolding q getLeaf_node by simp
qed

declare getLeaf.simps(2) [simp del] qchild.simps(2) [simp del] set_qchild.simps(2) [simp del]

lemma getLeaf_modify_leaf:
  "height_ok h n \<Longrightarrow> h \<le> 15 \<Longrightarrow>
   getLeaf (modify_leaf f n x y) x' y' =
     (if same_path h x y x' y' then map_option f (getLeaf n x' y') else getLeaf n x' y') \<and>
   height_ok h (modify_leaf f n x y)"
proof (induction f n x y arbitrary: h x' y' rule: modify_leaf.induct)
  case (1 f l x y)
  then show ?case by (cases h) auto
next
  case (2 f a b c d x y)
  then obtain k where h: "h = Suc k" by (cases h) auto
  show ?case
  proof (cases "qchild (qindex x y) (QNode a b c d)")
    case None
    then have "getLeaf (QNode a b c d) x' y' = None" if "same_path h x y x' y'"
      using that 2(3) same_path_Suc [of k x y x' y'] by (simp add: h getLeaf_node)
    with None 2(2) show ?thesis by simp
  next
    case (Some n)
    let ?m = "modify_leaf f n (push_bit 1 x) (push_bit 1 y)"
    have ih: "getLeaf ?m (push_bit 1 x') (push_bit 1 y') =
        (if same_path k (push_bit 1 x) (push_bit 1 y) (push_bit 1 x') (push_bit 1 y')
         then map_option f (getLeaf n (push_bit 1 x') (push_bit 1 y')) else getLeaf n (push_bit 1 x') (push_bit 1 y')) \<and>
        height_ok k ?m"
      using 2(1) [OF Some, of k] height_ok_child [of k a b c d, OF _ Some] 2(2,3) h by simp
    show ?thesis
    proof (cases "qindex x' y' = qindex x y")
      case True
      then have "getLeaf (QNode a b c d) x' y' = getLeaf n (push_bit 1 x') (push_bit 1 y')"
        using Some by (simp add: getLeaf_node)
      with ih True Some 2(2,3) show ?thesis
        by (simp add: getLeaf_set_qchild same_path_Suc h height_ok_set)
    next
      case False
      with ih Some 2(2,3) show ?thesis
        by (auto simp: getLeaf_set_qchild same_path_Suc h height_ok_set)
    qed
  qed
qed


lemma getLeaf_same_path:
  "height_ok h n \<Longrightarrow> h \<le> 15 \<Longrightarrow> same_path h x y x' y' \<Longrightarrow> getLeaf n x y = getLeaf n x' y'"
proof (induction n x y arbitrary: h x' y' rule: getLeaf.induct)
  case (2 a b c d x y)
  then obtain k where h: "h = Suc k" by (cases h) auto
  then have same: "qindex x y = qindex x' y'" "same_path k (push_bit 1 x) (push_bit 1 y) (push_bit 1 x') (push_bit 1 y')"
    using 2(3,4) by (simp_all add: same_path_Suc)
  show ?case
  proof (cases "qchild (qindex x y) (QNode a b c d)")
    case None
    then show ?thesis using same by (simp add: getLeaf_node)
  next
    case (Some n)
    have "getLeaf n (push_bit 1 x) (push_bit 1 y) = getLeaf n (push_bit 1 x') (push_bit 1 y')"
      using 2(1) [OF Some, of k] height_ok_child [of k a b c d, OF _ Some] 2(2,3) same(2) h by simp
    then show ?thesis using same(1) Some by (simp add: getLeaf_node)
  qed
qed simp

lemma getLeaf_empty [simp]: "getLeaf empty_node x y = None"
  using qindex_cases [of x y] by (auto simp: empty_node_def getLeaf_node qchild.simps(2))

lemma createLeaf_spec:
  "height_ok h n \<Longrightarrow> h \<le> 13 \<Longrightarrow>
   \<exists>n'. createLeaf new (h + 2) n x y = Some (n', getLeaf n x y = None) \<and> height_ok h n' \<and>
     (\<forall>x' y'. getLeaf n' x' y' =
        (if same_path h x y x' y' \<and> getLeaf n x y = None then Some new else getLeaf n x' y'))"
proof (induction h arbitrary: n x y)
  case 0
  then obtain l where "n = QLeaf l" by (cases n) auto
  then show ?case by simp
next
  case (Suc h)
  then obtain a b c d where n: "n = QNode a b c d" by (cases n) auto
  let ?i = "qindex x y"
  define child where "child = (case qchild ?i n of Some m \<Rightarrow> m
      | None \<Rightarrow> if Suc (h + 2) \<noteq> FLOOR_BITS then empty_node else QLeaf new)"
  define fresh where "fresh = (qchild ?i n = None \<and> Suc (h + 2) = FLOOR_BITS)"
  have child_ok: "height_ok h child"
  proof (cases "qchild ?i n")
    case None
    then show ?thesis by (cases h) (auto simp: child_def FLOOR_BITS_def empty_node_def)
  next
    case (Some m)
    then show ?thesis using Suc.prems height_ok_child [of h a b c d ?i m] by (simp add: child_def n)
  qed
  then obtain m where m: "createLeaf new (h + 2) child (x * 2) (y * 2) = Some (m, getLeaf child (x * 2) (y * 2) = None)"
    "height_ok h m"
    "\<And>x' y'. getLeaf m x' y' =
        (if same_path h (x * 2) (y * 2) x' y' \<and> getLeaf child (x * 2) (y * 2) = None then Some new else getLeaf child x' y')"
    using Suc.IH [of child "x * 2" "y * 2"] Suc.prems by auto
  have leaf: "getLeaf child x' y' = (if fresh then Some new
      else case qchild ?i n of None \<Rightarrow> None | Some k \<Rightarrow> getLeaf k x' y')" for x' y'
    by (auto simp: child_def fresh_def FLOOR_BITS_def split: option.split)
  have created: "getLeaf n x y = None \<longleftrightarrow> fresh \<or> getLeaf child (x * 2) (y * 2) = None"
    using leaf [of "x * 2" "y * 2"] by (auto simp: n getLeaf_node fresh_def split: option.splits)
  let ?n = "set_qchild ?i m (QNode a b c d)"
  have "(case qchild ?i (QNode a b c d) of Some n \<Rightarrow> (n, False)
      | None \<Rightarrow> if Suc (h + 2) \<noteq> FLOOR_BITS then (empty_node, False) else (QLeaf new, True)) = (child, fresh)"
    by (auto simp: child_def fresh_def n split: option.split)
  then have "createLeaf new (Suc (h + 2)) n x y = Some (?n, fresh \<or> getLeaf child (x * 2) (y * 2) = None)"
    unfolding n createLeaf.simps(3) Let_def by (simp only: prod.case m(1) option.case)
  then have "createLeaf new (Suc h + 2) n x y = Some (?n, getLeaf n x y = None)"
    using created by simp
  moreover have "height_ok (Suc h) ?n" using Suc.prems m(2) height_ok_set n by blast
  moreover have "getLeaf ?n x' y' =
      (if same_path (Suc h) x y x' y' \<and> getLeaf n x y = None then Some new else getLeaf n x' y')" for x' y'
  proof (cases "qindex x' y' = ?i")
    case False
    then show ?thesis using Suc.prems by (auto simp: getLeaf_set_qchild same_path_Suc n)
  next
    case True
    have "fresh \<Longrightarrow> h = 0" by (simp add: fresh_def FLOOR_BITS_def)
    with True Suc.prems show ?thesis
      using m(3) [of "x' * 2" "y' * 2"] leaf [of "x' * 2" "y' * 2"] created
      by (auto simp: getLeaf_set_qchild same_path_Suc n getLeaf_node fresh_def split: option.splits)
  qed
  ultimately show ?case by blast
qed

end
