(* ===== verification/Map_World.thy ===== *)
theory Map_World
  imports Map_Tree
begin

text \<open>
  The tiles and the creatures of the map, \<open>src/src/map.cpp\<close>: tiles are set and read through the
  quad tree, creatures are kept in lists at its leaves, and \<open>getSpectatorsInternal\<close> visits the
  leaves of a rectangle along the pointers between neighbours. Creatures are identifiers; where they
  stand, and whether they are players, is beside the tree, as it is in the creature objects.
\<close>

type_synonym cid = u32
type_synonym leaf_ref = "u16 \<times> u16"

definition FLOOR_SIZE :: u32 where "FLOOR_SIZE = 8"
definition FLOOR_MASK :: u16 where "FLOOR_MASK = mask 3"
definition MAP_MAX_LAYERS :: nat where "MAP_MAX_LAYERS = 16"

record 't leaf =
  leafS :: "leaf_ref option"
  leafE :: "leaf_ref option"
  floors :: "nat \<Rightarrow> (u16 \<times> u16 \<Rightarrow> 't option) option"
  creature_list :: "cid list"
  player_list :: "cid list"

record 't world =
  root :: "'t leaf qtree"
  placed :: "cid set"
  pos_of :: "cid \<Rightarrow> position"

definition new_leaf :: "'t leaf" where
  "new_leaf = \<lparr>leafS = None, leafE = None, floors = (\<lambda>_. None), creature_list = [], player_list = []\<rparr>"

definition new_world :: "'t world" where
  "new_world = \<lparr>root = empty_node, placed = {}, pos_of = (\<lambda>_. Position 0 0 0)\<rparr>"

text \<open>The leaf of a column (\<open>getLeafStatic\<close>, \<open>getQTNode\<close>), and the pointer to it: its first column.\<close>

definition base :: "u16 \<Rightarrow> u16" where
  "base x = x AND NOT FLOOR_MASK"

definition leaf_at :: "'t leaf qtree \<Rightarrow> u16 \<Rightarrow> u16 \<Rightarrow> 't leaf option" where
  "leaf_at r x y = getLeaf r (ucast x) (ucast y)"

definition leaf_ptr :: "'t leaf qtree \<Rightarrow> u32 \<Rightarrow> u32 \<Rightarrow> leaf_ref option" where
  "leaf_ptr r x y = map_option (\<lambda>_. (base (ucast x), base (ucast y))) (getLeaf r x y)"

section \<open>Tiles\<close>

definition getTile :: "'t world \<Rightarrow> u16 \<Rightarrow> u16 \<Rightarrow> byte \<Rightarrow> 't option" where
  "getTile m x y z =
     (if unat z \<ge> MAP_MAX_LAYERS then None
      else case leaf_at (root m) x y of
             None \<Rightarrow> None
           | Some leaf \<Rightarrow>
               (case floors leaf (unat z) of
                  None \<Rightarrow> None
                | Some fl \<Rightarrow> fl (x AND FLOOR_MASK, y AND FLOOR_MASK)))"

text \<open>The links of a new leaf with the leaves to its north, west, south and east.\<close>

definition link_leaf :: "u16 \<Rightarrow> u16 \<Rightarrow> 't leaf qtree \<Rightarrow> 't leaf qtree" where
  "link_leaf x y r =
     (let here = (base x, base y);
          X = ucast x;
          Y = ucast y;
          r = modify_leaf (\<lambda>l. l\<lparr>leafS := Some here\<rparr>) r X (Y - FLOOR_SIZE);
          r = modify_leaf (\<lambda>l. l\<lparr>leafE := Some here\<rparr>) r (X - FLOOR_SIZE) Y;
          r = (case leaf_ptr r X (Y + FLOOR_SIZE) of
                 None \<Rightarrow> r | Some p \<Rightarrow> modify_leaf (\<lambda>l. l\<lparr>leafS := Some p\<rparr>) r X Y)
      in case leaf_ptr r (X + FLOOR_SIZE) Y of
           None \<Rightarrow> r | Some p \<Rightarrow> modify_leaf (\<lambda>l. l\<lparr>leafE := Some p\<rparr>) r X Y)"

text \<open>\<open>createFloor\<close>, and the tile put there; \<open>merge\<close> moves the things of the new tile to the old one.\<close>

definition put_tile :: "('t \<Rightarrow> 't \<Rightarrow> 't) \<Rightarrow> u16 \<Rightarrow> u16 \<Rightarrow> nat \<Rightarrow> 't \<Rightarrow> 't leaf \<Rightarrow> 't leaf" where
  "put_tile merge x y z newTile l =
     (let fl = (case floors l z of None \<Rightarrow> (\<lambda>_. None) | Some fl \<Rightarrow> fl);
          k = (x AND FLOOR_MASK, y AND FLOOR_MASK);
          tile = (case fl k of Some tile \<Rightarrow> merge tile newTile | None \<Rightarrow> newTile)
      in l\<lparr>floors := (floors l)(z \<mapsto> fl(k \<mapsto> tile))\<rparr>)"

definition setTile :: "('t \<Rightarrow> 't \<Rightarrow> 't) \<Rightarrow> u16 \<Rightarrow> u16 \<Rightarrow> byte \<Rightarrow> 't \<Rightarrow> 't world \<Rightarrow> 't world option" where
  "setTile merge x y z newTile m =
     (if unat z \<ge> MAP_MAX_LAYERS then Some m
      else case createLeaf new_leaf 15 (root m) (ucast x) (ucast y) of
             None \<Rightarrow> None
           | Some (r, newLeaf) \<Rightarrow>
               (let r = (if newLeaf then link_leaf x y r else r)
                in Some (m\<lparr>root := modify_leaf (put_tile merge x y (unat z) newTile) r (ucast x) (ucast y)\<rparr>)))"

section \<open>Creatures\<close>

definition leaf_addCreature :: "(cid \<Rightarrow> bool) \<Rightarrow> cid \<Rightarrow> 't leaf \<Rightarrow> 't leaf" where
  "leaf_addCreature is_player c l =
     (let l = l\<lparr>creature_list := creature_list l @ [c]\<rparr>
      in if is_player c then l\<lparr>player_list := player_list l @ [c]\<rparr> else l)"

text \<open>The found entry is overwritten by the last one, which is popped; it must be there.\<close>

definition swap_remove :: "cid \<Rightarrow> cid list \<Rightarrow> cid list" where
  "swap_remove c xs =
     (let i = length (takeWhile (\<lambda>d. d \<noteq> c) xs)
      in if i < length xs then butlast (xs[i := last xs]) else xs)"

definition leaf_removeCreature :: "(cid \<Rightarrow> bool) \<Rightarrow> cid \<Rightarrow> 't leaf \<Rightarrow> 't leaf" where
  "leaf_removeCreature is_player c l =
     (let l = l\<lparr>creature_list := swap_remove c (creature_list l)\<rparr>
      in if is_player c then l\<lparr>player_list := swap_remove c (player_list l)\<rparr> else l)"

definition at_leaf :: "('t leaf \<Rightarrow> 't leaf) \<Rightarrow> position \<Rightarrow> 't world \<Rightarrow> 't world" where
  "at_leaf f p m = m\<lparr>root := modify_leaf f (root m) (ucast (px p)) (ucast (py p))\<rparr>"

text \<open>
  The ends of \<open>placeCreature\<close> and of \<open>Tile::removeCreature\<close>, and the part of \<open>moveCreature\<close> that
  changes the leaves; \<open>None\<close> is a null pointer to a leaf, or a creature placed twice.
\<close>

definition map_place :: "(cid \<Rightarrow> bool) \<Rightarrow> cid \<Rightarrow> position \<Rightarrow> 't world \<Rightarrow> 't world option" where
  "map_place is_player c dest m =
     (if c \<in> placed m \<or> leaf_at (root m) (px dest) (py dest) = None then None
      else Some (at_leaf (leaf_addCreature is_player c) dest
             (m\<lparr>placed := insert c (placed m), pos_of := (pos_of m)(c := dest)\<rparr>)))"

definition map_remove :: "(cid \<Rightarrow> bool) \<Rightarrow> cid \<Rightarrow> 't world \<Rightarrow> 't world option" where
  "map_remove is_player c m =
     (if c \<notin> placed m then None
      else Some (at_leaf (leaf_removeCreature is_player c) (pos_of m c) (m\<lparr>placed := placed m - {c}\<rparr>)))"

definition map_move :: "(cid \<Rightarrow> bool) \<Rightarrow> cid \<Rightarrow> position \<Rightarrow> 't world \<Rightarrow> 't world option" where
  "map_move is_player c newPos m =
     (if c \<notin> placed m \<or> leaf_at (root m) (px newPos) (py newPos) = None then None
      else
        let oldPos = pos_of m c;
            m = m\<lparr>pos_of := (pos_of m)(c := newPos)\<rparr>
        in if (base (px oldPos), base (py oldPos)) \<noteq> (base (px newPos), base (py newPos))
           then Some (at_leaf (leaf_addCreature is_player c) newPos
                  (at_leaf (leaf_removeCreature is_player c) oldPos m))
           else Some m)"

section \<open>Spectators\<close>

text \<open>The ranges of a search, as \<open>getSpectators\<close> passes them.\<close>

record ranges =
  minX :: int
  maxX :: int
  minY :: int
  maxY :: int
  minZ :: int
  maxZ :: int

definition sees :: "position \<Rightarrow> ranges \<Rightarrow> position \<Rightarrow> bool" where
  "sees center g cpos =
     (let min_y = uint (py center) + minY g;
          min_x = uint (px center) + minX g;
          max_y = uint (py center) + maxY g;
          max_x = uint (px center) + maxX g
      in if minZ g > uint (pz cpos) \<or> maxZ g < uint (pz cpos) then False
         else
           let offsetZ = getOffsetZ center cpos
           in \<not> (min_y + offsetZ > uint (py cpos) \<or> max_y + offsetZ < uint (py cpos) \<or>
                 min_x + offsetZ > uint (px cpos) \<or> max_x + offsetZ < uint (px cpos)))"

definition clamp16 :: "int \<Rightarrow> int" where
  "clamp16 v = min 0xFFFF (max 0 v)"

text \<open>
  The inner loop along a row of leaves: \<open>cur\<close> is \<open>leafE\<close>. \<open>None\<close> is a pointer to a leaf that is
  not there. The outer loop goes down the first column, \<open>cur\<close> being \<open>leafS\<close>.
\<close>

function scan_row :: "'t leaf qtree \<Rightarrow> ('t leaf \<Rightarrow> cid list) \<Rightarrow> int \<Rightarrow> int \<Rightarrow> int \<Rightarrow> leaf_ref option \<Rightarrow> cid list option" where
  "scan_row r select endx2 ny nx cur =
     (if nx > endx2 then Some []
      else case cur of
             Some p \<Rightarrow>
               (case leaf_at r (fst p) (snd p) of
                  None \<Rightarrow> None
                | Some l \<Rightarrow> map_option ((@) (select l)) (scan_row r select endx2 ny (nx + 8) (leafE l)))
           | None \<Rightarrow> scan_row r select endx2 ny (nx + 8) (leaf_ptr r (word_of_int (nx + 8)) (word_of_int ny)))"
  by pat_completeness auto
termination by (relation "measure (\<lambda>(r, select, endx2, ny, nx, cur). nat (endx2 + 1 - nx))") auto

function scan_rows :: "'t leaf qtree \<Rightarrow> ('t leaf \<Rightarrow> cid list) \<Rightarrow> int \<Rightarrow> int \<Rightarrow> int \<Rightarrow> int \<Rightarrow> leaf_ref option \<Rightarrow> cid list option" where
  "scan_rows r select startx1 endx2 endy2 ny cur =
     (if ny > endy2 then Some []
      else case scan_row r select endx2 ny startx1 cur of
             None \<Rightarrow> None
           | Some found \<Rightarrow>
               (case cur of
                  Some p \<Rightarrow>
                    (case leaf_at r (fst p) (snd p) of
                       None \<Rightarrow> None
                     | Some l \<Rightarrow> map_option ((@) found) (scan_rows r select startx1 endx2 endy2 (ny + 8) (leafS l)))
                | None \<Rightarrow> map_option ((@) found) (scan_rows r select startx1 endx2 endy2 (ny + 8)
                            (leaf_ptr r (word_of_int startx1) (word_of_int (ny + 8))))))"
  by pat_completeness auto
termination by (relation "measure (\<lambda>(r, select, startx1, endx2, endy2, ny, cur). nat (endy2 + 1 - ny))") auto

definition getSpectatorsInternal :: "'t world \<Rightarrow> position \<Rightarrow> ranges \<Rightarrow> bool \<Rightarrow> cid list option" where
  "getSpectatorsInternal m center g onlyPlayers =
     (let minoffset = uint (pz center) - maxZ g;
          x1 = clamp16 (uint (px center) + minX g + minoffset);
          y1 = clamp16 (uint (py center) + minY g + minoffset);
          maxoffset = uint (pz center) - minZ g;
          x2 = clamp16 (uint (px center) + maxX g + maxoffset);
          y2 = clamp16 (uint (py center) + maxY g + maxoffset);
          startx1 = x1 - x1 mod 8;
          starty1 = y1 - y1 mod 8;
          endx2 = x2 - x2 mod 8;
          endy2 = y2 - y2 mod 8;
          select = (\<lambda>l. filter (\<lambda>c. sees center g (pos_of m c))
                         (if onlyPlayers then player_list l else creature_list l))
      in scan_rows (root m) select startx1 endx2 endy2 starty1
           (leaf_ptr (root m) (word_of_int startx1) (word_of_int starty1)))"

definition multifloor_range :: "int \<Rightarrow> int \<times> int" where
  "multifloor_range z =
     (if z > 7 then (max (z - 2) 0, min (z + 2) (int MAP_MAX_LAYERS - 1))
      else if z = 6 then (0, 8)
      else if z = 7 then (0, 9)
      else (0, 7))"

section \<open>Columns and leaves\<close>

lemma bit_base: "bit (base x) n \<longleftrightarrow> bit x n \<and> 3 \<le> n"
  using bit_imp_le_length [of x n]
  by (auto simp: base_def FLOOR_MASK_def bit_and_iff bit_not_iff bit_mask_iff)

lemma base_eq_iff: "base x = base x' \<longleftrightarrow> (\<forall>i<13. bit x (15 - i) = bit x' (15 - i))"
proof
  assume eq: "base x = base x'"
  show "\<forall>i<13. bit x (15 - i) = bit x' (15 - i)"
  proof (intro allI impI)
    fix i :: nat
    assume "i < 13"
    then have "3 \<le> 15 - i" by simp
    with arg_cong [OF eq, of "\<lambda>w. bit w (15 - i)"] show "bit x (15 - i) = bit x' (15 - i)"
      by (simp only: bit_base simp_thms)
  qed
next
  assume eq: "\<forall>i<13. bit x (15 - i) = bit x' (15 - i)"
  show "base x = base x'"
  proof (rule bit_eqI)
    fix n
    assume "possible_bit TYPE(16 word) n"
    then have "n < 16" by simp
    then show "bit (base x) n \<longleftrightarrow> bit (base x') n"
      using eq [rule_format, of "15 - n"] by (auto simp: bit_base)
  qed
qed

lemma same_path_base:
  "same_path 13 X Y X' Y' \<longleftrightarrow>
     base (ucast X) = base (ucast X') \<and> base (ucast Y) = base (ucast Y')"
  by (auto simp: same_path_def base_eq_iff bit_ucast_iff)

lemma base_idem [simp]: "base (base x) = base x"
  by (rule bit_eqI) (auto simp: bit_base)

lemma base_minus: "base x = x - take_bit 3 x"
proof -
  have "x = base x + take_bit 3 x"
  proof -
    have "base x OR take_bit 3 x = x" by (rule bit_eqI) (auto simp: bit_base bit_or_iff bit_take_bit_iff)
    moreover have "base x AND take_bit 3 x = 0"
      by (rule bit_eqI) (auto simp: bit_base bit_and_iff bit_take_bit_iff)
    ultimately show ?thesis using word_plus_and_or [of "base x" "take_bit 3 x"] by simp
  qed
  then show ?thesis by (simp add: algebra_simps)
qed

lemma take_bit_8 [simp]: "take_bit 3 (8 :: u16) = 0"
  by simp

lemma take_bit_add8: "take_bit 3 (x + 8 :: u16) = take_bit 3 x"
  by (simp add: word_uint_eq_iff unsigned_take_bit_eq take_bit_eq_mod [where ?'a = int] uint_word_ariths mod_mod_cancel)

lemma base_add8 [simp]: "base (x + 8) = base x + 8"
  by (simp add: base_minus take_bit_add8)

lemma base_sub8 [simp]: "base (x - 8) = base x - 8"
  using base_add8 [of "x - 8"] by (simp add: algebra_simps)

lemma ucast_u32_u16 [simp]: "(ucast (ucast x :: u32) :: u16) = x"
  by (rule bit_eqI) (auto simp: bit_ucast_iff)

lemma getLeaf_leaf_at: "height_ok 13 r \<Longrightarrow> getLeaf r X Y = leaf_at r (ucast X) (ucast Y)"
  unfolding leaf_at_def by (rule getLeaf_same_path) (auto simp: same_path_base)

lemma leaf_at_base: "height_ok 13 r \<Longrightarrow> leaf_at r (base x) (base y) = leaf_at r x y"
  unfolding leaf_at_def by (rule getLeaf_same_path) (auto simp: same_path_base)

lemma leaf_at_cong:
  "height_ok 13 r \<Longrightarrow> base x = base x' \<Longrightarrow> base y = base y' \<Longrightarrow> leaf_at r x y = leaf_at r x' y'"
  using leaf_at_base [of r x y] leaf_at_base [of r x' y'] by simp

lemma leaf_at_modify:
  "height_ok 13 r \<Longrightarrow>
   leaf_at (modify_leaf f r X Y) x y =
     (if base x = base (ucast X) \<and> base y = base (ucast Y) then map_option f (leaf_at r x y) else leaf_at r x y)"
  using getLeaf_modify_leaf [of 13 r f X Y "ucast x" "ucast y"]
  by (auto simp: leaf_at_def same_path_base)

lemma height_modify [simp]: "height_ok 13 r \<Longrightarrow> height_ok 13 (modify_leaf f r X Y)"
  using getLeaf_modify_leaf [of 13 r f X Y 0 0] by simp

lemma uint_ucast_u16: "uint (ucast (x :: u16) :: u32) = uint x"
  using uint_bound16 [of x] by (simp add: unsigned_ucast_eq take_bit_int_eq_self)

lemma uint_ucast_u32: "uint (ucast (w :: u32) :: u16) = uint w mod 65536"
  by (simp add: unsigned_ucast_eq take_bit_eq_mod)

lemma ucast_sub8 [simp]: "ucast (ucast x - 8 :: u32) = (x - 8 :: u16)"
  by (simp add: word_uint_eq_iff [where ?'a = 16] uint_ucast_u32 uint_word_ariths uint_ucast_u16 mod_mod_cancel)

lemma ucast_add8 [simp]: "ucast (ucast x + 8 :: u32) = (x + 8 :: u16)"
  by (simp add: word_uint_eq_iff [where ?'a = 16] uint_ucast_u32 uint_word_ariths uint_ucast_u16 mod_mod_cancel)

definition same_leaf :: "u16 \<Rightarrow> u16 \<Rightarrow> u16 \<Rightarrow> u16 \<Rightarrow> bool" where
  "same_leaf x y x' y' \<longleftrightarrow> base x' = base x \<and> base y' = base y"

definition ptr :: "'t leaf qtree \<Rightarrow> u16 \<Rightarrow> u16 \<Rightarrow> leaf_ref option" where
  "ptr r x y = map_option (\<lambda>_. (base x, base y)) (leaf_at r x y)"

lemma leaf_ptr_ptr: "height_ok 13 r \<Longrightarrow> leaf_ptr r X Y = ptr r (ucast X) (ucast Y)"
  by (simp add: leaf_ptr_def ptr_def getLeaf_leaf_at)

lemma ptr_cong: "height_ok 13 r \<Longrightarrow> same_leaf x y x' y' \<Longrightarrow> ptr r x' y' = ptr r x y"
  by (auto simp: ptr_def same_leaf_def intro!: option.map_cong leaf_at_cong)

lemma same_leaf_refl [simp]: "same_leaf x y x y"
  by (simp add: same_leaf_def)

lemma leaf_at_modify16:
  "height_ok 13 r \<Longrightarrow>
   leaf_at (modify_leaf f r (ucast x) (ucast y)) x' y' =
     (if same_leaf x y x' y' then map_option f (leaf_at r x' y') else leaf_at r x' y')"
  by (simp add: leaf_at_modify same_leaf_def)

lemma createLeaf_leaf_at:
  assumes "height_ok 13 r"
  shows "\<exists>r'. createLeaf new 15 r (ucast x) (ucast y) = Some (r', leaf_at r x y = None) \<and> height_ok 13 r' \<and>
    (\<forall>x' y'. leaf_at r' x' y' =
       (if same_leaf x y x' y' \<and> leaf_at r x y = None then Some new else leaf_at r x' y'))"
  using createLeaf_spec [OF assms, of new "ucast x" "ucast y"]
  by (auto simp: leaf_at_def same_leaf_def same_path_base eq_commute [of "base x"] eq_commute [of "base y"])

text \<open>What the links should be: the neighbour, if it is there, around the edge of the coordinates too.\<close>

definition links_ok :: "'t leaf qtree \<Rightarrow> bool" where
  "links_ok r \<longleftrightarrow>
     (\<forall>x y l. leaf_at r x y = Some l \<longrightarrow> leafS l = ptr r x (y + 8) \<and> leafE l = ptr r (x + 8) y)"

lemma leaf_at_cond_modify:
  assumes "height_ok 13 r" and "\<And>l. leaf_at r x y = Some l \<Longrightarrow> g None l = l"
  shows "leaf_at (case p of None \<Rightarrow> r | Some q \<Rightarrow> modify_leaf (g (Some q)) r (ucast x) (ucast y)) u v =
      map_option (\<lambda>l. if same_leaf x y u v then g p l else l) (leaf_at r u v)"
    and "height_ok 13 (case p of None \<Rightarrow> r | Some q \<Rightarrow> modify_leaf (g (Some q)) r (ucast x) (ucast y))"
proof -
  show "height_ok 13 (case p of None \<Rightarrow> r | Some q \<Rightarrow> modify_leaf (g (Some q)) r (ucast x) (ucast y))"
    using assms(1) by (simp split: option.split)
  show "leaf_at (case p of None \<Rightarrow> r | Some q \<Rightarrow> modify_leaf (g (Some q)) r (ucast x) (ucast y)) u v =
      map_option (\<lambda>l. if same_leaf x y u v then g p l else l) (leaf_at r u v)"
  proof (cases p)
    case None
    then show ?thesis
      using assms leaf_at_cong [OF assms(1), of u x v y]
      by (cases "leaf_at r u v") (auto simp: same_leaf_def)
  next
    case (Some q)
    then show ?thesis using assms(1) by (cases "leaf_at r u v") (auto simp: leaf_at_modify16)
  qed
qed

lemma leaf_at_link:
  assumes ok: "height_ok 13 r" and new: "leaf_at r x y = Some new_leaf"
  shows "leaf_at (link_leaf x y r) x' y' =
     map_option (\<lambda>l. l\<lparr>leafS := (if same_leaf x (y - 8) x' y' then Some (base x, base y)
                               else if same_leaf x y x' y' then ptr r x (y + 8) else leafS l),
                     leafE := (if same_leaf (x - 8) y x' y' then Some (base x, base y)
                               else if same_leaf x y x' y' then ptr r (x + 8) y else leafE l)\<rparr>)
       (leaf_at r x' y') \<and> height_ok 13 (link_leaf x y r)"
proof -
  define S where "S = (\<lambda>p (l :: 'a leaf). l\<lparr>leafS := p\<rparr>)"
  define E where "E = (\<lambda>p (l :: 'a leaf). l\<lparr>leafE := p\<rparr>)"
  define r1 where "r1 = modify_leaf (S (Some (base x, base y))) r (ucast x) (ucast y - 8)"
  define r2 where "r2 = modify_leaf (E (Some (base x, base y))) r1 (ucast x - 8) (ucast y)"
  define r3 where "r3 = (case ptr r x (y + 8) of None \<Rightarrow> r2 | Some p \<Rightarrow> modify_leaf (S (Some p)) r2 (ucast x) (ucast y))"
  define r4 where "r4 = (case ptr r (x + 8) y of None \<Rightarrow> r3 | Some p \<Rightarrow> modify_leaf (E (Some p)) r3 (ucast x) (ucast y))"
  have ne: "\<not> same_leaf x (y - 8) x y" "\<not> same_leaf (x - 8) y x y" by (simp_all add: same_leaf_def)
  have h: "height_ok 13 r1" "height_ok 13 r2" using ok by (simp_all add: r1_def r2_def)
  have r2: "leaf_at r2 u v = map_option (\<lambda>l. (if same_leaf (x - 8) y u v then E (Some (base x, base y)) else id)
      ((if same_leaf x (y - 8) u v then S (Some (base x, base y)) else id) l)) (leaf_at r u v)" for u v
    using ok h by (cases "leaf_at r u v") (auto simp: r1_def r2_def leaf_at_modify same_leaf_def)
  have ptr2: "ptr r2 u v = ptr r u v" for u v by (simp add: ptr_def r2 option.map_comp o_def)
  have r3: "leaf_at r3 u v = map_option (\<lambda>l. if same_leaf x y u v then S (ptr r x (y + 8)) l else l) (leaf_at r2 u v)"
    "height_ok 13 r3" for u v
    unfolding r3_def using leaf_at_cond_modify [of r2 x y S] h(2) ne new by (auto simp: r2 S_def new_leaf_def)
  have ptr3: "ptr r3 u v = ptr r u v" for u v by (simp add: ptr_def r3 r2 option.map_comp o_def)
  have r4: "leaf_at r4 u v = map_option (\<lambda>l. if same_leaf x y u v then E (ptr r (x + 8) y) l else l) (leaf_at r3 u v)"
    "height_ok 13 r4" for u v
    unfolding r4_def using leaf_at_cond_modify [of r3 x y E] r3(2) ne new
    by (auto simp: r3(1) r2 S_def E_def new_leaf_def)
  have "modify_leaf (\<lambda>l. l\<lparr>leafS := Some (base x, base y)\<rparr>) r (ucast x) (ucast y - 8) = r1"
    "modify_leaf (\<lambda>l. l\<lparr>leafE := Some (base x, base y)\<rparr>) r1 (ucast x - 8) (ucast y) = r2"
    by (simp_all add: r1_def r2_def S_def E_def)
  moreover have "(case leaf_ptr r2 (ucast x) (ucast y + 8) of None \<Rightarrow> r2
      | Some p \<Rightarrow> modify_leaf (\<lambda>l. l\<lparr>leafS := Some p\<rparr>) r2 (ucast x) (ucast y)) = r3"
    by (simp add: r3_def leaf_ptr_ptr [OF h(2)] ptr2 S_def split: option.split)
  moreover have "(case leaf_ptr r3 (ucast x + 8) (ucast y) of None \<Rightarrow> r3
      | Some p \<Rightarrow> modify_leaf (\<lambda>l. l\<lparr>leafE := Some p\<rparr>) r3 (ucast x) (ucast y)) = r4"
    by (simp add: r4_def leaf_ptr_ptr [OF r3(2)] ptr3 E_def split: option.split)
  ultimately have "link_leaf x y r = r4"
    by (simp only: link_leaf_def Let_def FLOOR_SIZE_def)
  moreover have "\<not> (same_leaf x y x' y' \<and> same_leaf x (y - 8) x' y')"
    "\<not> (same_leaf x y x' y' \<and> same_leaf (x - 8) y x' y')" by (auto simp: same_leaf_def)
  ultimately show ?thesis
    using r4 by (cases "leaf_at r x' y'") (auto simp: r3 r2 S_def E_def)
qed


text \<open>The invariant of the tree: every leaf at depth 13, and the links right.\<close>

definition tree_ok :: "'t leaf qtree \<Rightarrow> bool" where
  "tree_ok r \<longleftrightarrow> height_ok 13 r \<and> links_ok r"

lemma links_ok_link:
  assumes ok: "tree_ok r" and absent: "leaf_at r x y = None" and h: "height_ok 13 r'"
    and r': "\<And>u v. leaf_at r' u v = (if same_leaf x y u v then Some new_leaf else leaf_at r u v)"
  shows "links_ok (link_leaf x y r')"
  unfolding links_ok_def
proof (intro allI impI)
  fix u v l
  note link = leaf_at_link [OF h, of x y]
  have new: "leaf_at r' x y = Some new_leaf" by (simp add: r')
  have ptr: "ptr (link_leaf x y r') i j = ptr r' i j" for i j
    using link [OF new] by (simp add: ptr_def option.map_comp o_def)
  have ptr': "ptr r' i j = (if same_leaf x y i j then Some (base x, base y) else ptr r i j)" for i j
    by (auto simp: ptr_def r' same_leaf_def)
  have south: "same_leaf x y u (v + 8) \<longleftrightarrow> same_leaf x (y - 8) u v"
    and east: "same_leaf x y (u + 8) v \<longleftrightarrow> same_leaf (x - 8) y u v"
    by (auto simp: same_leaf_def algebra_simps)
  assume l: "leaf_at (link_leaf x y r') u v = Some l"
  show "leafS l = ptr (link_leaf x y r') u (v + 8) \<and> leafE l = ptr (link_leaf x y r') (u + 8) v"
  proof (cases "same_leaf x y u v")
    case True
    then have "ptr r' u (v + 8) = ptr r' x (y + 8)" "ptr r' (u + 8) v = ptr r' (x + 8) y"
      by (auto intro!: ptr_cong [OF h] simp: same_leaf_def)
    moreover have "\<not> same_leaf x (y - 8) u v" "\<not> same_leaf (x - 8) y u v"
      using True by (auto simp: same_leaf_def)
    ultimately show ?thesis using l link [OF new, of u v] True by (auto simp: ptr)
  next
    case False
    then obtain k where k: "leaf_at r u v = Some k" using l link [OF new, of u v] by (auto simp: r')
    then have "leafS k = ptr r u (v + 8)" "leafE k = ptr r (u + 8) v"
      using ok by (auto simp: tree_ok_def links_ok_def)
    with k False show ?thesis
      using l link [OF new, of u v] by (auto simp: ptr ptr' south east r')
  qed
qed

lemma tree_ok_modify:
  assumes "tree_ok r" and "\<And>l. leafS (f l) = leafS l \<and> leafE (f l) = leafE l"
  shows "tree_ok (modify_leaf f r (ucast (x :: u16)) (ucast (y :: u16)))"
proof -
  have h: "height_ok 13 r" using assms(1) by (simp add: tree_ok_def)
  have "ptr (modify_leaf f r (ucast x) (ucast y)) u v = ptr r u v" for u v
    by (cases "leaf_at r u v") (simp_all add: ptr_def leaf_at_modify16 [OF h])
  then show ?thesis
    using assms h by (fastforce simp: tree_ok_def links_ok_def leaf_at_modify16 split: if_splits)
qed

text \<open>What \<open>setTile\<close> does to the leaves.\<close>

lemma setTile_leaf_at:
  assumes ok: "tree_ok (root m)" and z: "unat z < MAP_MAX_LAYERS"
  shows "\<exists>r. setTile merge x y z t m =
      Some (m\<lparr>root := modify_leaf (put_tile merge x y (unat z) t) r (ucast x) (ucast y)\<rparr>) \<and>
    tree_ok r \<and> (\<forall>u v. \<exists>g. leaf_at r u v = map_option g
      (if same_leaf x y u v \<and> leaf_at (root m) x y = None then Some new_leaf else leaf_at (root m) u v) \<and>
      (\<forall>l. floors (g l) = floors l \<and> creature_list (g l) = creature_list l \<and> player_list (g l) = player_list l))"
proof -
  have h: "height_ok 13 (root m)" using ok by (simp add: tree_ok_def)
  obtain r' where c: "createLeaf new_leaf 15 (root m) (ucast x) (ucast y) = Some (r', leaf_at (root m) x y = None)"
    and h': "height_ok 13 r'" and r': "\<And>u v. leaf_at r' u v =
      (if same_leaf x y u v \<and> leaf_at (root m) x y = None then Some new_leaf else leaf_at (root m) u v)"
    using createLeaf_leaf_at [OF h, of new_leaf x y] by blast
  show ?thesis
  proof (cases "leaf_at (root m) x y")
    case None
    then have new: "leaf_at r' x y = Some new_leaf" by (simp add: r')
    note link = leaf_at_link [OF h' new]
    have "tree_ok (link_leaf x y r')"
      using links_ok_link [OF ok None h'] link None by (simp add: tree_ok_def r')
    moreover have "\<exists>g. leaf_at (link_leaf x y r') u v = map_option g (leaf_at r' u v) \<and>
        (\<forall>l. floors (g l) = floors l \<and> creature_list (g l) = creature_list l \<and> player_list (g l) = player_list l)" for u v
      using link [of u v] by (intro exI conjI) (rule conjunct1, assumption, simp)
    ultimately show ?thesis
      using z c None by (intro exI [of _ "link_leaf x y r'"]) (simp add: setTile_def r')
  next
    case (Some l)
    then have "leaf_at r' = leaf_at (root m)" by (auto simp: r' fun_eq_iff)
    then have "tree_ok r'" using ok h' by (simp add: tree_ok_def links_ok_def ptr_def)
    then show ?thesis
      using z c Some by (intro exI [of _ r']) (auto simp: setTile_def r' option.map_id intro!: exI [of _ id])
  qed
qed

section \<open>The invariant of the map\<close>

text \<open>
  The lists of a leaf hold, once each, the creatures that stand in its columns; every creature on
  the map stands where there is a leaf.
\<close>

definition lists_ok :: "(cid \<Rightarrow> bool) \<Rightarrow> (cid \<Rightarrow> bool) \<Rightarrow> 't leaf \<Rightarrow> bool" where
  "lists_ok is_player here l \<longleftrightarrow>
     distinct (creature_list l) \<and> distinct (player_list l) \<and>
     (\<forall>c. c \<in> set (creature_list l) \<longleftrightarrow> here c) \<and>
     (\<forall>c. c \<in> set (player_list l) \<longleftrightarrow> here c \<and> is_player c)"

definition here :: "'t world \<Rightarrow> u16 \<Rightarrow> u16 \<Rightarrow> cid \<Rightarrow> bool" where
  "here m x y c \<longleftrightarrow> c \<in> placed m \<and> same_leaf x y (px (pos_of m c)) (py (pos_of m c))"

definition world_inv :: "(cid \<Rightarrow> bool) \<Rightarrow> 't world \<Rightarrow> bool" where
  "world_inv is_player m \<longleftrightarrow>
     tree_ok (root m) \<and>
     (\<forall>x y l. leaf_at (root m) x y = Some l \<longrightarrow> lists_ok is_player (here m x y) l) \<and>
     (\<forall>c \<in> placed m. leaf_at (root m) (px (pos_of m c)) (py (pos_of m c)) \<noteq> None)"

lemma world_inv_height: "world_inv P m \<Longrightarrow> height_ok 13 (root m)"
  by (simp add: world_inv_def tree_ok_def)

lemma here_cong: "same_leaf x y u v \<Longrightarrow> here m u v = here m x y"
  by (auto simp: here_def same_leaf_def fun_eq_iff)

lemma height_ok_empty: "height_ok (Suc n) empty_node"
  by (simp add: empty_node_def)

lemma new_world_inv: "world_inv P new_world"
proof -
  have "height_ok 13 empty_node" using height_ok_empty [of 12] by simp
  then show ?thesis by (simp add: world_inv_def new_world_def tree_ok_def links_ok_def leaf_at_def)
qed

lemma swap_remove_set:
  assumes "distinct xs"
  shows "distinct (swap_remove c xs) \<and> set (swap_remove c xs) = set xs - {c}"
proof (cases "c \<in> set xs")
  case False
  then have eq: "takeWhile (\<lambda>d. d \<noteq> c) xs = xs" by (auto simp: takeWhile_eq_all_conv)
  have "swap_remove c xs = xs" unfolding swap_remove_def eq Let_def by simp
  with False assms show ?thesis by simp
next
  case True
  then obtain ys zs where xs: "xs = ys @ c # zs" "c \<notin> set ys" by (meson split_list_first)
  then have tw: "takeWhile (\<lambda>d. d \<noteq> c) xs = ys" by (auto simp: takeWhile_tail)
  show ?thesis
  proof (cases zs rule: rev_cases)
    case Nil
    then show ?thesis using xs tw assms by (simp add: swap_remove_def Let_def)
  next
    case (snoc zs' z)
    then have "swap_remove c xs = ys @ z # zs'"
      using xs tw by (simp add: swap_remove_def butlast_append)
    with xs snoc assms show ?thesis by auto
  qed
qed

lemma lists_ok_add:
  assumes "lists_ok P h l" and "\<not> h c"
  shows "lists_ok P (\<lambda>d. d = c \<or> h d) (leaf_addCreature P c l)"
  using assms by (auto simp: lists_ok_def leaf_addCreature_def Let_def)

lemma lists_ok_remove:
  assumes "lists_ok P h l"
  shows "lists_ok P (\<lambda>d. d \<noteq> c \<and> h d) (leaf_removeCreature P c l)"
  using assms swap_remove_set [of "creature_list l" c] swap_remove_set [of "player_list l" c]
  by (auto simp: lists_ok_def leaf_removeCreature_def Let_def)

lemma leaf_creature_links [simp]:
  "leafS (leaf_addCreature P c l) = leafS l" "leafE (leaf_addCreature P c l) = leafE l"
  "leafS (leaf_removeCreature P c l) = leafS l" "leafE (leaf_removeCreature P c l) = leafE l"
  by (simp_all add: leaf_addCreature_def leaf_removeCreature_def Let_def)

lemma lists_ok_cong: "(\<And>c. h c = h' c) \<Longrightarrow> lists_ok P h l = lists_ok P h' l"
  by (simp add: lists_ok_def)

lemma map_place_inv:
  assumes inv: "world_inv P m" and do: "map_place P c p m = Some m'"
  shows "world_inv P m'"
proof -
  let ?m = "m\<lparr>placed := insert c (placed m), pos_of := (pos_of m)(c := p)\<rparr>"
  have c: "c \<notin> placed m" and leaf: "leaf_at (root m) (px p) (py p) \<noteq> None"
    and m': "m' = at_leaf (leaf_addCreature P c) p ?m"
    using do by (auto simp: map_place_def split: if_splits)
  have h: "height_ok 13 (root m)" using inv by (rule world_inv_height)
  have root': "leaf_at (root m') u v = (if same_leaf (px p) (py p) u v
      then map_option (leaf_addCreature P c) (leaf_at (root m) u v) else leaf_at (root m) u v)" for u v
    by (simp add: m' at_leaf_def leaf_at_modify16 [OF h])
  have here': "here m' u v d \<longleftrightarrow> (if d = c then same_leaf u v (px p) (py p) else here m u v d)" for u v d
    using c by (auto simp: m' at_leaf_def here_def)
  have "lists_ok P (here m' u v) l" if l: "leaf_at (root m') u v = Some l" for u v l
  proof (cases "same_leaf (px p) (py p) u v")
    case True
    then obtain k where k: "leaf_at (root m) u v = Some k" "l = leaf_addCreature P c k"
      using l root' by auto
    then have "lists_ok P (here m u v) k" "\<not> here m u v c"
      using inv c by (auto simp: world_inv_def here_def)
    from lists_ok_add [OF this] have "lists_ok P (\<lambda>d. d = c \<or> here m u v d) l" using k by simp
    then show ?thesis
      by (rule lists_ok_cong [THEN iffD1, rotated]) (use True here' \<open>\<not> here m u v c\<close> in \<open>auto simp: same_leaf_def\<close>)
  next
    case False
    then have "lists_ok P (here m u v) l" using l root' inv by (simp add: world_inv_def)
    then show ?thesis
      by (rule lists_ok_cong [THEN iffD1, rotated]) (use False here' c in \<open>auto simp: same_leaf_def here_def\<close>)
  qed
  moreover have "tree_ok (root m')"
    using inv tree_ok_modify [of "root m" "leaf_addCreature P c"] by (simp add: world_inv_def m' at_leaf_def)
  moreover have "leaf_at (root m') (px (pos_of m' d)) (py (pos_of m' d)) \<noteq> None" if "d \<in> placed m'" for d
    using that inv leaf root' by (auto simp: m' at_leaf_def world_inv_def)
  ultimately show ?thesis by (simp add: world_inv_def)
qed

lemma map_remove_inv:
  assumes inv: "world_inv P m" and do: "map_remove P c m = Some m'"
  shows "world_inv P m'"
proof -
  let ?p = "pos_of m c"
  have c: "c \<in> placed m" and m': "m' = at_leaf (leaf_removeCreature P c) ?p (m\<lparr>placed := placed m - {c}\<rparr>)"
    using do by (auto simp: map_remove_def split: if_splits)
  have h: "height_ok 13 (root m)" using inv by (rule world_inv_height)
  have root': "leaf_at (root m') u v = (if same_leaf (px ?p) (py ?p) u v
      then map_option (leaf_removeCreature P c) (leaf_at (root m) u v) else leaf_at (root m) u v)" for u v
    by (simp add: m' at_leaf_def leaf_at_modify16 [OF h])
  have here': "here m' u v d \<longleftrightarrow> d \<noteq> c \<and> here m u v d" for u v d
    by (auto simp: m' at_leaf_def here_def)
  have "lists_ok P (here m' u v) l" if l: "leaf_at (root m') u v = Some l" for u v l
  proof (cases "same_leaf (px ?p) (py ?p) u v")
    case True
    then obtain k where k: "leaf_at (root m) u v = Some k" "l = leaf_removeCreature P c k"
      using l root' by auto
    then have "lists_ok P (here m u v) k" using inv by (simp add: world_inv_def)
    from lists_ok_remove [OF this, of c] k here' show ?thesis by (simp add: lists_ok_def)
  next
    case False
    then have "lists_ok P (here m u v) l" using l root' inv by (simp add: world_inv_def)
    then show ?thesis
      by (rule lists_ok_cong [THEN iffD1, rotated]) (use False here' in \<open>auto simp: same_leaf_def here_def\<close>)
  qed
  moreover have "tree_ok (root m')"
    using inv tree_ok_modify [of "root m" "leaf_removeCreature P c"] by (simp add: world_inv_def m' at_leaf_def)
  moreover have "leaf_at (root m') (px (pos_of m' d)) (py (pos_of m' d)) \<noteq> None" if "d \<in> placed m'" for d
    using that inv root' by (auto simp: m' at_leaf_def world_inv_def)
  ultimately show ?thesis by (simp add: world_inv_def)
qed

text \<open>A move is a removal and a placement, and leaves the lists alone within a leaf.\<close>

lemma map_move_inv:
  assumes inv: "world_inv P m" and do: "map_move P c p m = Some m'"
  shows "world_inv P m'"
proof -
  let ?p = "pos_of m c"
  have c: "c \<in> placed m" and leaf: "leaf_at (root m) (px p) (py p) \<noteq> None"
    using do by (auto simp: map_move_def split: if_splits)
  show ?thesis
  proof (cases "same_leaf (px ?p) (py ?p) (px p) (py p)")
    case True
    then have m': "m' = m\<lparr>pos_of := (pos_of m)(c := p)\<rparr>"
      using do by (auto simp: map_move_def Let_def same_leaf_def split: if_splits)
    have "here m' u v = here m u v" for u v
      using True by (auto simp: m' here_def same_leaf_def fun_eq_iff)
    with inv leaf show ?thesis by (auto simp: world_inv_def m')
  next
    case False
    then have "(base (px ?p), base (py ?p)) \<noteq> (base (px p), base (py p))" by (auto simp: same_leaf_def)
    then have m': "m' = at_leaf (leaf_addCreature P c) p (at_leaf (leaf_removeCreature P c) ?p
        (m\<lparr>pos_of := (pos_of m)(c := p)\<rparr>))"
      using do by (auto simp: map_move_def Let_def split: if_splits)
    let ?r = "at_leaf (leaf_removeCreature P c) ?p (m\<lparr>placed := placed m - {c}\<rparr>)"
    have r: "map_remove P c m = Some ?r" using c by (simp add: map_remove_def)
    have h: "height_ok 13 (root m)" using inv by (rule world_inv_height)
    have "map_place P c p ?r = Some m'"
      using c leaf by (auto simp: map_place_def at_leaf_def m' leaf_at_modify16 [OF h] insert_absorb)
    with map_place_inv [OF map_remove_inv [OF inv r]] show ?thesis by blast
  qed
qed

lemma put_tile_lists [simp]:
  "leafS (put_tile merge x y z t l) = leafS l" "leafE (put_tile merge x y z t l) = leafE l"
  "creature_list (put_tile merge x y z t l) = creature_list l" "player_list (put_tile merge x y z t l) = player_list l"
  by (simp_all add: put_tile_def Let_def)

lemma setTile_inv:
  assumes inv: "world_inv P m"
  shows "\<exists>m'. setTile merge x y z t m = Some m' \<and> world_inv P m'"
proof (cases "unat z < MAP_MAX_LAYERS")
  case False
  with inv show ?thesis by (simp add: setTile_def)
next
  case True
  have tree: "tree_ok (root m)" using inv by (simp add: world_inv_def)
  obtain r where set: "setTile merge x y z t m =
      Some (m\<lparr>root := modify_leaf (put_tile merge x y (unat z) t) r (ucast x) (ucast y)\<rparr>)" and r: "tree_ok r"
    and at: "\<And>u v. \<exists>g. leaf_at r u v = map_option g
      (if same_leaf x y u v \<and> leaf_at (root m) x y = None then Some new_leaf else leaf_at (root m) u v) \<and>
      (\<forall>l. floors (g l) = floors l \<and> creature_list (g l) = creature_list l \<and> player_list (g l) = player_list l)"
    using setTile_leaf_at [of m z, OF tree True, of merge x y t] by blast
  let ?m = "m\<lparr>root := modify_leaf (put_tile merge x y (unat z) t) r (ucast x) (ucast y)\<rparr>"
  have h: "height_ok 13 r" using r by (simp add: tree_ok_def)
  have here: "here ?m = here m" by (simp add: here_def fun_eq_iff)
  have "lists_ok P (here m u v) l" if l: "leaf_at (root ?m) u v = Some l" for u v l
  proof -
    obtain k where k: "leaf_at r u v = Some k" "creature_list l = creature_list k" "player_list l = player_list k"
      using l by (auto simp: leaf_at_modify16 [OF h] split: if_splits)
    show ?thesis
    proof (cases "same_leaf x y u v \<and> leaf_at (root m) x y = None")
      case True
      then have "creature_list k = []" "player_list k = []" using at [of u v] k by (auto simp: new_leaf_def)
      moreover have "\<not> here m u v c" for c
        using True inv leaf_at_cong [OF world_inv_height [OF inv], of "px (pos_of m c)" x "py (pos_of m c)" y]
        by (auto simp: here_def world_inv_def same_leaf_def)
      ultimately show ?thesis using k by (simp add: lists_ok_def)
    next
      case False
      then obtain j where "leaf_at (root m) u v = Some j" "creature_list k = creature_list j"
        "player_list k = player_list j"
        using at [of u v] k by (cases "leaf_at (root m) u v") auto
      then show ?thesis using inv k by (auto simp: world_inv_def lists_ok_def)
    qed
  qed
  moreover have "leaf_at (root ?m) (px (pos_of m c)) (py (pos_of m c)) \<noteq> None" if "c \<in> placed m" for c
    using that inv at [of "px (pos_of m c)" "py (pos_of m c)"]
    by (auto simp: leaf_at_modify16 [OF h] world_inv_def split: if_splits)
  moreover have "tree_ok (root ?m)" using tree_ok_modify [OF r, of "put_tile merge x y (unat z) t"] by simp
  ultimately show ?thesis using set here by (simp add: world_inv_def)
qed

lemma column_eq: "base x = base x' \<Longrightarrow> x AND FLOOR_MASK = x' AND FLOOR_MASK \<Longrightarrow> x = x'"
proof (rule bit_eqI)
  fix n
  assume eq: "base x = base x'" "x AND FLOOR_MASK = x' AND FLOOR_MASK"
  assume n: "possible_bit TYPE(16 word) n"
  from arg_cong [OF eq(1), of "\<lambda>w. bit w n"] arg_cong [OF eq(2), of "\<lambda>w. bit w n"] n
  show "bit x n \<longleftrightarrow> bit x' n"
    by (cases "3 \<le> n") (auto simp: bit_base bit_and_iff FLOOR_MASK_def bit_mask_iff)
qed

lemma getTile_setTile:
  assumes inv: "world_inv P m" and set: "setTile merge x y z t m = Some m'"
  shows "getTile m' x' y' z' =
     (if unat z < MAP_MAX_LAYERS \<and> (x', y', z') = (x, y, z)
      then Some (case getTile m x y z of None \<Rightarrow> t | Some old \<Rightarrow> merge old t)
      else getTile m x' y' z')"
proof (cases "unat z < MAP_MAX_LAYERS")
  case False
  with set show ?thesis by (simp add: setTile_def)
next
  case True
  have tree: "tree_ok (root m)" using inv by (simp add: world_inv_def)
  obtain r where m': "m' = m\<lparr>root := modify_leaf (put_tile merge x y (unat z) t) r (ucast x) (ucast y)\<rparr>"
    and r: "tree_ok r"
    and at: "\<And>u v. \<exists>g. leaf_at r u v = map_option g
      (if same_leaf x y u v \<and> leaf_at (root m) x y = None then Some new_leaf else leaf_at (root m) u v) \<and>
      (\<forall>l. floors (g l) = floors l \<and> creature_list (g l) = creature_list l \<and> player_list (g l) = player_list l)"
    using setTile_leaf_at [of m z, OF tree True, of merge x y t] set by auto
  have h: "height_ok 13 r" using r by (simp add: tree_ok_def)
  have same: "getTile (m\<lparr>root := r\<rparr>) u v w = getTile m u v w" for u v w
  proof (cases "same_leaf x y u v \<and> leaf_at (root m) x y = None")
    case True
    then have "leaf_at (root m) u v = None"
      using leaf_at_cong [of "root m" u x v y] tree by (auto simp: same_leaf_def tree_ok_def)
    with True at [of u v] show ?thesis by (auto simp: getTile_def new_leaf_def)
  next
    case False
    with at [of u v] show ?thesis by (auto simp: getTile_def split: option.split)
  qed
  have new: "leaf_at (root m') u v = (if same_leaf x y u v
      then map_option (put_tile merge x y (unat z) t) (leaf_at r u v) else leaf_at r u v)" for u v
    by (simp add: m' leaf_at_modify16 [OF h])
  have there: "leaf_at r x y \<noteq> None" using at [of x y] by (cases "leaf_at (root m) x y") auto
  then obtain l where l: "leaf_at r x y = Some l" by auto
  have "getTile m' x' y' z' =
     (if (x', y', z') = (x, y, z) then Some (case getTile (m\<lparr>root := r\<rparr>) x y z of None \<Rightarrow> t | Some old \<Rightarrow> merge old t)
      else getTile (m\<lparr>root := r\<rparr>) x' y' z')"
  proof (cases "same_leaf x y x' y'")
    case False
    then show ?thesis by (auto simp: getTile_def new same_leaf_def)
  next
    case same: True
    then have l': "leaf_at r x' y' = Some l" using l leaf_at_cong [OF h, of x' x y' y] same by (simp add: same_leaf_def)
    have keys: "(x' AND FLOOR_MASK, y' AND FLOOR_MASK) = (x AND FLOOR_MASK, y AND FLOOR_MASK) \<longleftrightarrow> x' = x \<and> y' = y"
      using column_eq [of x' x] column_eq [of y' y] same by (auto simp: same_leaf_def)
    have z: "unat z' = unat z \<longleftrightarrow> z' = z" by (simp add: word_unat_eq_iff)
    have "leaf_at (root m') x' y' = Some (put_tile merge x y (unat z) t l)" using same l' by (simp add: new)
    then have lhs: "getTile m' x' y' z' = (if unat z' \<ge> MAP_MAX_LAYERS then None
        else case floors (put_tile merge x y (unat z) t l) (unat z') of None \<Rightarrow> None
             | Some fl \<Rightarrow> fl (x' AND FLOOR_MASK, y' AND FLOOR_MASK))" by (simp add: getTile_def)
    have old: "getTile (m\<lparr>root := r\<rparr>) x' y' w = (if unat w \<ge> MAP_MAX_LAYERS then None
        else case floors l (unat w) of None \<Rightarrow> None | Some fl \<Rightarrow> fl (x' AND FLOOR_MASK, y' AND FLOOR_MASK))" for w
      using l' by (simp add: getTile_def)
    show ?thesis
    proof (cases "z' = z")
      case False
      then show ?thesis using z by (simp add: lhs old put_tile_def Let_def)
    next
      case zz: True
      show ?thesis
      proof (cases "x' = x \<and> y' = y")
        case True
        then show ?thesis using zz \<open>unat z < MAP_MAX_LAYERS\<close> old [of z] lhs
          by (cases "floors l (unat z)") (auto simp: put_tile_def Let_def split: option.split)
      next
        case False
        then have "(x' AND FLOOR_MASK, y' AND FLOOR_MASK) \<noteq> (x AND FLOOR_MASK, y AND FLOOR_MASK)"
          using keys by blast
        then have "getTile m' x' y' z = getTile (m\<lparr>root := r\<rparr>) x' y' z" using lhs zz
          by (cases "floors l (unat z)") (auto simp: old put_tile_def Let_def)
        with False zz show ?thesis by auto
      qed
    qed
  qed
  then show ?thesis using True by (simp add: same)
qed

end
