(* ===== verification/Spectators.thy ===== *)
theory Spectators
  imports Map_World
begin

text \<open>
  What the map promises, for every history of tiles set and creatures placed, moved and removed:
  it is a function from positions to tiles, and \<open>getSpectatorsInternal\<close> finds exactly the
  creatures in range.
\<close>

section \<open>Reachable maps\<close>

datatype 't map_op = SetTile u16 u16 byte 't | Place cid position | Move cid position | Take cid

fun map_do :: "('t \<Rightarrow> 't \<Rightarrow> 't) \<Rightarrow> (cid \<Rightarrow> bool) \<Rightarrow> 't map_op \<Rightarrow> 't world \<Rightarrow> 't world option" where
  "map_do merge P (SetTile x y z t) m = setTile merge x y z t m"
| "map_do merge P (Place c p) m = map_place P c p m"
| "map_do merge P (Move c p) m = map_move P c p m"
| "map_do merge P (Take c) m = map_remove P c m"

inductive map_reachable :: "('t \<Rightarrow> 't \<Rightarrow> 't) \<Rightarrow> (cid \<Rightarrow> bool) \<Rightarrow> 't world \<Rightarrow> bool" for merge P where
  start: "map_reachable merge P new_world"
| step: "map_reachable merge P m \<Longrightarrow> map_do merge P op m = Some m' \<Longrightarrow> map_reachable merge P m'"

lemma map_do_inv:
  assumes "world_inv P m" and "map_do merge P op m = Some m'"
  shows "world_inv P m'"
proof (cases op)
  case (SetTile x y z t)
  with assms setTile_inv [OF assms(1), of merge x y z t] show ?thesis by auto
next
  case (Place c p)
  with assms map_place_inv show ?thesis by simp
next
  case (Move c p)
  with assms map_move_inv show ?thesis by simp
next
  case (Take c)
  with assms map_remove_inv show ?thesis by simp
qed

lemma map_reachable_inv: "map_reachable merge P m \<Longrightarrow> world_inv P m"
  by (induction rule: map_reachable.induct) (auto simp: new_world_inv intro: map_do_inv)

text \<open>
  C16: on every reachable map \<open>setTile\<close> returns, and the map is then the function it was, but for
  the one position: it holds the new tile there, or the old one with the things of the new one.
\<close>

theorem map_is_function:
  assumes "map_reachable merge P m" and "unat z < MAP_MAX_LAYERS"
  shows "\<exists>m'. setTile merge x y z t m = Some m' \<and>
     getTile m' x y z = Some (case getTile m x y z of None \<Rightarrow> t | Some old \<Rightarrow> merge old t) \<and>
     (\<forall>x' y' z'. (x', y', z') \<noteq> (x, y, z) \<longrightarrow> getTile m' x' y' z' = getTile m x' y' z')"
proof -
  have inv: "world_inv P m" using assms(1) by (rule map_reachable_inv)
  from setTile_inv [OF this, of merge x y z t] obtain m' where m': "setTile merge x y z t m = Some m'" by blast
  with getTile_setTile [OF inv m'] assms(2) show ?thesis by auto
qed

section \<open>The scan\<close>

function steps8 :: "int \<Rightarrow> int \<Rightarrow> int list" where
  "steps8 n e = (if n > e then [] else n # steps8 (n + 8) e)"
  by pat_completeness auto
termination by (relation "measure (\<lambda>(n, e). nat (e + 1 - n))") auto

declare steps8.simps [simp del]
declare scan_row.simps [simp del] scan_rows.simps [simp del]

lemma steps8_set: "8 dvd n \<Longrightarrow> set (steps8 n e) = {k. n \<le> k \<and> k \<le> e \<and> 8 dvd k}"
proof (induction n e rule: steps8.induct)
  case (1 n e)
  show ?case
  proof (cases "n > e")
    case True
    then show ?thesis by (auto simp: steps8.simps [of n e])
  next
    case False
    then have ih: "set (steps8 (n + 8) e) = {k. n + 8 \<le> k \<and> k \<le> e \<and> 8 dvd k}" using 1 by simp
    have "k = n \<or> n + 8 \<le> k" if "n \<le> k" "8 dvd k" for k using that 1(2) by (auto elim!: dvdE)
    then show ?thesis using ih False 1(2) by (subst steps8.simps) auto
  qed
qed

lemma steps8_distinct: "8 dvd n \<Longrightarrow> distinct (steps8 n e)"
proof (induction n e rule: steps8.induct)
  case (1 n e)
  show ?case using 1 steps8_set [of "n + 8" e] by (subst steps8.simps) auto
qed

definition cell :: "'t leaf qtree \<Rightarrow> ('t leaf \<Rightarrow> cid list) \<Rightarrow> int \<Rightarrow> int \<Rightarrow> cid list" where
  "cell r select ny nx =
     (case leaf_at r (word_of_int nx) (word_of_int ny) of None \<Rightarrow> [] | Some l \<Rightarrow> select l)"

lemma ucast_word_of_int [simp]: "(ucast (word_of_int k :: u32) :: u16) = word_of_int k"
  by (simp add: word_uint_eq_iff [where ?'a = 16] uint_ucast_u32 uint_word_of_int mod_mod_cancel)

lemma of_int_add8: "(word_of_int (k + 8) :: u16) = word_of_int k + 8"
  by simp

lemma link_right:
  assumes "tree_ok r" and "ptr r x y = Some p"
  shows "\<exists>l. leaf_at r (fst p) (snd p) = Some l \<and> leaf_at r x y = Some l \<and>
    leafE l = ptr r (x + 8) y \<and> leafS l = ptr r x (y + 8)"
proof -
  obtain l where l: "leaf_at r x y = Some l" and p: "p = (base x, base y)"
    using assms(2) by (auto simp: ptr_def)
  moreover have "height_ok 13 r" using assms(1) by (simp add: tree_ok_def)
  ultimately have "leaf_at r (fst p) (snd p) = Some l" by (simp add: leaf_at_base)
  with l assms(1) show ?thesis by (simp add: tree_ok_def links_ok_def)
qed

lemma scan_row_cells:
  assumes tree: "tree_ok r"
  shows "cur = ptr r (word_of_int nx) (word_of_int ny) \<Longrightarrow>
    scan_row r select e ny nx cur = Some (concat (map (cell r select ny) (steps8 nx e)))"
proof (induction "nat (e + 1 - nx)" arbitrary: nx cur rule: less_induct)
  case less
  have h: "height_ok 13 r" using tree by (simp add: tree_ok_def)
  show ?case
  proof (cases "nx > e")
    case True
    then show ?thesis by (simp add: scan_row.simps [of r] steps8.simps [of nx])
  next
    case False
    then have ih: "scan_row r select e ny (nx + 8) (ptr r (word_of_int (nx + 8)) (word_of_int ny)) =
        Some (concat (map (cell r select ny) (steps8 (nx + 8) e)))"
      by (intro less.hyps) auto
    show ?thesis
    proof (cases "ptr r (word_of_int nx) (word_of_int ny)")
      case None
      then have "cell r select ny nx = []" by (simp add: cell_def ptr_def)
      with False None ih less.prems show ?thesis
        by (subst scan_row.simps, subst steps8.simps) (simp add: leaf_ptr_ptr [OF h] del: of_int_add)
    next
      case (Some p)
      from link_right [OF tree this] obtain l where
        l: "leaf_at r (fst p) (snd p) = Some l" "leaf_at r (word_of_int nx) (word_of_int ny) = Some l"
        "leafE l = ptr r (word_of_int nx + 8) (word_of_int ny)" by blast
      then have "cell r select ny nx = select l" by (simp add: cell_def)
      with False Some ih less.prems l show ?thesis
        by (subst scan_row.simps, subst steps8.simps) (simp add: of_int_add8)
    qed
  qed
qed

lemma scan_rows_cells:
  assumes tree: "tree_ok r"
  shows "cur = ptr r (word_of_int sx) (word_of_int ny) \<Longrightarrow>
    scan_rows r select sx ex ey ny cur =
      Some (concat (map (\<lambda>ny. concat (map (cell r select ny) (steps8 sx ex))) (steps8 ny ey)))"
proof (induction "nat (ey + 1 - ny)" arbitrary: ny cur rule: less_induct)
  case less
  have h: "height_ok 13 r" using tree by (simp add: tree_ok_def)
  show ?case
  proof (cases "ny > ey")
    case True
    then show ?thesis by (simp add: scan_rows.simps [of r] steps8.simps [of ny])
  next
    case False
    then have ih: "scan_rows r select sx ex ey (ny + 8) (ptr r (word_of_int sx) (word_of_int (ny + 8))) =
        Some (concat (map (\<lambda>ny. concat (map (cell r select ny) (steps8 sx ex))) (steps8 (ny + 8) ey)))"
      by (intro less.hyps) auto
    note row = scan_row_cells [OF tree less.prems, of select ex]
    show ?thesis
    proof (cases "ptr r (word_of_int sx) (word_of_int ny)")
      case None
      with False ih less.prems row show ?thesis
        by (subst scan_rows.simps, subst (2) steps8.simps) (simp add: leaf_ptr_ptr [OF h] del: of_int_add)
    next
      case (Some p)
      from link_right [OF tree this] obtain l where
        l: "leaf_at r (fst p) (snd p) = Some l" "leafS l = ptr r (word_of_int sx) (word_of_int ny + 8)" by blast
      with False Some ih less.prems row show ?thesis
        by (subst scan_rows.simps, subst (2) steps8.simps) (simp add: of_int_add8)
    qed
  qed
qed

section \<open>What the scan finds\<close>

lemma base_multiple:
  assumes "0 \<le> k" "k \<le> 65535" "8 dvd k"
  shows "base (word_of_int k) = word_of_int k" and "uint (word_of_int k :: u16) = k"
proof -
  show u: "uint (word_of_int k :: u16) = k" using assms by (simp add: uint_word_of_int)
  have "uint (take_bit 3 (word_of_int k :: u16)) = 0"
    using assms(3) by (simp only: unsigned_take_bit_eq u take_bit_eq_mod [where ?'a = int]) simp
  then have "take_bit 3 (word_of_int k :: u16) = 0"
    using unsigned_eq_0_iff by blast
  then show "base (word_of_int k) = word_of_int k" by (simp add: base_minus)
qed

lemma uint_base: "uint (base x) = uint x - uint x mod 8"
proof -
  have "uint (take_bit 3 x) = uint x mod 8" by (simp only: unsigned_take_bit_eq take_bit_eq_mod [where ?'a = int]) simp
  moreover have "uint x mod 8 \<le> uint x" by (simp add: zmod_le_nonneg_dividend)
  ultimately show ?thesis
    by (simp add: base_minus uint_sub_if')
qed

definition wanted :: "(cid \<Rightarrow> bool) \<Rightarrow> 't world \<Rightarrow> position \<Rightarrow> ranges \<Rightarrow> bool \<Rightarrow> cid \<Rightarrow> bool" where
  "wanted P m center g onlyPlayers c \<longleftrightarrow> (onlyPlayers \<longrightarrow> P c) \<and> sees center g (pos_of m c)"

definition pick :: "'t world \<Rightarrow> position \<Rightarrow> ranges \<Rightarrow> bool \<Rightarrow> 't leaf \<Rightarrow> cid list" where
  "pick m center g onlyPlayers l =
     filter (\<lambda>c. sees center g (pos_of m c)) (if onlyPlayers then player_list l else creature_list l)"

lemma cell_pick:
  assumes inv: "world_inv P m"
  shows "distinct (cell (root m) (pick m center g op) ny nx)"
    and "set (cell (root m) (pick m center g op) ny nx) =
      {c. here m (word_of_int nx) (word_of_int ny) c \<and> wanted P m center g op c}"
proof -
  let ?x = "word_of_int nx :: u16" and ?y = "word_of_int ny :: u16"
  have "distinct (cell (root m) (pick m center g op) ny nx) \<and>
    set (cell (root m) (pick m center g op) ny nx) = {c. here m ?x ?y c \<and> wanted P m center g op c}"
  proof (cases "leaf_at (root m) ?x ?y")
    case None
    have "\<not> here m ?x ?y c" for c
    proof
      assume h: "here m ?x ?y c"
      then have "leaf_at (root m) (px (pos_of m c)) (py (pos_of m c)) \<noteq> None"
        using inv by (simp add: world_inv_def here_def)
      moreover have "leaf_at (root m) (px (pos_of m c)) (py (pos_of m c)) = leaf_at (root m) ?x ?y"
        using h by (intro leaf_at_cong [OF world_inv_height [OF inv]]) (simp_all add: here_def same_leaf_def)
      ultimately show False using None by simp
    qed
    then show ?thesis using None by (simp add: cell_def)
  next
    case (Some l)
    then have "lists_ok P (here m ?x ?y) l" using inv by (simp add: world_inv_def)
    then show ?thesis using Some by (auto simp: cell_def pick_def wanted_def lists_ok_def)
  qed
  then show "distinct (cell (root m) (pick m center g op) ny nx)"
    and "set (cell (root m) (pick m center g op) ny nx) = {c. here m ?x ?y c \<and> wanted P m center g op c}"
    by simp_all
qed

lemma distinct_concat_map:
  assumes "distinct xs" and "\<And>x. x \<in> set xs \<Longrightarrow> distinct (f x)"
    and "\<And>x y c. x \<in> set xs \<Longrightarrow> y \<in> set xs \<Longrightarrow> c \<in> set (f x) \<Longrightarrow> c \<in> set (f y) \<Longrightarrow> x = y"
  shows "distinct (concat (map f xs))"
  using assms
proof (induction xs)
  case Nil
  then show ?case by simp
next
  case (Cons a xs)
  have "distinct (concat (map f xs))" by (rule Cons.IH) (use Cons.prems in auto)
  moreover have "c \<notin> set (f x)" if "c \<in> set (f a)" "x \<in> set xs" for c x
  proof
    assume "c \<in> set (f x)"
    with that Cons.prems(3) [of a x c] have "a = x" by simp
    with that Cons.prems(1) show False by simp
  qed
  ultimately show ?case using Cons.prems(2) [of a] by (auto simp: disjoint_iff)
qed

lemma here_coordinates:
  assumes "here m (word_of_int nx) (word_of_int ny) c"
    and "0 \<le> nx" "nx \<le> 65535" "8 dvd nx" "0 \<le> ny" "ny \<le> 65535" "8 dvd ny"
  shows "nx = uint (base (px (pos_of m c)))" and "ny = uint (base (py (pos_of m c)))"
  using assms base_multiple [of nx] base_multiple [of ny]
  by (simp_all add: here_def same_leaf_def)

lemma clamp_bounds: "0 \<le> clamp16 v \<and> clamp16 v \<le> 65535"
  by (simp add: clamp16_def)

lemma floor8: "8 dvd v - v mod (8 :: int)"
  by (simp add: dvd_eq_mod_eq_0 mod_simps)

lemma floor8_le: "0 \<le> v \<Longrightarrow> 0 \<le> v - v mod (8 :: int) \<and> v - v mod 8 \<le> v"
  by (simp add: zmod_le_nonneg_dividend)

lemma floor8_mono: "v \<le> w \<Longrightarrow> v - v mod 8 \<le> w - w mod (8 :: int)"
  using zdiv_mono1 [of v w 8] by (simp add: minus_mod_eq_mult_div)

lemma clamp_below: "v \<le> uint (x :: u16) \<Longrightarrow> clamp16 v \<le> uint x"
  using uint_bound16 [of x] by (simp add: clamp16_def)

lemma clamp_above: "uint (x :: u16) \<le> v \<Longrightarrow> uint x \<le> clamp16 v"
  using uint_bound16 [of x] by (simp add: clamp16_def)

lemma sees_in_range:
  assumes s: "sees center g p"
    and "x1 = clamp16 (uint (px center) + minX g + (uint (pz center) - maxZ g))"
    and "y1 = clamp16 (uint (py center) + minY g + (uint (pz center) - maxZ g))"
    and "x2 = clamp16 (uint (px center) + maxX g + (uint (pz center) - minZ g))"
    and "y2 = clamp16 (uint (py center) + maxY g + (uint (pz center) - minZ g))"
  shows "x1 \<le> uint (px p) \<and> uint (px p) \<le> x2 \<and> y1 \<le> uint (py p) \<and> uint (py p) \<le> y2"
proof -
  have off: "getOffsetZ center p = uint (pz center) - uint (pz p)" by (simp add: getOffsetZ_def)
  have "minZ g \<le> uint (pz p)" "uint (pz p) \<le> maxZ g"
    "uint (py center) + minY g + (uint (pz center) - uint (pz p)) \<le> uint (py p)"
    "uint (py p) \<le> uint (py center) + maxY g + (uint (pz center) - uint (pz p))"
    "uint (px center) + minX g + (uint (pz center) - uint (pz p)) \<le> uint (px p)"
    "uint (px p) \<le> uint (px center) + maxX g + (uint (pz center) - uint (pz p))"
    using s unfolding sees_def Let_def off by (auto split: if_splits)
  then show ?thesis
    unfolding assms(2-5) by (intro conjI clamp_below clamp_above) linarith+
qed

lemma uint_base_window:
  assumes "x1 \<le> uint (x :: u16)" "uint x \<le> x2"
  shows "x1 - x1 mod 8 \<le> uint (base x) \<and> uint (base x) \<le> x2 - x2 mod 8 \<and> 8 dvd uint (base x)"
  using assms by (simp add: uint_base floor8 floor8_mono)

lemma steps8_window:
  assumes "k \<in> set (steps8 (v - v mod 8) (w - w mod 8))" and "0 \<le> v" "0 \<le> w" "w \<le> 65535"
  shows "0 \<le> k \<and> k \<le> 65535 \<and> 8 dvd k"
  using assms floor8_le [of v] floor8_le [of w] by (auto simp: steps8_set floor8)

text \<open>
  C17: on every reachable map, and for every centre and range, the scan over the linked leaves
  returns each creature (or each player) in range once and nothing else: skipping whole leaves and
  following the links between them loses nobody, over all the floors the range spans and at the
  borders of the map too.
\<close>

theorem spectators_exact:
  assumes "map_reachable merge P m"
  shows "\<exists>cs. getSpectatorsInternal m center g onlyPlayers = Some cs \<and> distinct cs \<and>
    (\<forall>c. c \<in> set cs \<longleftrightarrow> c \<in> placed m \<and> (onlyPlayers \<longrightarrow> P c) \<and> sees center g (pos_of m c))"
proof -
  have inv: "world_inv P m" using assms by (rule map_reachable_inv)
  then have tree: "tree_ok (root m)" by (simp add: world_inv_def)
  define x1 where "x1 = clamp16 (uint (px center) + minX g + (uint (pz center) - maxZ g))"
  define y1 where "y1 = clamp16 (uint (py center) + minY g + (uint (pz center) - maxZ g))"
  define x2 where "x2 = clamp16 (uint (px center) + maxX g + (uint (pz center) - minZ g))"
  define y2 where "y2 = clamp16 (uint (py center) + maxY g + (uint (pz center) - minZ g))"
  define xs where "xs = steps8 (x1 - x1 mod 8) (x2 - x2 mod 8)"
  define ys where "ys = steps8 (y1 - y1 mod 8) (y2 - y2 mod 8)"
  let ?cell = "cell (root m) (pick m center g onlyPlayers)"
  let ?row = "\<lambda>ny. concat (map (?cell ny) xs)"
  have start: "leaf_ptr (root m) (word_of_int (x1 - x1 mod 8)) (word_of_int (y1 - y1 mod 8)) =
      ptr (root m) (word_of_int (x1 - x1 mod 8)) (word_of_int (y1 - y1 mod 8))"
    by (simp only: leaf_ptr_ptr [OF world_inv_height [OF inv]] ucast_word_of_int)
  have result: "getSpectatorsInternal m center g onlyPlayers = Some (concat (map ?row ys))"
    using scan_rows_cells [OF tree start, of "pick m center g onlyPlayers" "x2 - x2 mod 8" "y2 - y2 mod 8"]
    by (simp add: getSpectatorsInternal_def pick_def [abs_def] x1_def x2_def y1_def y2_def xs_def ys_def Let_def)
  have xs: "0 \<le> k \<and> k \<le> 65535 \<and> 8 dvd k" if "k \<in> set xs" for k
    using that unfolding xs_def x1_def x2_def by (rule steps8_window) (simp_all add: clamp_bounds)
  have ys: "0 \<le> k \<and> k \<le> 65535 \<and> 8 dvd k" if "k \<in> set ys" for k
    using that unfolding ys_def y1_def y2_def by (rule steps8_window) (simp_all add: clamp_bounds)
  have cells: "c \<in> set (?cell ny nx) \<longleftrightarrow> here m (word_of_int nx) (word_of_int ny) c \<and> wanted P m center g onlyPlayers c"
    for ny nx c by (simp add: cell_pick [OF inv])
  have distinct: "distinct (concat (map ?row ys))"
  proof (rule distinct_concat_map)
    show "distinct ys" by (simp add: ys_def steps8_distinct floor8)
    show "distinct (?row ny)" if "ny \<in> set ys" for ny
    proof (rule distinct_concat_map)
      show "distinct xs" by (simp add: xs_def steps8_distinct floor8)
      show "distinct (?cell ny nx)" for nx by (rule cell_pick [OF inv])
      show "nx = nx'" if "nx \<in> set xs" "nx' \<in> set xs" "c \<in> set (?cell ny nx)" "c \<in> set (?cell ny nx')" for nx nx' c
        using that here_coordinates(1) [of m nx ny c] here_coordinates(1) [of m nx' ny c] xs [of nx] xs [of nx']
          ys [OF \<open>ny \<in> set ys\<close>] by (simp add: cells)
    qed
    show "ny = ny'" if "ny \<in> set ys" "ny' \<in> set ys" "c \<in> set (?row ny)" "c \<in> set (?row ny')" for ny ny' c
    proof -
      from that(3,4) obtain nx nx' where "nx \<in> set xs" "nx' \<in> set xs" "c \<in> set (?cell ny nx)" "c \<in> set (?cell ny' nx')"
        by auto
      then show ?thesis
        using here_coordinates(2) [of m nx ny c] here_coordinates(2) [of m nx' ny' c] xs [of nx] xs [of nx']
          ys [OF that(1)] ys [OF that(2)] by (simp add: cells)
    qed
  qed
  have found: "c \<in> set (concat (map ?row ys)) \<longleftrightarrow> c \<in> placed m \<and> (onlyPlayers \<longrightarrow> P c) \<and> sees center g (pos_of m c)" for c
  proof
    assume "c \<in> set (concat (map ?row ys))"
    then obtain nx ny where "c \<in> set (?cell ny nx)" by auto
    then show "c \<in> placed m \<and> (onlyPlayers \<longrightarrow> P c) \<and> sees center g (pos_of m c)"
      by (simp add: cells here_def wanted_def)
  next
    assume c: "c \<in> placed m \<and> (onlyPlayers \<longrightarrow> P c) \<and> sees center g (pos_of m c)"
    let ?bx = "base (px (pos_of m c))" and ?by = "base (py (pos_of m c))"
    have window: "x1 \<le> uint (px (pos_of m c)) \<and> uint (px (pos_of m c)) \<le> x2 \<and>
        y1 \<le> uint (py (pos_of m c)) \<and> uint (py (pos_of m c)) \<le> y2"
      using c by (intro sees_in_range [where center = center and g = g]) (simp_all add: x1_def x2_def y1_def y2_def)
    then have "uint ?bx \<in> set xs" "uint ?by \<in> set ys"
      using uint_base_window [of x1 "px (pos_of m c)" x2] uint_base_window [of y1 "py (pos_of m c)" y2]
      by (simp_all add: xs_def ys_def steps8_set floor8)
    moreover have "c \<in> set (?cell (uint ?by) (uint ?bx))"
      using c by (simp add: cells here_def wanted_def same_leaf_def)
    ultimately show "c \<in> set (concat (map ?row ys))" by auto
  qed
  show ?thesis using result distinct found by blast
qed

section \<open>Witnesses\<close>

lemma map_is_function_witness:
  "\<exists>m'. setTile (\<lambda>old new. old) 100 200 7 (23 :: nat) new_world = Some m' \<and>
     getTile m' 100 200 7 = Some 23 \<and> getTile m' 101 200 7 = None"
proof -
  have empty: "getTile new_world x y z = None" for x y z
    by (simp add: getTile_def new_world_def leaf_at_def empty_node_def getLeaf.simps qchild.simps)
  have "unat (7 :: byte) < MAP_MAX_LAYERS" by (simp add: MAP_MAX_LAYERS_def)
  from map_is_function [OF map_reachable.start this, of "\<lambda>old new. old" 100 200 23]
  show ?thesis by (auto simp: empty)
qed

lemma spectators_exact_witness:
  "\<exists>m cs. placed m = {42} \<and> getSpectatorsInternal (m :: nat world) (Position 105 205 7) \<lparr>minX = -8, maxX = 8, minY = -6, maxY = 6, minZ = 0, maxZ = 7\<rparr> True = Some cs \<and>
     set cs = {42}"
proof -
  let ?P = "\<lambda>_. True" and ?merge = "\<lambda>old new. old :: nat"
  let ?g = "\<lparr>minX = -8, maxX = 8, minY = -6, maxY = 6, minZ = 0, maxZ = 7\<rparr>"
  from setTile_inv [OF new_world_inv [of ?P], of ?merge 100 200 7 1] obtain m1 where
    m1: "setTile ?merge 100 200 7 1 new_world = Some m1" by blast
  with getTile_setTile [OF new_world_inv this, of 100 200 7] have "getTile m1 100 200 7 \<noteq> None"
    by (simp add: MAP_MAX_LAYERS_def)
  then have leaf: "leaf_at (root m1) 100 200 \<noteq> None" by (auto simp: getTile_def split: if_splits option.splits)
  have "placed m1 = {}" using m1 by (auto simp: setTile_def new_world_def split: if_splits option.splits)
  with leaf obtain m where m: "map_place ?P 42 (Position 100 200 7) m1 = Some m"
    and placed: "placed m = {42}" "pos_of m 42 = Position 100 200 7"
    by (auto simp: map_place_def at_leaf_def)
  have "map_reachable ?merge ?P m1"
    by (rule map_reachable.step [OF map_reachable.start, where op = "SetTile 100 200 7 1"]) (simp add: m1 [simplified])
  then have "map_reachable ?merge ?P m" using map_reachable.step [of _ _ m1 "Place 42 (Position 100 200 7)"] m by simp
  from spectators_exact [OF this, of "Position 105 205 7" ?g True] obtain cs where
    "getSpectatorsInternal m (Position 105 205 7) ?g True = Some cs"
    and cs: "\<And>c. c \<in> set cs \<longleftrightarrow> c \<in> placed m \<and> sees (Position 105 205 7) ?g (pos_of m c)" by auto
  moreover have "set cs = {42}" by (auto simp: cs placed sees_def getOffsetZ_def)
  ultimately show ?thesis using placed by blast
qed

end
