(* ===== verification/Pathfinding.thy ===== *)
theory Pathfinding
  imports Geometry
begin

text \<open>
  The path search of \<open>src/src/map.cpp\<close> (\<open>Map::getPathMatching\<close> and \<open>AStarNodes\<close>) with the condition
  of \<open>creature.cpp\<close> on the place it looks for. What the search asks of the map and of the creature is
  in the record \<open>walker\<close>: the cached answer for a position, the tile, whether the creature may enter
  it, and what its cost depends on. A position that is a node has a tile: the start is where the
  creature stands, and \<open>canWalkTo\<close> has answered with a tile for every other one; a tile that is missing
  there (the code would follow_way a null pointer) costs nothing in the model. A node is named by its index in the array of nodes.
\<close>

section \<open>What is searched for\<close>

record find_path_params =
  fullPathSearch :: bool
  clearSight :: bool
  allowDiagonal :: bool
  keepDistance :: bool
  maxSearchDist :: int
  minTargetDist :: int
  maxTargetDist :: int

definition isInRange :: "position \<Rightarrow> find_path_params \<Rightarrow> position \<Rightarrow> position \<Rightarrow> bool" where
  "isInRange targetPos fpp startPos testPos =
     (if fullPathSearch fpp then
        (if uint (px testPos) > uint (px targetPos) + maxTargetDist fpp then False
         else if uint (px testPos) < uint (px targetPos) - maxTargetDist fpp then False
         else if uint (py testPos) > uint (py targetPos) + maxTargetDist fpp then False
         else if uint (py testPos) < uint (py targetPos) - maxTargetDist fpp then False
         else True)
      else
        let dx = getOffsetX startPos targetPos;
            dxMax = (if dx \<ge> 0 then maxTargetDist fpp else 0);
            dxMin = (if dx \<le> 0 then maxTargetDist fpp else 0);
            dy = getOffsetY startPos targetPos;
            dyMax = (if dy \<ge> 0 then maxTargetDist fpp else 0);
            dyMin = (if dy \<le> 0 then maxTargetDist fpp else 0)
        in if uint (px testPos) > uint (px targetPos) + dxMax then False
           else if uint (px testPos) < uint (px targetPos) - dxMin then False
           else if uint (py testPos) > uint (py targetPos) + dyMax then False
           else if uint (py testPos) < uint (py targetPos) - dyMin then False
           else True)"

text \<open>The call operator: its answer, and the distance of the best place so far.\<close>

definition path_condition ::
  "(position \<Rightarrow> position \<Rightarrow> bool) \<Rightarrow> position \<Rightarrow> find_path_params \<Rightarrow> position \<Rightarrow> position \<Rightarrow> int \<Rightarrow> bool \<times> int" where
  "path_condition isSightClear targetPos fpp startPos testPos bestMatchDist =
     (if \<not> isInRange targetPos fpp startPos testPos then (False, bestMatchDist)
      else if clearSight fpp \<and> \<not> isSightClear testPos targetPos then (False, bestMatchDist)
      else
        let testDist = max (getDistanceX targetPos testPos) (getDistanceY targetPos testPos)
        in if maxTargetDist fpp = 1 then
             (if testDist < minTargetDist fpp \<or> testDist > maxTargetDist fpp then (False, bestMatchDist)
              else (True, bestMatchDist))
           else if testDist \<le> maxTargetDist fpp then
             (if testDist < minTargetDist fpp then (False, bestMatchDist)
              else if testDist = maxTargetDist fpp then (True, 0)
              else if testDist > bestMatchDist then (True, testDist)
              else (False, bestMatchDist))
           else (False, bestMatchDist))"

section \<open>Where the creature can go\<close>

text \<open>What makes a field cost more: the creature is a monster that would not walk on it unhurt.\<close>

record field_view =
  immune :: bool
  has_condition :: bool
  is_monster :: bool
  can_walk_on :: bool

record 't walker =
  walk_cache :: "position \<Rightarrow> int"
  tile_at :: "position \<Rightarrow> 't option"
  own_tile :: "'t option"
  query_add :: "'t \<Rightarrow> bool"
  top_creature :: "'t \<Rightarrow> bool"
  field_item :: "'t \<Rightarrow> field_view option"

definition canWalkTo :: "'t walker \<Rightarrow> position \<Rightarrow> 't option" where
  "canWalkTo w pos =
     (let walkCache = walk_cache w pos
      in if walkCache = 0 then None
         else if walkCache = 1 then tile_at w pos
         else
           let tile = tile_at w pos
           in if own_tile w \<noteq> tile
              then (case tile of None \<Rightarrow> None | Some t \<Rightarrow> if query_add w t then tile else None)
              else tile)"

definition MAP_NORMALWALKCOST :: int where "MAP_NORMALWALKCOST = 10"
definition MAP_DIAGONALWALKCOST :: int where "MAP_DIAGONALWALKCOST = 25"
definition MAX_NODES :: nat where "MAX_NODES = 512"

definition getTileWalkCost :: "'t walker \<Rightarrow> 't option \<Rightarrow> int" where
  "getTileWalkCost w tile =
     (case tile of None \<Rightarrow> 0
      | Some t \<Rightarrow>
          (if top_creature w t then MAP_NORMALWALKCOST * 3 else 0) +
          (case field_item w t of
             None \<Rightarrow> 0
           | Some fld \<Rightarrow>
               if \<not> immune fld \<and> \<not> has_condition fld \<and> (is_monster fld \<and> \<not> can_walk_on fld)
               then MAP_NORMALWALKCOST * 18 else 0))"

section \<open>The nodes\<close>

record astar_node =
  parent :: "nat option"
  fcost :: int
  nx :: u16
  ny :: u16

record astar_nodes =
  nodes :: "astar_node list"
  openNodes :: "bool list"
  nodeTable :: "u32 \<rightharpoonup> nat"
  closedNodes :: int

definition node_key :: "u16 \<Rightarrow> u16 \<Rightarrow> u32" where
  "node_key x y = push_bit 16 (ucast x) OR ucast y"

definition start_nodes :: "u16 \<Rightarrow> u16 \<Rightarrow> astar_nodes" where
  "start_nodes x y =
     \<lparr>nodes = [\<lparr>parent = None, fcost = 0, nx = x, ny = y\<rparr>], openNodes = [True],
      nodeTable = [node_key x y \<mapsto> 0], closedNodes = 0\<rparr>"

definition createOpenNode :: "nat \<Rightarrow> u16 \<Rightarrow> u16 \<Rightarrow> int \<Rightarrow> astar_nodes \<Rightarrow> astar_nodes option" where
  "createOpenNode p x y f A =
     (if length (nodes A) \<ge> MAX_NODES then None
      else Some (A\<lparr>nodes := nodes A @ [\<lparr>parent = Some p, fcost = f, nx = x, ny = y\<rparr>],
                   openNodes := openNodes A @ [True],
                   nodeTable := (nodeTable A)(node_key x y \<mapsto> length (nodes A))\<rparr>))"

fun best_loop :: "nat \<Rightarrow> (bool \<times> astar_node) list \<Rightarrow> int \<times> nat option \<Rightarrow> int \<times> nat option" where
  "best_loop i [] best = best"
| "best_loop i ((opened, n) # ns) best =
     best_loop (Suc i) ns (if opened \<and> fcost n < fst best then (fcost n, Some i) else best)"

definition getBestNode :: "astar_nodes \<Rightarrow> nat option" where
  "getBestNode A = snd (best_loop 0 (zip (openNodes A) (nodes A)) (2147483647, None))"

definition closeNode :: "nat \<Rightarrow> astar_nodes \<Rightarrow> astar_nodes" where
  "closeNode i A = A\<lparr>openNodes := (openNodes A)[i := False], closedNodes := closedNodes A + 1\<rparr>"

definition openNode :: "nat \<Rightarrow> astar_nodes \<Rightarrow> astar_nodes" where
  "openNode i A =
     (if \<not> openNodes A ! i then A\<lparr>openNodes := (openNodes A)[i := True], closedNodes := closedNodes A - 1\<rparr> else A)"

definition getNodeByPosition :: "u16 \<Rightarrow> u16 \<Rightarrow> astar_nodes \<Rightarrow> nat option" where
  "getNodeByPosition x y A = nodeTable A (node_key x y)"

definition getMapWalkCost :: "astar_node \<Rightarrow> position \<Rightarrow> int" where
  "getMapWalkCost n p =
     (if \<bar>uint (nx n) - uint (px p)\<bar> = \<bar>uint (ny n) - uint (py p)\<bar> then MAP_DIAGONALWALKCOST else MAP_NORMALWALKCOST)"

section \<open>The search\<close>

text \<open>The neighbours by the direction in which the parent lies, and all of them.\<close>

definition dirNeighbors :: "nat \<Rightarrow> (int \<times> int) list" where
  "dirNeighbors d =
     [[(-1, 0), (0, 1), (1, 0), (1, 1), (-1, 1)],
      [(-1, 0), (0, 1), (0, -1), (-1, -1), (-1, 1)],
      [(-1, 0), (1, 0), (0, -1), (-1, -1), (1, -1)],
      [(0, 1), (1, 0), (0, -1), (1, -1), (1, 1)],
      [(1, 0), (0, -1), (-1, -1), (1, -1), (1, 1)],
      [(-1, 0), (0, -1), (-1, -1), (1, -1), (-1, 1)],
      [(0, 1), (1, 0), (1, -1), (1, 1), (-1, 1)],
      [(-1, 0), (0, 1), (-1, -1), (1, 1), (-1, 1)]] ! d"

definition allNeighbors :: "(int \<times> int) list" where
  "allNeighbors = [(-1, 0), (0, 1), (1, 0), (0, -1), (-1, -1), (1, -1), (1, 1), (-1, 1)]"

definition parent_direction :: "bool \<Rightarrow> int \<Rightarrow> int \<Rightarrow> direction" where
  "parent_direction diagonal offset_x offset_y =
     (if offset_y = 0 then (if offset_x = -1 then WEST else EAST)
      else if \<not> diagonal \<or> offset_x = 0 then (if offset_y = -1 then NORTH else SOUTH)
      else if offset_y = -1 then (if offset_x = -1 then NORTHWEST else NORTHEAST)
      else if offset_x = -1 then SOUTHWEST else SOUTHEAST)"

definition neighbors :: "find_path_params \<Rightarrow> astar_nodes \<Rightarrow> nat \<Rightarrow> (int \<times> int) list" where
  "neighbors fpp A i =
     (let n = nodes A ! i
      in case parent n of
           Some p \<Rightarrow>
             (let m = nodes A ! p;
                  dir = parent_direction (allowDiagonal fpp) (uint (nx m) - uint (nx n)) (uint (ny m) - uint (ny n))
              in take (if allowDiagonal fpp then 5 else 3) (dirNeighbors (unat (direction_code dir))))
         | None \<Rightarrow> allNeighbors)"

text \<open>A query: the creature, the parameters, the start, and the condition with its test of range.\<close>

record 't path_query =
  q_walker :: "'t walker"
  q_params :: find_path_params
  q_start :: position
  q_condition :: "position \<Rightarrow> int \<Rightarrow> bool \<times> int"
  q_inRange :: "position \<Rightarrow> bool"

text \<open>One neighbour of the node \<open>n\<close>; \<open>None\<close> is a full array.\<close>

definition visit_neighbor :: "'t path_query \<Rightarrow> nat \<Rightarrow> int \<times> int \<Rightarrow> astar_nodes \<Rightarrow> astar_nodes option" where
  "visit_neighbor q n d A =
     (let node = nodes A ! n;
          x = word_of_int (uint (nx node) + fst d) :: u16;
          y = word_of_int (uint (ny node) + snd d) :: u16;
          startPos = q_start q;
          pos = Position x y (pz startPos);
          fpp = q_params q
      in if maxSearchDist fpp \<noteq> 0 \<and>
            (getDistanceX startPos pos > maxSearchDist fpp \<or> getDistanceY startPos pos > maxSearchDist fpp)
         then Some A
         else if keepDistance fpp \<and> \<not> q_inRange q pos then Some A
         else
           let neighborNode = getNodeByPosition x y A;
               tile = (if neighborNode \<noteq> None then tile_at (q_walker q) pos else canWalkTo (q_walker q) pos)
           in if neighborNode = None \<and> tile = None then Some A
              else
                let newf = fcost node + getMapWalkCost node pos + getTileWalkCost (q_walker q) tile
                in case neighborNode of
                     Some m \<Rightarrow>
                       (if fcost (nodes A ! m) \<le> newf then Some A
                        else Some (openNode m (A\<lparr>nodes := (nodes A)[m := (nodes A ! m)\<lparr>fcost := newf, parent := Some n\<rparr>]\<rparr>)))
                   | None \<Rightarrow> createOpenNode n x y newf A)"

fun visit_neighbors :: "'t path_query \<Rightarrow> nat \<Rightarrow> (int \<times> int) list \<Rightarrow> astar_nodes \<Rightarrow> bool \<times> astar_nodes" where
  "visit_neighbors q n [] A = (True, A)"
| "visit_neighbors q n (d # ds) A =
     (case visit_neighbor q n d A of None \<Rightarrow> (False, A) | Some A \<Rightarrow> visit_neighbors q n ds A)"

definition node_pos :: "'t path_query \<Rightarrow> astar_nodes \<Rightarrow> nat \<Rightarrow> position" where
  "node_pos q A i = Position (nx (nodes A ! i)) (ny (nodes A ! i)) (pz (q_start q))"

text \<open>
  The loop: the nodes at its end and the node found. The two returns of \<open>false\<close> in it, which only
  happen when nothing has been found, are ends without a node found.
\<close>

partial_function (option) path_loop ::
  "'t path_query \<Rightarrow> astar_nodes \<Rightarrow> nat option \<Rightarrow> int \<Rightarrow> (astar_nodes \<times> nat option) option" where
  "path_loop q A found bestMatch =
     (if \<not> (maxSearchDist (q_params q) \<noteq> 0 \<or> closedNodes A < 100) then Some (A, found)
      else case getBestNode A of
             None \<Rightarrow> Some (A, found)
           | Some n \<Rightarrow>
               (let hit = q_condition q (node_pos q A n) bestMatch;
                    bestMatch = snd hit;
                    found = (if fst hit then Some n else found)
                in if fst hit \<and> bestMatch = 0 then Some (A, found)
                   else
                     let visited = visit_neighbors q n (neighbors (q_params q) A n) A
                     in if \<not> fst visited \<and> found = None then Some (snd visited, None)
                        else path_loop q (closeNode n (snd visited)) found bestMatch))"

text \<open>The directions from the place found back to the start.\<close>

definition step_direction :: "int \<Rightarrow> int \<Rightarrow> direction list" where
  "step_direction dx dy =
     (if dx = 1 \<and> dy = 1 then [NORTHWEST]
      else if dx = -1 \<and> dy = 1 then [NORTHEAST]
      else if dx = 1 \<and> dy = -1 then [SOUTHWEST]
      else if dx = -1 \<and> dy = -1 then [SOUTHEAST]
      else if dx = 1 then [WEST]
      else if dx = -1 then [EAST]
      else if dy = 1 then [NORTH]
      else if dy = -1 then [SOUTH]
      else [])"

partial_function (option) walk_back ::
  "astar_nodes \<Rightarrow> int \<Rightarrow> int \<Rightarrow> nat option \<Rightarrow> direction list \<Rightarrow> direction list option" where
  "walk_back A prevx prevy found dirList =
     (case found of
        None \<Rightarrow> Some dirList
      | Some i \<Rightarrow>
          (let n = nodes A ! i;
               dx = uint (nx n) - prevx;
               dy = uint (ny n) - prevy
           in walk_back A (uint (nx n)) (uint (ny n)) (parent n) (dirList @ step_direction dx dy)))"

definition getPathMatching :: "'t path_query \<Rightarrow> (bool \<times> direction list) option" where
  "getPathMatching q =
     (case path_loop q (start_nodes (px (q_start q)) (py (q_start q))) None 0 of
        None \<Rightarrow> None
      | Some (A, None) \<Rightarrow> Some (False, [])
      | Some (A, Some i) \<Rightarrow>
          map_option (Pair True)
            (walk_back A (uint (nx (nodes A ! i))) (uint (ny (nodes A ! i))) (parent (nodes A ! i)) []))"

text \<open>\<open>Creature::getPathTo\<close>.\<close>

definition getPathTo ::
  "'t walker \<Rightarrow> (position \<Rightarrow> position \<Rightarrow> bool) \<Rightarrow> position \<Rightarrow> position \<Rightarrow> find_path_params \<Rightarrow> (bool \<times> direction list) option" where
  "getPathTo w isSightClear startPos targetPos fpp =
     getPathMatching
       \<lparr>q_walker = w, q_params = fpp, q_start = startPos,
        q_condition = path_condition isSightClear targetPos fpp startPos,
        q_inRange = isInRange targetPos fpp startPos\<rparr>"

definition getPathTo_dist ::
  "'t walker \<Rightarrow> (position \<Rightarrow> position \<Rightarrow> bool) \<Rightarrow> position \<Rightarrow> position \<Rightarrow> int \<Rightarrow> int \<Rightarrow> bool \<Rightarrow> bool \<Rightarrow> int
     \<Rightarrow> (bool \<times> direction list) option" where
  "getPathTo_dist w isSightClear startPos targetPos minDist maxDist full clear searchDist =
     getPathTo w isSightClear startPos targetPos
       \<lparr>fullPathSearch = full, clearSight = clear, allowDiagonal = True, keepDistance = False,
        maxSearchDist = searchDist, minTargetDist = minDist, maxTargetDist = maxDist\<rparr>"

section \<open>The nodes of a search\<close>

lemma node_key_inj: "node_key x y = node_key x' y' \<longleftrightarrow> x = x' \<and> y = y'"
proof
  assume eq: "node_key x y = node_key x' y'"
  have y: "ucast (node_key a b) = b" for a b
    by (rule bit_word_eqI) (auto simp: node_key_def bit_simps)
  have x: "ucast (drop_bit 16 (node_key a b)) = a" for a b
    by (rule bit_word_eqI) (auto simp: node_key_def bit_simps dest: bit_imp_le_length)
  show "x = x' \<and> y = y'" using eq x y by metis
qed simp

text \<open>What a position must be to become a node of the search, the start apart.\<close>

definition admissible :: "'t path_query \<Rightarrow> position \<Rightarrow> bool" where
  "admissible q pos \<longleftrightarrow>
     canWalkTo (q_walker q) pos \<noteq> None \<and>
     (maxSearchDist (q_params q) \<noteq> 0 \<longrightarrow>
        getDistanceX (q_start q) pos \<le> maxSearchDist (q_params q) \<and>
        getDistanceY (q_start q) pos \<le> maxSearchDist (q_params q)) \<and>
     (keepDistance (q_params q) \<longrightarrow> q_inRange q pos)"

definition beside :: "position \<Rightarrow> int \<times> int \<Rightarrow> position" where
  "beside pos d = Position (word_of_int (uint (px pos) + fst d)) (word_of_int (uint (py pos) + snd d)) (pz pos)"

definition path_inv :: "'t path_query \<Rightarrow> astar_nodes \<Rightarrow> bool" where
  "path_inv q A \<longleftrightarrow>
     length (openNodes A) = length (nodes A) \<and> 0 < length (nodes A) \<and> length (nodes A) \<le> MAX_NODES \<and>
     parent (nodes A ! 0) = None \<and> fcost (nodes A ! 0) = 0 \<and> node_pos q A 0 = q_start q \<and>
     (\<forall>k i. nodeTable A k = Some i \<longleftrightarrow>
        i < length (nodes A) \<and> k = node_key (nx (nodes A ! i)) (ny (nodes A ! i))) \<and>
     (\<forall>i < length (nodes A). 0 \<le> fcost (nodes A ! i)) \<and>
     (\<forall>i < length (nodes A). i \<noteq> 0 \<longrightarrow> admissible q (node_pos q A i) \<and>
        (\<exists>p < length (nodes A). parent (nodes A ! i) = Some p \<and> fcost (nodes A ! p) < fcost (nodes A ! i) \<and>
           (\<exists>d \<in> set allNeighbors. node_pos q A i = beside (node_pos q A p) d)))"

lemmas path_invD =
  path_inv_def [THEN iffD1, THEN conjunct1]
  path_inv_def [THEN iffD1, THEN conjunct2, THEN conjunct1]
  path_inv_def [THEN iffD1, THEN conjunct2, THEN conjunct2, THEN conjunct1]

lemma start_path_inv: "path_inv q (start_nodes (px (q_start q)) (py (q_start q)))"
  by (cases "q_start q") (auto simp: path_inv_def start_nodes_def MAX_NODES_def node_pos_def)

lemma costs_positive: "0 < getMapWalkCost n p" "0 \<le> getTileWalkCost w tile"
  by (auto simp: getMapWalkCost_def getTileWalkCost_def MAP_NORMALWALKCOST_def MAP_DIAGONALWALKCOST_def
      split: option.splits)

text \<open>
  The order in which the search makes progress: it adds a node, or it lowers a cost, or it closes
  a node.
\<close>

definition total_cost :: "astar_nodes \<Rightarrow> int" where
  "total_cost A = sum_list (map fcost (nodes A))"

definition grown :: "astar_nodes \<Rightarrow> astar_nodes \<Rightarrow> bool" where
  "grown A A' \<longleftrightarrow>
     length (nodes A) \<le> length (nodes A') \<and>
     (\<forall>i < length (nodes A). nx (nodes A' ! i) = nx (nodes A ! i) \<and> ny (nodes A' ! i) = ny (nodes A ! i) \<and>
        (openNodes A ! i \<longrightarrow> openNodes A' ! i)) \<and>
     (A' = A \<or> length (nodes A) < length (nodes A') \<or>
      (length (nodes A) = length (nodes A') \<and> total_cost A' < total_cost A))"

lemma grown_refl: "grown A A"
  by (simp add: grown_def)

lemma grown_trans: "grown A B \<Longrightarrow> grown B C \<Longrightarrow> grown A C"
  unfolding grown_def by (elim conjE disjE) (auto dest: order.strict_trans1 order.strict_trans2)

lemma grown_node_pos: "grown A A' \<Longrightarrow> i < length (nodes A) \<Longrightarrow> node_pos q A' i = node_pos q A i"
  by (simp add: grown_def node_pos_def)

lemma sum_list_at: "m < length xs \<Longrightarrow> sum_list (xs[m := f]) = sum_list xs - xs ! m + (f :: int)"
  by (induction xs arbitrary: m) (auto split: nat.splits)

lemma total_cost_update:
  "m < length (nodes A) \<Longrightarrow>
   total_cost (A\<lparr>nodes := (nodes A)[m := (nodes A ! m)\<lparr>fcost := f, parent := P\<rparr>]\<rparr>) =
   total_cost A - fcost (nodes A ! m) + f"
  by (simp add: total_cost_def map_update sum_list_at)

lemma create_node:
  assumes inv: "path_inv q A" and n: "n < length (nodes A)" and d: "d \<in> set allNeighbors"
    and pos: "pos = beside (node_pos q A n) d" and adm: "admissible q pos"
    and new: "getNodeByPosition (px pos) (py pos) A = None" and f: "fcost (nodes A ! n) < f"
    and A': "createOpenNode n (px pos) (py pos) f A = Some A'"
  shows "path_inv q A' \<and> grown A A'"
proof -
  have len: "length (nodes A) < MAX_NODES"
    and A'_eq: "A' = A\<lparr>nodes := nodes A @ [\<lparr>parent = Some n, fcost = f, nx = px pos, ny = py pos\<rparr>],
                   openNodes := openNodes A @ [True],
                   nodeTable := (nodeTable A)(node_key (px pos) (py pos) \<mapsto> length (nodes A))\<rparr>"
    using A' by (auto simp: createOpenNode_def split: if_splits)
  have old: "node_pos q A' i = node_pos q A i" if "i < length (nodes A)" for i
    using that by (simp add: A'_eq node_pos_def nth_append)
  have fresh: "nodeTable A (node_key (px pos) (py pos)) = None"
    using new by (simp add: getNodeByPosition_def)
  have newpos: "node_pos q A' (length (nodes A)) = pos"
    using pos by (cases pos) (simp add: A'_eq node_pos_def beside_def)
  have fn: "0 \<le> fcost (nodes A ! n)" using inv n by (simp add: path_inv_def)
  have table: "nodeTable A' k = Some i \<longleftrightarrow>
      i < length (nodes A') \<and> k = node_key (nx (nodes A' ! i)) (ny (nodes A' ! i))" for k i
  proof -
    have t: "nodeTable A k = Some i \<longleftrightarrow>
        i < length (nodes A) \<and> k = node_key (nx (nodes A ! i)) (ny (nodes A ! i))" for k i
      using inv by (simp add: path_inv_def)
    have "node_key (nx (nodes A ! i)) (ny (nodes A ! i)) \<noteq> node_key (px pos) (py pos)" if "i < length (nodes A)" for i
      using t [of "node_key (px pos) (py pos)" i] fresh that by auto
    note other = this this [symmetric]
    show ?thesis by (auto simp: A'_eq nth_append less_Suc_eq other t)
  qed
  have each: "admissible q (node_pos q A' i) \<and>
        (\<exists>p < length (nodes A'). parent (nodes A' ! i) = Some p \<and> fcost (nodes A' ! p) < fcost (nodes A' ! i) \<and>
           (\<exists>d \<in> set allNeighbors. node_pos q A' i = beside (node_pos q A' p) d))"
    if i: "i < length (nodes A')" "i \<noteq> 0" for i
  proof (cases "i < length (nodes A)")
    case True
    then obtain p e where p: "p < length (nodes A)" "parent (nodes A ! i) = Some p"
      "fcost (nodes A ! p) < fcost (nodes A ! i)" "e \<in> set allNeighbors"
      "node_pos q A i = beside (node_pos q A p) e" and "admissible q (node_pos q A i)"
      using inv i by (force simp: path_inv_def)
    then show ?thesis using True old by (auto simp: A'_eq nth_append intro!: exI [of _ p] bexI [of _ e])
  next
    case False
    then have [simp]: "i = length (nodes A)" using i by (simp add: A'_eq)
    show ?thesis using newpos adm old [OF n] n f pos d
      by (auto simp: A'_eq nth_append intro!: exI [of _ n] bexI [of _ d])
  qed
  have "path_inv q A'"
    unfolding path_inv_def
  proof (intro conjI allI impI)
    show "node_pos q A' 0 = q_start q" using inv old [of 0] by (simp add: path_inv_def)
    show "0 \<le> fcost (nodes A' ! i)" if "i < length (nodes A')" for i
      using that inv fn f by (auto simp: path_inv_def A'_eq nth_append less_Suc_eq)
  qed (use inv len table each in \<open>auto simp: path_inv_def A'_eq nth_append\<close>)
  moreover have "grown A A'" using inv by (simp add: grown_def A'_eq nth_append path_inv_def)
  ultimately show ?thesis by simp
qed


lemma relax_node:
  assumes inv: "path_inv q A" and n: "n < length (nodes A)" and d: "d \<in> set allNeighbors"
    and pos: "pos = beside (node_pos q A n) d"
    and m: "getNodeByPosition (px pos) (py pos) A = Some m"
    and f: "fcost (nodes A ! n) < f" "f < fcost (nodes A ! m)"
    and A': "A' = openNode m (A\<lparr>nodes := (nodes A)[m := (nodes A ! m)\<lparr>fcost := f, parent := Some n\<rparr>]\<rparr>)"
  shows "path_inv q A' \<and> grown A A'"
proof -
  have mlen: "m < length (nodes A)" and key: "node_key (px pos) (py pos) = node_key (nx (nodes A ! m)) (ny (nodes A ! m))"
    using m inv by (auto simp: getNodeByPosition_def path_inv_def)
  have mpos: "node_pos q A m = pos"
    using key pos by (cases pos) (simp add: node_pos_def beside_def node_key_inj)
  have fn: "0 \<le> fcost (nodes A ! n)" and root: "fcost (nodes A ! 0) = 0" using inv n by (auto simp: path_inv_def)
  have m0: "m \<noteq> 0" using fn root f by (cases "m = 0") auto
  have mn: "m \<noteq> n" using f by auto
  have A'_nodes: "nodes A' = (nodes A)[m := (nodes A ! m)\<lparr>fcost := f, parent := Some n\<rparr>]"
    and A'_open: "openNodes A' = (openNodes A)[m := True]"
    and A'_table: "nodeTable A' = nodeTable A"
    using list_update_id [of "openNodes A" m] by (cases "openNodes A ! m"; simp add: A' openNode_def)+
  have old: "node_pos q A' i = node_pos q A i" if "i < length (nodes A)" for i
    using that mlen by (simp add: A'_nodes node_pos_def nth_list_update)
  have each: "admissible q (node_pos q A' i) \<and>
        (\<exists>p < length (nodes A'). parent (nodes A' ! i) = Some p \<and> fcost (nodes A' ! p) < fcost (nodes A' ! i) \<and>
           (\<exists>d \<in> set allNeighbors. node_pos q A' i = beside (node_pos q A' p) d))"
    if "i < length (nodes A')" "i \<noteq> 0" for i
  proof -
    have i: "i < length (nodes A)" "i \<noteq> 0" using that by (simp_all add: A'_nodes)
    obtain p e where p: "p < length (nodes A)" "parent (nodes A ! i) = Some p"
      "fcost (nodes A ! p) < fcost (nodes A ! i)" "e \<in> set allNeighbors"
      "node_pos q A i = beside (node_pos q A p) e" and adm: "admissible q (node_pos q A i)"
      using inv i by (force simp: path_inv_def)
    show ?thesis
    proof (cases "i = m")
      case True
      then show ?thesis using adm old [OF i(1)] old [OF n] n f mn mpos pos d mlen
        by (auto simp: A'_nodes nth_list_update intro!: exI [of _ n] bexI [of _ d])
    next
      case False
      then show ?thesis using adm old [OF i(1)] old [OF p(1)] p f mlen
        by (auto simp: A'_nodes nth_list_update intro!: exI [of _ p] bexI [of _ e])
    qed
  qed
  have "path_inv q A'"
    unfolding path_inv_def
  proof (intro conjI allI impI)
    show "node_pos q A' 0 = q_start q" using inv old [of 0] by (simp add: path_inv_def)
    show "0 \<le> fcost (nodes A' ! i)" if "i < length (nodes A')" for i
      using that inv fn f mlen by (auto simp: path_inv_def A'_nodes nth_list_update)
    show "nodeTable A' k = Some i \<longleftrightarrow>
      i < length (nodes A') \<and> k = node_key (nx (nodes A' ! i)) (ny (nodes A' ! i))" for k i
      using inv mlen by (simp add: path_inv_def A'_nodes A'_table nth_list_update)
  qed (use inv m0 each in \<open>auto simp: path_inv_def A'_nodes A'_open\<close>)
  moreover have "total_cost A' < total_cost A"
    using f mlen by (simp add: total_cost_def A'_nodes map_update sum_list_at)
  then have "grown A A'"
    using inv mlen by (simp add: grown_def A'_nodes A'_open nth_list_update path_inv_def)
  ultimately show ?thesis by simp
qed

lemma visit_neighbor_eq:
  "visit_neighbor q n d A =
     (let pos = beside (node_pos q A n) d; w = q_walker q
      in if (maxSearchDist (q_params q) \<noteq> 0 \<longrightarrow>
             getDistanceX (q_start q) pos \<le> maxSearchDist (q_params q) \<and>
             getDistanceY (q_start q) pos \<le> maxSearchDist (q_params q)) \<and>
            (keepDistance (q_params q) \<longrightarrow> q_inRange q pos) then
           (case getNodeByPosition (px pos) (py pos) A of
              None \<Rightarrow>
                (case canWalkTo w pos of None \<Rightarrow> Some A
                 | Some t \<Rightarrow> createOpenNode n (px pos) (py pos)
                     (fcost (nodes A ! n) + getMapWalkCost (nodes A ! n) pos + getTileWalkCost w (Some t)) A)
            | Some m \<Rightarrow>
                let f = fcost (nodes A ! n) + getMapWalkCost (nodes A ! n) pos + getTileWalkCost w (tile_at w pos)
                in if fcost (nodes A ! m) \<le> f then Some A
                   else Some (openNode m (A\<lparr>nodes := (nodes A)[m := (nodes A ! m)\<lparr>fcost := f, parent := Some n\<rparr>]\<rparr>)))
         else Some A)"
proof -
  define pos where "pos = beside (node_pos q A n) d"
  have "Position (word_of_int (uint (nx (nodes A ! n)) + fst d)) (word_of_int (uint (ny (nodes A ! n)) + snd d))
      (pz (q_start q)) = pos"
    and "word_of_int (uint (nx (nodes A ! n)) + fst d) = px pos"
    and "word_of_int (uint (ny (nodes A ! n)) + snd d) = py pos"
    by (simp_all only: pos_def beside_def node_pos_def position.sel)
  then show ?thesis
    unfolding visit_neighbor_def Let_def pos_def [symmetric]
    by (cases "getNodeByPosition (px pos) (py pos) A"; cases "canWalkTo (q_walker q) pos") (simp; force)+
qed

lemma visit_neighbor_inv:
  assumes "path_inv q A" "n < length (nodes A)" "d \<in> set allNeighbors" "visit_neighbor q n d A = Some A'"
  shows "path_inv q A' \<and> grown A A'"
proof -
  define pos where pos: "pos = beside (node_pos q A n) d"
  have cost: "fcost (nodes A ! n) < fcost (nodes A ! n) + getMapWalkCost (nodes A ! n) pos + getTileWalkCost w t" for w t
    using costs_positive(1) [of "nodes A ! n" pos] costs_positive(2) [of w t] by simp
  note step = assms(4) [unfolded visit_neighbor_eq Let_def pos [symmetric]]
  show ?thesis
  proof (cases "getNodeByPosition (px pos) (py pos) A")
    case None
    show ?thesis
    proof (cases "A' = A")
      case True
      then show ?thesis using assms(1) by (simp add: grown_refl)
    next
      case False
      then obtain t where t: "canWalkTo (q_walker q) pos = Some t"
        and "admissible q pos"
        and "createOpenNode n (px pos) (py pos)
          (fcost (nodes A ! n) + getMapWalkCost (nodes A ! n) pos + getTileWalkCost (q_walker q) (Some t)) A = Some A'"
        using step None by (auto simp: admissible_def split: if_splits option.splits)
      then show ?thesis by (intro create_node [OF assms(1-3) pos _ None cost])
    qed
  next
    case (Some m)
    show ?thesis
    proof (cases "A' = A")
      case True
      then show ?thesis using assms(1) by (simp add: grown_refl)
    next
      case False
      define f where "f = fcost (nodes A ! n) + getMapWalkCost (nodes A ! n) pos +
        getTileWalkCost (q_walker q) (tile_at (q_walker q) pos)"
      have "f < fcost (nodes A ! m)"
        and "A' = openNode m (A\<lparr>nodes := (nodes A)[m := (nodes A ! m)\<lparr>fcost := f, parent := Some n\<rparr>]\<rparr>)"
        using step Some False unfolding f_def [symmetric] by (auto split: if_splits)
      then show ?thesis using cost by (intro relax_node [OF assms(1-3) pos Some]) (simp_all add: f_def)
    qed
  qed
qed

lemma visit_neighbors_inv:
  "path_inv q A \<Longrightarrow> n < length (nodes A) \<Longrightarrow> set ds \<subseteq> set allNeighbors \<Longrightarrow>
   path_inv q (snd (visit_neighbors q n ds A)) \<and> grown A (snd (visit_neighbors q n ds A))"
proof (induction q n ds A rule: visit_neighbors.induct)
  case (2 q n d ds A)
  show ?case
  proof (cases "visit_neighbor q n d A")
    case (Some B)
    then have B: "path_inv q B \<and> grown A B" using 2(2-4) by (intro visit_neighbor_inv) auto
    then have "n < length (nodes B)" using 2(3) by (auto simp: grown_def)
    then show ?thesis using 2 Some B by (auto intro: grown_trans)
  qed (use 2(2) in \<open>simp add: grown_refl\<close>)
qed (simp add: grown_refl)

lemma neighbors_subset: "set (neighbors fpp A n) \<subseteq> set allNeighbors"
proof -
  have "set (dirNeighbors (unat (direction_code (parent_direction b x y)))) \<subseteq> set allNeighbors" for b x y
    by (simp add: parent_direction_def dirNeighbors_def allNeighbors_def)
  then have "set (take k (dirNeighbors (unat (direction_code (parent_direction b x y))))) \<subseteq> set allNeighbors" for k b x y
    by (meson set_take_subset subset_trans)
  then show ?thesis
    by (simp add: neighbors_def Let_def del: take.simps split: option.split)
qed

lemma best_loop_picks:
  "snd (best_loop i ns best) = Some j \<Longrightarrow> snd best \<noteq> Some j \<Longrightarrow>
   i \<le> j \<and> j < i + length ns \<and> fst (ns ! (j - i))"
proof (induction i ns best rule: best_loop.induct)
  case (2 i opened n ns best)
  show ?case
  proof (cases "opened \<and> fcost n < fst best \<and> i = j")
    case False
    with 2 have "Suc i \<le> j \<and> j < Suc i + length ns \<and> fst (ns ! (j - Suc i))"
      by (intro 2(1)) (auto split: if_splits)
    then show ?thesis by (simp add: nth_Cons' Suc_diff_le Suc_le_eq)
  qed auto
qed simp

lemma getBestNode_open:
  assumes "path_inv q A" "getBestNode A = Some n"
  shows "n < length (nodes A) \<and> openNodes A ! n"
  using best_loop_picks [of 0 "zip (openNodes A) (nodes A)" "(2147483647, None)" n] assms
  by (auto simp: getBestNode_def path_inv_def)

definition path_measure :: "astar_nodes \<Rightarrow> nat \<times> nat \<times> nat" where
  "path_measure A = (MAX_NODES - length (nodes A), nat (total_cost A), count_list (openNodes A) True)"

lemma count_list_close: "n < length xs \<Longrightarrow> xs ! n \<Longrightarrow> count_list (xs[n := False]) True < count_list xs True"
  by (induction xs arbitrary: n) (auto split: nat.splits)

lemma total_cost_nonneg: "path_inv q A \<Longrightarrow> 0 \<le> total_cost A"
  by (auto simp: total_cost_def path_inv_def in_set_conv_nth intro!: sum_list_nonneg)

lemma close_progress:
  assumes "path_inv q A" "getBestNode A = Some n" "path_inv q B" "grown A B"
  shows "path_inv q (closeNode n B) \<and>
    (path_measure (closeNode n B), path_measure A) \<in> less_than <*lex*> less_than <*lex*> less_than"
proof -
  have n: "n < length (nodes A)" "openNodes A ! n" using getBestNode_open [OF assms(1,2)] by auto
  have len: "length (nodes B) \<le> MAX_NODES" "length (openNodes B) = length (nodes B)" using assms(3) by (auto simp: path_inv_def)
  have "n < length (nodes B)" "openNodes B ! n" using n assms(4) by (auto simp: grown_def)
  then have "count_list ((openNodes B)[n := False]) True < count_list (openNodes B) True"
    using len by (intro count_list_close) auto
  then have "(path_measure (closeNode n B), path_measure A) \<in> less_than <*lex*> less_than <*lex*> less_than"
    using assms(4) len total_cost_nonneg [OF assms(3)]
    by (auto simp: path_measure_def closeNode_def grown_def total_cost_def)
  moreover have "path_inv q (closeNode n B)"
    using assms(3) by (simp add: path_inv_def closeNode_def node_pos_def)
  ultimately show ?thesis by simp
qed

definition is_goal :: "'t path_query \<Rightarrow> position \<Rightarrow> bool" where
  "is_goal q pos \<longleftrightarrow> (\<exists>best. fst (q_condition q pos best))"

definition goal_node :: "'t path_query \<Rightarrow> astar_nodes \<Rightarrow> nat option \<Rightarrow> bool" where
  "goal_node q A found \<longleftrightarrow> (\<forall>i. found = Some i \<longrightarrow> i < length (nodes A) \<and> is_goal q (node_pos q A i))"

lemma goal_node_grown: "goal_node q A found \<Longrightarrow> grown A B \<Longrightarrow> goal_node q (closeNode n B) found"
  using grown_node_pos [of A B _ q]
  by (auto simp: goal_node_def closeNode_def node_pos_def grown_def)

lemma path_loop_ends:
  assumes "path_inv q A" "goal_node q A found"
  shows "\<exists>B j. path_loop q A found best = Some (B, j) \<and> path_inv q B \<and> goal_node q B j"
  using assms
proof (induction A arbitrary: found best
    rule: wf_induct [OF wf_inv_image [of "less_than <*lex*> less_than <*lex*> less_than" path_measure]])
  case (2 A)
  show ?case
  proof (cases "(maxSearchDist (q_params q) \<noteq> 0 \<or> closedNodes A < 100) \<and> getBestNode A \<noteq> None")
    case False
    then have "path_loop q A found best = Some (A, found)"
      by (subst path_loop.simps) auto
    with 2 show ?thesis by auto
  next
    case True
    then obtain n where n: "getBestNode A = Some n" by auto
    define hit where "hit = q_condition q (node_pos q A n) best"
    define found' where "found' = (if fst hit then Some n else found)"
    define visited where "visited = visit_neighbors q n (neighbors (q_params q) A n) A"
    have nl: "n < length (nodes A)" using getBestNode_open [OF 2(2) n] by simp
    have B: "path_inv q (snd visited)" "grown A (snd visited)"
      using visit_neighbors_inv [OF 2(2) nl neighbors_subset] by (simp_all add: visited_def)
    have found': "goal_node q A found'"
      using 2(3) nl by (auto simp: goal_node_def found'_def is_goal_def hit_def)
    have "path_loop q A found best =
        (if fst hit \<and> snd hit = 0 then Some (A, found')
         else if \<not> fst visited \<and> found' = None then Some (snd visited, None)
         else path_loop q (closeNode n (snd visited)) found' (snd hit))"
      by (subst path_loop.simps) (use True n in \<open>simp add: Let_def hit_def found'_def visited_def\<close>)
    moreover have "\<exists>C j. path_loop q (closeNode n (snd visited)) found' (snd hit) = Some (C, j) \<and>
        path_inv q C \<and> goal_node q C j"
      using close_progress [OF 2(2) n B] goal_node_grown [OF found' B(2)] 2(1) by (simp add: inv_image_def)
    ultimately show ?thesis using 2(2) found' B(1) by (auto simp: goal_node_def)
  qed
qed auto

section \<open>The way back\<close>

text \<open>The positions a creature comes through when it takes the directions one after another.\<close>

fun follow_way :: "direction list \<Rightarrow> position \<Rightarrow> position list" where
  "follow_way [] p = []"
| "follow_way (d # ds) p = getNextPosition d p # follow_way ds (getNextPosition d p)"

definition destination :: "direction list \<Rightarrow> position \<Rightarrow> position" where
  "destination ds p = fold getNextPosition ds p"

lemma follow_append: "follow_way (ds @ es) p = follow_way ds p @ follow_way es (destination ds p)"
  by (induction ds arbitrary: p) (auto simp: destination_def)

lemma u16_beside:
  assumes "0 < c" "c < 65535" "c = word_of_int (uint (x :: u16) + e)" "\<bar>e\<bar> \<le> 1"
  shows "uint (c :: u16) = uint x + e"
proof -
  have c: "uint c = (uint x + e) mod 65536" using assms(3) by (simp only: uint_word_of_int) simp
  have "uint (0 :: u16) < uint c" "uint c < uint (65535 :: u16)" using assms(1,2) by (simp_all only: word_less_def)
  then have "0 < uint c" "uint c < 65535" by simp_all
  have x: "0 \<le> uint x" "uint x < 65536" using uint_lt2p [of x] by simp_all
  have "uint x + e \<noteq> -1"
  proof
    assume "uint x + e = -1"
    with c \<open>uint c < 65535\<close> show False by simp
  qed
  moreover have "uint x + e \<noteq> 65536"
  proof
    assume "uint x + e = 65536"
    with c \<open>0 < uint c\<close> show False by simp
  qed
  ultimately have "0 \<le> uint x + e" "uint x + e < 65536" using x assms(4) by linarith+
  then show ?thesis using c by (simp add: mod_pos_pos_trivial)
qed

definition inner_position :: "position \<Rightarrow> bool" where
  "inner_position pos \<longleftrightarrow> 0 < px pos \<and> px pos < 65535 \<and> 0 < py pos \<and> py pos < 65535"

lemma step_back:
  assumes "d \<in> set allNeighbors" "c = beside p d" "inner_position c"
  shows "\<exists>dir. step_direction (uint (px p) - uint (px c)) (uint (py p) - uint (py c)) = [dir] \<and> getNextPosition dir p = c"
proof -
  have d: "\<bar>fst d\<bar> \<le> 1" "\<bar>snd d\<bar> \<le> 1" using assms(1) by (auto simp: allNeighbors_def)
  have "uint (px c) = uint (px p) + fst d" "uint (py c) = uint (py p) + snd d"
    using assms(2,3) d by (auto simp: inner_position_def beside_def intro!: u16_beside)
  then have "step_direction (uint (px p) - uint (px c)) (uint (py p) - uint (py c)) = step_direction (- fst d) (- snd d)"
    by simp
  moreover have "\<exists>dir. step_direction (- fst d) (- snd d) = [dir] \<and> getNextPosition dir p = beside p d"
    using assms(1) by (cases p) (auto simp: allNeighbors_def step_direction_def beside_def)
  ultimately show ?thesis using assms(2) by simp
qed

definition cheaper :: "astar_nodes \<Rightarrow> nat \<Rightarrow> nat set" where
  "cheaper A i = {j. j < length (nodes A) \<and> fcost (nodes A ! j) < fcost (nodes A ! i)}"

lemma walk_back_path:
  assumes "path_inv q A" "i < length (nodes A)"
  shows "\<exists>ds. walk_back A (uint (nx (nodes A ! i))) (uint (ny (nodes A ! i))) (parent (nodes A ! i)) acc = Some (acc @ ds) \<and>
    length ds \<le> card (cheaper A i) \<and>
    ((\<forall>pos. admissible q pos \<longrightarrow> inner_position pos) \<longrightarrow>
       destination (rev ds) (q_start q) = node_pos q A i \<and> (\<forall>p \<in> set (follow_way (rev ds) (q_start q)). admissible q p))"
  using assms(2)
proof (induction "nat (fcost (nodes A ! i))" arbitrary: i acc rule: less_induct)
  case less
  show ?case
  proof (cases "i = 0")
    case True
    then have "parent (nodes A ! i) = None" "node_pos q A i = q_start q" using assms(1) by (simp_all add: path_inv_def)
    then show ?thesis by (subst walk_back.simps) (simp add: destination_def)
  next
    case False
    then obtain p d where p: "p < length (nodes A)" "parent (nodes A ! i) = Some p"
      "fcost (nodes A ! p) < fcost (nodes A ! i)" "d \<in> set allNeighbors" "node_pos q A i = beside (node_pos q A p) d"
      and adm: "admissible q (node_pos q A i)" and fp: "0 \<le> fcost (nodes A ! p)"
      using assms(1) less.prems by (force simp: path_inv_def)
    define s where "s = step_direction (uint (nx (nodes A ! p)) - uint (nx (nodes A ! i))) (uint (ny (nodes A ! p)) - uint (ny (nodes A ! i)))"
    obtain ds where rest: "walk_back A (uint (nx (nodes A ! p))) (uint (ny (nodes A ! p))) (parent (nodes A ! p)) (acc @ s) = Some (acc @ s @ ds)"
      and len: "length ds \<le> card (cheaper A p)"
      and path: "(\<forall>pos. admissible q pos \<longrightarrow> inner_position pos) \<longrightarrow>
        destination (rev ds) (q_start q) = node_pos q A p \<and> (\<forall>x \<in> set (follow_way (rev ds) (q_start q)). admissible q x)"
      using less.hyps [of p "acc @ s"] p(1,3) fp by auto
    have "walk_back A (uint (nx (nodes A ! i))) (uint (ny (nodes A ! i))) (parent (nodes A ! i)) acc = Some (acc @ s @ ds)"
      using rest by (subst walk_back.simps) (simp add: p(2) s_def Let_def)
    moreover have "length (s @ ds) \<le> card (cheaper A i)"
    proof -
      have "length s \<le> 1" by (simp add: s_def step_direction_def)
      moreover have "cheaper A p \<subset> cheaper A i" using p(1,3) by (auto simp: cheaper_def)
      then have "card (cheaper A p) < card (cheaper A i)" by (intro psubset_card_mono) (simp_all add: cheaper_def)
      ultimately show ?thesis using len by simp
    qed
    moreover have "destination (rev (s @ ds)) (q_start q) = node_pos q A i \<and>
        (\<forall>x \<in> set (follow_way (rev (s @ ds)) (q_start q)). admissible q x)"
      if inner: "\<forall>pos. admissible q pos \<longrightarrow> inner_position pos"
    proof -
      obtain dir where dir: "s = [dir]" "getNextPosition dir (node_pos q A p) = node_pos q A i"
        using step_back [OF p(4,5)] inner adm unfolding s_def by (auto simp: node_pos_def)
      have "destination (rev ds) (q_start q) = node_pos q A p" "\<forall>x \<in> set (follow_way (rev ds) (q_start q)). admissible q x"
        using path inner by blast+
      then show ?thesis using dir adm by (auto simp: follow_append) (auto simp: destination_def)
    qed
    ultimately show ?thesis by blast
  qed
qed

lemma cheaper_bound: "path_inv q A \<Longrightarrow> i < length (nodes A) \<Longrightarrow> card (cheaper A i) < MAX_NODES"
proof -
  assume inv: "path_inv q A" and i: "i < length (nodes A)"
  have "cheaper A i \<subset> {..<length (nodes A)}" using i by (auto simp: cheaper_def)
  then have "card (cheaper A i) < length (nodes A)" using psubset_card_mono [of "{..<length (nodes A)}"] by simp
  then show ?thesis using inv by (simp add: path_inv_def)
qed

lemma getPathMatching_result:
  "\<exists>found ds. getPathMatching q = Some (found, ds) \<and> (\<not> found \<longrightarrow> ds = []) \<and> length ds < MAX_NODES \<and>
     (found \<longrightarrow> (\<forall>pos. admissible q pos \<longrightarrow> inner_position pos) \<longrightarrow>
        is_goal q (destination (rev ds) (q_start q)) \<and> (\<forall>p \<in> set (follow_way (rev ds) (q_start q)). admissible q p))"
proof -
  obtain B j where loop: "path_loop q (start_nodes (px (q_start q)) (py (q_start q))) None 0 = Some (B, j)"
    and B: "path_inv q B" and j: "goal_node q B j"
    using path_loop_ends [OF start_path_inv, of q None 0] by (auto simp: goal_node_def)
  show ?thesis
  proof (cases j)
    case None
    then show ?thesis using loop by (intro exI [of _ False]) (simp add: getPathMatching_def MAX_NODES_def)
  next
    case (Some i)
    then have i: "i < length (nodes B)" "is_goal q (node_pos q B i)" using j by (auto simp: goal_node_def)
    obtain ds where "walk_back B (uint (nx (nodes B ! i))) (uint (ny (nodes B ! i))) (parent (nodes B ! i)) [] = Some ds"
      and "length ds \<le> card (cheaper B i)"
      and "(\<forall>pos. admissible q pos \<longrightarrow> inner_position pos) \<longrightarrow>
       destination (rev ds) (q_start q) = node_pos q B i \<and> (\<forall>p \<in> set (follow_way (rev ds) (q_start q)). admissible q p)"
      using walk_back_path [OF B i(1), of "[]"] by auto
    then show ?thesis using loop Some i cheaper_bound [OF B i(1)]
      by (intro exI [of _ True]) (simp add: getPathMatching_def)
  qed
qed

section \<open>Properties\<close>

text \<open>
  C20: The search always returns, whatever the map, the creature, the condition and the parameters
  are: every round either adds one of at most 512 nodes, lowers a cost, or closes a node, and the
  way back follows parents of smaller and smaller cost. A search that finds nothing leaves the list
  of directions empty, and a way has fewer than 512 steps.
\<close>

theorem path_search_ends:
  "\<exists>found dirs. getPathMatching q = Some (found, dirs) \<and> length dirs < MAX_NODES \<and> (found \<or> dirs = [])"
  using getPathMatching_result [of q] by blast

text \<open>
  C21: The directions found lead, from the last to the first as the creature takes them, from the
  start to a place that the condition accepts, and every position on the way is one the creature
  can walk to, within the distance searched and, when the distance is to be kept, in range. This
  holds on a map whose outermost rows and columns cannot be walked on: at the edge the 16-bit
  coordinates wrap around.
\<close>

theorem path_search_sound:
  assumes "getPathMatching q = Some (True, dirs)"
    and "\<And>pos. canWalkTo (q_walker q) pos \<noteq> None \<Longrightarrow> inner_position pos"
  shows "is_goal q (destination (rev dirs) (q_start q)) \<and>
    (\<forall>p \<in> set (follow_way (rev dirs) (q_start q)). canWalkTo (q_walker q) p \<noteq> None \<and>
       (maxSearchDist (q_params q) \<noteq> 0 \<longrightarrow>
          getDistanceX (q_start q) p \<le> maxSearchDist (q_params q) \<and>
          getDistanceY (q_start q) p \<le> maxSearchDist (q_params q)) \<and>
       (keepDistance (q_params q) \<longrightarrow> q_inRange q p))"
  using getPathMatching_result [of q] assms by (auto simp: admissible_def)

text \<open>A corridor of three fields and a corner, and the way through it.\<close>

definition example_walker :: "unit walker" where
  "example_walker =
     \<lparr>walk_cache = (\<lambda>pos. if pos \<in> {Position 100 100 7, Position 101 100 7, Position 102 100 7, Position 103 101 7} then 1 else 0),
      tile_at = (\<lambda>_. Some ()), own_tile = Some (), query_add = (\<lambda>_. True), top_creature = (\<lambda>_. False),
      field_item = (\<lambda>_. None)\<rparr>"

definition example_search :: "unit path_query" where
  "example_search =
     \<lparr>q_walker = example_walker,
      q_params = \<lparr>fullPathSearch = True, clearSight = False, allowDiagonal = True, keepDistance = False,
        maxSearchDist = 5, minTargetDist = 0, maxTargetDist = 1\<rparr>,
      q_start = Position 100 100 7,
      q_condition = path_condition (\<lambda>_ _. True) (Position 104 101 7)
        \<lparr>fullPathSearch = True, clearSight = False, allowDiagonal = True, keepDistance = False,
         maxSearchDist = 5, minTargetDist = 0, maxTargetDist = 1\<rparr> (Position 100 100 7),
      q_inRange = (\<lambda>_. True)\<rparr>"

declare path_loop.simps [code] walk_back.simps [code]

lemma example_search_result: "getPathMatching example_search = Some (True, [SOUTHEAST, EAST, EAST])"
  by code_simp

lemma path_search_sound_witness:
  "is_goal example_search (destination (rev [SOUTHEAST, EAST, EAST]) (Position 100 100 7)) \<and>
   list_all (\<lambda>p. canWalkTo example_walker p \<noteq> None) (follow_way (rev [SOUTHEAST, EAST, EAST]) (Position 100 100 7))"
proof -
  have "inner_position pos" if "canWalkTo (q_walker example_search) pos \<noteq> None" for pos
    using that
    by (auto simp: example_search_def example_walker_def canWalkTo_def inner_position_def Let_def split: if_splits)
  from path_search_sound [OF example_search_result this] show ?thesis
    by (simp add: example_search_def)
qed

end
