(* ===== verification/Item_Types.thy ===== *)
theory Item_Types
  imports File_Loader Geometry Text
begin

text \<open>
  \<open>src/src/items.h\<close>, \<open>items.cpp\<close> and \<open>itemloader.h\<close>: the types of items, the table of them and
  \<open>Items::loadFromOtb\<close>, which fills it from the nodes of an OTB file. The abilities and the field
  damage of a type, which \<open>items.xml\<close> sets, are left out; an enumeration with an explicit width that
  the loader never tests is a word of that width, and an \<open>int32_t\<close> is its 32-bit word.
\<close>

section \<open>Types of items\<close>

datatype itemgroup =
  ITEM_GROUP_NONE | ITEM_GROUP_GROUND | ITEM_GROUP_CONTAINER | ITEM_GROUP_WEAPON
  | ITEM_GROUP_AMMUNITION | ITEM_GROUP_ARMOR | ITEM_GROUP_CHARGES | ITEM_GROUP_TELEPORT
  | ITEM_GROUP_MAGICFIELD | ITEM_GROUP_WRITEABLE | ITEM_GROUP_KEY | ITEM_GROUP_SPLASH
  | ITEM_GROUP_FLUID | ITEM_GROUP_DOOR | ITEM_GROUP_DEPRECATED

datatype item_types =
  ITEM_TYPE_NONE | ITEM_TYPE_DEPOT | ITEM_TYPE_MAILBOX | ITEM_TYPE_TRASHHOLDER
  | ITEM_TYPE_CONTAINER | ITEM_TYPE_DOOR | ITEM_TYPE_MAGICFIELD | ITEM_TYPE_TELEPORT
  | ITEM_TYPE_BED | ITEM_TYPE_KEY | ITEM_TYPE_RUNE

definition SLOTP_HEAD :: u16 where "SLOTP_HEAD = push_bit 0 1"
definition SLOTP_NECKLACE :: u16 where "SLOTP_NECKLACE = push_bit 1 1"
definition SLOTP_BACKPACK :: u16 where "SLOTP_BACKPACK = push_bit 2 1"
definition SLOTP_ARMOR :: u16 where "SLOTP_ARMOR = push_bit 3 1"
definition SLOTP_RIGHT :: u16 where "SLOTP_RIGHT = push_bit 4 1"
definition SLOTP_LEFT :: u16 where "SLOTP_LEFT = push_bit 5 1"
definition SLOTP_LEGS :: u16 where "SLOTP_LEGS = push_bit 6 1"
definition SLOTP_FEET :: u16 where "SLOTP_FEET = push_bit 7 1"
definition SLOTP_RING :: u16 where "SLOTP_RING = push_bit 8 1"
definition SLOTP_AMMO :: u16 where "SLOTP_AMMO = push_bit 9 1"
definition SLOTP_TWO_HAND :: u16 where "SLOTP_TWO_HAND = push_bit 11 1"
definition SLOTP_HAND :: u16 where "SLOTP_HAND = SLOTP_LEFT OR SLOTP_RIGHT"

record item_type =
  it_group :: itemgroup
  it_type :: item_types
  it_id :: u16
  it_clientId :: u16
  it_stackable :: bool
  it_name :: string
  it_article :: string
  it_pluralName :: string
  it_description :: string
  it_runeSpellName :: string
  it_vocationString :: string
  it_attackSpeed :: u32
  it_weight :: u32
  it_levelDoor :: u32
  it_decayTime :: u32
  it_wieldInfo :: u32
  it_minReqLevel :: u32
  it_minReqMagicLevel :: u32
  it_charges :: u32
  it_maxHitChance :: u32
  it_decayTo :: u32
  it_attack :: u32
  it_defense :: u32
  it_extraDefense :: u32
  it_armor :: u32
  it_rotateTo :: u16
  it_runeMagLevel :: u32
  it_runeLevel :: u32
  it_worth :: u64
  it_combatType :: u16
  it_transformToOnUse :: "u16 \<times> u16"
  it_transformToFree :: u16
  it_destroyTo :: u16
  it_maxTextLen :: u16
  it_writeOnceItemId :: u16
  it_transformEquipTo :: u16
  it_transformDeEquipTo :: u16
  it_maxItems :: u16
  it_slotPosition :: u16
  it_speed :: u16
  it_wareId :: u16
  it_magicEffect :: byte
  it_bedPartnerDir :: direction
  it_weaponType :: byte
  it_ammoType :: byte
  it_shootType :: byte
  it_corpseType :: byte
  it_fluidSource :: byte
  it_floorChange :: byte
  it_alwaysOnTopOrder :: byte
  it_lightLevel :: byte
  it_lightColor :: byte
  it_shootRange :: byte
  it_hitChance :: byte
  it_storeItem :: bool
  it_forceUse :: bool
  it_forceSerialize :: bool
  it_hasHeight :: bool
  it_walkStack :: bool
  it_blockSolid :: bool
  it_blockPickupable :: bool
  it_blockProjectile :: bool
  it_blockPathFind :: bool
  it_ignoreBlocking :: bool
  it_showDuration :: bool
  it_showCharges :: bool
  it_showAttributes :: bool
  it_replaceable :: bool
  it_pickupable :: bool
  it_rotatable :: bool
  it_useable :: bool
  it_moveable :: bool
  it_alwaysOnTop :: bool
  it_canReadText :: bool
  it_canWriteText :: bool
  it_isVertical :: bool
  it_isHorizontal :: bool
  it_isHangable :: bool
  it_allowDistRead :: bool
  it_lookThrough :: bool
  it_stopTime :: bool
  it_showCount :: bool

definition new_item_type :: item_type where
  "new_item_type =
    \<lparr>it_group = ITEM_GROUP_NONE, it_type = ITEM_TYPE_NONE, it_id = 0, it_clientId = 0,
     it_stackable = False, it_name = [], it_article = [], it_pluralName = [],
     it_description = [], it_runeSpellName = [], it_vocationString = [], it_attackSpeed = 0,
     it_weight = 0, it_levelDoor = 0, it_decayTime = 0, it_wieldInfo = 0, it_minReqLevel = 0,
     it_minReqMagicLevel = 0, it_charges = 0, it_maxHitChance = -1, it_decayTo = -1,
     it_attack = 0, it_defense = 0, it_extraDefense = 0, it_armor = 0, it_rotateTo = 0,
     it_runeMagLevel = 0, it_runeLevel = 0, it_worth = 0, it_combatType = 0,
     it_transformToOnUse = (0, 0), it_transformToFree = 0, it_destroyTo = 0, it_maxTextLen = 0,
     it_writeOnceItemId = 0, it_transformEquipTo = 0, it_transformDeEquipTo = 0,
     it_maxItems = 8, it_slotPosition = SLOTP_HAND, it_speed = 0, it_wareId = 0,
     it_magicEffect = 0, it_bedPartnerDir = NONE, it_weaponType = 0, it_ammoType = 0,
     it_shootType = 0, it_corpseType = 0, it_fluidSource = 0, it_floorChange = 0,
     it_alwaysOnTopOrder = 0, it_lightLevel = 0, it_lightColor = 0, it_shootRange = 1,
     it_hitChance = 0, it_storeItem = False, it_forceUse = False, it_forceSerialize = False,
     it_hasHeight = False, it_walkStack = True, it_blockSolid = False,
     it_blockPickupable = False, it_blockProjectile = False, it_blockPathFind = False,
     it_ignoreBlocking = False, it_showDuration = False, it_showCharges = False,
     it_showAttributes = False, it_replaceable = True, it_pickupable = False,
     it_rotatable = False, it_useable = False, it_moveable = False, it_alwaysOnTop = False,
     it_canReadText = False, it_canWriteText = False, it_isVertical = False,
     it_isHorizontal = False, it_isHangable = False, it_allowDistRead = False,
     it_lookThrough = False, it_stopTime = False, it_showCount = True\<rparr>"

definition isGroundTile :: "item_type \<Rightarrow> bool" where "isGroundTile t \<longleftrightarrow> it_group t = ITEM_GROUP_GROUND"
definition isContainer :: "item_type \<Rightarrow> bool" where "isContainer t \<longleftrightarrow> it_group t = ITEM_GROUP_CONTAINER"
definition isSplash :: "item_type \<Rightarrow> bool" where "isSplash t \<longleftrightarrow> it_group t = ITEM_GROUP_SPLASH"
definition isFluidContainer :: "item_type \<Rightarrow> bool" where "isFluidContainer t \<longleftrightarrow> it_group t = ITEM_GROUP_FLUID"
definition isMagicField :: "item_type \<Rightarrow> bool" where "isMagicField t \<longleftrightarrow> it_type t = ITEM_TYPE_MAGICFIELD"

definition hasSubType :: "item_type \<Rightarrow> bool" where
  "hasSubType t \<longleftrightarrow> isFluidContainer t \<or> isSplash t \<or> it_stackable t \<or> it_charges t \<noteq> 0"

definition getPluralName :: "item_type \<Rightarrow> string" where
  "getPluralName t =
     (if it_pluralName t \<noteq> [] then it_pluralName t
      else if \<not> it_showCount t then it_name t
      else if it_name t = [] \<or> last (it_name t) = CHR ''s'' then it_name t
      else it_name t @ ''s'')"

section \<open>The table\<close>

text \<open>A vector grows with default types; the client table keeps the first server id of a client id.\<close>

record items_table =
  items :: "item_type list"
  clientIdToServerIdMap :: "u16 list"
  majorVersion :: u32
  minorVersion :: u32
  buildNumber :: u32

definition map_emplace :: "u16 \<Rightarrow> u16 \<Rightarrow> u16 list \<Rightarrow> u16 list" where
  "map_emplace clientId serverId vec =
     (let vec = (if unat clientId \<ge> length vec then vec @ replicate (unat clientId + 1 - length vec) 0 else vec)
      in if vec ! unat clientId = 0 then vec[unat clientId := serverId] else vec)"

definition getServerId :: "u16 \<Rightarrow> u16 list \<Rightarrow> u16" where
  "getServerId clientId vec = (if unat clientId < length vec then vec ! unat clientId else 0)"

text \<open>\<open>None\<close> is \<open>front()\<close> of an empty vector.\<close>

definition getItemType :: "nat \<Rightarrow> items_table \<Rightarrow> item_type option" where
  "getItemType i t =
     (if i < length (items t) then Some (items t ! i)
      else case items t of [] \<Rightarrow> None | first # _ \<Rightarrow> Some first)"

definition getItemIdByClientId :: "u16 \<Rightarrow> items_table \<Rightarrow> item_type option" where
  "getItemIdByClientId spriteId t =
     (let serverId = getServerId spriteId (clientIdToServerIdMap t)
      in if spriteId \<ge> 100 \<and> serverId \<noteq> 0 then getItemType (unat serverId) t
         else case items t of [] \<Rightarrow> None | first # _ \<Rightarrow> Some first)"

section \<open>Loading\<close>

abbreviation read8 :: "prop_stream \<Rightarrow> (byte \<times> prop_stream) option" where "read8 \<equiv> prop_read 1"
abbreviation read16 :: "prop_stream \<Rightarrow> (u16 \<times> prop_stream) option" where "read16 \<equiv> prop_read 2"
abbreviation read32 :: "prop_stream \<Rightarrow> (u32 \<times> prop_stream) option" where "read32 \<equiv> prop_read 4"
abbreviation read64 :: "prop_stream \<Rightarrow> (u64 \<times> prop_stream) option" where "read64 \<equiv> prop_read 8"

record otb_locals =
  l_serverId :: u16
  l_clientId :: u16
  l_speed :: u16
  l_wareId :: u16
  l_lightLevel :: byte
  l_lightColor :: byte
  l_alwaysOnTopOrder :: byte

definition no_locals :: otb_locals where
  "no_locals = \<lparr>l_serverId = 0, l_clientId = 0, l_speed = 0, l_wareId = 0, l_lightLevel = 0,
     l_lightColor = 0, l_alwaysOnTopOrder = 0\<rparr>"

text \<open>An attribute whose length must be that of an integer, and the integer.\<close>

definition sized16 :: "u16 \<Rightarrow> (u16 \<Rightarrow> otb_locals) \<Rightarrow> prop_stream \<Rightarrow> (otb_locals \<times> prop_stream) option" where
  "sized16 datalen store s = (if datalen \<noteq> 2 then None else map_option (apfst store) (read16 s))"

definition read_item_attr :: "byte \<Rightarrow> u16 \<Rightarrow> otb_locals \<Rightarrow> prop_stream \<Rightarrow> (otb_locals \<times> prop_stream) option" where
  "read_item_attr attrib datalen l s =
     (if attrib = 0x10 then sized16 datalen (\<lambda>v. l\<lparr>l_serverId := v\<rparr>) s
      else if attrib = 0x11 then sized16 datalen (\<lambda>v. l\<lparr>l_clientId := v\<rparr>) s
      else if attrib = 0x14 then sized16 datalen (\<lambda>v. l\<lparr>l_speed := v\<rparr>) s
      else if attrib = 0x2A then
        (if datalen \<noteq> 4 then None
         else case read16 s of None \<Rightarrow> None
           | Some (level, s) \<Rightarrow> (case read16 s of None \<Rightarrow> None
               | Some (color, s) \<Rightarrow> Some (l\<lparr>l_lightLevel := ucast level, l_lightColor := ucast color\<rparr>, s)))
      else if attrib = 0x2B then
        (if datalen \<noteq> 1 then None else map_option (apfst (\<lambda>v. l\<lparr>l_alwaysOnTopOrder := v\<rparr>)) (read8 s))
      else if attrib = 0x2D then sized16 datalen (\<lambda>v. l\<lparr>l_wareId := v\<rparr>) s
      else map_option (Pair l) (prop_skip (unat datalen) s))"

lemma prop_read_shorter: "prop_read n s = Some (v, s') \<Longrightarrow> length s' = length s - n \<and> n \<le> length s"
  by (auto simp: prop_read_def split: if_splits)

lemma read_item_attr_shorter: "read_item_attr attrib datalen l s = Some (l', s') \<Longrightarrow> length s' \<le> length s"
  by (auto simp: read_item_attr_def sized16_def prop_skip_def apfst_def map_prod_def
      split: if_splits option.splits dest!: prop_read_shorter)

function read_item_attrs :: "otb_locals \<Rightarrow> prop_stream \<Rightarrow> otb_locals option" where
  "read_item_attrs l s =
     (case read8 s of
        None \<Rightarrow> Some l
      | Some (attrib, s) \<Rightarrow>
          (case read16 s of
             None \<Rightarrow> None
           | Some (datalen, s) \<Rightarrow>
               (case read_item_attr attrib datalen l s of
                  None \<Rightarrow> None
                | Some (l, s) \<Rightarrow> read_item_attrs l s)))"
  by pat_completeness auto
termination
  by (relation "measure (\<lambda>(l, s). length s)")
     (auto dest!: prop_read_shorter read_item_attr_shorter)

declare read_item_attrs.simps [simp del]

definition hasBitSet :: "u32 \<Rightarrow> u32 \<Rightarrow> bool" where
  "hasBitSet flag flags \<longleftrightarrow> flags AND flag \<noteq> 0"

text \<open>
  The group of a node: the cast, and the type that some groups set; the answer is false for the others.
  A number that is not of the enumeration, which is refused too, leaves the group here.
\<close>

definition set_group :: "byte \<Rightarrow> item_type \<Rightarrow> bool \<times> item_type" where
  "set_group ty t =
     (if ty = 2 then (True, t\<lparr>it_group := ITEM_GROUP_CONTAINER, it_type := ITEM_TYPE_CONTAINER\<rparr>)
      else if ty = 13 then (True, t\<lparr>it_group := ITEM_GROUP_DOOR, it_type := ITEM_TYPE_DOOR\<rparr>)
      else if ty = 8 then (True, t\<lparr>it_group := ITEM_GROUP_MAGICFIELD, it_type := ITEM_TYPE_MAGICFIELD\<rparr>)
      else if ty = 7 then (True, t\<lparr>it_group := ITEM_GROUP_TELEPORT, it_type := ITEM_TYPE_TELEPORT\<rparr>)
      else if ty = 0 then (True, t\<lparr>it_group := ITEM_GROUP_NONE\<rparr>)
      else if ty = 1 then (True, t\<lparr>it_group := ITEM_GROUP_GROUND\<rparr>)
      else if ty = 11 then (True, t\<lparr>it_group := ITEM_GROUP_SPLASH\<rparr>)
      else if ty = 12 then (True, t\<lparr>it_group := ITEM_GROUP_FLUID\<rparr>)
      else if ty = 6 then (True, t\<lparr>it_group := ITEM_GROUP_CHARGES\<rparr>)
      else if ty = 14 then (True, t\<lparr>it_group := ITEM_GROUP_DEPRECATED\<rparr>)
      else if ty = 3 then (False, t\<lparr>it_group := ITEM_GROUP_WEAPON\<rparr>)
      else if ty = 4 then (False, t\<lparr>it_group := ITEM_GROUP_AMMUNITION\<rparr>)
      else if ty = 5 then (False, t\<lparr>it_group := ITEM_GROUP_ARMOR\<rparr>)
      else if ty = 9 then (False, t\<lparr>it_group := ITEM_GROUP_WRITEABLE\<rparr>)
      else if ty = 10 then (False, t\<lparr>it_group := ITEM_GROUP_KEY\<rparr>)
      else (False, t))"

definition set_item_fields :: "u32 \<Rightarrow> otb_locals \<Rightarrow> item_type \<Rightarrow> item_type" where
  "set_item_fields flags l t =
     t\<lparr>it_blockSolid := hasBitSet (push_bit 0 1) flags,
       it_blockProjectile := hasBitSet (push_bit 1 1) flags,
       it_blockPathFind := hasBitSet (push_bit 2 1) flags,
       it_hasHeight := hasBitSet (push_bit 3 1) flags,
       it_useable := hasBitSet (push_bit 4 1) flags,
       it_pickupable := hasBitSet (push_bit 5 1) flags,
       it_moveable := hasBitSet (push_bit 6 1) flags,
       it_stackable := hasBitSet (push_bit 7 1) flags,
       it_alwaysOnTop := hasBitSet (push_bit 13 1) flags,
       it_isVertical := hasBitSet (push_bit 17 1) flags,
       it_isHorizontal := hasBitSet (push_bit 18 1) flags,
       it_isHangable := hasBitSet (push_bit 16 1) flags,
       it_allowDistRead := hasBitSet (push_bit 20 1) flags,
       it_rotatable := hasBitSet (push_bit 15 1) flags,
       it_canReadText := hasBitSet (push_bit 14 1) flags,
       it_lookThrough := hasBitSet (push_bit 23 1) flags,
       it_forceUse := hasBitSet (push_bit 26 1) flags,
       it_id := l_serverId l,
       it_clientId := l_clientId l,
       it_speed := l_speed l,
       it_lightLevel := l_lightLevel l,
       it_lightColor := l_lightColor l,
       it_wareId := l_wareId l,
       it_alwaysOnTopOrder := l_alwaysOnTopOrder l\<rparr>"

definition grow :: "nat \<Rightarrow> item_type list \<Rightarrow> item_type list" where
  "grow i ts = (if i \<ge> length ts then ts @ replicate (i + 1 - length ts) new_item_type else ts)"

definition load_item_node :: "byte \<Rightarrow> prop_stream option \<Rightarrow> items_table \<Rightarrow> bool \<times> items_table" where
  "load_item_node ty stream t =
     (case stream of
        None \<Rightarrow> (False, t)
      | Some s \<Rightarrow>
          (case read32 s of
             None \<Rightarrow> (False, t)
           | Some (flags, s) \<Rightarrow>
               (case read_item_attrs no_locals s of
                  None \<Rightarrow> (False, t)
                | Some l \<Rightarrow>
                    (let t = t\<lparr>clientIdToServerIdMap := map_emplace (l_clientId l) (l_serverId l) (clientIdToServerIdMap t)\<rparr>;
                         i = unat (l_serverId l);
                         ts = grow i (items t);
                         (ok, iType) = set_group ty (ts ! i)
                     in if ok then (True, t\<lparr>items := ts[i := set_item_fields flags l iType]\<rparr>)
                        else (False, t\<lparr>items := ts[i := iType]\<rparr>)))))"

fun load_item_nodes :: "byte list \<Rightarrow> otb_node list \<Rightarrow> items_table \<Rightarrow> bool \<times> items_table" where
  "load_item_nodes contents [] t = (True, t)"
| "load_item_nodes contents (n # ns) t =
     (case load_item_node (node_type n) (getProps contents n) t of
        (False, t) \<Rightarrow> (False, t)
      | (True, t) \<Rightarrow> load_item_nodes contents ns t)"

text \<open>The properties of the root: flags, and the version if it is there.\<close>

definition load_version :: "prop_stream option \<Rightarrow> items_table \<Rightarrow> bool \<times> items_table" where
  "load_version props t =
     (case props of
        None \<Rightarrow> (True, t)
      | Some s \<Rightarrow>
          (case read32 s of
             None \<Rightarrow> (False, t)
           | Some (flags, s) \<Rightarrow>
               (case read8 s of
                  None \<Rightarrow> (False, t)
                | Some (attr, s) \<Rightarrow>
                    if attr \<noteq> 1 then (True, t)
                    else (case read16 s of
                            None \<Rightarrow> (False, t)
                          | Some (datalen, s) \<Rightarrow>
                              if datalen \<noteq> 140 then (False, t)
                              else if length s < 140 then (False, t)
                              else (True, t\<lparr>majorVersion := le_word (slice 0 4 s),
                                            minorVersion := le_word (slice 4 4 s),
                                            buildNumber := le_word (slice 8 4 s)\<rparr>)))))"

definition CLIENT_VERSION_860_OLD :: u32 where "CLIENT_VERSION_860_OLD = 19"

definition loadFromOtb :: "byte list \<Rightarrow> items_table \<Rightarrow> otb_error + bool \<times> items_table" where
  "loadFromOtb contents t =
     (case loader_open (map of_char ''OTBI'') contents of
        Inl e \<Rightarrow> Inl e
      | Inr contents \<Rightarrow>
          (case parseTree contents of
             Inl e \<Rightarrow> Inl e
           | Inr root \<Rightarrow>
               Inr (case load_version (getProps contents root) t of
                      (False, t) \<Rightarrow> (False, t)
                    | (True, t) \<Rightarrow>
                        if majorVersion t \<noteq> 0xFFFFFFFF \<and> majorVersion t \<noteq> 3 then (False, t)
                        else if majorVersion t \<noteq> 0xFFFFFFFF \<and> minorVersion t < CLIENT_VERSION_860_OLD then (False, t)
                        else load_item_nodes contents (node_children root) t)))"

section \<open>The format\<close>

text \<open>An attribute of an item node, and how a file holds it: its code, its length, its bytes.\<close>

datatype otb_attr =
  ServerId u16 | ClientId u16 | Speed u16 | Light2 u16 u16 | TopOrder byte | WareId u16
  | OtherAttr byte "byte list"

fun attr_bytes :: "otb_attr \<Rightarrow> byte list" where
  "attr_bytes (ServerId v) = 0x10 # le_bytes 2 (2 :: u16) @ le_bytes 2 v"
| "attr_bytes (ClientId v) = 0x11 # le_bytes 2 (2 :: u16) @ le_bytes 2 v"
| "attr_bytes (Speed v) = 0x14 # le_bytes 2 (2 :: u16) @ le_bytes 2 v"
| "attr_bytes (Light2 level color) = 0x2A # le_bytes 2 (4 :: u16) @ le_bytes 2 level @ le_bytes 2 color"
| "attr_bytes (TopOrder v) = 0x2B # le_bytes 2 (1 :: u16) @ le_bytes 1 v"
| "attr_bytes (WareId v) = 0x2D # le_bytes 2 (2 :: u16) @ le_bytes 2 v"
| "attr_bytes (OtherAttr code bs) = code # le_bytes 2 (word_of_nat (length bs) :: u16) @ bs"

fun attr_ok :: "otb_attr \<Rightarrow> bool" where
  "attr_ok (OtherAttr code bs) \<longleftrightarrow> code \<notin> {0x10, 0x11, 0x14, 0x2A, 0x2B, 0x2D} \<and> length bs \<le> 65535"
| "attr_ok _ \<longleftrightarrow> True"

fun apply_attr :: "otb_attr \<Rightarrow> otb_locals \<Rightarrow> otb_locals" where
  "apply_attr (ServerId v) l = l\<lparr>l_serverId := v\<rparr>"
| "apply_attr (ClientId v) l = l\<lparr>l_clientId := v\<rparr>"
| "apply_attr (Speed v) l = l\<lparr>l_speed := v\<rparr>"
| "apply_attr (Light2 level color) l = l\<lparr>l_lightLevel := ucast level, l_lightColor := ucast color\<rparr>"
| "apply_attr (TopOrder v) l = l\<lparr>l_alwaysOnTopOrder := v\<rparr>"
| "apply_attr (WareId v) l = l\<lparr>l_wareId := v\<rparr>"
| "apply_attr (OtherAttr code bs) l = l"

record otb_item =
  o_group :: byte
  o_flags :: u32
  o_attrs :: "otb_attr list"

definition locals_of :: "otb_item \<Rightarrow> otb_locals" where
  "locals_of oi = fold apply_attr (o_attrs oi) no_locals"

definition server_id :: "otb_item \<Rightarrow> nat" where "server_id oi = unat (l_serverId (locals_of oi))"
definition client_id :: "otb_item \<Rightarrow> u16" where "client_id oi = l_clientId (locals_of oi)"

definition type_from :: "otb_item \<Rightarrow> item_type \<Rightarrow> item_type" where
  "type_from oi t = set_item_fields (o_flags oi) (locals_of oi) (snd (set_group (o_group oi) t))"

definition item_ok :: "otb_item \<Rightarrow> bool" where
  "item_ok oi \<longleftrightarrow> list_all attr_ok (o_attrs oi) \<and> fst (set_group (o_group oi) new_item_type)"

definition item_node :: "otb_item \<Rightarrow> otree" where
  "item_node oi = OTree (o_group oi) (le_bytes 4 (o_flags oi) @ concat (map attr_bytes (o_attrs oi))) []"

definition version_props :: "u32 \<Rightarrow> u32 \<Rightarrow> u32 \<Rightarrow> u32 \<Rightarrow> byte list \<Rightarrow> byte list" where
  "version_props flags major minor build csd =
     le_bytes 4 flags @ [1] @ le_bytes 2 (140 :: u16) @ le_bytes 4 major @ le_bytes 4 minor @ le_bytes 4 build @ csd"

section \<open>The loader reads the format\<close>

lemmas read_le = prop_read_le_bytes [where 'w = 8] prop_read_le_bytes [where 'w = 16]
  prop_read_le_bytes [where 'w = 32] prop_read_le_bytes [where 'w = 64]

lemma read8_Cons: "read8 (b # s) = Some (b, s)"
  by (simp add: prop_read_def)

lemma le_bytes_1: "le_bytes (Suc 0) (v :: byte) = [v]"
  by simp

lemma read_item_attr_bytes:
  assumes "attr_ok a"
  shows "\<exists>code len payload. attr_bytes a = code # le_bytes 2 (len :: u16) @ payload \<and>
     read_item_attr code len l (payload @ rest) = Some (apply_attr a l, rest)"
proof (cases a)
  case (OtherAttr code bs)
  then have "unat (word_of_nat (length bs) :: u16) = length bs"
    using assms by (simp add: unat_of_nat take_bit_nat_eq_self_iff)
  with OtherAttr assms show ?thesis
    by (intro exI [of _ code] exI [of _ "word_of_nat (length bs)"] exI [of _ bs])
       (simp add: read_item_attr_def prop_skip_def del: le_bytes.simps)
qed (use read8_Cons in \<open>force simp: read_item_attr_def sized16_def read_le simp del: le_bytes.simps\<close>)+

lemma read_item_attrs_bytes:
  "list_all attr_ok as \<Longrightarrow> read_item_attrs l (concat (map attr_bytes as)) = Some (fold apply_attr as l)"
proof (induction as arbitrary: l)
  case Nil
  show ?case by (subst read_item_attrs.simps) (simp add: prop_read_def)
next
  case (Cons a as)
  from Cons.prems read_item_attr_bytes [of a l "concat (map attr_bytes as)"] obtain code len payload where
    "attr_bytes a = code # le_bytes 2 (len :: u16) @ payload"
    "read_item_attr code len l (payload @ concat (map attr_bytes as)) = Some (apply_attr a l, concat (map attr_bytes as))"
    by auto
  then show ?case using Cons
    by (subst read_item_attrs.simps) (simp add: read8_Cons read_le del: le_bytes.simps One_nat_def)
qed

lemma load_item_node_props:
  assumes "item_ok oi"
  shows "load_item_node (o_group oi) (Some (le_bytes 4 (o_flags oi) @ concat (map attr_bytes (o_attrs oi)))) t =
    (True, t\<lparr>clientIdToServerIdMap := map_emplace (client_id oi) (l_serverId (locals_of oi)) (clientIdToServerIdMap t),
              items := (grow (server_id oi) (items t))[server_id oi := type_from oi (grow (server_id oi) (items t) ! server_id oi)]\<rparr>)"
proof -
  have "fst (set_group (o_group oi) x)" for x
    using assms by (simp add: item_ok_def set_group_def split: if_splits)
  then show ?thesis
    using assms
    by (simp add: load_item_node_def read_le read_item_attrs_bytes item_ok_def client_id_def server_id_def
        locals_of_def type_from_def split_beta Let_def del: le_bytes.simps)
qed

definition add_item :: "otb_item \<Rightarrow> items_table \<Rightarrow> items_table" where
  "add_item oi t = snd (load_item_node (o_group oi)
     (Some (le_bytes 4 (o_flags oi) @ concat (map attr_bytes (o_attrs oi)))) t)"

lemma tree_of_props:
  assumes "tree_of contents n = OTree ty ps cs" and "ps \<noteq> []"
  shows "node_type n = ty" and "getProps contents n = Some ps" and "map (tree_of contents) (node_children n) = cs"
  using assms by (cases n; auto split: option.splits)+

lemma load_item_nodes_layout:
  "map (tree_of contents) ns = map item_node ois \<Longrightarrow> list_all item_ok ois \<Longrightarrow>
   load_item_nodes contents ns t = (True, fold add_item ois t)"
proof (induction ois arbitrary: ns t)
  case Nil
  then show ?case by simp
next
  case (Cons oi ois)
  then obtain n ns' where ns: "ns = n # ns'" and n: "tree_of contents n = item_node oi"
    and ns': "map (tree_of contents) ns' = map item_node ois" by (cases ns) auto
  have "le_bytes 4 (o_flags oi) @ concat (map attr_bytes (o_attrs oi)) \<noteq> []"
    using length_le_bytes [of 4 "o_flags oi"] by (metis append_is_Nil_conv list.size(3) zero_neq_numeral)
  note props = tree_of_props [OF n [unfolded item_node_def] this]
  have "fst (load_item_node (node_type n) (getProps contents n) t)"
    and "snd (load_item_node (node_type n) (getProps contents n) t) = add_item oi t"
    using Cons.prems load_item_node_props [of oi t] by (simp_all add: props add_item_def del: le_bytes.simps)
  then have "load_item_node (node_type n) (getProps contents n) t = (True, add_item oi t)"
    by (metis prod.collapse)
  then show ?case using Cons ns' by (simp add: ns)
qed

text \<open>The table as a function from ids to types, and from client ids to server ids.\<close>

definition type_at :: "items_table \<Rightarrow> nat \<Rightarrow> item_type" where
  "type_at t i = (if i < length (items t) then items t ! i else new_item_type)"

lemma type_at_add_item:
  assumes "item_ok oi"
  shows "type_at (add_item oi t) i = (if i = server_id oi then type_from oi (type_at t i) else type_at t i)"
    and "server_id oi < length (items (add_item oi t))" and "length (items t) \<le> length (items (add_item oi t))"
proof -
  have ts: "items (add_item oi t) = (grow (server_id oi) (items t))[server_id oi := type_from oi (grow (server_id oi) (items t) ! server_id oi)]"
    using load_item_node_props [OF assms, of t] by (simp add: add_item_def)
  have len: "server_id oi < length (grow (server_id oi) (items t))" "length (items t) \<le> length (grow (server_id oi) (items t))"
    by (auto simp: grow_def)
  have nth: "(if k < length (grow j xs) then grow j xs ! k else new_item_type) = (if k < length xs then xs ! k else new_item_type)" for k j xs
    by (auto simp: grow_def nth_append)
  show "type_at (add_item oi t) i = (if i = server_id oi then type_from oi (type_at t i) else type_at t i)"
    using len nth [of i "server_id oi" "items t"] by (auto simp: type_at_def ts)
  show "server_id oi < length (items (add_item oi t))" "length (items t) \<le> length (items (add_item oi t))"
    using len by (simp_all add: ts)
qed

lemma getServerId_emplace:
  "getServerId c (map_emplace c' s vec) = (if c = c' \<and> getServerId c vec = 0 then s else getServerId c vec)"
proof -
  define v where "v = (if unat c' \<ge> length vec then vec @ replicate (unat c' + 1 - length vec) 0 else vec)"
  have len: "unat c' < length v" and v: "getServerId d v = getServerId d vec" for d
    by (auto simp: v_def getServerId_def nth_append)
  have eq: "unat c = unat c' \<longleftrightarrow> c = c'" by (simp add: word_unat_eq_iff)
  have "map_emplace c' s vec = (if v ! unat c' = 0 then v[unat c' := s] else v)"
    by (simp only: map_emplace_def Let_def v_def)
  moreover have "getServerId c (v[unat c' := s]) = (if c = c' then s else getServerId c v)"
    using len eq by (auto simp: getServerId_def nth_list_update)
  moreover have "v ! unat c' = getServerId c' v" using len by (simp add: getServerId_def)
  ultimately show ?thesis by (cases "c = c'") (auto simp: v)
qed

lemma getServerId_add_item:
  assumes "item_ok oi"
  shows "getServerId c (clientIdToServerIdMap (add_item oi t)) =
    (if c = client_id oi \<and> getServerId c (clientIdToServerIdMap t) = 0 then l_serverId (locals_of oi)
     else getServerId c (clientIdToServerIdMap t))"
  using load_item_node_props [OF assms, of t] by (simp add: add_item_def getServerId_emplace)

lemma type_at_fold:
  "list_all item_ok ois \<Longrightarrow> i \<notin> server_id ` set ois \<Longrightarrow> type_at (fold add_item ois t) i = type_at t i"
  by (induction ois arbitrary: t) (auto simp: type_at_add_item)

lemma type_at_fold_in:
  assumes "list_all item_ok ois" and "distinct (map server_id ois)" and "oi \<in> set ois"
  shows "type_at (fold add_item ois t) (server_id oi) = type_from oi (type_at t (server_id oi))"
  using assms
proof (induction ois arbitrary: t)
  case Nil
  then show ?case by simp
next
  case (Cons x xs)
  show ?case
  proof (cases "oi = x")
    case True
    then show ?thesis using Cons.prems type_at_fold [of xs "server_id x" "add_item x t"] by (simp add: type_at_add_item)
  next
    case False
    then have "oi \<in> set xs" using Cons.prems by simp
    then have "server_id oi \<in> server_id ` set xs" by (rule imageI)
    moreover have "server_id x \<notin> server_id ` set xs" using Cons.prems by simp
    ultimately have "server_id oi \<noteq> server_id x" by metis
    then show ?thesis using Cons False by (simp add: type_at_add_item)
  qed
qed

lemma length_fold_add_item:
  "list_all item_ok ois \<Longrightarrow> length (items t) \<le> length (items (fold add_item ois t)) \<and>
   (\<forall>oi\<in>set ois. server_id oi < length (items (fold add_item ois t)))"
proof (induction ois arbitrary: t)
  case Nil
  then show ?case by simp
next
  case (Cons x xs)
  then have "length (items t) \<le> length (items (add_item x t))" "server_id x < length (items (add_item x t))"
    using type_at_add_item(2,3) [of x t] by simp_all
  moreover have "length (items (add_item x t)) \<le> length (items (fold add_item xs (add_item x t)))"
    "\<forall>oi\<in>set xs. server_id oi < length (items (fold add_item xs (add_item x t)))"
    using Cons by simp_all
  ultimately show ?case by simp
qed

lemma getServerId_fold:
  "list_all item_ok ois \<Longrightarrow> c \<notin> client_id ` set ois \<or> getServerId c (clientIdToServerIdMap t) \<noteq> 0 \<Longrightarrow>
   getServerId c (clientIdToServerIdMap (fold add_item ois t)) = getServerId c (clientIdToServerIdMap t)"
  by (induction ois arbitrary: t) (auto simp: getServerId_add_item)

lemma getServerId_fold_in:
  assumes "list_all item_ok ois" and "distinct (map client_id ois)" and "oi \<in> set ois"
    and "getServerId (client_id oi) (clientIdToServerIdMap t) = 0"
  shows "getServerId (client_id oi) (clientIdToServerIdMap (fold add_item ois t)) = l_serverId (locals_of oi)"
  using assms
proof (induction ois arbitrary: t)
  case Nil
  then show ?case by simp
next
  case (Cons x xs)
  show ?case
  proof (cases "oi = x")
    case True
    then show ?thesis
      using Cons.prems getServerId_fold [of xs "client_id x" "add_item x t"] by (simp add: getServerId_add_item)
  next
    case False
    then have "oi \<in> set xs" using Cons.prems by simp
    then have "client_id oi \<in> client_id ` set xs" by (rule imageI)
    moreover have "client_id x \<notin> client_id ` set xs" using Cons.prems by simp
    ultimately have "client_id oi \<noteq> client_id x" by metis
    then show ?thesis using Cons False by (simp add: getServerId_add_item)
  qed
qed

definition new_table :: items_table where
  "new_table = \<lparr>items = [], clientIdToServerIdMap = [], majorVersion = 0, minorVersion = 0, buildNumber = 0\<rparr>"

lemma le_bytes_32: "slice 0 4 (le_bytes 4 (w :: u32) @ xs) = le_bytes 4 w"
  "slice 4 4 (le_bytes 4 (v :: u32) @ le_bytes 4 w @ xs) = le_bytes 4 w"
  "slice 8 4 (le_bytes 4 (u :: u32) @ le_bytes 4 v @ le_bytes 4 w @ xs) = le_bytes 4 w"
  by (simp_all add: slice_def)

lemma load_version_props:
  assumes "length csd = 128"
  shows "load_version (Some (version_props flags major minor build csd)) t =
    (True, t\<lparr>majorVersion := major, minorVersion := minor, buildNumber := build\<rparr>)"
  using assms
  by (simp add: load_version_def version_props_def read_le read8_Cons le_bytes_32 del: le_bytes.simps One_nat_def)



end
