(* ===== verification/Item_Attributes.thy ===== *)
theory Item_Attributes
  imports Item_Types
begin

text \<open>
  The attributes of an item: \<open>itemAttrTypes\<close> of \<open>src/src/enums.h\<close>, the class \<open>ItemAttributes\<close> of
  \<open>item.h\<close> and its members in \<open>item.cpp\<close>. An attribute list and the bit set that says which types
  it holds are kept as the code keeps them; \<open>attr_map\<close> is the function from types to values they
  stand for, on which the other theories rest. An \<open>int64_t\<close> is its 64-bit word. The map of custom
  attributes is a list in the order in which the hash map is iterated, which is any order.
\<close>

section \<open>Types of attributes\<close>

datatype item_attr =
  ITEM_ATTRIBUTE_NONE | ITEM_ATTRIBUTE_ACTIONID | ITEM_ATTRIBUTE_UNIQUEID | ITEM_ATTRIBUTE_DESCRIPTION
  | ITEM_ATTRIBUTE_TEXT | ITEM_ATTRIBUTE_DATE | ITEM_ATTRIBUTE_WRITER | ITEM_ATTRIBUTE_NAME
  | ITEM_ATTRIBUTE_ARTICLE | ITEM_ATTRIBUTE_PLURALNAME | ITEM_ATTRIBUTE_WEIGHT | ITEM_ATTRIBUTE_ATTACK
  | ITEM_ATTRIBUTE_DEFENSE | ITEM_ATTRIBUTE_EXTRADEFENSE | ITEM_ATTRIBUTE_ARMOR | ITEM_ATTRIBUTE_HITCHANCE
  | ITEM_ATTRIBUTE_SHOOTRANGE | ITEM_ATTRIBUTE_OWNER | ITEM_ATTRIBUTE_DURATION | ITEM_ATTRIBUTE_DECAYSTATE
  | ITEM_ATTRIBUTE_CORPSEOWNER | ITEM_ATTRIBUTE_CHARGES | ITEM_ATTRIBUTE_FLUIDTYPE | ITEM_ATTRIBUTE_DOORID
  | ITEM_ATTRIBUTE_DECAYTO | ITEM_ATTRIBUTE_WRAPID | ITEM_ATTRIBUTE_STOREITEM
  | ITEM_ATTRIBUTE_ATTACK_SPEED | ITEM_ATTRIBUTE_CUSTOM

fun attr_bit :: "item_attr \<Rightarrow> u32" where
  "attr_bit ITEM_ATTRIBUTE_NONE = 0"
| "attr_bit ITEM_ATTRIBUTE_ACTIONID = push_bit 0 1"
| "attr_bit ITEM_ATTRIBUTE_UNIQUEID = push_bit 1 1"
| "attr_bit ITEM_ATTRIBUTE_DESCRIPTION = push_bit 2 1"
| "attr_bit ITEM_ATTRIBUTE_TEXT = push_bit 3 1"
| "attr_bit ITEM_ATTRIBUTE_DATE = push_bit 4 1"
| "attr_bit ITEM_ATTRIBUTE_WRITER = push_bit 5 1"
| "attr_bit ITEM_ATTRIBUTE_NAME = push_bit 6 1"
| "attr_bit ITEM_ATTRIBUTE_ARTICLE = push_bit 7 1"
| "attr_bit ITEM_ATTRIBUTE_PLURALNAME = push_bit 8 1"
| "attr_bit ITEM_ATTRIBUTE_WEIGHT = push_bit 9 1"
| "attr_bit ITEM_ATTRIBUTE_ATTACK = push_bit 10 1"
| "attr_bit ITEM_ATTRIBUTE_DEFENSE = push_bit 11 1"
| "attr_bit ITEM_ATTRIBUTE_EXTRADEFENSE = push_bit 12 1"
| "attr_bit ITEM_ATTRIBUTE_ARMOR = push_bit 13 1"
| "attr_bit ITEM_ATTRIBUTE_HITCHANCE = push_bit 14 1"
| "attr_bit ITEM_ATTRIBUTE_SHOOTRANGE = push_bit 15 1"
| "attr_bit ITEM_ATTRIBUTE_OWNER = push_bit 16 1"
| "attr_bit ITEM_ATTRIBUTE_DURATION = push_bit 17 1"
| "attr_bit ITEM_ATTRIBUTE_DECAYSTATE = push_bit 18 1"
| "attr_bit ITEM_ATTRIBUTE_CORPSEOWNER = push_bit 19 1"
| "attr_bit ITEM_ATTRIBUTE_CHARGES = push_bit 20 1"
| "attr_bit ITEM_ATTRIBUTE_FLUIDTYPE = push_bit 21 1"
| "attr_bit ITEM_ATTRIBUTE_DOORID = push_bit 22 1"
| "attr_bit ITEM_ATTRIBUTE_DECAYTO = push_bit 23 1"
| "attr_bit ITEM_ATTRIBUTE_WRAPID = push_bit 24 1"
| "attr_bit ITEM_ATTRIBUTE_STOREITEM = push_bit 25 1"
| "attr_bit ITEM_ATTRIBUTE_ATTACK_SPEED = push_bit 26 1"
| "attr_bit ITEM_ATTRIBUTE_CUSTOM = push_bit 31 1"

definition intAttributeTypes :: u32 where
  "intAttributeTypes = foldr (OR) (map attr_bit
     [ITEM_ATTRIBUTE_ACTIONID, ITEM_ATTRIBUTE_UNIQUEID, ITEM_ATTRIBUTE_DATE, ITEM_ATTRIBUTE_WEIGHT,
      ITEM_ATTRIBUTE_ATTACK, ITEM_ATTRIBUTE_DEFENSE, ITEM_ATTRIBUTE_EXTRADEFENSE, ITEM_ATTRIBUTE_ARMOR,
      ITEM_ATTRIBUTE_HITCHANCE, ITEM_ATTRIBUTE_SHOOTRANGE, ITEM_ATTRIBUTE_OWNER, ITEM_ATTRIBUTE_DURATION,
      ITEM_ATTRIBUTE_DECAYSTATE, ITEM_ATTRIBUTE_CORPSEOWNER, ITEM_ATTRIBUTE_CHARGES, ITEM_ATTRIBUTE_FLUIDTYPE,
      ITEM_ATTRIBUTE_DOORID, ITEM_ATTRIBUTE_DECAYTO, ITEM_ATTRIBUTE_ATTACK_SPEED]) 0"

definition stringAttributeTypes :: u32 where
  "stringAttributeTypes = foldr (OR) (map attr_bit
     [ITEM_ATTRIBUTE_DESCRIPTION, ITEM_ATTRIBUTE_TEXT, ITEM_ATTRIBUTE_WRITER, ITEM_ATTRIBUTE_NAME,
      ITEM_ATTRIBUTE_ARTICLE, ITEM_ATTRIBUTE_PLURALNAME]) 0"

definition isIntAttrType :: "item_attr \<Rightarrow> bool" where
  "isIntAttrType t \<longleftrightarrow> attr_bit t AND intAttributeTypes = attr_bit t"

definition isStrAttrType :: "item_attr \<Rightarrow> bool" where
  "isStrAttrType t \<longleftrightarrow> attr_bit t AND stringAttributeTypes = attr_bit t"

definition isCustomAttrType :: "item_attr \<Rightarrow> bool" where
  "isCustomAttrType t \<longleftrightarrow> attr_bit t AND attr_bit ITEM_ATTRIBUTE_CUSTOM = attr_bit t"

section \<open>Values\<close>

text \<open>The variants of a custom attribute in their order; a \<open>double\<close> is its 64 bits.\<close>

datatype custom_value = CBlank | CString cstring | CInt u64 | CDouble u64 | CBool bool

type_synonym custom_map = "(cstring \<times> custom_value) list"

datatype attr_value = VInt u64 | VString cstring | VCustom custom_map

record item_attributes =
  attributes :: "(item_attr \<times> attr_value) list"
  attributeBits :: u32

definition no_attributes :: item_attributes where
  "no_attributes = \<lparr>attributes = [], attributeBits = 0\<rparr>"

definition hasAttribute :: "item_attr \<Rightarrow> item_attributes \<Rightarrow> bool" where
  "hasAttribute t a \<longleftrightarrow> attr_bit t AND attributeBits a \<noteq> 0"

definition getExistingAttr :: "item_attr \<Rightarrow> item_attributes \<Rightarrow> attr_value option" where
  "getExistingAttr t a =
     (if hasAttribute t a then map_option snd (find (\<lambda>(u, v). u = t) (attributes a)) else None)"

fun assign_first :: "item_attr \<Rightarrow> attr_value \<Rightarrow> (item_attr \<times> attr_value) list \<Rightarrow> (item_attr \<times> attr_value) list option" where
  "assign_first t v [] = None"
| "assign_first t v ((u, w) # as) =
     (if u = t then Some ((u, v) # as) else map_option ((#) (u, w)) (assign_first t v as))"

text \<open>An assignment to the value of \<open>getAttr(type)\<close>, which adds the attribute if it is not there.\<close>

definition set_attr :: "item_attr \<Rightarrow> attr_value \<Rightarrow> item_attributes \<Rightarrow> item_attributes" where
  "set_attr t v a =
     (case (if hasAttribute t a then assign_first t v (attributes a) else None) of
        Some as \<Rightarrow> a\<lparr>attributes := as\<rparr>
      | None \<Rightarrow> a\<lparr>attributeBits := attributeBits a OR attr_bit t, attributes := attributes a @ [(t, v)]\<rparr>)"

definition getStrAttr :: "item_attr \<Rightarrow> item_attributes \<Rightarrow> cstring" where
  "getStrAttr t a =
     (if \<not> isStrAttrType t then []
      else case getExistingAttr t a of Some (VString s) \<Rightarrow> s | _ \<Rightarrow> [])"

definition setStrAttr :: "item_attr \<Rightarrow> cstring \<Rightarrow> item_attributes \<Rightarrow> item_attributes" where
  "setStrAttr t s a =
     (if \<not> isStrAttrType t then a
      else if s = [] then a
      else set_attr t (VString s) a)"

definition getIntAttr :: "item_attr \<Rightarrow> item_attributes \<Rightarrow> u64" where
  "getIntAttr t a =
     (if \<not> isIntAttrType t then 0
      else case getExistingAttr t a of Some (VInt n) \<Rightarrow> n | _ \<Rightarrow> 0)"

definition setIntAttr :: "item_attr \<Rightarrow> u64 \<Rightarrow> item_attributes \<Rightarrow> item_attributes" where
  "setIntAttr t n a =
     (if \<not> isIntAttrType t then a
      else let n = (if t = ITEM_ATTRIBUTE_ATTACK_SPEED \<and> sint n < 100 then 100 else n)
           in set_attr t (VInt n) a)"

definition increaseIntAttr :: "item_attr \<Rightarrow> u64 \<Rightarrow> item_attributes \<Rightarrow> item_attributes" where
  "increaseIntAttr t n a = setIntAttr t (getIntAttr t a + n) a"

text \<open>
  \<open>removeAttribute\<close>: the last attribute takes the place of the one removed. The code searches from
  the back, so of several attributes of one type the last one goes.
\<close>

definition removeAttribute :: "item_attr \<Rightarrow> item_attributes \<Rightarrow> item_attributes" where
  "removeAttribute t a =
     (if \<not> hasAttribute t a then a
      else
        let as = attributes a;
            a = a\<lparr>attributeBits := attributeBits a AND NOT (attr_bit t)\<rparr>
        in if fst (last as) = t then a\<lparr>attributes := butlast as\<rparr>
           else let before = length (dropWhile (\<lambda>(u, v). u \<noteq> t) (rev as))
                in if before = 0 then a else a\<lparr>attributes := butlast (as[before - 1 := last as])\<rparr>)"

section \<open>Custom attributes\<close>

definition lower_byte :: "byte \<Rightarrow> byte" where
  "lower_byte b = (if 65 \<le> b \<and> b \<le> 90 then b + 32 else b)"

definition toLowerCaseString :: "cstring \<Rightarrow> cstring" where
  "toLowerCaseString s = map lower_byte s"

definition getCustomAttributeMap :: "item_attributes \<Rightarrow> custom_map option" where
  "getCustomAttributeMap a =
     (if \<not> hasAttribute ITEM_ATTRIBUTE_CUSTOM a then None
      else case getExistingAttr ITEM_ATTRIBUTE_CUSTOM a of Some (VCustom m) \<Rightarrow> Some m | _ \<Rightarrow> None)"

definition removeCustomAttribute :: "cstring \<Rightarrow> item_attributes \<Rightarrow> bool \<times> item_attributes" where
  "removeCustomAttribute key a =
     (case getCustomAttributeMap a of
        None \<Rightarrow> (False, a)
      | Some m \<Rightarrow>
          (let k = toLowerCaseString key
           in if map_of m k = None then (False, a)
              else (True, set_attr ITEM_ATTRIBUTE_CUSTOM (VCustom (filter (\<lambda>(k', v). k' \<noteq> k) m)) a)))"

text \<open>\<open>insert\<close> and \<open>emplace\<close> leave the key alone if it is there; here it has just been removed.\<close>

definition setCustomAttribute :: "cstring \<Rightarrow> custom_value \<Rightarrow> item_attributes \<Rightarrow> item_attributes" where
  "setCustomAttribute key v a =
     (let key = toLowerCaseString key;
          a = (if hasAttribute ITEM_ATTRIBUTE_CUSTOM a then snd (removeCustomAttribute key a)
               else set_attr ITEM_ATTRIBUTE_CUSTOM (VCustom []) a);
          m = (case getCustomAttributeMap a of None \<Rightarrow> [] | Some m \<Rightarrow> m)
      in set_attr ITEM_ATTRIBUTE_CUSTOM (VCustom (if map_of m key = None then m @ [(key, v)] else m)) a)"

definition getCustomAttribute :: "cstring \<Rightarrow> item_attributes \<Rightarrow> custom_value option" where
  "getCustomAttribute key a =
     (case getCustomAttributeMap a of None \<Rightarrow> None | Some m \<Rightarrow> map_of m (toLowerCaseString key))"

fun which :: "custom_value \<Rightarrow> byte" where
  "which CBlank = 0"
| "which (CString s) = 1"
| "which (CInt n) = 2"
| "which (CDouble d) = 3"
| "which (CBool b) = 4"

fun visit_serialize :: "custom_value \<Rightarrow> byte list \<Rightarrow> byte list" where
  "visit_serialize CBlank buf = buf"
| "visit_serialize (CString s) buf = prop_writeString s buf"
| "visit_serialize (CInt n) buf = prop_write 8 n buf"
| "visit_serialize (CDouble d) buf = prop_write 8 d buf"
| "visit_serialize (CBool b) buf = prop_write 1 (of_bool b :: byte) buf"

definition custom_serialize :: "custom_value \<Rightarrow> byte list \<Rightarrow> byte list" where
  "custom_serialize v buf = visit_serialize v (prop_write 1 (which v) buf)"

definition custom_unserialize :: "prop_stream \<Rightarrow> (custom_value \<times> prop_stream) option" where
  "custom_unserialize s =
     (case read8 s of
        None \<Rightarrow> None
      | Some (pos, s) \<Rightarrow>
          if pos = 1 then map_option (apfst CString) (prop_readString s)
          else if pos = 2 then map_option (apfst CInt) (read64 s)
          else if pos = 3 then map_option (apfst CDouble) (read64 s)
          else if pos = 4 then map_option (apfst (\<lambda>b. CBool (b \<noteq> 0))) (read8 s)
          else None)"

section \<open>Bits\<close>

fun attr_index :: "item_attr \<Rightarrow> nat" where
  "attr_index ITEM_ATTRIBUTE_NONE = 32"
| "attr_index ITEM_ATTRIBUTE_ACTIONID = 0"
| "attr_index ITEM_ATTRIBUTE_UNIQUEID = 1"
| "attr_index ITEM_ATTRIBUTE_DESCRIPTION = 2"
| "attr_index ITEM_ATTRIBUTE_TEXT = 3"
| "attr_index ITEM_ATTRIBUTE_DATE = 4"
| "attr_index ITEM_ATTRIBUTE_WRITER = 5"
| "attr_index ITEM_ATTRIBUTE_NAME = 6"
| "attr_index ITEM_ATTRIBUTE_ARTICLE = 7"
| "attr_index ITEM_ATTRIBUTE_PLURALNAME = 8"
| "attr_index ITEM_ATTRIBUTE_WEIGHT = 9"
| "attr_index ITEM_ATTRIBUTE_ATTACK = 10"
| "attr_index ITEM_ATTRIBUTE_DEFENSE = 11"
| "attr_index ITEM_ATTRIBUTE_EXTRADEFENSE = 12"
| "attr_index ITEM_ATTRIBUTE_ARMOR = 13"
| "attr_index ITEM_ATTRIBUTE_HITCHANCE = 14"
| "attr_index ITEM_ATTRIBUTE_SHOOTRANGE = 15"
| "attr_index ITEM_ATTRIBUTE_OWNER = 16"
| "attr_index ITEM_ATTRIBUTE_DURATION = 17"
| "attr_index ITEM_ATTRIBUTE_DECAYSTATE = 18"
| "attr_index ITEM_ATTRIBUTE_CORPSEOWNER = 19"
| "attr_index ITEM_ATTRIBUTE_CHARGES = 20"
| "attr_index ITEM_ATTRIBUTE_FLUIDTYPE = 21"
| "attr_index ITEM_ATTRIBUTE_DOORID = 22"
| "attr_index ITEM_ATTRIBUTE_DECAYTO = 23"
| "attr_index ITEM_ATTRIBUTE_WRAPID = 24"
| "attr_index ITEM_ATTRIBUTE_STOREITEM = 25"
| "attr_index ITEM_ATTRIBUTE_ATTACK_SPEED = 26"
| "attr_index ITEM_ATTRIBUTE_CUSTOM = 31"

lemma attr_index_inj: "attr_index t = attr_index u \<Longrightarrow> t = u"
  by (cases t; cases u; simp)

lemma attr_bit_index: "attr_bit t = push_bit (attr_index t) 1"
  by (cases t; simp)

lemma bit_attr_bit: "bit (attr_bit t) n \<longleftrightarrow> t \<noteq> ITEM_ATTRIBUTE_NONE \<and> n = attr_index t"
proof -
  have "attr_index t < 32 \<longleftrightarrow> t \<noteq> ITEM_ATTRIBUTE_NONE" by (cases t) simp_all
  then show ?thesis by (auto simp: attr_bit_index bit_push_bit_iff bit_1_iff simp del: push_bit_of_1 attr_bit.simps)
qed

lemma hasAttribute_bit:
  "hasAttribute t a \<longleftrightarrow> t \<noteq> ITEM_ATTRIBUTE_NONE \<and> bit (attributeBits a) (attr_index t)"
proof -
  have "attr_bit t AND attributeBits a = 0 \<longleftrightarrow> (\<forall>n. \<not> (bit (attr_bit t) n \<and> bit (attributeBits a) n))"
    using bit_imp_le_length [of "attributeBits a"] by (auto simp: bit_eq_iff bit_and_iff)
  then show ?thesis by (auto simp: hasAttribute_def bit_attr_bit)
qed

lemma hasAttribute_or:
  "hasAttribute t (a\<lparr>attributeBits := attributeBits a OR attr_bit u\<rparr>) \<longleftrightarrow>
     t = u \<and> u \<noteq> ITEM_ATTRIBUTE_NONE \<or> hasAttribute t a"
  using attr_index_inj [of t u] by (auto simp: hasAttribute_bit bit_or_iff bit_attr_bit)

lemma hasAttribute_and_not:
  "hasAttribute t (a\<lparr>attributeBits := attributeBits a AND NOT (attr_bit u)\<rparr>) \<longleftrightarrow>
     t \<noteq> u \<and> hasAttribute t a"
  using attr_index_inj [of t u] bit_imp_le_length [of "attributeBits a"]
  by (auto simp: hasAttribute_bit bit_and_iff bit_not_iff bit_attr_bit)

lemma hasAttribute_attributes [simp]: "hasAttribute t (a\<lparr>attributes := as\<rparr>) = hasAttribute t a"
  by (simp add: hasAttribute_def)

section \<open>The store of attributes as a map\<close>

text \<open>
  What the code relies on: one attribute of a type at most, its bit set exactly then, and no other
  bit.
\<close>

definition attrs_ok :: "item_attributes \<Rightarrow> bool" where
  "attrs_ok a \<longleftrightarrow>
     distinct (map fst (attributes a)) \<and> (\<forall>t. hasAttribute t a \<longleftrightarrow> t \<in> fst ` set (attributes a)) \<and>
     (\<forall>n. bit (attributeBits a) n \<longrightarrow> n \<in> range attr_index)"

definition attr_map :: "item_attributes \<Rightarrow> item_attr \<Rightarrow> attr_value option" where
  "attr_map a = map_of (attributes a)"

lemma find_map_of: "map_option snd (find (\<lambda>(u, v). u = t) as) = map_of as t"
  by (induction as) auto

lemma getExistingAttr_map: "attrs_ok a \<Longrightarrow> getExistingAttr t a = attr_map a t"
  by (simp add: getExistingAttr_def attr_map_def find_map_of attrs_ok_def)
     (metis map_of_eq_None_iff)

lemma has_attr_map: "attrs_ok a \<Longrightarrow> hasAttribute t a \<longleftrightarrow> attr_map a t \<noteq> None"
  by (auto simp: attr_map_def attrs_ok_def map_of_eq_None_iff simp del: not_None_eq)

lemma assign_first_None: "assign_first t v as = None \<longleftrightarrow> t \<notin> fst ` set as"
  by (induction as) (auto split: if_splits)

lemma assign_first_Some:
  "assign_first t v as = Some bs \<Longrightarrow> map fst bs = map fst as \<and> map_of bs = (map_of as)(t \<mapsto> v)"
  by (induction as arbitrary: bs) (auto split: if_splits intro!: ext)

lemma no_attributes_ok: "attrs_ok no_attributes" "attr_map no_attributes = Map.empty"
  by (simp_all add: attrs_ok_def no_attributes_def hasAttribute_def attr_map_def)

lemma set_attr_store:
  assumes "attrs_ok a" and "t \<noteq> ITEM_ATTRIBUTE_NONE"
  shows "attrs_ok (set_attr t v a)" and "attr_map (set_attr t v a) = (attr_map a)(t \<mapsto> v)"
proof -
  have "attrs_ok (set_attr t v a) \<and> attr_map (set_attr t v a) = (attr_map a)(t \<mapsto> v)"
  proof (cases "hasAttribute t a")
    case True
    then have "t \<in> fst ` set (attributes a)" using assms(1) by (simp add: attrs_ok_def)
    then obtain as where as: "assign_first t v (attributes a) = Some as"
      using assign_first_None [of t v "attributes a"] by (cases "assign_first t v (attributes a)") auto
    from assign_first_Some [OF this] have fst_eq: "map fst as = map fst (attributes a)"
      and "map_of as = (map_of (attributes a))(t \<mapsto> v)" by auto
    moreover have "fst ` set as = fst ` set (attributes a)" using fst_eq by (metis set_map)
    ultimately show ?thesis using assms(1) True as by (simp add: set_attr_def attrs_ok_def attr_map_def)
  next
    case False
    then have new: "t \<notin> fst ` set (attributes a)" using assms(1) by (simp add: attrs_ok_def)
    then have "map_of (attributes a) t = None" by (simp add: map_of_eq_None_iff)
    then have "map_of (attributes a @ [(t, v)]) = (map_of (attributes a))(t \<mapsto> v)"
      by (auto simp: map_add_def fun_eq_iff split: option.splits)
    then show ?thesis using assms False new
      by (auto simp: set_attr_def attrs_ok_def attr_map_def hasAttribute_or bit_or_iff bit_attr_bit)
  qed
  then show "attrs_ok (set_attr t v a)" and "attr_map (set_attr t v a) = (attr_map a)(t \<mapsto> v)" by auto
qed

lemma remove_last:
  assumes "distinct (map fst (xs @ [(t, v)]))"
  shows "map_of xs = (map_of (xs @ [(t, v)]))(t := None)"
proof
  fix u
  have "map_of xs t = None" using assms by (simp add: map_of_eq_None_iff)
  then show "map_of xs u = ((map_of (xs @ [(t, v)]))(t := None)) u"
    by (auto simp: map_add_def split: option.splits)
qed

lemma remove_swap:
  assumes "distinct (map fst (xs @ (t, v) # ys @ [(u, w)]))"
  shows "map_of (xs @ (u, w) # ys) = (map_of (xs @ (t, v) # ys @ [(u, w)]))(t := None)"
    and "distinct (map fst (xs @ (u, w) # ys))"
    and "fst ` set (xs @ (u, w) # ys) = fst ` set (xs @ (t, v) # ys @ [(u, w)]) - {t}"
proof -
  show "distinct (map fst (xs @ (u, w) # ys))" using assms by auto
  show "fst ` set (xs @ (u, w) # ys) = fst ` set (xs @ (t, v) # ys @ [(u, w)]) - {t}" using assms by auto
  show "map_of (xs @ (u, w) # ys) = (map_of (xs @ (t, v) # ys @ [(u, w)]))(t := None)"
  proof
    fix k
    have "map_of xs t = None" "map_of xs u = None" "map_of ys t = None" "map_of ys u = None" "u \<noteq> t"
      using assms by (auto simp: map_of_eq_None_iff)
    then show "map_of (xs @ (u, w) # ys) k = ((map_of (xs @ (t, v) # ys @ [(u, w)]))(t := None)) k"
      by (auto simp: map_add_def split: option.splits)
  qed
qed

lemma removeAttribute_store:
  assumes ok: "attrs_ok a"
  shows "attrs_ok (removeAttribute t a)" and "attr_map (removeAttribute t a) = (attr_map a)(t := None)"
proof -
  have "attrs_ok (removeAttribute t a) \<and> attr_map (removeAttribute t a) = (attr_map a)(t := None)"
  proof (cases "hasAttribute t a")
    case False
    then have "attr_map a t = None" using has_attr_map [OF ok] by simp
    with False ok show ?thesis by (simp add: removeAttribute_def fun_upd_idem)
  next
    case True
    define as where "as = attributes a"
    have dist: "distinct (map fst as)" and has: "hasAttribute u a \<longleftrightarrow> u \<in> fst ` set as" for u
      using ok by (simp_all add: attrs_ok_def as_def)
    have bits: "bit (attributeBits a) n \<Longrightarrow> n \<in> range attr_index" for n using ok by (simp add: attrs_ok_def)
    from True has obtain v where "(t, v) \<in> set as" by auto
    then obtain xs ys where as: "as = xs @ (t, v) # ys" by (meson split_list)
    show ?thesis
    proof (cases ys rule: rev_cases)
      case Nil
      have "removeAttribute t a = a\<lparr>attributeBits := attributeBits a AND NOT (attr_bit t), attributes := xs\<rparr>"
        using True by (simp add: removeAttribute_def Let_def as_def [symmetric] as Nil)
      then show ?thesis
        using dist remove_last [of xs t v]
        by (auto simp: attrs_ok_def attr_map_def hasAttribute_and_not has as_def [symmetric] as Nil bit_and_iff bits)
    next
      case (snoc zs l)
      obtain u w where l: "l = (u, w)" by (cases l)
      have ne: "u \<noteq> t" and zs: "\<forall>x\<in>set zs. fst x \<noteq> t" using dist by (auto simp: as snoc l)
      have "dropWhile (\<lambda>(u, v). u \<noteq> t) (rev zs @ (t, v) # rev xs) = (t, v) # rev xs"
        using zs by (subst dropWhile_append2) auto
      then have before: "length (dropWhile (\<lambda>(u, v). u \<noteq> t) (rev as)) = Suc (length xs)"
        using ne by (simp add: as snoc l)
      have "butlast (as[length xs := (u, w)]) = xs @ (u, w) # zs"
        by (simp add: as snoc l butlast_append)
      then have "removeAttribute t a = a\<lparr>attributeBits := attributeBits a AND NOT (attr_bit t), attributes := xs @ (u, w) # zs\<rparr>"
        using True before ne by (simp add: removeAttribute_def Let_def as_def [symmetric]) (simp add: as snoc l)
      moreover note remove_swap [of xs t v zs u w] dist
      ultimately show ?thesis
        by (simp add: attrs_ok_def attr_map_def hasAttribute_and_not has as_def [symmetric] as snoc l bit_and_iff bits) blast
    qed
  qed
  then show "attrs_ok (removeAttribute t a)" and "attr_map (removeAttribute t a) = (attr_map a)(t := None)" by auto
qed

text \<open>
  The contract of a keyed store, as the items use it, and what follows from it for a run of updates.
\<close>

locale keyed_store =
  fixes lookup :: "'s \<Rightarrow> 'k \<Rightarrow> 'v option"
    and update :: "'k \<Rightarrow> 'v \<Rightarrow> 's \<Rightarrow> 's"
    and delete :: "'k \<Rightarrow> 's \<Rightarrow> 's"
    and invar :: "'s \<Rightarrow> bool"
    and key_ok :: "'k \<Rightarrow> bool"
  assumes invar_update: "invar s \<Longrightarrow> key_ok k \<Longrightarrow> invar (update k v s)"
    and lookup_update: "invar s \<Longrightarrow> key_ok k \<Longrightarrow> lookup (update k v s) = (lookup s)(k \<mapsto> v)"
    and invar_delete: "invar s \<Longrightarrow> invar (delete k s)"
    and lookup_delete: "invar s \<Longrightarrow> lookup (delete k s) = (lookup s)(k := None)"
begin

definition updates :: "('k \<times> 'v) list \<Rightarrow> 's \<Rightarrow> 's" where
  "updates kvs s = fold (\<lambda>(k, v). update k v) kvs s"

lemma updates_store:
  "invar s \<Longrightarrow> list_all (\<lambda>(k, v). key_ok k) kvs \<Longrightarrow>
   invar (updates kvs s) \<and> lookup (updates kvs s) = lookup s ++ map_of (rev kvs)"
proof (induction kvs arbitrary: s)
  case Nil
  then show ?case by (simp add: updates_def)
next
  case (Cons kv kvs)
  obtain k v where kv: "kv = (k, v)" by (cases kv)
  have "invar (update k v s)" "lookup (update k v s) = (lookup s)(k \<mapsto> v)"
    using Cons.prems by (auto simp: kv invar_update lookup_update)
  with Cons show ?case by (simp add: updates_def kv map_add_assoc map_add_upd_left)
qed

end

interpretation attr_store: keyed_store attr_map set_attr removeAttribute attrs_ok "\<lambda>t. t \<noteq> ITEM_ATTRIBUTE_NONE"
  by unfold_locales (auto simp: set_attr_store removeAttribute_store)

section \<open>The accessors on the map\<close>

lemma getIntAttr_map:
  "attrs_ok a \<Longrightarrow> getIntAttr t a = (if isIntAttrType t then case attr_map a t of Some (VInt n) \<Rightarrow> n | _ \<Rightarrow> 0 else 0)"
  by (simp add: getIntAttr_def getExistingAttr_map)

lemma getStrAttr_map:
  "attrs_ok a \<Longrightarrow> getStrAttr t a = (if isStrAttrType t then case attr_map a t of Some (VString s) \<Rightarrow> s | _ \<Rightarrow> [] else [])"
  by (simp add: getStrAttr_def getExistingAttr_map)

section \<open>Custom values on a stream\<close>

text \<open>
  A value is read back as it was written, but a blank one, which the writer writes and the reader
  refuses, and a string too long for a property stream.
\<close>

fun custom_ok :: "custom_value \<Rightarrow> bool" where
  "custom_ok CBlank \<longleftrightarrow> False"
| "custom_ok (CString s) \<longleftrightarrow> length s \<le> 65535"
| "custom_ok _ \<longleftrightarrow> True"

interpretation custom_codec: prop_codec custom_serialize custom_unserialize custom_ok
proof (unfold_locales, goal_cases)
  case (1 v buf)
  show ?case
    by (cases v) (simp_all add: custom_serialize_def prop_write_def prop_writeString_def del: le_bytes.simps One_nat_def)
next
  case (2 v rest)
  then show ?case
  proof (cases v)
    case (CString s)
    then have s: "length s \<le> 65535" using 2 by simp
    have "custom_serialize v [] = 1 # prop_writeString s []"
      using CString string_prop.write_appends [of s "[1]"] by (simp add: custom_serialize_def prop_write_def)
    then show ?thesis
      using CString string_prop.read_written [OF s, of rest]
      by (simp add: custom_unserialize_def read8_Cons del: One_nat_def)
  qed (auto simp: custom_serialize_def custom_unserialize_def prop_write_def read8_Cons read_le
      simp del: One_nat_def le_bytes.simps)
qed

text \<open>The bit sets of two lists are the same when they hold attributes of the same types.\<close>

lemma attributeBits_eq:
  assumes "attrs_ok a" and "attrs_ok b"
  shows "attributeBits a = attributeBits b \<longleftrightarrow> (\<forall>t. attr_map a t = None \<longleftrightarrow> attr_map b t = None)"
proof
  assume "attributeBits a = attributeBits b"
  then have "hasAttribute t a = hasAttribute t b" for t by (simp add: hasAttribute_def)
  then show "\<forall>t. attr_map a t = None \<longleftrightarrow> attr_map b t = None"
    using assms by (metis has_attr_map)
next
  assume "\<forall>t. attr_map a t = None \<longleftrightarrow> attr_map b t = None"
  then have has: "hasAttribute t a = hasAttribute t b" for t
    using has_attr_map [OF assms(1)] has_attr_map [OF assms(2)] by auto
  show "attributeBits a = attributeBits b"
  proof (rule bit_eqI)
    fix n
    assume n: "possible_bit TYPE(32 word) n"
    show "bit (attributeBits a) n = bit (attributeBits b) n"
    proof (cases "n \<in> range attr_index")
      case True
      then obtain t where t: "n = attr_index t" by blast
      with n have "t \<noteq> ITEM_ATTRIBUTE_NONE" by auto
      with has [of t] show ?thesis by (simp add: hasAttribute_bit t)
    next
      case False
      then show ?thesis using assms by (auto simp: attrs_ok_def)
    qed
  qed
qed

lemma attributeBits_0: "attrs_ok a \<Longrightarrow> attributeBits a = 0 \<longleftrightarrow> attr_map a = Map.empty"
  using attributeBits_eq [of a no_attributes] no_attributes_ok by (auto simp: no_attributes_def)

end
