(* ===== verification/Item.thy ===== *)
theory Item
  imports Item_Attributes
begin

text \<open>
  Items: the class \<open>Item\<close> of \<open>src/src/item.h\<close> and \<open>item.cpp\<close>, without its links to the map and the
  subclasses' own overrides. \<open>Item::items\<close> is the table the loader fills; the set of unique ids of the
  game goes with an item while it is read.
\<close>

record item =
  i_id :: u16
  i_count :: byte
  i_attributes :: "item_attributes option"
  i_loadedFromMap :: bool

text \<open>\<open>Item::items[id]\<close>; the vector is not empty once it has been loaded.\<close>

definition items_at :: "items_table \<Rightarrow> u16 \<Rightarrow> item_type" where
  "items_at T i = (case getItemType (unat i) T of None \<Rightarrow> new_item_type | Some t \<Rightarrow> t)"

abbreviation type_of :: "items_table \<Rightarrow> item \<Rightarrow> item_type" where
  "type_of T i \<equiv> items_at T (i_id i)"

section \<open>Attributes of an item\<close>

definition getAttributes :: "item \<Rightarrow> item_attributes" where
  "getAttributes i = (case i_attributes i of None \<Rightarrow> no_attributes | Some a \<Rightarrow> a)"

definition with_attributes :: "(item_attributes \<Rightarrow> item_attributes) \<Rightarrow> item \<Rightarrow> item" where
  "with_attributes f i = i\<lparr>i_attributes := Some (f (getAttributes i))\<rparr>"

definition item_getStrAttr :: "item_attr \<Rightarrow> item \<Rightarrow> cstring" where
  "item_getStrAttr t i = (case i_attributes i of None \<Rightarrow> [] | Some a \<Rightarrow> getStrAttr t a)"

definition item_setStrAttr :: "item_attr \<Rightarrow> cstring \<Rightarrow> item \<Rightarrow> item" where
  "item_setStrAttr t s = with_attributes (setStrAttr t s)"

definition item_getIntAttr :: "item_attr \<Rightarrow> item \<Rightarrow> u64" where
  "item_getIntAttr t i = (case i_attributes i of None \<Rightarrow> 0 | Some a \<Rightarrow> getIntAttr t a)"

definition item_setIntAttr :: "item_attr \<Rightarrow> u64 \<Rightarrow> item \<Rightarrow> item" where
  "item_setIntAttr t n = with_attributes (setIntAttr t n)"

definition item_increaseIntAttr :: "item_attr \<Rightarrow> u64 \<Rightarrow> item \<Rightarrow> item" where
  "item_increaseIntAttr t n = with_attributes (increaseIntAttr t n)"

definition item_removeAttribute :: "item_attr \<Rightarrow> item \<Rightarrow> item" where
  "item_removeAttribute t i =
     (case i_attributes i of None \<Rightarrow> i | Some a \<Rightarrow> i\<lparr>i_attributes := Some (removeAttribute t a)\<rparr>)"

definition item_hasAttribute :: "item_attr \<Rightarrow> item \<Rightarrow> bool" where
  "item_hasAttribute t i = (case i_attributes i of None \<Rightarrow> False | Some a \<Rightarrow> hasAttribute t a)"

definition item_setCustomAttribute :: "cstring \<Rightarrow> custom_value \<Rightarrow> item \<Rightarrow> item" where
  "item_setCustomAttribute key v = with_attributes (setCustomAttribute key v)"

definition item_getCustomAttribute :: "cstring \<Rightarrow> item \<Rightarrow> custom_value option" where
  "item_getCustomAttribute key i = (case i_attributes i of None \<Rightarrow> None | Some a \<Rightarrow> getCustomAttribute key a)"

definition item_removeCustomAttribute :: "cstring \<Rightarrow> item \<Rightarrow> bool \<times> item" where
  "item_removeCustomAttribute key i =
     (case i_attributes i of None \<Rightarrow> (False, i)
      | Some a \<Rightarrow> (let (r, a) = removeCustomAttribute key a in (r, i\<lparr>i_attributes := Some a\<rparr>)))"

section \<open>Named accessors\<close>

text \<open>An \<open>int32_t\<close> argument is extended with its sign, an unsigned one with zeros.\<close>

definition setSpecialDescription :: "cstring \<Rightarrow> item \<Rightarrow> item" where
  "setSpecialDescription s = item_setStrAttr ITEM_ATTRIBUTE_DESCRIPTION s"
definition getSpecialDescription :: "item \<Rightarrow> cstring" where
  "getSpecialDescription i = item_getStrAttr ITEM_ATTRIBUTE_DESCRIPTION i"
definition setText :: "cstring \<Rightarrow> item \<Rightarrow> item" where
  "setText s = item_setStrAttr ITEM_ATTRIBUTE_TEXT s"
definition resetText :: "item \<Rightarrow> item" where
  "resetText i = item_removeAttribute ITEM_ATTRIBUTE_TEXT i"
definition getText :: "item \<Rightarrow> cstring" where
  "getText i = item_getStrAttr ITEM_ATTRIBUTE_TEXT i"
definition setDate :: "u32 \<Rightarrow> item \<Rightarrow> item" where
  "setDate n = item_setIntAttr ITEM_ATTRIBUTE_DATE (scast n)"
definition resetDate :: "item \<Rightarrow> item" where
  "resetDate i = item_removeAttribute ITEM_ATTRIBUTE_DATE i"
definition getDate :: "item \<Rightarrow> u64" where
  "getDate i = item_getIntAttr ITEM_ATTRIBUTE_DATE i"
definition setWriter :: "cstring \<Rightarrow> item \<Rightarrow> item" where
  "setWriter s = item_setStrAttr ITEM_ATTRIBUTE_WRITER s"
definition resetWriter :: "item \<Rightarrow> item" where
  "resetWriter i = item_removeAttribute ITEM_ATTRIBUTE_WRITER i"
definition getWriter :: "item \<Rightarrow> cstring" where
  "getWriter i = item_getStrAttr ITEM_ATTRIBUTE_WRITER i"

definition setActionId :: "u16 \<Rightarrow> item \<Rightarrow> item" where
  "setActionId n = (let n = (if n < 100 then 100 else n) in item_setIntAttr ITEM_ATTRIBUTE_ACTIONID (ucast n))"

definition getActionId :: "item \<Rightarrow> u16" where
  "getActionId i = (if i_attributes i = None then 0 else ucast (item_getIntAttr ITEM_ATTRIBUTE_ACTIONID i))"
definition getUniqueId :: "item \<Rightarrow> u16" where
  "getUniqueId i = (if i_attributes i = None then 0 else ucast (item_getIntAttr ITEM_ATTRIBUTE_UNIQUEID i))"
definition setCharges :: "u16 \<Rightarrow> item \<Rightarrow> item" where
  "setCharges n = item_setIntAttr ITEM_ATTRIBUTE_CHARGES (ucast n)"
definition getCharges :: "item \<Rightarrow> u16" where
  "getCharges i = (if i_attributes i = None then 0 else ucast (item_getIntAttr ITEM_ATTRIBUTE_CHARGES i))"
definition setFluidType :: "u16 \<Rightarrow> item \<Rightarrow> item" where
  "setFluidType n = item_setIntAttr ITEM_ATTRIBUTE_FLUIDTYPE (ucast n)"
definition getFluidType :: "item \<Rightarrow> u16" where
  "getFluidType i = (if i_attributes i = None then 0 else ucast (item_getIntAttr ITEM_ATTRIBUTE_FLUIDTYPE i))"
definition setOwner :: "u32 \<Rightarrow> item \<Rightarrow> item" where
  "setOwner n = item_setIntAttr ITEM_ATTRIBUTE_OWNER (ucast n)"
definition getOwner :: "item \<Rightarrow> u32" where
  "getOwner i = (if i_attributes i = None then 0 else ucast (item_getIntAttr ITEM_ATTRIBUTE_OWNER i))"
definition setCorpseOwner :: "u32 \<Rightarrow> item \<Rightarrow> item" where
  "setCorpseOwner n = item_setIntAttr ITEM_ATTRIBUTE_CORPSEOWNER (ucast n)"
definition getCorpseOwner :: "item \<Rightarrow> u32" where
  "getCorpseOwner i = (if i_attributes i = None then 0 else ucast (item_getIntAttr ITEM_ATTRIBUTE_CORPSEOWNER i))"
definition setDuration :: "u32 \<Rightarrow> item \<Rightarrow> item" where
  "setDuration n = item_setIntAttr ITEM_ATTRIBUTE_DURATION (scast n)"
definition decreaseDuration :: "u32 \<Rightarrow> item \<Rightarrow> item" where
  "decreaseDuration n = item_increaseIntAttr ITEM_ATTRIBUTE_DURATION (scast (- n))"
definition getDuration :: "item \<Rightarrow> u32" where
  "getDuration i = (if i_attributes i = None then 0 else ucast (item_getIntAttr ITEM_ATTRIBUTE_DURATION i))"

definition DECAYING_FALSE :: byte where "DECAYING_FALSE = 0"
definition DECAYING_TRUE :: byte where "DECAYING_TRUE = 1"
definition DECAYING_PENDING :: byte where "DECAYING_PENDING = 2"

definition setDecaying :: "byte \<Rightarrow> item \<Rightarrow> item" where
  "setDecaying state = item_setIntAttr ITEM_ATTRIBUTE_DECAYSTATE (ucast state)"
definition getDecaying :: "item \<Rightarrow> byte" where
  "getDecaying i = (if i_attributes i = None then DECAYING_FALSE else ucast (item_getIntAttr ITEM_ATTRIBUTE_DECAYSTATE i))"

definition setDecayTo :: "u32 \<Rightarrow> item \<Rightarrow> item" where
  "setDecayTo n = item_setIntAttr ITEM_ATTRIBUTE_DECAYTO (scast n)"

text \<open>An attribute of the item comes before the value of its type.\<close>

definition own_or :: "item_attr \<Rightarrow> 'a \<Rightarrow> (u64 \<Rightarrow> 'a) \<Rightarrow> item \<Rightarrow> 'a" where
  "own_or t v cast i = (if item_hasAttribute t i then cast (item_getIntAttr t i) else v)"

definition getDecayTo :: "items_table \<Rightarrow> item \<Rightarrow> u32" where
  "getDecayTo T i = own_or ITEM_ATTRIBUTE_DECAYTO (it_decayTo (type_of T i)) ucast i"
definition getShootRange :: "items_table \<Rightarrow> item \<Rightarrow> byte" where
  "getShootRange T i = own_or ITEM_ATTRIBUTE_SHOOTRANGE (it_shootRange (type_of T i)) ucast i"
definition getBaseWeight :: "items_table \<Rightarrow> item \<Rightarrow> u32" where
  "getBaseWeight T i = own_or ITEM_ATTRIBUTE_WEIGHT (it_weight (type_of T i)) ucast i"
definition getAttack :: "items_table \<Rightarrow> item \<Rightarrow> u32" where
  "getAttack T i = own_or ITEM_ATTRIBUTE_ATTACK (it_attack (type_of T i)) ucast i"
definition getAttackSpeed :: "items_table \<Rightarrow> item \<Rightarrow> u32" where
  "getAttackSpeed T i = own_or ITEM_ATTRIBUTE_ATTACK_SPEED (it_attackSpeed (type_of T i)) ucast i"
definition getArmor :: "items_table \<Rightarrow> item \<Rightarrow> u32" where
  "getArmor T i = own_or ITEM_ATTRIBUTE_ARMOR (it_armor (type_of T i)) ucast i"
definition getDefense :: "items_table \<Rightarrow> item \<Rightarrow> u32" where
  "getDefense T i = own_or ITEM_ATTRIBUTE_DEFENSE (it_defense (type_of T i)) ucast i"
definition getExtraDefense :: "items_table \<Rightarrow> item \<Rightarrow> u32" where
  "getExtraDefense T i = own_or ITEM_ATTRIBUTE_EXTRADEFENSE (it_extraDefense (type_of T i)) ucast i"
definition getHitChance :: "items_table \<Rightarrow> item \<Rightarrow> byte" where
  "getHitChance T i = own_or ITEM_ATTRIBUTE_HITCHANCE (it_hitChance (type_of T i)) ucast i"

definition setItemCount :: "byte \<Rightarrow> item \<Rightarrow> item" where
  "setItemCount n i = i\<lparr>i_count := n\<rparr>"

definition getSubType :: "items_table \<Rightarrow> item \<Rightarrow> u16" where
  "getSubType T i =
     (let it = type_of T i
      in if isFluidContainer it \<or> isSplash it then getFluidType i
         else if it_stackable it then ucast (i_count i)
         else if it_charges it \<noteq> 0 then getCharges i
         else ucast (i_count i))"

definition setSubType :: "items_table \<Rightarrow> u16 \<Rightarrow> item \<Rightarrow> item" where
  "setSubType T n i =
     (let it = type_of T i
      in if isFluidContainer it \<or> isSplash it then setFluidType n i
         else if it_stackable it then setItemCount (ucast n) i
         else if it_charges it \<noteq> 0 then setCharges n i
         else setItemCount (ucast n) i)"

definition countByType :: "items_table \<Rightarrow> item \<Rightarrow> int \<Rightarrow> nat" where
  "countByType T i subType =
     (if subType = -1 \<or> subType = uint (getSubType T i) then unat (i_count i) else 0)"

definition getDefaultDuration :: "items_table \<Rightarrow> item \<Rightarrow> u32" where
  "getDefaultDuration T i = it_decayTime (type_of T i) * 1000"

definition setDefaultDuration :: "items_table \<Rightarrow> item \<Rightarrow> item" where
  "setDefaultDuration T i =
     (let duration = getDefaultDuration T i in if duration \<noteq> 0 then setDuration duration i else i)"

definition setDefaultSubtype :: "items_table \<Rightarrow> item \<Rightarrow> item" where
  "setDefaultSubtype T i =
     (let it = type_of T i;
          i = setItemCount 1 i
      in if it_charges it \<noteq> 0
         then (if it_stackable it then setItemCount (ucast (it_charges it)) i else setCharges (ucast (it_charges it)) i)
         else i)"

text \<open>The constructor.\<close>

definition new_item :: "items_table \<Rightarrow> u16 \<Rightarrow> u16 \<Rightarrow> item" where
  "new_item T ty count =
     (let i = \<lparr>i_id = ty, i_count = 1, i_attributes = None, i_loadedFromMap = False\<rparr>;
          it = items_at T ty;
          i = (if isFluidContainer it \<or> isSplash it then setFluidType count i
               else if it_stackable it then
                 (if count \<noteq> 0 then setItemCount (ucast count) i
                  else if it_charges it \<noteq> 0 then setItemCount (ucast (it_charges it)) i else i)
               else if it_charges it \<noteq> 0 then
                 (if count \<noteq> 0 then setCharges count i else setCharges (ucast (it_charges it)) i)
               else i)
      in setDefaultDuration T i)"

text \<open>\<open>Item::CreateItem\<close>: the class it makes, some ids replaced; the subclasses start from a count of 0.\<close>

datatype item_class =
  PlainItem | DepotLockerItem | ContainerItem | TeleportItem | MagicFieldItem | DoorItem
  | TrashHolderItem | MailboxItem | BedItem

definition CreateItem :: "items_table \<Rightarrow> u16 \<Rightarrow> u16 \<Rightarrow> (item_class \<times> item) option" where
  "CreateItem T ty count =
     (let it = items_at T ty
      in if it_group it = ITEM_GROUP_DEPRECATED then None
         else
           let count = (if it_stackable it \<and> count = 0 then 1 else count)
           in if it_id it = 0 then None
              else Some
                (if it_type it = ITEM_TYPE_DEPOT then (DepotLockerItem, new_item T ty 0)
                 else if isContainer it then (ContainerItem, new_item T ty 0)
                 else if it_type it = ITEM_TYPE_TELEPORT then (TeleportItem, new_item T ty 0)
                 else if isMagicField it then (MagicFieldItem, new_item T ty 0)
                 else if it_type it = ITEM_TYPE_DOOR then (DoorItem, new_item T ty 0)
                 else if it_type it = ITEM_TYPE_TRASHHOLDER then (TrashHolderItem, new_item T ty 0)
                 else if it_type it = ITEM_TYPE_MAILBOX then (MailboxItem, new_item T ty 0)
                 else if it_type it = ITEM_TYPE_BED then (BedItem, new_item T ty 0)
                 else if it_id it \<ge> 2210 \<and> it_id it \<le> 2212 then (PlainItem, new_item T (ty - 3) count)
                 else if it_id it = 2215 \<or> it_id it = 2216 then (PlainItem, new_item T (ty - 2) count)
                 else if it_id it \<ge> 2202 \<and> it_id it \<le> 2206 then (PlainItem, new_item T (ty - 37) count)
                 else if it_id it = 2640 then (PlainItem, new_item T 6132 count)
                 else if it_id it = 6301 then (PlainItem, new_item T 6300 count)
                 else (PlainItem, new_item T ty count)))"

text \<open>From a stream: the fields that players made become the persistent ones.\<close>

definition persistent_id :: "u16 \<Rightarrow> u16" where
  "persistent_id i =
     (if i = 1487 then 1492 else if i = 1488 then 1493 else if i = 1489 then 1494
      else if i = 1491 then 1495 else if i = 1490 then 1496
      else if i = 1497 then 1498 else if i = 1499 then 2721 else i)"

definition CreateItem_stream :: "items_table \<Rightarrow> prop_stream \<Rightarrow> (item_class \<times> item) option \<times> prop_stream" where
  "CreateItem_stream T s =
     (case read16 s of None \<Rightarrow> (None, s) | Some (i, s) \<Rightarrow> (CreateItem T (persistent_id i) 0, s))"

section \<open>Properties\<close>

datatype item_property =
  CONST_PROP_BLOCKSOLID | CONST_PROP_HASHEIGHT | CONST_PROP_BLOCKPROJECTILE | CONST_PROP_BLOCKPATH
  | CONST_PROP_ISVERTICAL | CONST_PROP_ISHORIZONTAL | CONST_PROP_MOVEABLE | CONST_PROP_IMMOVABLEBLOCKSOLID
  | CONST_PROP_IMMOVABLEBLOCKPATH | CONST_PROP_IMMOVABLENOFIELDBLOCKPATH | CONST_PROP_NOFIELDBLOCKPATH
  | CONST_PROP_SUPPORTHANGABLE

definition hasProperty :: "items_table \<Rightarrow> item \<Rightarrow> item_property \<Rightarrow> bool" where
  "hasProperty T i prop =
     (let it = type_of T i;
          unmoveable = \<not> it_moveable it \<or> item_hasAttribute ITEM_ATTRIBUTE_UNIQUEID i
      in case prop of
           CONST_PROP_BLOCKSOLID \<Rightarrow> it_blockSolid it
         | CONST_PROP_MOVEABLE \<Rightarrow> it_moveable it \<and> \<not> item_hasAttribute ITEM_ATTRIBUTE_UNIQUEID i
         | CONST_PROP_HASHEIGHT \<Rightarrow> it_hasHeight it
         | CONST_PROP_BLOCKPROJECTILE \<Rightarrow> it_blockProjectile it
         | CONST_PROP_BLOCKPATH \<Rightarrow> it_blockPathFind it
         | CONST_PROP_ISVERTICAL \<Rightarrow> it_isVertical it
         | CONST_PROP_ISHORIZONTAL \<Rightarrow> it_isHorizontal it
         | CONST_PROP_IMMOVABLEBLOCKSOLID \<Rightarrow> it_blockSolid it \<and> unmoveable
         | CONST_PROP_IMMOVABLEBLOCKPATH \<Rightarrow> it_blockPathFind it \<and> unmoveable
         | CONST_PROP_IMMOVABLENOFIELDBLOCKPATH \<Rightarrow> \<not> isMagicField it \<and> it_blockPathFind it \<and> unmoveable
         | CONST_PROP_NOFIELDBLOCKPATH \<Rightarrow> \<not> isMagicField it \<and> it_blockPathFind it
         | CONST_PROP_SUPPORTHANGABLE \<Rightarrow> it_isHorizontal it \<or> it_isVertical it)"

definition getWeight :: "items_table \<Rightarrow> item \<Rightarrow> u32" where
  "getWeight T i =
     (let weight = getBaseWeight T i
      in if it_stackable (type_of T i) then weight * max 1 (ucast (i_count i)) else weight)"

definition getWorth :: "items_table \<Rightarrow> item \<Rightarrow> u32" where
  "getWorth T i = ucast (it_worth (type_of T i) * ucast (i_count i))"

definition canDecay :: "items_table \<Rightarrow> bool \<Rightarrow> item \<Rightarrow> bool" where
  "canDecay T isRemoved i =
     (if isRemoved then False
      else if sint (getDecayTo T i) < 0 \<or> it_decayTime (type_of T i) = 0 then False
      else \<not> item_hasAttribute ITEM_ATTRIBUTE_UNIQUEID i)"

text \<open>\<open>canRemove\<close> of the class is an argument.\<close>

definition isCleanable :: "items_table \<Rightarrow> bool \<Rightarrow> item \<Rightarrow> bool" where
  "isCleanable T canRemove i \<longleftrightarrow>
     \<not> i_loadedFromMap i \<and> canRemove \<and> it_pickupable (type_of T i) \<and>
     \<not> item_hasAttribute ITEM_ATTRIBUTE_UNIQUEID i \<and> \<not> item_hasAttribute ITEM_ATTRIBUTE_ACTIONID i"

definition setID :: "items_table \<Rightarrow> u16 \<Rightarrow> item \<Rightarrow> item" where
  "setID T newid i =
     (let prevIt = type_of T i;
          i = i\<lparr>i_id := newid\<rparr>;
          it = items_at T newid;
          newDuration = it_decayTime it * 1000;
          i = (if newDuration = 0 \<and> \<not> it_stopTime it \<and> sint (it_decayTo it) < 0
               then item_removeAttribute ITEM_ATTRIBUTE_DURATION (item_removeAttribute ITEM_ATTRIBUTE_DECAYSTATE i) else i);
          i = item_removeAttribute ITEM_ATTRIBUTE_CORPSEOWNER i
      in if newDuration > 0 \<and> (\<not> it_stopTime prevIt \<or> \<not> item_hasAttribute ITEM_ATTRIBUTE_DURATION i)
         then setDuration newDuration (setDecaying DECAYING_FALSE i) else i)"

text \<open>
  \<open>equals\<close> on two different objects: two attributes of one type that are no strings are compared
  through the integer member of their union, which for custom attributes is the address of a map
  that each item has for itself.
\<close>

fun same_integer :: "attr_value \<Rightarrow> attr_value \<Rightarrow> bool" where
  "same_integer (VInt n) (VInt m) \<longleftrightarrow> n = m"
| "same_integer _ _ \<longleftrightarrow> False"

definition attr_differs :: "item_attr \<times> attr_value \<Rightarrow> item_attr \<times> attr_value \<Rightarrow> bool" where
  "attr_differs x y =
     (if isStrAttrType (fst x) then fst x = fst y \<and> snd x \<noteq> snd y
      else fst x = fst y \<and> \<not> same_integer (snd x) (snd y))"

definition item_equals :: "item \<Rightarrow> item \<Rightarrow> bool" where
  "item_equals i j =
     (if i_id i \<noteq> i_id j then False
      else case i_attributes i of
             None \<Rightarrow> (case i_attributes j of None \<Rightarrow> True | Some b \<Rightarrow> attributeBits b = 0)
           | Some a \<Rightarrow>
               (case i_attributes j of
                  None \<Rightarrow> attributeBits a = 0
                | Some b \<Rightarrow>
                    if attributeBits a \<noteq> attributeBits b then False
                    else list_all (\<lambda>x. list_all (\<lambda>y. \<not> attr_differs x y) (attributes b)) (attributes a)))"

section \<open>Storage\<close>

abbreviation "ATTR_ACTION_ID \<equiv> 4 :: byte"
abbreviation "ATTR_UNIQUE_ID \<equiv> 5 :: byte"
abbreviation "ATTR_TEXT \<equiv> 6 :: byte"
abbreviation "ATTR_DESC \<equiv> 7 :: byte"
abbreviation "ATTR_TELE_DEST \<equiv> 8 :: byte"
abbreviation "ATTR_DEPOT_ID \<equiv> 10 :: byte"
abbreviation "ATTR_RUNE_CHARGES \<equiv> 12 :: byte"
abbreviation "ATTR_HOUSEDOORID \<equiv> 14 :: byte"
abbreviation "ATTR_COUNT \<equiv> 15 :: byte"
abbreviation "ATTR_DURATION \<equiv> 16 :: byte"
abbreviation "ATTR_DECAYING_STATE \<equiv> 17 :: byte"
abbreviation "ATTR_WRITTENDATE \<equiv> 18 :: byte"
abbreviation "ATTR_WRITTENBY \<equiv> 19 :: byte"
abbreviation "ATTR_SLEEPERGUID \<equiv> 20 :: byte"
abbreviation "ATTR_SLEEPSTART \<equiv> 21 :: byte"
abbreviation "ATTR_CHARGES \<equiv> 22 :: byte"
abbreviation "ATTR_CONTAINER_ITEMS \<equiv> 23 :: byte"
abbreviation "ATTR_NAME \<equiv> 24 :: byte"
abbreviation "ATTR_ARTICLE \<equiv> 25 :: byte"
abbreviation "ATTR_PLURALNAME \<equiv> 26 :: byte"
abbreviation "ATTR_WEIGHT \<equiv> 27 :: byte"
abbreviation "ATTR_ATTACK \<equiv> 28 :: byte"
abbreviation "ATTR_DEFENSE \<equiv> 29 :: byte"
abbreviation "ATTR_EXTRADEFENSE \<equiv> 30 :: byte"
abbreviation "ATTR_ARMOR \<equiv> 31 :: byte"
abbreviation "ATTR_HITCHANCE \<equiv> 32 :: byte"
abbreviation "ATTR_SHOOTRANGE \<equiv> 33 :: byte"
abbreviation "ATTR_CUSTOM_ATTRIBUTES \<equiv> 34 :: byte"
abbreviation "ATTR_DECAYTO \<equiv> 35 :: byte"
abbreviation "ATTR_ATTACK_SPEED \<equiv> 38 :: byte"

text \<open>The item under construction, and the unique ids in use.\<close>

type_synonym reading = "item \<times> u16 set"

definition setUniqueId :: "u16 \<Rightarrow> reading \<Rightarrow> reading" where
  "setUniqueId n st =
     (let (i, used) = st
      in if item_hasAttribute ITEM_ATTRIBUTE_UNIQUEID i then st
         else if n \<in> used then st
         else (item_setIntAttr ITEM_ATTRIBUTE_UNIQUEID (ucast n) i, insert n used))"

text \<open>
  A case of \<open>readAttr\<close>: it reads a value and stores it, or it fails (\<open>ATTR_READ_ERROR\<close>), the item
  being what it was; the stream is not used after that.
\<close>

type_synonym read_result = "(prop_stream \<times> reading) + reading"

definition store_read :: "('v \<times> prop_stream) option \<Rightarrow> ('v \<Rightarrow> item \<Rightarrow> item) \<Rightarrow> reading \<Rightarrow> read_result" where
  "store_read r store st =
     (case r of None \<Rightarrow> Inr st | Some (v, s) \<Rightarrow> Inl (s, apfst (store v) st))"

definition skip_read :: "nat \<Rightarrow> prop_stream \<Rightarrow> reading \<Rightarrow> read_result" where
  "skip_read n s st = (case prop_skip n s of None \<Rightarrow> Inr st | Some s \<Rightarrow> Inl (s, st))"

fun read_customs :: "nat \<Rightarrow> prop_stream \<Rightarrow> reading \<Rightarrow> read_result" where
  "read_customs 0 s st = Inl (s, st)"
| "read_customs (Suc n) s st =
     (case prop_readString s of
        None \<Rightarrow> Inr st
      | Some (key, s) \<Rightarrow>
          (case custom_unserialize s of
             None \<Rightarrow> Inr st
           | Some (val, s) \<Rightarrow> read_customs n s (apfst (item_setCustomAttribute key val) st)))"

text \<open>The attributes of the subclasses, which a plain item skips, and the custom ones.\<close>

definition readAttr_others :: "byte \<Rightarrow> prop_stream \<Rightarrow> reading \<Rightarrow> read_result" where
  "readAttr_others attr s st =
     (if attr = ATTR_DEPOT_ID then skip_read 2 s st
      else if attr = ATTR_HOUSEDOORID then skip_read 1 s st
      else if attr = ATTR_SLEEPERGUID then skip_read 4 s st
      else if attr = ATTR_SLEEPSTART then skip_read 4 s st
      else if attr = ATTR_TELE_DEST then skip_read 5 s st
      else if attr = ATTR_CUSTOM_ATTRIBUTES then
        (case read64 s of None \<Rightarrow> Inr st | Some (n, s) \<Rightarrow> read_customs (unat n) s st)
      else Inr st)"

text \<open>The attributes that replace a value of the type.\<close>

definition readAttr_values :: "byte \<Rightarrow> prop_stream \<Rightarrow> reading \<Rightarrow> read_result" where
  "readAttr_values attr s st =
     (if attr = ATTR_NAME then store_read (prop_readString s) (item_setStrAttr ITEM_ATTRIBUTE_NAME) st
      else if attr = ATTR_ARTICLE then store_read (prop_readString s) (item_setStrAttr ITEM_ATTRIBUTE_ARTICLE) st
      else if attr = ATTR_PLURALNAME then store_read (prop_readString s) (item_setStrAttr ITEM_ATTRIBUTE_PLURALNAME) st
      else if attr = ATTR_WEIGHT then
        store_read (read32 s) (\<lambda>v. item_setIntAttr ITEM_ATTRIBUTE_WEIGHT (ucast v)) st
      else if attr = ATTR_ATTACK then
        store_read (read32 s) (\<lambda>v. item_setIntAttr ITEM_ATTRIBUTE_ATTACK (scast v)) st
      else if attr = ATTR_ATTACK_SPEED then
        store_read (read32 s) (\<lambda>v. item_setIntAttr ITEM_ATTRIBUTE_ATTACK_SPEED (ucast v)) st
      else if attr = ATTR_DEFENSE then
        store_read (read32 s) (\<lambda>v. item_setIntAttr ITEM_ATTRIBUTE_DEFENSE (scast v)) st
      else if attr = ATTR_EXTRADEFENSE then
        store_read (read32 s) (\<lambda>v. item_setIntAttr ITEM_ATTRIBUTE_EXTRADEFENSE (scast v)) st
      else if attr = ATTR_ARMOR then
        store_read (read32 s) (\<lambda>v. item_setIntAttr ITEM_ATTRIBUTE_ARMOR (scast v)) st
      else if attr = ATTR_HITCHANCE then
        store_read (read8 s) (\<lambda>v. item_setIntAttr ITEM_ATTRIBUTE_HITCHANCE (scast v)) st
      else if attr = ATTR_SHOOTRANGE then
        store_read (read8 s) (\<lambda>v. item_setIntAttr ITEM_ATTRIBUTE_SHOOTRANGE (ucast v)) st
      else if attr = ATTR_DECAYTO then
        store_read (read32 s) (\<lambda>v. item_setIntAttr ITEM_ATTRIBUTE_DECAYTO (scast v)) st
      else readAttr_others attr s st)"

definition readAttr :: "items_table \<Rightarrow> byte \<Rightarrow> prop_stream \<Rightarrow> reading \<Rightarrow> read_result" where
  "readAttr T attr s st =
     (if attr = ATTR_COUNT \<or> attr = ATTR_RUNE_CHARGES then
        store_read (read8 s) (\<lambda>count. setSubType T (ucast count)) st
      else if attr = ATTR_ACTION_ID then store_read (read16 s) setActionId st
      else if attr = ATTR_UNIQUE_ID then
        (case read16 s of None \<Rightarrow> Inr st | Some (uniqueId, s) \<Rightarrow> Inl (s, setUniqueId uniqueId st))
      else if attr = ATTR_TEXT then store_read (prop_readString s) setText st
      else if attr = ATTR_WRITTENDATE then store_read (read32 s) setDate st
      else if attr = ATTR_WRITTENBY then store_read (prop_readString s) setWriter st
      else if attr = ATTR_DESC then store_read (prop_readString s) setSpecialDescription st
      else if attr = ATTR_CHARGES then store_read (read16 s) (setSubType T) st
      else if attr = ATTR_DURATION then
        store_read (read32 s) (\<lambda>duration. setDuration (if sint duration < 0 then 0 else duration)) st
      else if attr = ATTR_DECAYING_STATE then
        store_read (read8 s) (\<lambda>state. if state \<noteq> DECAYING_FALSE then setDecaying DECAYING_PENDING else id) st
      else readAttr_values attr s st)"

lemmas readAttr_defs = readAttr_def readAttr_values_def readAttr_others_def

lemma store_read_shorter:
  assumes "\<And>v s'. r = Some (v, s') \<Longrightarrow> length s' \<le> length s" and "store_read r f st = Inl (s', st')"
  shows "length s' \<le> length s"
  using assms by (auto simp: store_read_def split: option.splits)

lemma prop_readString_shorter: "prop_readString s = Some (v, s') \<Longrightarrow> length s' \<le> length s"
  by (auto simp: prop_readString_def split: option.splits if_splits dest!: prop_read_shorter)

lemma custom_unserialize_shorter: "custom_unserialize s = Some (v, s') \<Longrightarrow> length s' \<le> length s"
  by (auto simp: custom_unserialize_def apfst_def map_prod_def split: option.splits if_splits
      dest!: prop_read_shorter prop_readString_shorter)

lemma read_customs_shorter: "read_customs n s st = Inl (s', st') \<Longrightarrow> length s' \<le> length s"
proof (induction n arbitrary: s st)
  case 0
  then show ?case by simp
next
  case (Suc n)
  then obtain key s1 val s2 where s1: "prop_readString s = Some (key, s1)"
    and s2: "custom_unserialize s1 = Some (val, s2)"
    and rest: "read_customs n s2 (apfst (item_setCustomAttribute key val) st) = Inl (s', st')"
    by (auto split: option.splits)
  from Suc.IH [OF rest] prop_readString_shorter [OF s1] custom_unserialize_shorter [OF s2] show ?case by simp
qed

lemma readAttr_shorter: "readAttr T attr s st = Inl (s', st') \<Longrightarrow> length s' \<le> length s"
  unfolding readAttr_defs
  by (auto simp: skip_read_def prop_skip_def split: if_splits option.splits
      dest!: prop_read_shorter read_customs_shorter
      elim!: store_read_shorter [rotated] dest: prop_readString_shorter)

function unserializeAttr :: "items_table \<Rightarrow> prop_stream \<Rightarrow> reading \<Rightarrow> bool \<times> reading" where
  "unserializeAttr T s st =
     (case read8 s of
        None \<Rightarrow> (True, st)
      | Some (attr_type, s) \<Rightarrow>
          if attr_type = 0 then (True, st)
          else case readAttr T attr_type s st of
                 Inr st \<Rightarrow> (False, st)
               | Inl (s, st) \<Rightarrow> unserializeAttr T s st)"
  by pat_completeness auto
termination
  by (relation "measure (\<lambda>(T, s, st). length s)")
     (auto dest!: prop_read_shorter readAttr_shorter)

declare unserializeAttr.simps [simp del]

text \<open>What is written, one entry after the other; \<open>write8\<close> and the others are \<open>write<T>\<close>.\<close>

abbreviation "write8 \<equiv> prop_write 1 :: byte \<Rightarrow> byte list \<Rightarrow> byte list"
abbreviation "write16 \<equiv> prop_write 2 :: u16 \<Rightarrow> byte list \<Rightarrow> byte list"
abbreviation "write32 \<equiv> prop_write 4 :: u32 \<Rightarrow> byte list \<Rightarrow> byte list"
abbreviation "write64 \<equiv> prop_write 8 :: u64 \<Rightarrow> byte list \<Rightarrow> byte list"

definition write_str :: "byte \<Rightarrow> cstring \<Rightarrow> byte list \<Rightarrow> byte list" where
  "write_str code v buf = prop_writeString v (write8 code buf)"

definition write_custom_entry :: "cstring \<times> custom_value \<Rightarrow> byte list \<Rightarrow> byte list" where
  "write_custom_entry e buf = custom_serialize (snd e) (prop_writeString (fst e) buf)"

text \<open>An \<open>if\<close> whose body writes.\<close>

definition put :: "bool \<Rightarrow> (byte list \<Rightarrow> byte list) \<Rightarrow> byte list \<Rightarrow> byte list" where
  "put c w buf = (if c then w buf else buf)"

definition serializeAttr :: "items_table \<Rightarrow> item \<Rightarrow> byte list \<Rightarrow> byte list" where
  "serializeAttr T i buf =
     (let it = type_of T i;
          has = (\<lambda>t. item_hasAttribute t i);
          int = (\<lambda>t. item_getIntAttr t i);
          str = (\<lambda>t. item_getStrAttr t i);
          buf = put (it_stackable it \<or> isFluidContainer it \<or> isSplash it)
                  (write8 (ucast (getSubType T i)) \<circ> write8 ATTR_COUNT) buf;
          charges = getCharges i;
          buf = put (charges \<noteq> 0) (write16 charges \<circ> write8 ATTR_CHARGES) buf;
          actionId = getActionId i;
          buf = put (it_moveable it \<and> actionId \<noteq> 0) (write16 actionId \<circ> write8 ATTR_ACTION_ID) buf;
          text = getText i;
          buf = put (text \<noteq> []) (write_str ATTR_TEXT text) buf;
          writtenDate = getDate i;
          buf = put (writtenDate \<noteq> 0) (write32 (ucast writtenDate) \<circ> write8 ATTR_WRITTENDATE) buf;
          writer = getWriter i;
          buf = put (writer \<noteq> []) (write_str ATTR_WRITTENBY writer) buf;
          specialDesc = getSpecialDescription i;
          buf = put (specialDesc \<noteq> []) (write_str ATTR_DESC specialDesc) buf;
          buf = put (has ITEM_ATTRIBUTE_DURATION)
                  (write32 (ucast (int ITEM_ATTRIBUTE_DURATION)) \<circ> write8 ATTR_DURATION) buf;
          decayState = getDecaying i;
          buf = put (decayState = DECAYING_TRUE \<or> decayState = DECAYING_PENDING)
                  (write8 decayState \<circ> write8 ATTR_DECAYING_STATE) buf;
          buf = put (has ITEM_ATTRIBUTE_NAME) (write_str ATTR_NAME (str ITEM_ATTRIBUTE_NAME)) buf;
          buf = put (has ITEM_ATTRIBUTE_ARTICLE) (write_str ATTR_ARTICLE (str ITEM_ATTRIBUTE_ARTICLE)) buf;
          buf = put (has ITEM_ATTRIBUTE_PLURALNAME) (write_str ATTR_PLURALNAME (str ITEM_ATTRIBUTE_PLURALNAME)) buf;
          buf = put (has ITEM_ATTRIBUTE_WEIGHT)
                  (write32 (ucast (int ITEM_ATTRIBUTE_WEIGHT)) \<circ> write8 ATTR_WEIGHT) buf;
          buf = put (has ITEM_ATTRIBUTE_ATTACK)
                  (write32 (ucast (int ITEM_ATTRIBUTE_ATTACK)) \<circ> write8 ATTR_ATTACK) buf;
          buf = put (has ITEM_ATTRIBUTE_ATTACK_SPEED)
                  (write32 (ucast (int ITEM_ATTRIBUTE_ATTACK_SPEED)) \<circ> write8 ATTR_ATTACK_SPEED) buf;
          buf = put (has ITEM_ATTRIBUTE_DEFENSE)
                  (write32 (ucast (int ITEM_ATTRIBUTE_DEFENSE)) \<circ> write8 ATTR_DEFENSE) buf;
          buf = put (has ITEM_ATTRIBUTE_EXTRADEFENSE)
                  (write32 (ucast (int ITEM_ATTRIBUTE_EXTRADEFENSE)) \<circ> write8 ATTR_EXTRADEFENSE) buf;
          buf = put (has ITEM_ATTRIBUTE_ARMOR)
                  (write32 (ucast (int ITEM_ATTRIBUTE_ARMOR)) \<circ> write8 ATTR_ARMOR) buf;
          buf = put (has ITEM_ATTRIBUTE_HITCHANCE)
                  (write8 (ucast (int ITEM_ATTRIBUTE_HITCHANCE)) \<circ> write8 ATTR_HITCHANCE) buf;
          buf = put (has ITEM_ATTRIBUTE_SHOOTRANGE)
                  (write8 (ucast (int ITEM_ATTRIBUTE_SHOOTRANGE)) \<circ> write8 ATTR_SHOOTRANGE) buf;
          buf = put (has ITEM_ATTRIBUTE_DECAYTO)
                  (write32 (ucast (int ITEM_ATTRIBUTE_DECAYTO)) \<circ> write8 ATTR_DECAYTO) buf
      in case (if has ITEM_ATTRIBUTE_CUSTOM then getCustomAttributeMap (getAttributes i) else None) of
           None \<Rightarrow> buf
         | Some m \<Rightarrow> fold write_custom_entry m
             (write64 (word_of_nat (length m)) (write8 ATTR_CUSTOM_ATTRIBUTES buf)))"

end
