(* ===== verification/Item_Storage.thy ===== *)
theory Item_Storage
  imports Item
begin

text \<open>
  An item written to a property stream and read back into a new item of its type.
\<close>

section \<open>Entries of the stream\<close>

text \<open>Bytes that, whatever follows them, are read as a change of the item.\<close>

definition reads_as :: "items_table \<Rightarrow> byte list \<Rightarrow> (item \<Rightarrow> item) \<Rightarrow> bool" where
  "reads_as T bs f \<longleftrightarrow>
     (\<forall>rest i used. unserializeAttr T (bs @ rest) (i, used) = unserializeAttr T rest (f i, used))"

lemma reads_as_Nil: "reads_as T [] id"
  by (simp add: reads_as_def)

lemma reads_as_append: "reads_as T bs f \<Longrightarrow> reads_as T cs g \<Longrightarrow> reads_as T (bs @ cs) (g \<circ> f)"
  by (simp add: reads_as_def)

lemma reads_as_if: "(c \<Longrightarrow> reads_as T bs f) \<Longrightarrow> reads_as T (if c then bs else []) (if c then f else id)"
  by (simp add: reads_as_Nil)

lemma reads_as_entry:
  assumes "code \<noteq> 0" and "\<And>rest i used. readAttr T code (bs @ rest) (i, used) = Inl (rest, (f i, used))"
  shows "reads_as T (code # bs) f"
  unfolding reads_as_def
proof (intro allI)
  fix rest i used
  show "unserializeAttr T ((code # bs) @ rest) (i, used) = unserializeAttr T rest (f i, used)"
    using assms by (subst unserializeAttr.simps) (simp add: read8_Cons del: One_nat_def)
qed

lemma reads_as_string:
  assumes "length v \<le> 65535" and "code \<noteq> 0"
    and "\<And>s st. readAttr T code s st = store_read (prop_readString s) f st"
  shows "reads_as T (code # prop_writeString v []) (f v)"
  using assms by (intro reads_as_entry) (simp_all add: store_read_def string_prop.read_written)

lemma reads_as_8:
  assumes "code \<noteq> 0" and "\<And>s st. readAttr T code s st = store_read (read8 s) f st"
  shows "reads_as T [code, v] (f v)"
  using assms by (intro reads_as_entry) (simp_all add: store_read_def read8_Cons del: One_nat_def)

lemma reads_as_16:
  assumes "code \<noteq> 0" and "\<And>s st. readAttr T code s st = store_read (read16 s) f st"
  shows "reads_as T (code # le_bytes 2 v) (f v)"
  using assms by (intro reads_as_entry) (simp_all add: store_read_def read_le del: le_bytes.simps)

lemma reads_as_32:
  assumes "code \<noteq> 0" and "\<And>s st. readAttr T code s st = store_read (read32 s) f st"
  shows "reads_as T (code # le_bytes 4 v) (f v)"
  using assms by (intro reads_as_entry) (simp_all add: store_read_def read_le del: le_bytes.simps)

fun set_customs :: "custom_map \<Rightarrow> item \<Rightarrow> item" where
  "set_customs [] i = i"
| "set_customs ((k, v) # m) i = set_customs m (item_setCustomAttribute k v i)"

definition entry_ok :: "cstring \<times> custom_value \<Rightarrow> bool" where
  "entry_ok e \<longleftrightarrow> length (fst e) \<le> 65535 \<and> custom_ok (snd e)"

lemma write_custom_entries:
  "fold write_custom_entry m buf = buf @ concat (map (\<lambda>e. prop_writeString (fst e) [] @ custom_serialize (snd e) []) m)"
proof (induction m arbitrary: buf)
  case Nil
  then show ?case by simp
next
  case (Cons e m)
  have "write_custom_entry e buf = buf @ prop_writeString (fst e) [] @ custom_serialize (snd e) []"
    using custom_codec.write_appends [of "snd e" "prop_writeString (fst e) buf"] string_prop.write_appends [of "fst e" buf]
    by (simp add: write_custom_entry_def)
  then show ?case by (simp add: Cons.IH)
qed

lemma read_customs_written:
  "list_all entry_ok m \<Longrightarrow>
   read_customs (length m) (concat (map (\<lambda>e. prop_writeString (fst e) [] @ custom_serialize (snd e) []) m) @ rest) (i, used)
     = Inl (rest, (set_customs m i, used))"
proof (induction m arbitrary: i)
  case Nil
  then show ?case by simp
next
  case (Cons e m)
  then show ?case
    by (cases e) (simp add: entry_ok_def string_prop.read_written custom_codec.read_written)
qed

lemma reads_as_customs:
  assumes "list_all entry_ok m" and "length m < 2 ^ 64"
  shows "reads_as T (fold write_custom_entry m (write64 (word_of_nat (length m)) (write8 ATTR_CUSTOM_ATTRIBUTES [])))
    (set_customs m)"
proof -
  have "unat (word_of_nat (length m) :: u64) = length m"
    using assms(2) by (simp add: unat_of_nat take_bit_nat_eq_self_iff)
  then have "reads_as T (ATTR_CUSTOM_ATTRIBUTES # le_bytes 8 (word_of_nat (length m) :: u64) @
      concat (map (\<lambda>e. prop_writeString (fst e) [] @ custom_serialize (snd e) []) m)) (set_customs m)"
    using assms(1)
    by (intro reads_as_entry) (simp_all add: readAttr_defs read_le read_customs_written del: le_bytes.simps)
  moreover have "write64 (word_of_nat (length m)) (write8 ATTR_CUSTOM_ATTRIBUTES []) =
      ATTR_CUSTOM_ATTRIBUTES # le_bytes 8 (word_of_nat (length m) :: u64)"
    by (simp add: prop_write_def)
  ultimately show ?thesis by (simp add: write_custom_entries)
qed

section \<open>The entries of an item\<close>

lemma put_append:
  "put c (write8 v \<circ> write8 k) buf = buf @ (if c then [k, v] else [])"
  "put c (write16 w \<circ> write8 k) buf = buf @ (if c then k # le_bytes 2 w else [])"
  "put c (write32 x \<circ> write8 k) buf = buf @ (if c then k # le_bytes 4 x else [])"
  "put c (write_str k s) buf = buf @ (if c then k # prop_writeString s [] else [])"
  using string_prop.write_appends [of s "write8 k buf"]
  by (simp_all add: put_def prop_write_def write_str_def del: le_bytes.simps(2)) (simp_all)

text \<open>The change that reading an item's own entry makes.\<close>

definition restore :: "items_table \<Rightarrow> item \<Rightarrow> item \<Rightarrow> item" where
  "restore T i =
     (let it = type_of T i;
          has = (\<lambda>t. item_hasAttribute t i);
          int = (\<lambda>t. item_getIntAttr t i);
          str = (\<lambda>t. item_getStrAttr t i);
          on = (\<lambda>c f. if c then f else id);
          count = ucast (getSubType T i) :: byte;
          duration = ucast (int ITEM_ATTRIBUTE_DURATION) :: u32
      in (case (if has ITEM_ATTRIBUTE_CUSTOM then getCustomAttributeMap (getAttributes i) else None) of
            None \<Rightarrow> id | Some m \<Rightarrow> set_customs m)
         \<circ> (on (has ITEM_ATTRIBUTE_DECAYTO)
              (item_setIntAttr ITEM_ATTRIBUTE_DECAYTO (scast (ucast (int ITEM_ATTRIBUTE_DECAYTO) :: u32)))
         \<circ> (on (has ITEM_ATTRIBUTE_SHOOTRANGE)
              (item_setIntAttr ITEM_ATTRIBUTE_SHOOTRANGE (ucast (ucast (int ITEM_ATTRIBUTE_SHOOTRANGE) :: byte)))
         \<circ> (on (has ITEM_ATTRIBUTE_HITCHANCE)
              (item_setIntAttr ITEM_ATTRIBUTE_HITCHANCE (scast (ucast (int ITEM_ATTRIBUTE_HITCHANCE) :: byte)))
         \<circ> (on (has ITEM_ATTRIBUTE_ARMOR)
              (item_setIntAttr ITEM_ATTRIBUTE_ARMOR (scast (ucast (int ITEM_ATTRIBUTE_ARMOR) :: u32)))
         \<circ> (on (has ITEM_ATTRIBUTE_EXTRADEFENSE)
              (item_setIntAttr ITEM_ATTRIBUTE_EXTRADEFENSE (scast (ucast (int ITEM_ATTRIBUTE_EXTRADEFENSE) :: u32)))
         \<circ> (on (has ITEM_ATTRIBUTE_DEFENSE)
              (item_setIntAttr ITEM_ATTRIBUTE_DEFENSE (scast (ucast (int ITEM_ATTRIBUTE_DEFENSE) :: u32)))
         \<circ> (on (has ITEM_ATTRIBUTE_ATTACK_SPEED)
              (item_setIntAttr ITEM_ATTRIBUTE_ATTACK_SPEED (ucast (ucast (int ITEM_ATTRIBUTE_ATTACK_SPEED) :: u32)))
         \<circ> (on (has ITEM_ATTRIBUTE_ATTACK)
              (item_setIntAttr ITEM_ATTRIBUTE_ATTACK (scast (ucast (int ITEM_ATTRIBUTE_ATTACK) :: u32)))
         \<circ> (on (has ITEM_ATTRIBUTE_WEIGHT)
              (item_setIntAttr ITEM_ATTRIBUTE_WEIGHT (ucast (ucast (int ITEM_ATTRIBUTE_WEIGHT) :: u32)))
         \<circ> (on (has ITEM_ATTRIBUTE_PLURALNAME) (item_setStrAttr ITEM_ATTRIBUTE_PLURALNAME (str ITEM_ATTRIBUTE_PLURALNAME))
         \<circ> (on (has ITEM_ATTRIBUTE_ARTICLE) (item_setStrAttr ITEM_ATTRIBUTE_ARTICLE (str ITEM_ATTRIBUTE_ARTICLE))
         \<circ> (on (has ITEM_ATTRIBUTE_NAME) (item_setStrAttr ITEM_ATTRIBUTE_NAME (str ITEM_ATTRIBUTE_NAME))
         \<circ> (on (getDecaying i = DECAYING_TRUE \<or> getDecaying i = DECAYING_PENDING) (setDecaying DECAYING_PENDING)
         \<circ> (on (has ITEM_ATTRIBUTE_DURATION) (setDuration (if sint duration < 0 then 0 else duration))
         \<circ> (on (getSpecialDescription i \<noteq> []) (setSpecialDescription (getSpecialDescription i))
         \<circ> (on (getWriter i \<noteq> []) (setWriter (getWriter i))
         \<circ> (on (getDate i \<noteq> 0) (setDate (ucast (getDate i)))
         \<circ> (on (getText i \<noteq> []) (setText (getText i))
         \<circ> (on (it_moveable it \<and> getActionId i \<noteq> 0) (setActionId (getActionId i))
         \<circ> (on (getCharges i \<noteq> 0) (setSubType T (getCharges i))
         \<circ> on (it_stackable it \<or> isFluidContainer it \<or> isSplash it) (setSubType T (ucast count)))))))))))))))))))))))"

definition strings_fit :: "item \<Rightarrow> bool" where
  "strings_fit i \<longleftrightarrow>
     (\<forall>t. length (item_getStrAttr t i) \<le> 65535) \<and>
     (case getCustomAttributeMap (getAttributes i) of None \<Rightarrow> True
      | Some m \<Rightarrow> list_all entry_ok m \<and> length m < 2 ^ 64)"

text \<open>Each kind of entry, and what it is read as.\<close>

lemma reads_as_TEXT:
  "length v \<le> 65535 \<Longrightarrow> reads_as T (ATTR_TEXT # prop_writeString v []) (setText v)"
  by (rule reads_as_string [where f = "setText"]) (simp_all add: readAttr_defs)

lemma reads_as_WRITTENBY:
  "length v \<le> 65535 \<Longrightarrow> reads_as T (ATTR_WRITTENBY # prop_writeString v []) (setWriter v)"
  by (rule reads_as_string [where f = "setWriter"]) (simp_all add: readAttr_defs)

lemma reads_as_DESC:
  "length v \<le> 65535 \<Longrightarrow> reads_as T (ATTR_DESC # prop_writeString v []) (setSpecialDescription v)"
  by (rule reads_as_string [where f = "setSpecialDescription"]) (simp_all add: readAttr_defs)

lemma reads_as_NAME:
  "length v \<le> 65535 \<Longrightarrow> reads_as T (ATTR_NAME # prop_writeString v []) (item_setStrAttr ITEM_ATTRIBUTE_NAME v)"
  by (rule reads_as_string [where f = "item_setStrAttr ITEM_ATTRIBUTE_NAME"]) (simp_all add: readAttr_defs)

lemma reads_as_ARTICLE:
  "length v \<le> 65535 \<Longrightarrow> reads_as T (ATTR_ARTICLE # prop_writeString v []) (item_setStrAttr ITEM_ATTRIBUTE_ARTICLE v)"
  by (rule reads_as_string [where f = "item_setStrAttr ITEM_ATTRIBUTE_ARTICLE"]) (simp_all add: readAttr_defs)

lemma reads_as_PLURALNAME:
  "length v \<le> 65535 \<Longrightarrow> reads_as T (ATTR_PLURALNAME # prop_writeString v []) (item_setStrAttr ITEM_ATTRIBUTE_PLURALNAME v)"
  by (rule reads_as_string [where f = "item_setStrAttr ITEM_ATTRIBUTE_PLURALNAME"]) (simp_all add: readAttr_defs)

lemma reads_as_WRITTENDATE:
  "reads_as T (ATTR_WRITTENDATE # le_bytes 4 (v :: u32)) (setDate v)"
  by (rule reads_as_32 [where f = "setDate"]) (simp_all add: readAttr_defs)

lemma reads_as_DURATION:
  "reads_as T (ATTR_DURATION # le_bytes 4 (v :: u32)) (setDuration (if sint v < 0 then 0 else v))"
  by (rule reads_as_32 [where f = "\<lambda>v :: u32. setDuration (if sint v < 0 then 0 else v)"]) (simp_all add: readAttr_defs)

lemma reads_as_WEIGHT:
  "reads_as T (ATTR_WEIGHT # le_bytes 4 (v :: u32)) (item_setIntAttr ITEM_ATTRIBUTE_WEIGHT (ucast v))"
  by (rule reads_as_32 [where f = "\<lambda>v :: u32. item_setIntAttr ITEM_ATTRIBUTE_WEIGHT (ucast v)"]) (simp_all add: readAttr_defs)

lemma reads_as_ATTACK:
  "reads_as T (ATTR_ATTACK # le_bytes 4 (v :: u32)) (item_setIntAttr ITEM_ATTRIBUTE_ATTACK (scast v))"
  by (rule reads_as_32 [where f = "\<lambda>v :: u32. item_setIntAttr ITEM_ATTRIBUTE_ATTACK (scast v)"]) (simp_all add: readAttr_defs)

lemma reads_as_ATTACK_SPEED:
  "reads_as T (ATTR_ATTACK_SPEED # le_bytes 4 (v :: u32)) (item_setIntAttr ITEM_ATTRIBUTE_ATTACK_SPEED (ucast v))"
  by (rule reads_as_32 [where f = "\<lambda>v :: u32. item_setIntAttr ITEM_ATTRIBUTE_ATTACK_SPEED (ucast v)"]) (simp_all add: readAttr_defs)

lemma reads_as_DEFENSE:
  "reads_as T (ATTR_DEFENSE # le_bytes 4 (v :: u32)) (item_setIntAttr ITEM_ATTRIBUTE_DEFENSE (scast v))"
  by (rule reads_as_32 [where f = "\<lambda>v :: u32. item_setIntAttr ITEM_ATTRIBUTE_DEFENSE (scast v)"]) (simp_all add: readAttr_defs)

lemma reads_as_EXTRADEFENSE:
  "reads_as T (ATTR_EXTRADEFENSE # le_bytes 4 (v :: u32)) (item_setIntAttr ITEM_ATTRIBUTE_EXTRADEFENSE (scast v))"
  by (rule reads_as_32 [where f = "\<lambda>v :: u32. item_setIntAttr ITEM_ATTRIBUTE_EXTRADEFENSE (scast v)"]) (simp_all add: readAttr_defs)

lemma reads_as_ARMOR:
  "reads_as T (ATTR_ARMOR # le_bytes 4 (v :: u32)) (item_setIntAttr ITEM_ATTRIBUTE_ARMOR (scast v))"
  by (rule reads_as_32 [where f = "\<lambda>v :: u32. item_setIntAttr ITEM_ATTRIBUTE_ARMOR (scast v)"]) (simp_all add: readAttr_defs)

lemma reads_as_DECAYTO:
  "reads_as T (ATTR_DECAYTO # le_bytes 4 (v :: u32)) (item_setIntAttr ITEM_ATTRIBUTE_DECAYTO (scast v))"
  by (rule reads_as_32 [where f = "\<lambda>v :: u32. item_setIntAttr ITEM_ATTRIBUTE_DECAYTO (scast v)"]) (simp_all add: readAttr_defs)

lemma reads_as_ACTION_ID:
  "reads_as T (ATTR_ACTION_ID # le_bytes 2 (v :: u16)) (setActionId v)"
  by (rule reads_as_16 [where f = "setActionId"]) (simp_all add: readAttr_defs)

lemma reads_as_CHARGES:
  "reads_as T (ATTR_CHARGES # le_bytes 2 (v :: u16)) (setSubType T v)"
  by (rule reads_as_16 [where f = "setSubType T"]) (simp_all add: readAttr_defs)

lemma reads_as_COUNT:
  "reads_as T [ATTR_COUNT, v :: byte] (setSubType T (ucast v))"
  by (rule reads_as_8 [where f = "\<lambda>v :: byte. setSubType T (ucast v)"]) (simp_all add: readAttr_defs)

lemma reads_as_HITCHANCE:
  "reads_as T [ATTR_HITCHANCE, v :: byte] (item_setIntAttr ITEM_ATTRIBUTE_HITCHANCE (scast v))"
  by (rule reads_as_8 [where f = "\<lambda>v :: byte. item_setIntAttr ITEM_ATTRIBUTE_HITCHANCE (scast v)"]) (simp_all add: readAttr_defs)

lemma reads_as_SHOOTRANGE:
  "reads_as T [ATTR_SHOOTRANGE, v :: byte] (item_setIntAttr ITEM_ATTRIBUTE_SHOOTRANGE (ucast v))"
  by (rule reads_as_8 [where f = "\<lambda>v :: byte. item_setIntAttr ITEM_ATTRIBUTE_SHOOTRANGE (ucast v)"]) (simp_all add: readAttr_defs)

text \<open>A decay state that is on is read as a pending one, whichever it was.\<close>

lemma reads_as_DECAYING_STATE:
  "v = DECAYING_TRUE \<or> v = DECAYING_PENDING \<Longrightarrow> reads_as T [ATTR_DECAYING_STATE, v] (setDecaying DECAYING_PENDING)"
  using reads_as_8 [of ATTR_DECAYING_STATE T "\<lambda>state. if state \<noteq> DECAYING_FALSE then setDecaying DECAYING_PENDING else id" v]
  by (auto simp: readAttr_defs DECAYING_FALSE_def DECAYING_TRUE_def DECAYING_PENDING_def)

lemmas reads_as_entries =   reads_as_TEXT reads_as_WRITTENBY reads_as_DESC reads_as_NAME
  reads_as_ARTICLE reads_as_PLURALNAME reads_as_WRITTENDATE reads_as_DURATION reads_as_WEIGHT
  reads_as_ATTACK reads_as_ATTACK_SPEED reads_as_DEFENSE reads_as_EXTRADEFENSE reads_as_ARMOR
  reads_as_DECAYTO reads_as_ACTION_ID reads_as_CHARGES reads_as_COUNT reads_as_HITCHANCE
  reads_as_SHOOTRANGE reads_as_DECAYING_STATE

lemma reads_as_serialized:
  assumes "strings_fit i"
  shows "reads_as T (serializeAttr T i []) (restore T i)"
proof -
  have lens: "length (item_getStrAttr t i) \<le> 65535" "length (getText i) \<le> 65535" "length (getWriter i) \<le> 65535"
    "length (getSpecialDescription i) \<le> 65535" for t
    using assms by (simp_all add: strings_fit_def getText_def getWriter_def getSpecialDescription_def)
  define m where "m = (if item_hasAttribute ITEM_ATTRIBUTE_CUSTOM i then getCustomAttributeMap (getAttributes i) else None)"
  have customs: "(case m of None \<Rightarrow> buf
      | Some m \<Rightarrow> fold write_custom_entry m (write64 (word_of_nat (length m)) (write8 ATTR_CUSTOM_ATTRIBUTES buf))) =
    buf @ (case m of None \<Rightarrow> []
      | Some m \<Rightarrow> fold write_custom_entry m (write64 (word_of_nat (length m)) (write8 ATTR_CUSTOM_ATTRIBUTES [])))" for buf
    by (simp add: write_custom_entries prop_write_def split: option.split)
  have customs_read: "reads_as T (case m of None \<Rightarrow> []
      | Some m \<Rightarrow> fold write_custom_entry m (write64 (word_of_nat (length m)) (write8 ATTR_CUSTOM_ATTRIBUTES [])))
     (case m of None \<Rightarrow> id | Some m \<Rightarrow> set_customs m)"
    using assms
    by (auto simp: m_def strings_fit_def reads_as_Nil simp del: One_nat_def intro!: reads_as_customs split: option.splits)
  show ?thesis
    unfolding serializeAttr_def restore_def Let_def
    unfolding put_append m_def [symmetric] append_Nil
    by (subst customs) (intro reads_as_append reads_as_if reads_as_entries customs_read lens)
qed

section \<open>What reading restores\<close>

abbreviation attr_of :: "item \<Rightarrow> item_attr \<Rightarrow> attr_value option" where
  "attr_of i \<equiv> attr_map (getAttributes i)"

text \<open>An item has become another one by storing some attributes in it, the last stored first.\<close>

definition stored :: "item \<Rightarrow> (item_attr \<times> attr_value) list \<Rightarrow> item \<Rightarrow> bool" where
  "stored x kvs y \<longleftrightarrow>
     attrs_ok (getAttributes y) \<and> attr_of y = attr_of x ++ map_of kvs \<and> i_id y = i_id x \<and> i_count y = i_count x"

lemma stored_refl: "attrs_ok (getAttributes x) \<Longrightarrow> stored x [] x"
  by (simp add: stored_def)

lemma getAttributes_with [simp]: "getAttributes (with_attributes f i) = f (getAttributes i)"
  by (simp add: with_attributes_def getAttributes_def)

lemma with_attributes_fields [simp]: "i_id (with_attributes f i) = i_id i" "i_count (with_attributes f i) = i_count i"
  by (simp_all add: with_attributes_def)

lemma stored_set_attr:
  assumes "stored x kvs y" and "t \<noteq> ITEM_ATTRIBUTE_NONE" and "\<And>a. f a = set_attr t v a"
  shows "stored x ((t, v) # kvs) (with_attributes f y)"
  using assms by (auto simp: stored_def set_attr_store)

lemma stored_int:
  assumes "stored x kvs y" and "isIntAttrType t" and "t \<notin> {ITEM_ATTRIBUTE_NONE, ITEM_ATTRIBUTE_ATTACK_SPEED}"
  shows "stored x ([(t, VInt n)] @ kvs) (item_setIntAttr t n y)"
  unfolding item_setIntAttr_def append_Cons append_Nil using assms
  by (intro stored_set_attr) (auto simp: setIntAttr_def)

lemma stored_speed:
  assumes "stored x kvs y"
  shows "stored x ([(ITEM_ATTRIBUTE_ATTACK_SPEED, VInt (if sint n < 100 then 100 else n))] @ kvs)
     (item_setIntAttr ITEM_ATTRIBUTE_ATTACK_SPEED n y)"
  unfolding item_setIntAttr_def append_Cons append_Nil using assms
  by (intro stored_set_attr) (auto simp: setIntAttr_def isIntAttrType_def intAttributeTypes_def)

lemma stored_str:
  assumes "stored x kvs y" and "isStrAttrType t" and "t \<noteq> ITEM_ATTRIBUTE_NONE"
  shows "stored x ((if s = [] then [] else [(t, VString s)]) @ kvs) (item_setStrAttr t s y)"
proof (cases "s = []")
  case True
  have "with_attributes (\<lambda>a. a) y = y\<lparr>i_attributes := Some (getAttributes y)\<rparr>" by (simp add: with_attributes_def)
  with True assms show ?thesis
    by (simp add: item_setStrAttr_def stored_def setStrAttr_def)
next
  case False
  then have "stored x ((t, VString s) # kvs) (item_setStrAttr t s y)"
    unfolding item_setStrAttr_def using assms by (intro stored_set_attr) (auto simp: setStrAttr_def)
  with False show ?thesis by simp
qed

text \<open>The same under a condition.\<close>

lemma stored_if_int:
  "stored x kvs y \<Longrightarrow> isIntAttrType t \<Longrightarrow> t \<notin> {ITEM_ATTRIBUTE_NONE, ITEM_ATTRIBUTE_ATTACK_SPEED} \<Longrightarrow>
   stored x ((if c then [(t, VInt n)] else []) @ kvs) ((if c then item_setIntAttr t n else id) y)"
  using stored_int [of x kvs y t n] by simp

lemma stored_if_speed:
  "stored x kvs y \<Longrightarrow>
   stored x ((if c then [(ITEM_ATTRIBUTE_ATTACK_SPEED, VInt (if sint n < 100 then 100 else n))] else []) @ kvs)
     ((if c then item_setIntAttr ITEM_ATTRIBUTE_ATTACK_SPEED n else id) y)"
  using stored_speed [of x kvs y n] by simp

lemma stored_if_str:
  "stored x kvs y \<Longrightarrow> isStrAttrType t \<Longrightarrow> t \<noteq> ITEM_ATTRIBUTE_NONE \<Longrightarrow>
   stored x ((if c then (if s = [] then [] else [(t, VString s)]) else []) @ kvs) ((if c then item_setStrAttr t s else id) y)"
  using stored_str [of x kvs y t s] by simp

lemmas attr_kinds = isIntAttrType_def intAttributeTypes_def isStrAttrType_def stringAttributeTypes_def

text \<open>What the plain attributes of an item are stored as, the last one first.\<close>

definition saved_attrs :: "items_table \<Rightarrow> item \<Rightarrow> (item_attr \<times> attr_value) list" where
  "saved_attrs T i =
     (let has = (\<lambda>t. item_hasAttribute t i);
          int = (\<lambda>t. item_getIntAttr t i);
          str = (\<lambda>t. item_getStrAttr t i);
          duration = ucast (int ITEM_ATTRIBUTE_DURATION) :: u32;
          speed = ucast (int ITEM_ATTRIBUTE_ATTACK_SPEED) :: u32
      in
      (if has ITEM_ATTRIBUTE_DECAYTO then [(ITEM_ATTRIBUTE_DECAYTO, VInt (scast (ucast (int ITEM_ATTRIBUTE_DECAYTO) :: u32)))] else []) @
      (if has ITEM_ATTRIBUTE_SHOOTRANGE then [(ITEM_ATTRIBUTE_SHOOTRANGE, VInt (ucast (ucast (int ITEM_ATTRIBUTE_SHOOTRANGE) :: byte)))] else []) @
      (if has ITEM_ATTRIBUTE_HITCHANCE then [(ITEM_ATTRIBUTE_HITCHANCE, VInt (scast (ucast (int ITEM_ATTRIBUTE_HITCHANCE) :: byte)))] else []) @
      (if has ITEM_ATTRIBUTE_ARMOR then [(ITEM_ATTRIBUTE_ARMOR, VInt (scast (ucast (int ITEM_ATTRIBUTE_ARMOR) :: u32)))] else []) @
      (if has ITEM_ATTRIBUTE_EXTRADEFENSE then [(ITEM_ATTRIBUTE_EXTRADEFENSE, VInt (scast (ucast (int ITEM_ATTRIBUTE_EXTRADEFENSE) :: u32)))] else []) @
      (if has ITEM_ATTRIBUTE_DEFENSE then [(ITEM_ATTRIBUTE_DEFENSE, VInt (scast (ucast (int ITEM_ATTRIBUTE_DEFENSE) :: u32)))] else []) @
      (if has ITEM_ATTRIBUTE_ATTACK_SPEED then [(ITEM_ATTRIBUTE_ATTACK_SPEED, VInt (if sint (ucast speed :: u64) < 100 then 100 else ucast speed))] else []) @
      (if has ITEM_ATTRIBUTE_ATTACK then [(ITEM_ATTRIBUTE_ATTACK, VInt (scast (ucast (int ITEM_ATTRIBUTE_ATTACK) :: u32)))] else []) @
      (if has ITEM_ATTRIBUTE_WEIGHT then [(ITEM_ATTRIBUTE_WEIGHT, VInt (ucast (ucast (int ITEM_ATTRIBUTE_WEIGHT) :: u32)))] else []) @
      (if has ITEM_ATTRIBUTE_PLURALNAME then (if str ITEM_ATTRIBUTE_PLURALNAME = [] then [] else [(ITEM_ATTRIBUTE_PLURALNAME, VString (str ITEM_ATTRIBUTE_PLURALNAME))]) else []) @
      (if has ITEM_ATTRIBUTE_ARTICLE then (if str ITEM_ATTRIBUTE_ARTICLE = [] then [] else [(ITEM_ATTRIBUTE_ARTICLE, VString (str ITEM_ATTRIBUTE_ARTICLE))]) else []) @
      (if has ITEM_ATTRIBUTE_NAME then (if str ITEM_ATTRIBUTE_NAME = [] then [] else [(ITEM_ATTRIBUTE_NAME, VString (str ITEM_ATTRIBUTE_NAME))]) else []) @
      (if getDecaying i = DECAYING_TRUE \<or> getDecaying i = DECAYING_PENDING
       then [(ITEM_ATTRIBUTE_DECAYSTATE, VInt (ucast DECAYING_PENDING))] else []) @
      (if has ITEM_ATTRIBUTE_DURATION then [(ITEM_ATTRIBUTE_DURATION, VInt (scast (if sint duration < 0 then 0 else duration)))] else []) @
      (if getSpecialDescription i \<noteq> [] then (if getSpecialDescription i = [] then [] else [(ITEM_ATTRIBUTE_DESCRIPTION, VString (getSpecialDescription i))]) else []) @
      (if getWriter i \<noteq> [] then (if getWriter i = [] then [] else [(ITEM_ATTRIBUTE_WRITER, VString (getWriter i))]) else []) @
      (if getDate i \<noteq> 0 then [(ITEM_ATTRIBUTE_DATE, VInt (scast (ucast (getDate i) :: u32)))] else []) @
      (if getText i \<noteq> [] then (if getText i = [] then [] else [(ITEM_ATTRIBUTE_TEXT, VString (getText i))]) else []) @
      (if it_moveable (type_of T i) \<and> getActionId i \<noteq> 0
       then [(ITEM_ATTRIBUTE_ACTIONID, VInt (ucast (if getActionId i < 100 then 100 else getActionId i)))] else []) @ [])"

text \<open>The counts and charges come first, and the custom attributes last.\<close>

definition restore_counts :: "items_table \<Rightarrow> item \<Rightarrow> item \<Rightarrow> item" where
  "restore_counts T i x =
     (let it = type_of T i;
          x = (if it_stackable it \<or> isFluidContainer it \<or> isSplash it
               then setSubType T (ucast (ucast (getSubType T i) :: byte)) else id) x
      in (if getCharges i \<noteq> 0 then setSubType T (getCharges i) else id) x)"

lemma restore_stored:
  assumes "attrs_ok (getAttributes (restore_counts T i x))"
  shows "\<exists>y. stored (restore_counts T i x) (saved_attrs T i) y \<and>
    restore T i x = (case (if item_hasAttribute ITEM_ATTRIBUTE_CUSTOM i then getCustomAttributeMap (getAttributes i) else None) of
      None \<Rightarrow> id | Some m \<Rightarrow> set_customs m) y"
proof -
  define m where "m = (if item_hasAttribute ITEM_ATTRIBUTE_CUSTOM i then getCustomAttributeMap (getAttributes i) else None)"
  have base: "stored (restore_counts T i x) [] (restore_counts T i x)" using assms by (rule stored_refl)
  have counts: "(if getCharges i \<noteq> 0 then setSubType T (getCharges i) else id)
      ((if it_stackable (type_of T i) \<or> isFluidContainer (type_of T i) \<or> isSplash (type_of T i)
        then setSubType T (ucast (ucast (getSubType T i) :: byte)) else id) x) = restore_counts T i x"
    by (simp add: restore_counts_def Let_def)
  have kinds: "isStrAttrType ITEM_ATTRIBUTE_TEXT" "isStrAttrType ITEM_ATTRIBUTE_WRITER"
    "isStrAttrType ITEM_ATTRIBUTE_DESCRIPTION" "isStrAttrType ITEM_ATTRIBUTE_NAME"
    "isStrAttrType ITEM_ATTRIBUTE_ARTICLE" "isStrAttrType ITEM_ATTRIBUTE_PLURALNAME"
    "isIntAttrType ITEM_ATTRIBUTE_ACTIONID" "isIntAttrType ITEM_ATTRIBUTE_DATE" "isIntAttrType ITEM_ATTRIBUTE_DURATION"
    "isIntAttrType ITEM_ATTRIBUTE_DECAYSTATE" "isIntAttrType ITEM_ATTRIBUTE_WEIGHT" "isIntAttrType ITEM_ATTRIBUTE_ATTACK"
    "isIntAttrType ITEM_ATTRIBUTE_DEFENSE" "isIntAttrType ITEM_ATTRIBUTE_EXTRADEFENSE" "isIntAttrType ITEM_ATTRIBUTE_ARMOR"
    "isIntAttrType ITEM_ATTRIBUTE_HITCHANCE" "isIntAttrType ITEM_ATTRIBUTE_SHOOTRANGE" "isIntAttrType ITEM_ATTRIBUTE_DECAYTO"
    by (simp_all add: attr_kinds)
  show ?thesis
    unfolding restore_def saved_attrs_def Let_def o_apply m_def [symmetric] counts
      setText_def setDate_def setWriter_def setSpecialDescription_def setActionId_def setDuration_def setDecaying_def
    by (rule exI, rule conjI [OF _ refl], intro stored_if_int stored_if_speed stored_if_str base kinds) simp_all
qed

section \<open>Items that can be stored\<close>

text \<open>
  The values the accessors put into attributes, as far as an entry holds them: integers of the width
  of their entry, strings that are not empty and fit a length of 16 bits. Charges are not zero, nor
  are dates: no entry is written for those.
\<close>

fun value_ok :: "item_attr \<Rightarrow> attr_value \<Rightarrow> bool" where
  "value_ok t (VInt n) \<longleftrightarrow> isIntAttrType t \<and>
     (t \<in> {ITEM_ATTRIBUTE_CHARGES, ITEM_ATTRIBUTE_ACTIONID} \<longrightarrow> n = ucast (ucast n :: u16)) \<and>
     (t = ITEM_ATTRIBUTE_CHARGES \<longrightarrow> n \<noteq> 0) \<and>
     (t = ITEM_ATTRIBUTE_ACTIONID \<longrightarrow> 100 \<le> (ucast n :: u16)) \<and>
     (t = ITEM_ATTRIBUTE_DATE \<longrightarrow> n \<noteq> 0) \<and>
     (t = ITEM_ATTRIBUTE_DURATION \<longrightarrow> 0 \<le> sint (ucast n :: u32)) \<and>
     (t \<in> {ITEM_ATTRIBUTE_DATE, ITEM_ATTRIBUTE_DURATION, ITEM_ATTRIBUTE_ATTACK, ITEM_ATTRIBUTE_DEFENSE,
           ITEM_ATTRIBUTE_EXTRADEFENSE, ITEM_ATTRIBUTE_ARMOR, ITEM_ATTRIBUTE_DECAYTO} \<longrightarrow>
        n = scast (ucast n :: u32)) \<and>
     (t \<in> {ITEM_ATTRIBUTE_WEIGHT, ITEM_ATTRIBUTE_ATTACK_SPEED} \<longrightarrow> n = ucast (ucast n :: u32)) \<and>
     (t = ITEM_ATTRIBUTE_ATTACK_SPEED \<longrightarrow> 100 \<le> sint n) \<and>
     (t = ITEM_ATTRIBUTE_HITCHANCE \<longrightarrow> n = scast (ucast n :: byte)) \<and>
     (t \<in> {ITEM_ATTRIBUTE_SHOOTRANGE, ITEM_ATTRIBUTE_FLUIDTYPE} \<longrightarrow> n = ucast (ucast n :: byte)) \<and>
     (t = ITEM_ATTRIBUTE_DECAYSTATE \<longrightarrow> n \<in> {0, 1, 2})"
| "value_ok t (VString s) \<longleftrightarrow> isStrAttrType t \<and> s \<noteq> [] \<and> length s \<le> 65535"
| "value_ok t (VCustom m) \<longleftrightarrow> t = ITEM_ATTRIBUTE_CUSTOM \<and> list_all entry_ok m \<and> length m < 2 ^ 64 \<and>
     distinct (map fst m) \<and> list_all (\<lambda>e. toLowerCaseString (fst e) = fst e) m"

definition is_fluid :: "item_type \<Rightarrow> bool" where
  "is_fluid it \<longleftrightarrow> isFluidContainer it \<or> isSplash it"

definition storable :: "items_table \<Rightarrow> item \<Rightarrow> bool" where
  "storable T i \<longleftrightarrow>
     attrs_ok (getAttributes i) \<and>
     (\<forall>t v. attr_of i t = Some v \<longrightarrow> value_ok t v) \<and>
     (attr_of i ITEM_ATTRIBUTE_ACTIONID \<noteq> None \<longrightarrow> it_moveable (type_of T i)) \<and>
     (attr_of i ITEM_ATTRIBUTE_CHARGES \<noteq> None \<longleftrightarrow>
        \<not> is_fluid (type_of T i) \<and> \<not> it_stackable (type_of T i) \<and> it_charges (type_of T i) \<noteq> 0)"

lemma item_accessors:
  assumes "attrs_ok (getAttributes i)"
  shows "item_hasAttribute t i \<longleftrightarrow> attr_of i t \<noteq> None"
    and "item_getIntAttr t i = (if isIntAttrType t then case attr_of i t of Some (VInt n) \<Rightarrow> n | _ \<Rightarrow> 0 else 0)"
    and "item_getStrAttr t i = (if isStrAttrType t then case attr_of i t of Some (VString s) \<Rightarrow> s | _ \<Rightarrow> [] else [])"
    and "getCustomAttributeMap (getAttributes i) = (case attr_of i ITEM_ATTRIBUTE_CUSTOM of Some (VCustom m) \<Rightarrow> Some m | _ \<Rightarrow> None)"
    and "i_attributes i = None \<Longrightarrow> attr_of i = Map.empty"
  using assms
  by (auto simp: item_hasAttribute_def item_getIntAttr_def item_getStrAttr_def getAttributes_def has_attr_map
      getIntAttr_map getStrAttr_map no_attributes_ok getCustomAttributeMap_def getExistingAttr_map
      split: option.splits)

lemma item_getCustomAttribute_map:
  assumes "attrs_ok (getAttributes i)"
  shows "item_getCustomAttribute k i =
    (case attr_of i ITEM_ATTRIBUTE_CUSTOM of Some (VCustom m) \<Rightarrow> map_of m (toLowerCaseString k) | _ \<Rightarrow> None)"
  using item_accessors(4) [OF assms] item_accessors(5) [OF assms]
  by (auto simp: item_getCustomAttribute_def getCustomAttribute_def getAttributes_def split: option.splits attr_value.splits)

lemma setSubType_stored:
  assumes "attrs_ok (getAttributes x)"
  shows "attrs_ok (getAttributes (setSubType T n x))" and "i_id (setSubType T n x) = i_id x"
    and "attr_of (setSubType T n x) =
      (if is_fluid (type_of T x) then (attr_of x)(ITEM_ATTRIBUTE_FLUIDTYPE \<mapsto> VInt (ucast n))
       else if \<not> it_stackable (type_of T x) \<and> it_charges (type_of T x) \<noteq> 0
       then (attr_of x)(ITEM_ATTRIBUTE_CHARGES \<mapsto> VInt (ucast n)) else attr_of x)"
    and "i_count (setSubType T n x) =
      (if \<not> is_fluid (type_of T x) \<and> (it_stackable (type_of T x) \<or> it_charges (type_of T x) = 0) then ucast n else i_count x)"
proof -
  have kinds: "isIntAttrType ITEM_ATTRIBUTE_FLUIDTYPE" "isIntAttrType ITEM_ATTRIBUTE_CHARGES" by (simp_all add: attr_kinds)
  have ints: "stored x [(t, VInt m)] (item_setIntAttr t m x)"
    if "t \<in> {ITEM_ATTRIBUTE_FLUIDTYPE, ITEM_ATTRIBUTE_CHARGES}" for t m
    using stored_int [OF stored_refl [OF assms], of t m] that kinds by auto
  note ints [of ITEM_ATTRIBUTE_FLUIDTYPE "ucast n"] ints [of ITEM_ATTRIBUTE_CHARGES "ucast n"]
  moreover have "getAttributes (setItemCount (ucast n) x) = getAttributes x" by (simp add: setItemCount_def getAttributes_def)
  ultimately show "attrs_ok (getAttributes (setSubType T n x))" "i_id (setSubType T n x) = i_id x"
    "attr_of (setSubType T n x) =
      (if is_fluid (type_of T x) then (attr_of x)(ITEM_ATTRIBUTE_FLUIDTYPE \<mapsto> VInt (ucast n))
       else if \<not> it_stackable (type_of T x) \<and> it_charges (type_of T x) \<noteq> 0
       then (attr_of x)(ITEM_ATTRIBUTE_CHARGES \<mapsto> VInt (ucast n)) else attr_of x)"
    "i_count (setSubType T n x) =
      (if \<not> is_fluid (type_of T x) \<and> (it_stackable (type_of T x) \<or> it_charges (type_of T x) = 0) then ucast n else i_count x)"
    using assms
    by (simp_all add: setSubType_def Let_def is_fluid_def stored_def setFluidType_def setCharges_def) (simp_all add: setItemCount_def)
qed

lemma set_customs_stored:
  assumes "attrs_ok (getAttributes y)"
    and "attr_of y ITEM_ATTRIBUTE_CUSTOM = (if pre = [] then None else Some (VCustom pre))"
    and "distinct (map fst (pre @ m))" and "list_all (\<lambda>e. toLowerCaseString (fst e) = fst e) m"
  shows "attrs_ok (getAttributes (set_customs m y)) \<and> i_id (set_customs m y) = i_id y \<and> i_count (set_customs m y) = i_count y \<and>
    attr_of (set_customs m y) = (attr_of y)(ITEM_ATTRIBUTE_CUSTOM := if pre @ m = [] then None else Some (VCustom (pre @ m)))"
  using assms
proof (induction m arbitrary: pre y)
  case Nil
  then show ?case by (auto simp: fun_upd_idem)
next
  case (Cons e m)
  obtain k v where e: "e = (k, v)" by (cases e)
  have k: "toLowerCaseString k = k" "map_of pre k = None"
    using Cons.prems(3,4) by (auto simp: e map_of_eq_None_iff)
  define a where "a = getAttributes y"
  have a: "attrs_ok a" "attr_map a ITEM_ATTRIBUTE_CUSTOM = (if pre = [] then None else Some (VCustom pre))"
    using Cons.prems by (simp_all add: a_def)
  define a' where "a' = (if hasAttribute ITEM_ATTRIBUTE_CUSTOM a then snd (removeCustomAttribute k a)
      else set_attr ITEM_ATTRIBUTE_CUSTOM (VCustom []) a)"
  have a': "attrs_ok a'" "attr_map a' = (attr_map a)(ITEM_ATTRIBUTE_CUSTOM \<mapsto> VCustom pre)"
    using a k by (auto simp: a'_def has_attr_map set_attr_store removeCustomAttribute_def getCustomAttributeMap_def
        getExistingAttr_map fun_upd_idem split: if_splits)
  then have "getCustomAttributeMap a' = Some pre"
    by (simp add: getCustomAttributeMap_def has_attr_map getExistingAttr_map)
  then have "setCustomAttribute k v a = set_attr ITEM_ATTRIBUTE_CUSTOM (VCustom (pre @ [(k, v)])) a'"
    using k by (simp add: setCustomAttribute_def Let_def a'_def)
  then have y': "attrs_ok (getAttributes (item_setCustomAttribute k v y))"
    "attr_of (item_setCustomAttribute k v y) = (attr_of y)(ITEM_ATTRIBUTE_CUSTOM \<mapsto> VCustom (pre @ [(k, v)]))"
    "i_id (item_setCustomAttribute k v y) = i_id y" "i_count (item_setCustomAttribute k v y) = i_count y"
    using a' by (simp_all add: item_setCustomAttribute_def set_attr_store a_def)
  have custom: "attr_of (item_setCustomAttribute k v y) ITEM_ATTRIBUTE_CUSTOM =
      (if pre @ [(k, v)] = [] then None else Some (VCustom (pre @ [(k, v)])))" by (simp add: y')
  have "attr_of (set_customs m (item_setCustomAttribute k v y)) =
      (attr_of (item_setCustomAttribute k v y))(ITEM_ATTRIBUTE_CUSTOM :=
        if (pre @ [(k, v)]) @ m = [] then None else Some (VCustom ((pre @ [(k, v)]) @ m)))"
    "attrs_ok (getAttributes (set_customs m (item_setCustomAttribute k v y)))"
    "i_id (set_customs m (item_setCustomAttribute k v y)) = i_id y"
    "i_count (set_customs m (item_setCustomAttribute k v y)) = i_count y"
    using Cons.IH [OF y'(1) custom] Cons.prems(3,4) by (simp_all add: e y' fun_upd_def fun_eq_iff)
  then show ?case by (simp add: e y' fun_upd_def fun_eq_iff)
qed

section \<open>The round trip\<close>

text \<open>The attributes with an entry of their own, but for the decay state.\<close>

definition saved_types :: "item_attr set" where
  "saved_types =
     {ITEM_ATTRIBUTE_ACTIONID, ITEM_ATTRIBUTE_TEXT, ITEM_ATTRIBUTE_DATE, ITEM_ATTRIBUTE_WRITER,
      ITEM_ATTRIBUTE_DESCRIPTION, ITEM_ATTRIBUTE_DURATION, ITEM_ATTRIBUTE_NAME, ITEM_ATTRIBUTE_ARTICLE,
      ITEM_ATTRIBUTE_PLURALNAME, ITEM_ATTRIBUTE_WEIGHT, ITEM_ATTRIBUTE_ATTACK, ITEM_ATTRIBUTE_ATTACK_SPEED,
      ITEM_ATTRIBUTE_DEFENSE, ITEM_ATTRIBUTE_EXTRADEFENSE, ITEM_ATTRIBUTE_ARMOR, ITEM_ATTRIBUTE_HITCHANCE,
      ITEM_ATTRIBUTE_SHOOTRANGE, ITEM_ATTRIBUTE_DECAYTO}"

lemma map_of_if_one: "map_of ((if c then [(u, v)] else []) @ kvs) t = (if c \<and> t = u then Some v else map_of kvs t)"
  by simp

lemma map_of_if_str:
  "map_of ((if c then (if s = [] then [] else [(u, v)]) else []) @ kvs) t = (if c \<and> s \<noteq> [] \<and> t = u then Some v else map_of kvs t)"
  by simp

lemma saved_attrs_at:
  shows "map_of (saved_attrs T i) ITEM_ATTRIBUTE_DECAYTO =
     (if item_hasAttribute ITEM_ATTRIBUTE_DECAYTO i then Some (VInt (scast (ucast (item_getIntAttr ITEM_ATTRIBUTE_DECAYTO i) :: u32))) else None)"
    and "map_of (saved_attrs T i) ITEM_ATTRIBUTE_SHOOTRANGE =
     (if item_hasAttribute ITEM_ATTRIBUTE_SHOOTRANGE i then Some (VInt (ucast (ucast (item_getIntAttr ITEM_ATTRIBUTE_SHOOTRANGE i) :: byte))) else None)"
    and "map_of (saved_attrs T i) ITEM_ATTRIBUTE_HITCHANCE =
     (if item_hasAttribute ITEM_ATTRIBUTE_HITCHANCE i then Some (VInt (scast (ucast (item_getIntAttr ITEM_ATTRIBUTE_HITCHANCE i) :: byte))) else None)"
    and "map_of (saved_attrs T i) ITEM_ATTRIBUTE_ARMOR =
     (if item_hasAttribute ITEM_ATTRIBUTE_ARMOR i then Some (VInt (scast (ucast (item_getIntAttr ITEM_ATTRIBUTE_ARMOR i) :: u32))) else None)"
    and "map_of (saved_attrs T i) ITEM_ATTRIBUTE_EXTRADEFENSE =
     (if item_hasAttribute ITEM_ATTRIBUTE_EXTRADEFENSE i then Some (VInt (scast (ucast (item_getIntAttr ITEM_ATTRIBUTE_EXTRADEFENSE i) :: u32))) else None)"
    and "map_of (saved_attrs T i) ITEM_ATTRIBUTE_DEFENSE =
     (if item_hasAttribute ITEM_ATTRIBUTE_DEFENSE i then Some (VInt (scast (ucast (item_getIntAttr ITEM_ATTRIBUTE_DEFENSE i) :: u32))) else None)"
    and "map_of (saved_attrs T i) ITEM_ATTRIBUTE_ATTACK =
     (if item_hasAttribute ITEM_ATTRIBUTE_ATTACK i then Some (VInt (scast (ucast (item_getIntAttr ITEM_ATTRIBUTE_ATTACK i) :: u32))) else None)"
    and "map_of (saved_attrs T i) ITEM_ATTRIBUTE_WEIGHT =
     (if item_hasAttribute ITEM_ATTRIBUTE_WEIGHT i then Some (VInt (ucast (ucast (item_getIntAttr ITEM_ATTRIBUTE_WEIGHT i) :: u32))) else None)"
    and "map_of (saved_attrs T i) ITEM_ATTRIBUTE_ATTACK_SPEED =
     (if item_hasAttribute ITEM_ATTRIBUTE_ATTACK_SPEED i then Some (VInt (let n = ucast (ucast (item_getIntAttr ITEM_ATTRIBUTE_ATTACK_SPEED i) :: u32) in if sint n < 100 then 100 else n)) else None)"
    and "map_of (saved_attrs T i) ITEM_ATTRIBUTE_PLURALNAME =
     (if item_hasAttribute ITEM_ATTRIBUTE_PLURALNAME i \<and> item_getStrAttr ITEM_ATTRIBUTE_PLURALNAME i \<noteq> [] then Some (VString (item_getStrAttr ITEM_ATTRIBUTE_PLURALNAME i)) else None)"
    and "map_of (saved_attrs T i) ITEM_ATTRIBUTE_ARTICLE =
     (if item_hasAttribute ITEM_ATTRIBUTE_ARTICLE i \<and> item_getStrAttr ITEM_ATTRIBUTE_ARTICLE i \<noteq> [] then Some (VString (item_getStrAttr ITEM_ATTRIBUTE_ARTICLE i)) else None)"
    and "map_of (saved_attrs T i) ITEM_ATTRIBUTE_NAME =
     (if item_hasAttribute ITEM_ATTRIBUTE_NAME i \<and> item_getStrAttr ITEM_ATTRIBUTE_NAME i \<noteq> [] then Some (VString (item_getStrAttr ITEM_ATTRIBUTE_NAME i)) else None)"
    and "map_of (saved_attrs T i) ITEM_ATTRIBUTE_DECAYSTATE =
     (if getDecaying i = DECAYING_TRUE \<or> getDecaying i = DECAYING_PENDING then Some (VInt (ucast DECAYING_PENDING)) else None)"
    and "map_of (saved_attrs T i) ITEM_ATTRIBUTE_DURATION =
     (if item_hasAttribute ITEM_ATTRIBUTE_DURATION i then Some (VInt (let d = ucast (item_getIntAttr ITEM_ATTRIBUTE_DURATION i) :: u32 in scast (if sint d < 0 then 0 else d))) else None)"
    and "map_of (saved_attrs T i) ITEM_ATTRIBUTE_DESCRIPTION =
     (if getSpecialDescription i \<noteq> [] then Some (VString (getSpecialDescription i)) else None)"
    and "map_of (saved_attrs T i) ITEM_ATTRIBUTE_WRITER =
     (if getWriter i \<noteq> [] then Some (VString (getWriter i)) else None)"
    and "map_of (saved_attrs T i) ITEM_ATTRIBUTE_TEXT =
     (if getText i \<noteq> [] then Some (VString (getText i)) else None)"
    and "map_of (saved_attrs T i) ITEM_ATTRIBUTE_DATE =
     (if getDate i \<noteq> 0 then Some (VInt (scast (ucast (getDate i) :: u32))) else None)"
    and "map_of (saved_attrs T i) ITEM_ATTRIBUTE_ACTIONID =
     (if it_moveable (type_of T i) \<and> getActionId i \<noteq> 0 then Some (VInt (let n = getActionId i in ucast (if n < 100 then 100 else n))) else None)"
    and "map_of (saved_attrs T i) ITEM_ATTRIBUTE_CUSTOM =
     None"
    and "map_of (saved_attrs T i) ITEM_ATTRIBUTE_CHARGES =
     None"
    and "map_of (saved_attrs T i) ITEM_ATTRIBUTE_FLUIDTYPE =
     None"
  by (simp_all only: saved_attrs_def Let_def map_of_if_one map_of_if_str item_attr.distinct simp_thms if_False if_True map_of.simps)
    (simp_all only: refl simp_thms if_cancel cong: if_cong)?

lemma storable_facts:
  assumes "storable T i"
  shows "attrs_ok (getAttributes i)" and "attr_of i t = Some v \<Longrightarrow> value_ok t v"
    and "attr_of i ITEM_ATTRIBUTE_ACTIONID \<noteq> None \<Longrightarrow> it_moveable (type_of T i)"
    and "getText i = item_getStrAttr ITEM_ATTRIBUTE_TEXT i" and "getWriter i = item_getStrAttr ITEM_ATTRIBUTE_WRITER i"
    and "getSpecialDescription i = item_getStrAttr ITEM_ATTRIBUTE_DESCRIPTION i"
    and "getDate i = item_getIntAttr ITEM_ATTRIBUTE_DATE i"
    and "getActionId i = ucast (item_getIntAttr ITEM_ATTRIBUTE_ACTIONID i)"
  using assms
  by (simp_all add: storable_def getText_def getWriter_def getSpecialDescription_def getDate_def getActionId_def item_getIntAttr_def)

lemma at_least_100: "100 \<le> (w :: u16) \<Longrightarrow> (w < 100) = False" "100 \<le> (w :: u16) \<Longrightarrow> (w = 0) = False"
  by auto

lemma saved_attrs_map:
  assumes ok: "storable T i" and t: "t \<in> saved_types"
  shows "map_of (saved_attrs T i) t = attr_of i t"
proof -
  note acc = item_accessors(1-3) [OF storable_facts(1) [OF ok]]
  show ?thesis
  proof (cases "attr_of i t")
    case None
    then show ?thesis
      using t unfolding saved_types_def
      by (elim insertE emptyE; simp only: saved_attrs_at storable_facts(4-8) [OF ok] acc; simp)
  next
    case (Some v)
    from storable_facts(2) [OF ok this] have v: "value_ok t v" .
    show ?thesis
    proof (cases v)
      case (VInt n)
      with v have "isIntAttrType t" by simp
      with v t Some VInt storable_facts(3) [OF ok] show ?thesis unfolding saved_types_def
        by (elim insertE emptyE; simp only: saved_attrs_at storable_facts(4-8) [OF ok] acc; simp add: attr_kinds Let_def at_least_100)
    next
      case (VString s)
      with v have "isStrAttrType t" by simp
      with v t Some VString show ?thesis unfolding saved_types_def
        by (elim insertE emptyE; simp only: saved_attrs_at storable_facts(4-8) [OF ok] acc; simp add: attr_kinds)
    next
      case (VCustom m)
      with v t show ?thesis by (simp add: saved_types_def)
    qed
  qed
qed

lemma new_item_attributes:
  shows "attrs_ok (getAttributes (new_item T ty c))" and "i_id (new_item T ty c) = ty"
    and "t \<notin> {ITEM_ATTRIBUTE_FLUIDTYPE, ITEM_ATTRIBUTE_CHARGES, ITEM_ATTRIBUTE_DURATION} \<Longrightarrow>
      attr_of (new_item T ty c) t = None"
proof -
  have kinds: "isIntAttrType ITEM_ATTRIBUTE_FLUIDTYPE" "isIntAttrType ITEM_ATTRIBUTE_CHARGES" "isIntAttrType ITEM_ATTRIBUTE_DURATION"
    by (simp_all add: attr_kinds)
  define raw where "raw = \<lparr>i_id = ty, i_count = 1, i_attributes = None, i_loadedFromMap = False\<rparr>"
  have raw: "getAttributes raw = no_attributes" "i_id raw = ty" by (simp_all add: raw_def getAttributes_def)
  have count: "getAttributes (setItemCount n x) = getAttributes x" "i_id (setItemCount n x) = i_id x" for n x
    by (simp_all add: setItemCount_def getAttributes_def)
  define mid where "mid = (let it = items_at T ty in
      if isFluidContainer it \<or> isSplash it then setFluidType c raw
      else if it_stackable it then
        (if c \<noteq> 0 then setItemCount (ucast c) raw
         else if it_charges it \<noteq> 0 then setItemCount (ucast (it_charges it)) raw else raw)
      else if it_charges it \<noteq> 0 then
        (if c \<noteq> 0 then setCharges c raw else setCharges (ucast (it_charges it)) raw)
      else raw)"
  have int: "attrs_ok (getAttributes (item_setIntAttr u n x)) \<and> i_id (item_setIntAttr u n x) = i_id x \<and>
      attr_of (item_setIntAttr u n x) = (attr_of x)(u \<mapsto> VInt n)"
    if "attrs_ok (getAttributes x)" "u \<in> {ITEM_ATTRIBUTE_FLUIDTYPE, ITEM_ATTRIBUTE_CHARGES, ITEM_ATTRIBUTE_DURATION}" for u n x
    using stored_int [OF stored_refl [OF that(1)], of u n] that(2) kinds by (auto simp: stored_def)
  have mid: "attrs_ok (getAttributes mid)" "i_id mid = ty"
    "u \<notin> {ITEM_ATTRIBUTE_FLUIDTYPE, ITEM_ATTRIBUTE_CHARGES, ITEM_ATTRIBUTE_DURATION} \<Longrightarrow> attr_of mid u = None" for u
    using int [of raw] by (auto simp: mid_def Let_def setFluidType_def setCharges_def raw count no_attributes_ok)
  have "new_item T ty c = setDefaultDuration T mid"
    by (simp add: new_item_def mid_def raw_def Let_def)
  then show "attrs_ok (getAttributes (new_item T ty c))" "i_id (new_item T ty c) = ty"
    "t \<notin> {ITEM_ATTRIBUTE_FLUIDTYPE, ITEM_ATTRIBUTE_CHARGES, ITEM_ATTRIBUTE_DURATION} \<Longrightarrow>
      attr_of (new_item T ty c) t = None"
    using int [of mid ITEM_ATTRIBUTE_DURATION] mid
    by (auto simp: setDefaultDuration_def Let_def setDuration_def)
qed

lemma casts:
  "(ucast (ucast (b :: byte) :: u16) :: byte) = b" "(ucast (ucast b :: u64) :: u16) = ucast b"
  "(ucast (ucast b :: u64) :: byte) = b" "(ucast (ucast (w :: u16) :: u64) :: u16) = w"
  by (auto intro!: bit_eqI simp: bit_ucast_iff)

lemma int_getters:
  "getCharges i = ucast (item_getIntAttr ITEM_ATTRIBUTE_CHARGES i)"
  "getFluidType i = ucast (item_getIntAttr ITEM_ATTRIBUTE_FLUIDTYPE i)"
  "getDecaying i = ucast (item_getIntAttr ITEM_ATTRIBUTE_DECAYSTATE i)"
  by (simp_all add: getCharges_def getFluidType_def getDecaying_def item_getIntAttr_def DECAYING_FALSE_def)

lemma storable_counts:
  assumes "storable T i"
  shows "getCharges i \<noteq> 0 \<longleftrightarrow> \<not> is_fluid (type_of T i) \<and> \<not> it_stackable (type_of T i) \<and> it_charges (type_of T i) \<noteq> 0"
    and "ucast (ucast (getFluidType i) :: byte) = getFluidType i"
proof -
  have kinds: "isIntAttrType ITEM_ATTRIBUTE_FLUIDTYPE" "isIntAttrType ITEM_ATTRIBUTE_CHARGES" by (simp_all add: attr_kinds)
  note acc = item_accessors(2) [OF storable_facts(1) [OF assms]]
  show "getCharges i \<noteq> 0 \<longleftrightarrow> \<not> is_fluid (type_of T i) \<and> \<not> it_stackable (type_of T i) \<and> it_charges (type_of T i) \<noteq> 0"
  proof (cases "attr_of i ITEM_ATTRIBUTE_CHARGES")
    case None
    then show ?thesis using assms by (simp add: int_getters acc kinds storable_def)
  next
    case (Some v)
    from storable_facts(2) [OF assms this] obtain n where v: "v = VInt n" and n: "n = ucast (ucast n :: u16)" "n \<noteq> 0"
      by (cases v) (auto simp: attr_kinds)
    then have "(ucast n :: u16) \<noteq> 0" by auto
    with Some v show ?thesis using assms by (simp add: int_getters acc kinds storable_def)
  qed
  show "ucast (ucast (getFluidType i) :: byte) = getFluidType i"
  proof (cases "attr_of i ITEM_ATTRIBUTE_FLUIDTYPE")
    case None
    then show ?thesis by (simp add: int_getters acc kinds)
  next
    case (Some v)
    from storable_facts(2) [OF assms this] obtain n where v: "v = VInt n" and n: "n = ucast (ucast n :: byte)"
      by (cases v) (auto simp: attr_kinds)
    then obtain c :: byte where "n = ucast c" by blast
    with Some v show ?thesis by (simp add: int_getters acc kinds casts)
  qed
qed

lemma restore_counts_stored:
  assumes ok: "storable T i" and same: "i_id x = i_id i" and x: "attrs_ok (getAttributes x)"
  shows "attrs_ok (getAttributes (restore_counts T i x))" and "i_id (restore_counts T i x) = i_id i"
    and "t \<notin> {ITEM_ATTRIBUTE_FLUIDTYPE, ITEM_ATTRIBUTE_CHARGES} \<Longrightarrow> attr_of (restore_counts T i x) t = attr_of x t"
    and "hasSubType (type_of T i) \<Longrightarrow> getSubType T (restore_counts T i x) = getSubType T i"
proof -
  have kinds: "isIntAttrType ITEM_ATTRIBUTE_FLUIDTYPE" "isIntAttrType ITEM_ATTRIBUTE_CHARGES" by (simp_all add: attr_kinds)
  note sub = setSubType_stored [where T = T]
  note counts = storable_counts [OF ok]
  consider (written) "is_fluid (type_of T i) \<or> it_stackable (type_of T i)"
    | (charges) "\<not> is_fluid (type_of T i)" "\<not> it_stackable (type_of T i)" "it_charges (type_of T i) \<noteq> 0"
    | (plain) "\<not> is_fluid (type_of T i)" "\<not> it_stackable (type_of T i)" "it_charges (type_of T i) = 0" by blast
  then have "attrs_ok (getAttributes (restore_counts T i x)) \<and> i_id (restore_counts T i x) = i_id i \<and>
    (t \<notin> {ITEM_ATTRIBUTE_FLUIDTYPE, ITEM_ATTRIBUTE_CHARGES} \<longrightarrow> attr_of (restore_counts T i x) t = attr_of x t) \<and>
    (hasSubType (type_of T i) \<longrightarrow> getSubType T (restore_counts T i x) = getSubType T i)"
  proof cases
    case written
    define y where "y = setSubType T (ucast (ucast (getSubType T i) :: byte)) x"
    have "restore_counts T i x = y"
      using written counts by (auto simp: restore_counts_def Let_def y_def is_fluid_def)
    moreover have y: "attrs_ok (getAttributes y)" "i_id y = i_id i" using sub [OF x] same by (simp_all add: y_def)
    moreover have "getSubType T y = getSubType T i"
    proof (cases "is_fluid (type_of T i)")
      case True
      then have "attr_of y ITEM_ATTRIBUTE_FLUIDTYPE = Some (VInt (ucast (ucast (ucast (getFluidType i) :: byte) :: u16)))"
        using sub(3) [OF x] same by (simp add: y_def getSubType_def is_fluid_def Let_def)
      then have "getFluidType y = getFluidType i"
        using counts(2) by (simp add: int_getters(2) [of y] item_accessors(2) [OF y(1)] kinds casts)
      with True y(2) show ?thesis by (simp add: getSubType_def is_fluid_def Let_def)
    next
      case False
      with written show ?thesis
        using sub(4) [OF x] same y(2) by (simp add: y_def getSubType_def is_fluid_def Let_def casts)
    qed
    ultimately show ?thesis using sub(3) [OF x] by (auto simp: y_def)
  next
    case charges
    define y where "y = setSubType T (getCharges i) x"
    have "restore_counts T i x = y"
      using charges counts by (auto simp: restore_counts_def Let_def y_def is_fluid_def)
    moreover have y: "attrs_ok (getAttributes y)" "i_id y = i_id i" using sub [OF x] same by (simp_all add: y_def)
    moreover have "attr_of y ITEM_ATTRIBUTE_CHARGES = Some (VInt (ucast (getCharges i)))"
      using sub(3) [OF x] same charges by (simp add: y_def)
    then have "getCharges y = getCharges i"
      by (simp add: int_getters(1) [of y] item_accessors(2) [OF y(1)] kinds casts)
    then have "getSubType T y = getSubType T i"
      using charges y(2) by (simp add: getSubType_def is_fluid_def Let_def)
    ultimately show ?thesis using sub(3) [OF x] by (auto simp: y_def)
  next
    case plain
    then have "restore_counts T i x = x"
      using counts by (auto simp: restore_counts_def Let_def is_fluid_def)
    then show ?thesis using plain x same by (auto simp: hasSubType_def is_fluid_def)
  qed
  then show "attrs_ok (getAttributes (restore_counts T i x))" and "i_id (restore_counts T i x) = i_id i"
    and "t \<notin> {ITEM_ATTRIBUTE_FLUIDTYPE, ITEM_ATTRIBUTE_CHARGES} \<Longrightarrow> attr_of (restore_counts T i x) t = attr_of x t"
    and "hasSubType (type_of T i) \<Longrightarrow> getSubType T (restore_counts T i x) = getSubType T i" by blast+
qed

text \<open>
  C19: An item that is written to a stream and read into a new item of its type comes back: the
  reader accepts the stream; the count, charges or fluid are the same; every attribute with an entry
  has the value it had, or the one a new item has if it was not set; a decay that runs or is pending
  is pending; and every custom attribute has its value. What the item must satisfy is what the
  accessors keep, within the widths of the entries.
\<close>

theorem item_storage_roundtrip:
  assumes "storable T i"
  shows "\<exists>r. unserializeAttr T (serializeAttr T i []) (new_item T (i_id i) 0, used) = (True, (r, used)) \<and>
    i_id r = i_id i \<and> (hasSubType (type_of T i) \<longrightarrow> getSubType T r = getSubType T i) \<and>
    (\<forall>t \<in> saved_types. attr_map (getAttributes r) t =
       (case attr_map (getAttributes i) t of
          Some v \<Rightarrow> Some v | None \<Rightarrow> attr_map (getAttributes (new_item T (i_id i) 0)) t)) \<and>
    getDecaying r = (if getDecaying i = DECAYING_FALSE then DECAYING_FALSE else DECAYING_PENDING) \<and>
    (\<forall>k. item_getCustomAttribute k r = item_getCustomAttribute k i)"
proof -
  define x where "x = new_item T (i_id i) 0"
  define z where "z = restore_counts T i x"
  define r where "r = restore T i x"
  have ok: "attrs_ok (getAttributes i)" by (rule storable_facts(1) [OF assms])
  have x: "attrs_ok (getAttributes x)" "i_id x = i_id i" by (simp_all add: x_def new_item_attributes)
  note z = restore_counts_stored [OF assms x(2,1), folded z_def]
  have custom_value: "\<And>m. attr_of i ITEM_ATTRIBUTE_CUSTOM = Some (VCustom m) \<Longrightarrow> value_ok ITEM_ATTRIBUTE_CUSTOM (VCustom m)"
    by (rule storable_facts(2) [OF assms])
  have "length (item_getStrAttr t i) \<le> 65535" for t
    using storable_facts(2) [OF assms, of t] by (auto simp: item_accessors(3) [OF ok] split: option.splits attr_value.splits)
  then have "strings_fit i"
    using custom_value by (auto simp: strings_fit_def item_accessors(4) [OF ok] split: option.splits attr_value.splits)
  from reads_as_serialized [OF this, of T] have "unserializeAttr T (serializeAttr T i [] @ []) (x, used) = unserializeAttr T [] (r, used)"
    by (simp only: reads_as_def r_def)
  then have read: "unserializeAttr T (serializeAttr T i []) (x, used) = (True, (r, used))"
    by (subst (asm) (2) unserializeAttr.simps) (simp add: prop_read_def)
  define m where "m = (case attr_of i ITEM_ATTRIBUTE_CUSTOM of Some (VCustom m) \<Rightarrow> m | _ \<Rightarrow> [])"
  from restore_stored [of T i x] z(1) obtain y where y: "stored z (saved_attrs T i) y" and ry:
    "r = (case (if item_hasAttribute ITEM_ATTRIBUTE_CUSTOM i then getCustomAttributeMap (getAttributes i) else None) of
      None \<Rightarrow> id | Some m \<Rightarrow> set_customs m) y" by (auto simp: z_def r_def)
  have r_customs: "r = set_customs m y"
    unfolding ry by (auto simp: m_def item_accessors(1,4) [OF ok] split: option.splits attr_value.splits)
  have y_attr: "attr_of y t = (case map_of (saved_attrs T i) t of None \<Rightarrow> attr_of z t | Some v \<Rightarrow> Some v)" for t
    using y by (simp add: stored_def map_add_def)
  have y_ok: "attrs_ok (getAttributes y)" "i_id y = i_id z" "i_count y = i_count z" using y by (simp_all add: stored_def)
  have "attr_of y ITEM_ATTRIBUTE_CUSTOM = None"
    by (simp add: y_attr saved_attrs_at z(3) x_def new_item_attributes)
  moreover have "distinct (map fst ([] @ m))" "list_all (\<lambda>e. toLowerCaseString (fst e) = fst e) m"
    using custom_value by (auto simp: m_def split: option.splits attr_value.splits)
  ultimately have r: "attrs_ok (getAttributes r)" "i_id r = i_id y" "i_count r = i_count y"
    "attr_of r = (attr_of y)(ITEM_ATTRIBUTE_CUSTOM := if m = [] then None else Some (VCustom m))"
    using set_customs_stored [of y "[]" m] y_ok(1) by (simp_all add: r_customs)
  have ids: "i_id r = i_id i" by (simp add: r y_ok z(2))
  have same_counts: "attr_of r t = attr_of z t" if "t \<in> {ITEM_ATTRIBUTE_CHARGES, ITEM_ATTRIBUTE_FLUIDTYPE}" for t
    using that by (auto simp: r y_attr saved_attrs_at)
  have kinds: "isIntAttrType ITEM_ATTRIBUTE_FLUIDTYPE" "isIntAttrType ITEM_ATTRIBUTE_CHARGES" "isIntAttrType ITEM_ATTRIBUTE_DECAYSTATE"
    by (simp_all add: attr_kinds)
  have "getCharges r = getCharges z" "getFluidType r = getFluidType z"
    by (simp_all add: int_getters item_accessors(2) [OF r(1)] item_accessors(2) [OF z(1)] same_counts)
  then have "getSubType T r = getSubType T z"
    by (simp add: getSubType_def Let_def ids z(2) r(3) y_ok(3))
  then have counts: "hasSubType (type_of T i) \<longrightarrow> getSubType T r = getSubType T i" using z(4) by simp
  have saved: "attr_of r t = (case attr_of i t of Some v \<Rightarrow> Some v | None \<Rightarrow> attr_of x t)" if "t \<in> saved_types" for t
  proof -
    have "t \<noteq> ITEM_ATTRIBUTE_CUSTOM" "t \<notin> {ITEM_ATTRIBUTE_FLUIDTYPE, ITEM_ATTRIBUTE_CHARGES}"
      using that by (auto simp: saved_types_def)
    then show ?thesis using saved_attrs_map [OF assms that] by (simp add: r y_attr z(3) split: option.split)
  qed
  have "attr_of r ITEM_ATTRIBUTE_DECAYSTATE =
      (if getDecaying i = DECAYING_TRUE \<or> getDecaying i = DECAYING_PENDING then Some (VInt (ucast DECAYING_PENDING)) else None)"
    by (simp add: r y_attr saved_attrs_at z(3) x_def new_item_attributes)
  moreover have "getDecaying i \<in> {DECAYING_FALSE, DECAYING_TRUE, DECAYING_PENDING}"
    using storable_facts(2) [OF assms, of ITEM_ATTRIBUTE_DECAYSTATE]
    by (auto simp: int_getters item_accessors(2) [OF ok] DECAYING_FALSE_def DECAYING_TRUE_def DECAYING_PENDING_def
        split: option.splits attr_value.splits)
  ultimately have decay: "getDecaying r = (if getDecaying i = DECAYING_FALSE then DECAYING_FALSE else DECAYING_PENDING)"
    by (auto simp: int_getters(3) [of r] item_accessors(2) [OF r(1)] kinds casts
        DECAYING_FALSE_def DECAYING_TRUE_def DECAYING_PENDING_def)
  have customs: "item_getCustomAttribute k r = item_getCustomAttribute k i" for k
    using storable_facts(2) [OF assms, of ITEM_ATTRIBUTE_CUSTOM]
    by (auto simp: item_getCustomAttribute_map [OF r(1)] item_getCustomAttribute_map [OF ok] r(4) m_def
        split: option.splits attr_value.splits)
  show ?thesis using read ids counts saved decay customs unfolding x_def by blast
qed

definition demo_table :: items_table where
  "demo_table = \<lparr>items = [new_item_type, new_item_type\<lparr>it_id := 1, it_charges := 5, it_moveable := True\<rparr>],
     clientIdToServerIdMap = [], majorVersion = 3, minorVersion = 20, buildNumber = 0\<rparr>"

text \<open>Three charges, a text, a decay that runs and a custom attribute.\<close>

definition demo_item :: item where
  "demo_item = \<lparr>i_id = 1, i_count = 1, i_attributes = Some
     (set_attr ITEM_ATTRIBUTE_CUSTOM (VCustom [([107], CInt 7)])
       (set_attr ITEM_ATTRIBUTE_DECAYSTATE (VInt 1)
         (set_attr ITEM_ATTRIBUTE_TEXT (VString [72, 105])
           (set_attr ITEM_ATTRIBUTE_CHARGES (VInt 3) no_attributes)))), i_loadedFromMap = False\<rparr>"

lemma demo_item_attributes:
  "attrs_ok (getAttributes demo_item)"
  "attr_of demo_item = [ITEM_ATTRIBUTE_CHARGES \<mapsto> VInt 3, ITEM_ATTRIBUTE_TEXT \<mapsto> VString [72, 105],
     ITEM_ATTRIBUTE_DECAYSTATE \<mapsto> VInt 1, ITEM_ATTRIBUTE_CUSTOM \<mapsto> VCustom [([107], CInt 7)]]"
  by (simp_all add: demo_item_def getAttributes_def set_attr_store no_attributes_ok)

lemma demo_item_type: "type_of demo_table demo_item = new_item_type\<lparr>it_id := 1, it_charges := 5, it_moveable := True\<rparr>"
  by (simp add: items_at_def demo_table_def demo_item_def getItemType_def)

lemma demo_item_storable: "storable demo_table demo_item"
  unfolding storable_def demo_item_type
  using demo_item_attributes(1)
  by (auto simp: demo_item_attributes(2) attr_kinds entry_ok_def toLowerCaseString_def lower_byte_def is_fluid_def
      isFluidContainer_def isSplash_def new_item_type_def split: if_splits)

theorem item_storage_roundtrip_witness:
  "\<exists>r. unserializeAttr demo_table (serializeAttr demo_table demo_item []) (new_item demo_table 1 0, {}) = (True, (r, {})) \<and>
     attr_of r ITEM_ATTRIBUTE_TEXT = Some (VString [72, 105]) \<and> getDecaying r = DECAYING_PENDING \<and>
     item_getCustomAttribute [75] r = Some (CInt 7)"
proof -
  have "getDecaying demo_item \<noteq> DECAYING_FALSE"
    by (simp add: int_getters item_accessors(2) [OF demo_item_attributes(1)] demo_item_attributes(2) attr_kinds DECAYING_FALSE_def)
  moreover have "item_getCustomAttribute [75] demo_item = Some (CInt 7)"
    by (simp add: item_getCustomAttribute_map [OF demo_item_attributes(1)] demo_item_attributes(2) toLowerCaseString_def lower_byte_def)
  moreover have "i_id demo_item = 1" by (simp add: demo_item_def)
  moreover have "ITEM_ATTRIBUTE_TEXT \<in> saved_types" by (simp add: saved_types_def)
  ultimately show ?thesis
    using item_storage_roundtrip [OF demo_item_storable, of "{}"] demo_item_attributes(2) by force
qed

section \<open>Comparing items\<close>

fun typed :: "item_attr \<Rightarrow> attr_value \<Rightarrow> bool" where
  "typed t (VInt n) \<longleftrightarrow> isIntAttrType t \<and> \<not> isStrAttrType t"
| "typed t (VString s) \<longleftrightarrow> isStrAttrType t"
| "typed t (VCustom m) \<longleftrightarrow> t = ITEM_ATTRIBUTE_CUSTOM"

definition well_typed :: "item \<Rightarrow> bool" where
  "well_typed i \<longleftrightarrow> attrs_ok (getAttributes i) \<and> (\<forall>t v. attr_of i t = Some v \<longrightarrow> typed t v)"

lemma attr_differs_typed:
  assumes "typed t v" and "typed t w"
  shows "attr_differs (t, v) (t, w) \<longleftrightarrow> v \<noteq> w \<or> t = ITEM_ATTRIBUTE_CUSTOM"
  using assms by (cases v; cases w) (auto simp: attr_differs_def attr_kinds)

text \<open>
  Two items are equal, for the server that stacks them, exactly when they have one id and the
  same attributes, none of which is a custom one: two items with custom attributes never are, even
  if those are the same, since it is the addresses of their maps that are compared.
\<close>

theorem item_equals_iff:
  assumes "well_typed i" and "well_typed j"
  shows "item_equals i j \<longleftrightarrow> i_id i = i_id j \<and> attr_map (getAttributes i) = attr_map (getAttributes j) \<and>
    attr_map (getAttributes i) ITEM_ATTRIBUTE_CUSTOM = None"
proof -
  define a where "a = getAttributes i"
  define b where "b = getAttributes j"
  have ok: "attrs_ok a" "attrs_ok b" using assms by (simp_all add: well_typed_def a_def b_def)
  have eq: "item_equals i j \<longleftrightarrow> i_id i = i_id j \<and> attributeBits a = attributeBits b \<and>
      (\<forall>x \<in> set (attributes a). \<forall>y \<in> set (attributes b). \<not> attr_differs x y)"
    by (auto simp: item_equals_def a_def b_def getAttributes_def no_attributes_def list_all_iff split: option.splits)
  have in_map: "(t, v) \<in> set (attributes c) \<longleftrightarrow> attr_map c t = Some v" if "attrs_ok c" for c t v
    using that by (simp add: attrs_ok_def attr_map_def)
  have types: "typed t v" if "attr_map a t = Some v \<or> attr_map b t = Some v" for t v
    using that assms by (auto simp: well_typed_def a_def b_def)
  have "(\<forall>x \<in> set (attributes a). \<forall>y \<in> set (attributes b). \<not> attr_differs x y) \<longleftrightarrow>
      (\<forall>t v w. attr_map a t = Some v \<longrightarrow> attr_map b t = Some w \<longrightarrow> v = w \<and> t \<noteq> ITEM_ATTRIBUTE_CUSTOM)"
    (is "?L \<longleftrightarrow> ?R")
  proof
    assume L: ?L
    show ?R
    proof (intro allI impI)
      fix t v w
      assume v: "attr_map a t = Some v" and w: "attr_map b t = Some w"
      then have "\<not> attr_differs (t, v) (t, w)" using L in_map ok by blast
      with v w types show "v = w \<and> t \<noteq> ITEM_ATTRIBUTE_CUSTOM" by (simp add: attr_differs_typed)
    qed
  next
    assume R: ?R
    show ?L
    proof (intro ballI)
      fix x y
      assume x: "x \<in> set (attributes a)" and y: "y \<in> set (attributes b)"
      obtain t v u w where xy: "x = (t, v)" "y = (u, w)" by (cases x; cases y)
      have v: "attr_map a t = Some v" and w: "attr_map b u = Some w" using x y in_map ok by (auto simp: xy)
      show "\<not> attr_differs x y"
      proof (cases "t = u")
        case True
        with R v w types show ?thesis by (simp add: xy attr_differs_typed)
      next
        case False
        then show ?thesis by (simp add: xy attr_differs_def)
      qed
    qed
  qed
  then have "item_equals i j \<longleftrightarrow> i_id i = i_id j \<and> (\<forall>t. attr_map a t = None \<longleftrightarrow> attr_map b t = None) \<and>
      (\<forall>t v w. attr_map a t = Some v \<longrightarrow> attr_map b t = Some w \<longrightarrow> v = w \<and> t \<noteq> ITEM_ATTRIBUTE_CUSTOM)"
    by (simp add: eq attributeBits_eq [OF ok])
  moreover have "(\<forall>t. attr_map a t = None \<longleftrightarrow> attr_map b t = None) \<and>
      (\<forall>t v w. attr_map a t = Some v \<longrightarrow> attr_map b t = Some w \<longrightarrow> v = w \<and> t \<noteq> ITEM_ATTRIBUTE_CUSTOM) \<longleftrightarrow>
    attr_map a = attr_map b \<and> attr_map a ITEM_ATTRIBUTE_CUSTOM = None" (is "?N \<and> ?S \<longleftrightarrow> ?E \<and> ?C")
  proof
    assume "?N \<and> ?S"
    then have none: "attr_map a t = None \<longleftrightarrow> attr_map b t = None"
      and some: "attr_map a t = Some v \<Longrightarrow> attr_map b t = Some w \<Longrightarrow> v = w \<and> t \<noteq> ITEM_ATTRIBUTE_CUSTOM" for t v w
      by blast+
    have "attr_map a t = attr_map b t" for t
      using none [of t] some [of t "the (attr_map a t)" "the (attr_map b t)"]
      by (cases "attr_map a t"; cases "attr_map b t") simp_all
    moreover have ?C
      using none [of ITEM_ATTRIBUTE_CUSTOM]
        some [of ITEM_ATTRIBUTE_CUSTOM "the (attr_map a ITEM_ATTRIBUTE_CUSTOM)" "the (attr_map b ITEM_ATTRIBUTE_CUSTOM)"]
      by (cases "attr_map a ITEM_ATTRIBUTE_CUSTOM"; cases "attr_map b ITEM_ATTRIBUTE_CUSTOM") simp_all
    ultimately show "?E \<and> ?C" by blast
  next
    assume "?E \<and> ?C"
    then have E: "attr_map a = attr_map b" and C: "attr_map b ITEM_ATTRIBUTE_CUSTOM = None" by metis+
    show "?N \<and> ?S" unfolding E using C by auto
  qed
  ultimately show ?thesis unfolding a_def [symmetric] b_def [symmetric] by blast
qed

theorem item_equals_iff_witness:
  "\<not> item_equals demo_item (demo_item\<lparr>i_count := 2\<rparr>) \<and>
   item_equals \<lparr>i_id = 1, i_count = 1, i_attributes = None, i_loadedFromMap = False\<rparr>
     \<lparr>i_id = 1, i_count = 7, i_attributes = Some no_attributes, i_loadedFromMap = True\<rparr>"
proof -
  have demo: "well_typed demo_item"
    using demo_item_attributes by (auto simp: well_typed_def attr_kinds split: if_splits)
  have other: "getAttributes (demo_item\<lparr>i_count := 2\<rparr>) = getAttributes demo_item" by (simp add: getAttributes_def)
  then have "well_typed (demo_item\<lparr>i_count := 2\<rparr>)" using demo by (simp add: well_typed_def)
  from item_equals_iff [OF demo this] have "\<not> item_equals demo_item (demo_item\<lparr>i_count := 2\<rparr>)"
    by (simp add: demo_item_attributes(2))
  moreover have "well_typed \<lparr>i_id = 1, i_count = c, i_attributes = x, i_loadedFromMap = l\<rparr>"
    if "x = None \<or> x = Some no_attributes" for c x l
    using that by (auto simp: well_typed_def getAttributes_def no_attributes_ok)
  from item_equals_iff [OF this this, of None "Some no_attributes" 1 False 7 True]
  have "item_equals \<lparr>i_id = 1, i_count = 1, i_attributes = None, i_loadedFromMap = False\<rparr>
     \<lparr>i_id = 1, i_count = 7, i_attributes = Some no_attributes, i_loadedFromMap = True\<rparr>"
    by (simp add: getAttributes_def no_attributes_ok)
  ultimately show ?thesis by blast
qed

end
