(* ===== verification/Game_Requests.thy ===== *)
theory Game_Requests
  imports Net_Message Geometry "HOL-Library.State_Monad"
begin

text \<open>
  What the game protocol makes of a packet: \<open>ProtocolGame::parsePacket\<close> and the parse functions of
  \<open>src/src/protocolgame.cpp\<close>. A parse function reads the message in the state monad and yields the
  tasks it adds to the dispatcher; a task is the call of a method of \<open>Game\<close>, whose name it has, with
  the arguments read from the packet (the id of the player, which is the same for all of them, is
  left out). The player is known by whether he is removed and by his health.
\<close>

section \<open>Tasks\<close>

datatype fight_mode = FIGHTMODE_ATTACK | FIGHTMODE_BALANCED | FIGHTMODE_DEFENSE

type_synonym wire_position = "u16 \<times> u16 \<times> byte"

record outfit =
  lookType :: u16
  lookTypeEx :: u16
  lookHead :: byte
  lookBody :: byte
  lookLegs :: byte
  lookFeet :: byte
  lookAddons :: byte

datatype (plugins only: code) request =
    logout
  | playerReceivePing
  | parsePlayerExtendedOpcode byte cstring
  | playerAutoWalk "direction list"
  | playerMove direction
  | playerStopAutoWalk
  | playerTurn direction
  | playerMoveThing wire_position u16 byte wire_position byte
  | playerLookInShop u16 byte
  | playerPurchaseItem u16 byte byte bool bool
  | playerSellItem u16 byte byte bool
  | playerCloseShop
  | playerRequestTrade wire_position byte u32 u16
  | playerLookInTrade bool byte
  | playerAcceptTrade
  | playerCloseTrade
  | playerUseItem wire_position byte byte u16
  | playerUseItemEx wire_position byte u16 wire_position byte u16
  | playerUseWithCreature wire_position byte u32 u16
  | playerRotateItem wire_position byte u16
  | playerCloseContainer byte
  | playerMoveUpContainer byte
  | playerWriteItem u32 cstring
  | playerUpdateHouseWindow byte u32 cstring
  | playerLookAt wire_position byte
  | playerLookInBattleList u32
  | playerSay u16 byte cstring cstring
  | playerRequestChannels
  | playerOpenChannel u16
  | playerCloseChannel u16
  | playerOpenPrivateChannel cstring
  | playerCloseNpcChannel
  | playerSetFightModes fight_mode bool bool
  | playerSetAttackedCreature u32
  | playerFollowCreature u32
  | playerInviteToParty u32
  | playerJoinParty u32
  | playerRevokePartyInvitation u32
  | playerPassPartyLeadership u32
  | playerLeaveParty
  | playerEnableSharedPartyExperience bool
  | playerCreatePrivateChannel
  | playerChannelInvite cstring
  | playerChannelExclude cstring
  | playerCancelAttackAndFollow
  | playerUpdateContainer byte
  | playerRequestOutfit
  | playerChangeOutfit outfit
  | playerRequestAddVip cstring
  | playerRequestRemoveVip u32
  | playerReportBug cstring
  | playerDebugAssert cstring cstring cstring cstring
  | playerShowQuestLog
  | playerShowQuestLine u16
  | playerReportRuleViolation cstring byte byte cstring cstring

text \<open>A task expires when it waits for more than its delay, or never.\<close>

datatype task = Task request | TimedTask nat request

definition DISPATCHER_TASK_EXPIRATION :: nat where "DISPATCHER_TASK_EXPIRATION = 2000"

type_synonym 'a parser = "(network_message, 'a) state"

definition read_byte :: "byte parser" where "read_byte = State getByte"
definition read_u16 :: "u16 parser" where "read_u16 = State get_u16"
definition read_u32 :: "u32 parser" where "read_u32 = State get_u32"
definition read_string :: "cstring parser" where "read_string = State (getString 0)"
definition read_position :: "wire_position parser" where "read_position = State getPosition"
definition read_skip :: "int \<Rightarrow> unit parser" where "read_skip n = State (\<lambda>m. ((), skipBytes n m))"

definition addGameTask :: "request \<Rightarrow> task list parser" where
  "addGameTask r = State_Monad.return [Task r]"

definition addGameTaskTimed :: "nat \<Rightarrow> request \<Rightarrow> task list parser" where
  "addGameTaskTimed delay r = State_Monad.return [TimedTask delay r]"

section \<open>The parse functions\<close>

definition parseChannelInvite :: "task list parser" where
  "parseChannelInvite = do { name \<leftarrow> read_string; addGameTask (playerChannelInvite name) }"

definition parseChannelExclude :: "task list parser" where
  "parseChannelExclude = do { name \<leftarrow> read_string; addGameTask (playerChannelExclude name) }"

definition parseOpenChannel :: "task list parser" where
  "parseOpenChannel = do { channelId \<leftarrow> read_u16; addGameTask (playerOpenChannel channelId) }"

definition parseCloseChannel :: "task list parser" where
  "parseCloseChannel = do { channelId \<leftarrow> read_u16; addGameTask (playerCloseChannel channelId) }"

definition parseOpenPrivateChannel :: "task list parser" where
  "parseOpenPrivateChannel = do { receiver \<leftarrow> read_string; addGameTask (playerOpenPrivateChannel receiver) }"

text \<open>
  The steps of a way, which are read from the last byte back to the first. \<open>None\<close> is a read outside
  the buffer.
\<close>

definition raw_direction :: "byte \<Rightarrow> direction list" where
  "raw_direction b =
     (if b = 1 then [EAST] else if b = 2 then [NORTHEAST] else if b = 3 then [NORTH] else if b = 4 then [NORTHWEST]
      else if b = 5 then [WEST] else if b = 6 then [SOUTHWEST] else if b = 7 then [SOUTH] else if b = 8 then [SOUTHEAST]
      else [])"

fun walk_loop :: "nat \<Rightarrow> direction list \<Rightarrow> network_message \<Rightarrow> (direction list \<times> network_message) option" where
  "walk_loop 0 path m = Some (path, m)"
| "walk_loop (Suc n) path m =
     (case getPreviousByte m of None \<Rightarrow> None
      | Some (rawdir, m) \<Rightarrow> walk_loop n (path @ raw_direction rawdir) m)"

definition parseAutoWalk :: "network_message \<Rightarrow> (task list \<times> network_message) option" where
  "parseAutoWalk m =
     (let (numdirs, m) = getByte m
      in if numdirs = 0 \<or> uint (msg_position m) + uint numdirs \<noteq> uint (msg_length m) + 8 then Some ([], m)
         else case walk_loop (unat numdirs) [] (skipBytes (uint numdirs) m) of
                None \<Rightarrow> None
              | Some (path, m) \<Rightarrow> if path = [] then Some ([], m) else Some ([Task (playerAutoWalk path)], m))"

definition parseSetOutfit :: "task list parser" where
  "parseSetOutfit = do {
     type \<leftarrow> read_u16;
     head \<leftarrow> read_byte;
     body \<leftarrow> read_byte;
     legs \<leftarrow> read_byte;
     feet \<leftarrow> read_byte;
     addons \<leftarrow> read_byte;
     addGameTask (playerChangeOutfit
       \<lparr>lookType = type, lookTypeEx = 0, lookHead = head, lookBody = body, lookLegs = legs,
        lookFeet = feet, lookAddons = addons\<rparr>)
   }"

definition parseUseItem :: "task list parser" where
  "parseUseItem = do {
     pos \<leftarrow> read_position;
     spriteId \<leftarrow> read_u16;
     stackpos \<leftarrow> read_byte;
     index \<leftarrow> read_byte;
     addGameTaskTimed DISPATCHER_TASK_EXPIRATION (playerUseItem pos stackpos index spriteId)
   }"

definition parseUseItemEx :: "task list parser" where
  "parseUseItemEx = do {
     fromPos \<leftarrow> read_position;
     fromSpriteId \<leftarrow> read_u16;
     fromStackPos \<leftarrow> read_byte;
     toPos \<leftarrow> read_position;
     toSpriteId \<leftarrow> read_u16;
     toStackPos \<leftarrow> read_byte;
     addGameTaskTimed DISPATCHER_TASK_EXPIRATION
       (playerUseItemEx fromPos fromStackPos fromSpriteId toPos toStackPos toSpriteId)
   }"

definition parseUseWithCreature :: "task list parser" where
  "parseUseWithCreature = do {
     fromPos \<leftarrow> read_position;
     spriteId \<leftarrow> read_u16;
     fromStackPos \<leftarrow> read_byte;
     creatureId \<leftarrow> read_u32;
     addGameTaskTimed DISPATCHER_TASK_EXPIRATION (playerUseWithCreature fromPos fromStackPos creatureId spriteId)
   }"

definition parseCloseContainer :: "task list parser" where
  "parseCloseContainer = do { cid \<leftarrow> read_byte; addGameTask (playerCloseContainer cid) }"

definition parseUpArrowContainer :: "task list parser" where
  "parseUpArrowContainer = do { cid \<leftarrow> read_byte; addGameTask (playerMoveUpContainer cid) }"

definition parseUpdateContainer :: "task list parser" where
  "parseUpdateContainer = do { cid \<leftarrow> read_byte; addGameTask (playerUpdateContainer cid) }"

definition parseThrow :: "task list parser" where
  "parseThrow = do {
     fromPos \<leftarrow> read_position;
     spriteId \<leftarrow> read_u16;
     fromStackpos \<leftarrow> read_byte;
     toPos \<leftarrow> read_position;
     count \<leftarrow> read_byte;
     if toPos \<noteq> fromPos
     then addGameTaskTimed DISPATCHER_TASK_EXPIRATION (playerMoveThing fromPos spriteId fromStackpos toPos count)
     else State_Monad.return []
   }"

definition parseLookAt :: "task list parser" where
  "parseLookAt = do {
     pos \<leftarrow> read_position;
     read_skip 2;
     stackpos \<leftarrow> read_byte;
     addGameTaskTimed DISPATCHER_TASK_EXPIRATION (playerLookAt pos stackpos)
   }"

definition parseLookInBattleList :: "task list parser" where
  "parseLookInBattleList = do {
     creatureId \<leftarrow> read_u32;
     addGameTaskTimed DISPATCHER_TASK_EXPIRATION (playerLookInBattleList creatureId)
   }"

definition TALKTYPE_PRIVATE :: byte where "TALKTYPE_PRIVATE = 6"
definition TALKTYPE_CHANNEL_Y :: byte where "TALKTYPE_CHANNEL_Y = 7"
definition TALKTYPE_CHANNEL_R1 :: byte where "TALKTYPE_CHANNEL_R1 = 13"
definition TALKTYPE_PRIVATE_RED :: byte where "TALKTYPE_PRIVATE_RED = 14"
definition TALKTYPE_CHANNEL_R2 :: byte where "TALKTYPE_CHANNEL_R2 = 17"

definition parseSay :: "task list parser" where
  "parseSay = do {
     type \<leftarrow> read_byte;
     (receiver, channelId) \<leftarrow>
       (if type = TALKTYPE_PRIVATE \<or> type = TALKTYPE_PRIVATE_RED then
          do { receiver \<leftarrow> read_string; State_Monad.return (receiver, 0) }
        else if type = TALKTYPE_CHANNEL_Y \<or> type = TALKTYPE_CHANNEL_R1 \<or> type = TALKTYPE_CHANNEL_R2 then
          do { channelId \<leftarrow> read_u16; State_Monad.return ([], channelId) }
        else State_Monad.return ([], 0));
     text \<leftarrow> read_string;
     if length text > 255 then State_Monad.return []
     else addGameTask (playerSay channelId type receiver text)
   }"

definition parseFightModes :: "task list parser" where
  "parseFightModes = do {
     rawFightMode \<leftarrow> read_byte;
     rawChaseMode \<leftarrow> read_byte;
     rawSecureMode \<leftarrow> read_byte;
     let fightMode = (if rawFightMode = 1 then FIGHTMODE_ATTACK
                      else if rawFightMode = 2 then FIGHTMODE_BALANCED else FIGHTMODE_DEFENSE);
     addGameTask (playerSetFightModes fightMode (rawChaseMode \<noteq> 0) (rawSecureMode \<noteq> 0))
   }"

definition parseAttack :: "task list parser" where
  "parseAttack = do { creatureId \<leftarrow> read_u32; addGameTask (playerSetAttackedCreature creatureId) }"

definition parseFollow :: "task list parser" where
  "parseFollow = do { creatureId \<leftarrow> read_u32; addGameTask (playerFollowCreature creatureId) }"

definition parseTextWindow :: "task list parser" where
  "parseTextWindow = do {
     windowTextId \<leftarrow> read_u32;
     newText \<leftarrow> read_string;
     addGameTask (playerWriteItem windowTextId newText)
   }"

definition parseHouseWindow :: "task list parser" where
  "parseHouseWindow = do {
     doorId \<leftarrow> read_byte;
     id \<leftarrow> read_u32;
     text \<leftarrow> read_string;
     addGameTask (playerUpdateHouseWindow doorId id text)
   }"

definition parseLookInShop :: "task list parser" where
  "parseLookInShop = do {
     id \<leftarrow> read_u16;
     count \<leftarrow> read_byte;
     addGameTaskTimed DISPATCHER_TASK_EXPIRATION (playerLookInShop id count)
   }"

definition parsePlayerPurchase :: "task list parser" where
  "parsePlayerPurchase = do {
     id \<leftarrow> read_u16;
     count \<leftarrow> read_byte;
     amount \<leftarrow> read_byte;
     ignoreCap \<leftarrow> read_byte;
     inBackpacks \<leftarrow> read_byte;
     addGameTaskTimed DISPATCHER_TASK_EXPIRATION (playerPurchaseItem id count amount (ignoreCap \<noteq> 0) (inBackpacks \<noteq> 0))
   }"

definition parsePlayerSale :: "task list parser" where
  "parsePlayerSale = do {
     id \<leftarrow> read_u16;
     count \<leftarrow> read_byte;
     amount \<leftarrow> read_byte;
     ignoreEquipped \<leftarrow> read_byte;
     addGameTaskTimed DISPATCHER_TASK_EXPIRATION (playerSellItem id count amount (ignoreEquipped \<noteq> 0))
   }"

definition parseRequestTrade :: "task list parser" where
  "parseRequestTrade = do {
     pos \<leftarrow> read_position;
     spriteId \<leftarrow> read_u16;
     stackpos \<leftarrow> read_byte;
     playerId \<leftarrow> read_u32;
     addGameTask (playerRequestTrade pos stackpos playerId spriteId)
   }"

definition parseLookInTrade :: "task list parser" where
  "parseLookInTrade = do {
     counterOffer \<leftarrow> read_byte;
     index \<leftarrow> read_byte;
     addGameTaskTimed DISPATCHER_TASK_EXPIRATION (playerLookInTrade (counterOffer = 1) index)
   }"

definition parseAddVip :: "task list parser" where
  "parseAddVip = do { name \<leftarrow> read_string; addGameTask (playerRequestAddVip name) }"

definition parseRemoveVip :: "task list parser" where
  "parseRemoveVip = do { guid \<leftarrow> read_u32; addGameTask (playerRequestRemoveVip guid) }"

definition parseRotateItem :: "task list parser" where
  "parseRotateItem = do {
     pos \<leftarrow> read_position;
     spriteId \<leftarrow> read_u16;
     stackpos \<leftarrow> read_byte;
     addGameTaskTimed DISPATCHER_TASK_EXPIRATION (playerRotateItem pos stackpos spriteId)
   }"

definition REPORT_TYPE_NAME :: byte where "REPORT_TYPE_NAME = 0"
definition REPORT_TYPE_STATEMENT :: byte where "REPORT_TYPE_STATEMENT = 1"

definition parseRuleViolationReport :: "task list parser" where
  "parseRuleViolationReport = do {
     reportType \<leftarrow> read_byte;
     reportReason \<leftarrow> read_byte;
     targetName \<leftarrow> read_string;
     comment \<leftarrow> read_string;
     translation \<leftarrow>
       (if reportType = REPORT_TYPE_NAME then read_string
        else if reportType = REPORT_TYPE_STATEMENT then
          do { translation \<leftarrow> read_string; _ \<leftarrow> read_u32; State_Monad.return translation }
        else State_Monad.return []);
     addGameTask (playerReportRuleViolation targetName reportType reportReason comment translation)
   }"

definition parseBugReport :: "task list parser" where
  "parseBugReport = do { message \<leftarrow> read_string; addGameTask (playerReportBug message) }"

text \<open>The flag \<open>debugAssertSent\<close> is tested and set by \<open>dispatch\<close> below.\<close>

definition parseDebugAssert :: "bool \<Rightarrow> task list parser" where
  "parseDebugAssert debugAssertSent =
     (if debugAssertSent then State_Monad.return []
      else do {
        assertLine \<leftarrow> read_string;
        date \<leftarrow> read_string;
        description \<leftarrow> read_string;
        comment \<leftarrow> read_string;
        addGameTask (playerDebugAssert assertLine date description comment)
      })"

definition parseInviteToParty :: "task list parser" where
  "parseInviteToParty = do { targetId \<leftarrow> read_u32; addGameTask (playerInviteToParty targetId) }"

definition parseJoinParty :: "task list parser" where
  "parseJoinParty = do { targetId \<leftarrow> read_u32; addGameTask (playerJoinParty targetId) }"

definition parseRevokePartyInvite :: "task list parser" where
  "parseRevokePartyInvite = do { targetId \<leftarrow> read_u32; addGameTask (playerRevokePartyInvitation targetId) }"

definition parsePassPartyLeadership :: "task list parser" where
  "parsePassPartyLeadership = do { targetId \<leftarrow> read_u32; addGameTask (playerPassPartyLeadership targetId) }"

definition parseEnableSharedPartyExperience :: "task list parser" where
  "parseEnableSharedPartyExperience = do {
     sharedExpActive \<leftarrow> read_byte;
     addGameTask (playerEnableSharedPartyExperience (sharedExpActive = 1))
   }"

definition parseQuestLine :: "task list parser" where
  "parseQuestLine = do { questId \<leftarrow> read_u16; addGameTask (playerShowQuestLine questId) }"

definition parseExtendedOpcode :: "task list parser" where
  "parseExtendedOpcode = do {
     opcode \<leftarrow> read_byte;
     buffer \<leftarrow> read_string;
     addGameTask (parsePlayerExtendedOpcode opcode buffer)
   }"

section \<open>The switch on the first byte\<close>

definition request_switch :: "(byte \<times> task list parser) list" where
  "request_switch =
    [(0x14, addGameTask logout),
     (0x1E, addGameTask playerReceivePing),
     (0x32, parseExtendedOpcode),
     (0x65, addGameTask (playerMove NORTH)),
     (0x66, addGameTask (playerMove EAST)),
     (0x67, addGameTask (playerMove SOUTH)),
     (0x68, addGameTask (playerMove WEST)),
     (0x69, addGameTask playerStopAutoWalk),
     (0x6A, addGameTask (playerMove NORTHEAST)),
     (0x6B, addGameTask (playerMove SOUTHEAST)),
     (0x6C, addGameTask (playerMove SOUTHWEST)),
     (0x6D, addGameTask (playerMove NORTHWEST)),
     (0x6F, addGameTaskTimed DISPATCHER_TASK_EXPIRATION (playerTurn NORTH)),
     (0x70, addGameTaskTimed DISPATCHER_TASK_EXPIRATION (playerTurn EAST)),
     (0x71, addGameTaskTimed DISPATCHER_TASK_EXPIRATION (playerTurn SOUTH)),
     (0x72, addGameTaskTimed DISPATCHER_TASK_EXPIRATION (playerTurn WEST)),
     (0x78, parseThrow),
     (0x79, parseLookInShop),
     (0x7A, parsePlayerPurchase),
     (0x7B, parsePlayerSale),
     (0x7C, addGameTask playerCloseShop),
     (0x7D, parseRequestTrade),
     (0x7E, parseLookInTrade),
     (0x7F, addGameTask playerAcceptTrade),
     (0x80, addGameTask playerCloseTrade),
     (0x82, parseUseItem),
     (0x83, parseUseItemEx),
     (0x84, parseUseWithCreature),
     (0x85, parseRotateItem),
     (0x87, parseCloseContainer),
     (0x88, parseUpArrowContainer),
     (0x89, parseTextWindow),
     (0x8A, parseHouseWindow),
     (0x8C, parseLookAt),
     (0x8D, parseLookInBattleList),
     (0x8E, State_Monad.return []),
     (0x96, parseSay),
     (0x97, addGameTask playerRequestChannels),
     (0x98, parseOpenChannel),
     (0x99, parseCloseChannel),
     (0x9A, parseOpenPrivateChannel),
     (0x9E, addGameTask playerCloseNpcChannel),
     (0xA0, parseFightModes),
     (0xA1, parseAttack),
     (0xA2, parseFollow),
     (0xA3, parseInviteToParty),
     (0xA4, parseJoinParty),
     (0xA5, parseRevokePartyInvite),
     (0xA6, parsePassPartyLeadership),
     (0xA7, addGameTask playerLeaveParty),
     (0xA8, parseEnableSharedPartyExperience),
     (0xAA, addGameTask playerCreatePrivateChannel),
     (0xAB, parseChannelInvite),
     (0xAC, parseChannelExclude),
     (0xBE, addGameTask playerCancelAttackAndFollow),
     (0xC9, State_Monad.return []),
     (0xCA, parseUpdateContainer),
     (0xD2, addGameTask playerRequestOutfit),
     (0xD3, parseSetOutfit),
     (0xDC, parseAddVip),
     (0xDD, parseRemoveVip),
     (0xE6, parseBugReport),
     (0xE7, State_Monad.return []),
     (0xF0, addGameTaskTimed DISPATCHER_TASK_EXPIRATION playerShowQuestLog),
     (0xF1, parseQuestLine),
     (0xF2, parseRuleViolationReport),
     (0xF3, State_Monad.return [])]"

record player_status =
  isRemoved :: bool
  health :: int

record game_session =
  acceptPackets :: bool
  server_shutdown :: bool
  ses_player :: "player_status option"
  debugAssertSent :: bool

text \<open>The two cases that are not plain parsers, and the table.\<close>

definition dispatch :: "game_session \<Rightarrow> byte \<Rightarrow> network_message \<Rightarrow> (game_session \<times> task list \<times> network_message) option" where
  "dispatch s recvbyte m =
     (if recvbyte = 0x64 then map_option (Pair s) (parseAutoWalk m)
      else if recvbyte = 0xE8 then
        Some (s\<lparr>debugAssertSent := True\<rparr>, run_state (parseDebugAssert (debugAssertSent s)) m)
      else case map_of request_switch recvbyte of
             None \<Rightarrow> Some (s, [], m)
           | Some p \<Rightarrow> Some (s, run_state p m))"

text \<open>The session afterwards, the tasks added, whether the connection is told to close, the message.\<close>

definition parsePacket ::
  "game_session \<Rightarrow> network_message \<Rightarrow> (game_session \<times> task list \<times> bool \<times> network_message) option" where
  "parsePacket s m =
     (if \<not> acceptPackets s \<or> server_shutdown s \<or> msg_length m = 0 then Some (s, [], False, m)
      else
        let (recvbyte, m) = getByte m
        in case ses_player s of
             None \<Rightarrow> Some (s, [], recvbyte = 0x0F, m)
           | Some p \<Rightarrow>
               if (isRemoved p \<or> health p \<le> 0) \<and> recvbyte = 0x0F then Some (s, [], True, m)
               else if (isRemoved p \<or> health p \<le> 0) \<and> recvbyte \<noteq> 0x14 then Some (s, [], False, m)
               else case dispatch s recvbyte m of
                      None \<Rightarrow> None
                    | Some (s, ts, m) \<Rightarrow> Some (s, ts, msg_overrun m, m))"

section \<open>Reading a packet that holds the values\<close>

text \<open>The bytes from the position of a message on are the images of these values, and no others.\<close>

definition holds :: "wire list \<Rightarrow> network_message \<Rightarrow> bool" where
  "holds ws m \<longleftrightarrow>
     available (length (wires_image ws)) m \<and> list_all wire_valid ws \<and> \<not> msg_overrun m \<and>
     slice (unat (msg_position m)) (length (wires_image ws)) (msg_buffer m) = wires_image ws"

lemma holds_Cons:
  assumes "holds (w # ws) m"
  shows "get_wire (kind_of w) m = (w, advance (length (wire_image w)) m)"
    and "holds ws (advance (length (wire_image w)) m)"
proof -
  let ?a = "length (wire_image w)" and ?b = "length (wires_image ws)"
  have av: "available (?a + ?b) m" using assms by (simp add: holds_def wires_image_def)
  have parts: "slice (unat (msg_position m)) ?a (msg_buffer m) = wire_image w"
    "slice (unat (msg_position m) + ?a) ?b (msg_buffer m) = wires_image ws"
    using slice_split [of "unat (msg_position m)" "wire_image w" "wires_image ws" "msg_buffer m"] assms
    by (simp_all add: holds_def wires_image_def)
  show "get_wire (kind_of w) m = (w, advance ?a m)"
    using av parts(1) assms by (intro any_wire.get_image) (auto simp: holds_def elim: available_mono)
  have "unat (msg_position (advance ?a m)) = unat (msg_position m) + ?a"
    using available_position [OF available_mono [OF av, of ?a]] by (simp add: advance_def)
  then show "holds ws (advance ?a m)"
    using assms parts(2) available_advance [OF av] by (simp add: holds_def) (simp add: advance_def)
qed

lemma holds_read:
  "holds (W8 b # ws) m \<Longrightarrow> \<exists>m'. run_state read_byte m = (b, m') \<and> getByte m = (b, m') \<and> holds ws m'"
  "holds (W16 v # ws) m \<Longrightarrow> \<exists>m'. run_state read_u16 m = (v, m') \<and> get_u16 m = (v, m') \<and> holds ws m'"
  "holds (W32 d # ws) m \<Longrightarrow> \<exists>m'. run_state read_u32 m = (d, m') \<and> holds ws m'"
  "holds (WString t # ws) m \<Longrightarrow> \<exists>m'. run_state read_string m = (t, m') \<and> holds ws m'"
  "holds (WPosition p # ws) m \<Longrightarrow> \<exists>m'. run_state read_position m = (p, m') \<and> holds ws m'"
  using holds_Cons [of _ ws m]
  by (force simp: read_byte_def read_u16_def read_u32_def read_string_def read_position_def apfst_def map_prod_def
      split: prod.splits)+

lemma holds_skip2:
  "holds (W16 v # ws) m \<Longrightarrow> \<exists>m'. run_state (read_skip 2) m = ((), m') \<and> holds ws m'"
  using holds_Cons(2) [of "W16 v" ws m]
  by (auto simp: read_skip_def skipBytes_def advance_def wi_hom_syms)

lemma holds_end: "holds ws m \<Longrightarrow> \<not> msg_overrun m"
  by (simp add: holds_def)

section \<open>The client's packets\<close>

text \<open>The byte that asks for a step, as the client sends it.\<close>

fun direction_byte :: "direction \<Rightarrow> byte" where
  "direction_byte EAST = 1" | "direction_byte NORTHEAST = 2" | "direction_byte NORTH = 3"
| "direction_byte NORTHWEST = 4" | "direction_byte WEST = 5" | "direction_byte SOUTHWEST = 6"
| "direction_byte SOUTH = 7" | "direction_byte SOUTHEAST = 8" | "direction_byte NONE = 0"

definition flag :: "bool \<Rightarrow> wire" where
  "flag b = W8 (if b then 1 else 0)"

definition fight_byte :: "fight_mode \<Rightarrow> byte" where
  "fight_byte f = (case f of FIGHTMODE_ATTACK \<Rightarrow> 1 | FIGHTMODE_BALANCED \<Rightarrow> 2 | FIGHTMODE_DEFENSE \<Rightarrow> 3)"

fun client_packet :: "request \<Rightarrow> wire list" where
  "client_packet logout = [W8 0x14]"
| "client_packet playerReceivePing = [W8 0x1E]"
| "client_packet (parsePlayerExtendedOpcode b s) = [W8 0x32, W8 b, WString s]"
| "client_packet (playerAutoWalk ds) = W8 0x64 # W8 (word_of_nat (length ds)) # map (W8 \<circ> direction_byte) (rev ds)"
| "client_packet (playerMove d) =
     [W8 (case d of NORTH \<Rightarrow> 0x65 | EAST \<Rightarrow> 0x66 | SOUTH \<Rightarrow> 0x67 | WEST \<Rightarrow> 0x68 | NORTHEAST \<Rightarrow> 0x6A
                  | SOUTHEAST \<Rightarrow> 0x6B | SOUTHWEST \<Rightarrow> 0x6C | NORTHWEST \<Rightarrow> 0x6D | NONE \<Rightarrow> 0)]"
| "client_packet playerStopAutoWalk = [W8 0x69]"
| "client_packet (playerTurn d) =
     [W8 (case d of NORTH \<Rightarrow> 0x6F | EAST \<Rightarrow> 0x70 | SOUTH \<Rightarrow> 0x71 | WEST \<Rightarrow> 0x72 | _ \<Rightarrow> 0)]"
| "client_packet (playerMoveThing p v b p' c) = [W8 0x78, WPosition p, W16 v, W8 b, WPosition p', W8 c]"
| "client_packet (playerLookInShop v b) = [W8 0x79, W16 v, W8 b]"
| "client_packet (playerPurchaseItem v b c f g) = [W8 0x7A, W16 v, W8 b, W8 c, flag f, flag g]"
| "client_packet (playerSellItem v b c f) = [W8 0x7B, W16 v, W8 b, W8 c, flag f]"
| "client_packet playerCloseShop = [W8 0x7C]"
| "client_packet (playerRequestTrade p b d v) = [W8 0x7D, WPosition p, W16 v, W8 b, W32 d]"
| "client_packet (playerLookInTrade f b) = [W8 0x7E, flag f, W8 b]"
| "client_packet playerAcceptTrade = [W8 0x7F]"
| "client_packet playerCloseTrade = [W8 0x80]"
| "client_packet (playerUseItem p b c v) = [W8 0x82, WPosition p, W16 v, W8 b, W8 c]"
| "client_packet (playerUseItemEx p b v p' c v') = [W8 0x83, WPosition p, W16 v, W8 b, WPosition p', W16 v', W8 c]"
| "client_packet (playerUseWithCreature p b d v) = [W8 0x84, WPosition p, W16 v, W8 b, W32 d]"
| "client_packet (playerRotateItem p b v) = [W8 0x85, WPosition p, W16 v, W8 b]"
| "client_packet (playerCloseContainer b) = [W8 0x87, W8 b]"
| "client_packet (playerMoveUpContainer b) = [W8 0x88, W8 b]"
| "client_packet (playerWriteItem d s) = [W8 0x89, W32 d, WString s]"
| "client_packet (playerUpdateHouseWindow b d s) = [W8 0x8A, W8 b, W32 d, WString s]"
| "client_packet (playerLookAt p b) = [W8 0x8C, WPosition p, W16 0, W8 b]"
| "client_packet (playerLookInBattleList d) = [W8 0x8D, W32 d]"
| "client_packet (playerSay v b r s) =
     [W8 0x96, W8 b] @
     (if b = TALKTYPE_PRIVATE \<or> b = TALKTYPE_PRIVATE_RED then [WString r]
      else if b = TALKTYPE_CHANNEL_Y \<or> b = TALKTYPE_CHANNEL_R1 \<or> b = TALKTYPE_CHANNEL_R2 then [W16 v] else []) @
     [WString s]"
| "client_packet playerRequestChannels = [W8 0x97]"
| "client_packet (playerOpenChannel v) = [W8 0x98, W16 v]"
| "client_packet (playerCloseChannel v) = [W8 0x99, W16 v]"
| "client_packet (playerOpenPrivateChannel s) = [W8 0x9A, WString s]"
| "client_packet playerCloseNpcChannel = [W8 0x9E]"
| "client_packet (playerSetFightModes f g h) = [W8 0xA0, W8 (fight_byte f), flag g, flag h]"
| "client_packet (playerSetAttackedCreature d) = [W8 0xA1, W32 d]"
| "client_packet (playerFollowCreature d) = [W8 0xA2, W32 d]"
| "client_packet (playerInviteToParty d) = [W8 0xA3, W32 d]"
| "client_packet (playerJoinParty d) = [W8 0xA4, W32 d]"
| "client_packet (playerRevokePartyInvitation d) = [W8 0xA5, W32 d]"
| "client_packet (playerPassPartyLeadership d) = [W8 0xA6, W32 d]"
| "client_packet playerLeaveParty = [W8 0xA7]"
| "client_packet (playerEnableSharedPartyExperience f) = [W8 0xA8, flag f]"
| "client_packet playerCreatePrivateChannel = [W8 0xAA]"
| "client_packet (playerChannelInvite s) = [W8 0xAB, WString s]"
| "client_packet (playerChannelExclude s) = [W8 0xAC, WString s]"
| "client_packet playerCancelAttackAndFollow = [W8 0xBE]"
| "client_packet (playerUpdateContainer b) = [W8 0xCA, W8 b]"
| "client_packet playerRequestOutfit = [W8 0xD2]"
| "client_packet (playerChangeOutfit t) =
     [W8 0xD3, W16 (lookType t), W8 (lookHead t), W8 (lookBody t), W8 (lookLegs t), W8 (lookFeet t), W8 (lookAddons t)]"
| "client_packet (playerRequestAddVip s) = [W8 0xDC, WString s]"
| "client_packet (playerRequestRemoveVip d) = [W8 0xDD, W32 d]"
| "client_packet (playerReportBug s) = [W8 0xE6, WString s]"
| "client_packet (playerDebugAssert s t u v) = [W8 0xE8, WString s, WString t, WString u, WString v]"
| "client_packet playerShowQuestLog = [W8 0xF0]"
| "client_packet (playerShowQuestLine v) = [W8 0xF1, W16 v]"
| "client_packet (playerReportRuleViolation s b c t u) =
     [W8 0xF2, W8 b, W8 c, WString s, WString t] @
     (if b = REPORT_TYPE_NAME then [WString u] else if b = REPORT_TYPE_STATEMENT then [WString u, W32 0] else [])"

text \<open>The requests a packet can express, and the tasks they become.\<close>

fun sendable :: "request \<Rightarrow> bool" where
  "sendable (playerAutoWalk ds) = (ds \<noteq> [] \<and> length ds \<le> 255 \<and> NONE \<notin> set ds)"
| "sendable (playerMove d) = (d \<noteq> NONE)"
| "sendable (playerTurn d) = (d = NORTH \<or> d = EAST \<or> d = SOUTH \<or> d = WEST)"
| "sendable (playerMoveThing p v b p' c) = (p \<noteq> p')"
| "sendable (playerSay v b r s) =
     (length s \<le> 255 \<and>
      (b = TALKTYPE_PRIVATE \<or> b = TALKTYPE_PRIVATE_RED \<or> r = []) \<and>
      (b = TALKTYPE_CHANNEL_Y \<or> b = TALKTYPE_CHANNEL_R1 \<or> b = TALKTYPE_CHANNEL_R2 \<or> v = 0))"
| "sendable (playerChangeOutfit t) = (lookTypeEx t = 0)"
| "sendable (playerReportRuleViolation s b c t u) = (b = REPORT_TYPE_NAME \<or> b = REPORT_TYPE_STATEMENT \<or> u = [])"
| "sendable _ = True"

fun expires :: "request \<Rightarrow> bool" where
  "expires (playerTurn d) = True"
| "expires (playerMoveThing p v b p' c) = True"
| "expires (playerLookInShop v b) = True"
| "expires (playerPurchaseItem v b c f g) = True"
| "expires (playerSellItem v b c f) = True"
| "expires (playerLookInTrade f b) = True"
| "expires (playerUseItem p b c v) = True"
| "expires (playerUseItemEx p b v p' c v') = True"
| "expires (playerUseWithCreature p b d v) = True"
| "expires (playerRotateItem p b v) = True"
| "expires (playerLookAt p b) = True"
| "expires (playerLookInBattleList d) = True"
| "expires playerShowQuestLog = True"
| "expires _ = False"

definition task_of :: "request \<Rightarrow> task" where
  "task_of r = (if expires r then TimedTask DISPATCHER_TASK_EXPIRATION r else Task r)"

fun is_debug_assert :: "request \<Rightarrow> bool" where
  "is_debug_assert (playerDebugAssert _ _ _ _) = True"
| "is_debug_assert _ = False"

fun is_walk :: "request \<Rightarrow> bool" where
  "is_walk (playerAutoWalk _) = True"
| "is_walk _ = False"

lemmas parse_defs =
  parseChannelInvite_def parseChannelExclude_def parseOpenChannel_def parseCloseChannel_def
  parseOpenPrivateChannel_def parseSetOutfit_def parseUseItem_def parseUseItemEx_def
  parseUseWithCreature_def parseCloseContainer_def parseUpArrowContainer_def parseUpdateContainer_def
  parseThrow_def parseLookAt_def parseLookInBattleList_def parseFightModes_def
  parseAttack_def parseFollow_def parseTextWindow_def parseHouseWindow_def parseLookInShop_def
  parsePlayerPurchase_def parsePlayerSale_def parseRequestTrade_def parseLookInTrade_def
  parseAddVip_def parseRemoveVip_def parseRotateItem_def
  parseBugReport_def parseDebugAssert_def parseInviteToParty_def parseJoinParty_def
  parseRevokePartyInvite_def parsePassPartyLeadership_def parseEnableSharedPartyExperience_def
  parseQuestLine_def parseExtendedOpcode_def

lemmas talk_types = TALKTYPE_PRIVATE_def TALKTYPE_CHANNEL_Y_def TALKTYPE_CHANNEL_R1_def
  TALKTYPE_PRIVATE_RED_def TALKTYPE_CHANNEL_R2_def REPORT_TYPE_NAME_def REPORT_TYPE_STATEMENT_def

text \<open>What a parser makes of a message that holds these values; its rules follow the parser's text.\<close>

definition parses :: "task list parser \<Rightarrow> wire list \<Rightarrow> task list \<Rightarrow> bool" where
  "parses p ws ts \<longleftrightarrow> (\<forall>m. holds ws m \<longrightarrow> (\<exists>m'. run_state p m = (ts, m') \<and> \<not> msg_overrun m'))"

lemma parses_bind:
  assumes "\<And>m. holds (w # ws) m \<Longrightarrow> \<exists>m'. run_state g m = (v, m') \<and> holds ws m'" and "parses (f v) ws ts"
  shows "parses (g \<bind> f) (w # ws) ts"
  using assms by (fastforce simp: parses_def)

lemma parses_read [simp]:
  "parses (f1 b) ws ts \<Longrightarrow> parses (read_byte \<bind> f1) (W8 b # ws) ts"
  "parses (f2 v) ws ts \<Longrightarrow> parses (read_u16 \<bind> f2) (W16 v # ws) ts"
  "parses (f3 d) ws ts \<Longrightarrow> parses (read_u32 \<bind> f3) (W32 d # ws) ts"
  "parses (f4 t) ws ts \<Longrightarrow> parses (read_string \<bind> f4) (WString t # ws) ts"
  "parses (f5 p) ws ts \<Longrightarrow> parses (read_position \<bind> f5) (WPosition p # ws) ts"
  "parses (f6 ()) ws ts \<Longrightarrow> parses (read_skip 2 \<bind> f6) (W16 v # ws) ts"
  by (rule parses_bind; use holds_read holds_skip2 in blast)+

lemma parses_done [simp]:
  "parses (State_Monad.return ts) ws ts' \<longleftrightarrow> ts = ts' \<or> (\<nexists>m. holds ws m)"
  "ts = [Task r] \<Longrightarrow> parses (addGameTask r) ws ts"
  "ts = [TimedTask n r] \<Longrightarrow> parses (addGameTaskTimed n r) ws ts"
  by (auto simp: parses_def addGameTask_def addGameTaskTimed_def holds_def)

lemma parses_if [simp]:
  "parses ((if c then g else h) \<bind> f) ws ts \<longleftrightarrow> (if c then parses (g \<bind> f) ws ts else parses (h \<bind> f) ws ts)"
  by simp

definition packet_body :: "request \<Rightarrow> wire list" where
  "packet_body r = tl (client_packet r)"


lemma parse_say:
  assumes "sendable (playerSay v b r t)"
  shows "parses parseSay (packet_body (playerSay v b r t)) [Task (playerSay v b r t)]"
proof -
  consider "b = TALKTYPE_PRIVATE \<or> b = TALKTYPE_PRIVATE_RED" "v = 0"
    | "b = TALKTYPE_CHANNEL_Y \<or> b = TALKTYPE_CHANNEL_R1 \<or> b = TALKTYPE_CHANNEL_R2" "r = []"
    | "\<not> (b = TALKTYPE_PRIVATE \<or> b = TALKTYPE_PRIVATE_RED)"
      "\<not> (b = TALKTYPE_CHANNEL_Y \<or> b = TALKTYPE_CHANNEL_R1 \<or> b = TALKTYPE_CHANNEL_R2)" "r = []" "v = 0"
    using assms by (auto simp: talk_types)
  then show ?thesis
    using assms by cases (auto simp: parseSay_def packet_body_def talk_types)
qed

lemma parse_violation:
  assumes "sendable (playerReportRuleViolation s b c t u)"
  shows "parses parseRuleViolationReport (packet_body (playerReportRuleViolation s b c t u))
    [Task (playerReportRuleViolation s b c t u)]"
proof -
  consider "b = REPORT_TYPE_NAME" | "b = REPORT_TYPE_STATEMENT"
    | "b \<noteq> REPORT_TYPE_NAME" "b \<noteq> REPORT_TYPE_STATEMENT" "u = []"
    using assms by auto
  then show ?thesis
    by cases (auto simp: parseRuleViolationReport_def packet_body_def talk_types)
qed

lemma parse_body:
  assumes "sendable r" "\<not> is_walk r" "\<not> is_debug_assert r"
  shows "\<exists>b p. client_packet r = W8 b # packet_body r \<and> b \<noteq> 0x64 \<and> b \<noteq> 0xE8 \<and>
    map_of request_switch b = Some p \<and> parses p (packet_body r) [task_of r]"
proof (cases r)
  case (playerSay v b r' t)
  then show ?thesis using parse_say assms(1) by (simp add: request_switch_def task_of_def packet_body_def)
next
  case (playerReportRuleViolation s b c t u)
  then show ?thesis using parse_violation assms(1) by (simp add: request_switch_def task_of_def packet_body_def)
next
  case (playerMove d)
  then show ?thesis using assms(1) by (cases d) (simp_all add: request_switch_def task_of_def packet_body_def)
next
  case (playerTurn d)
  then show ?thesis using assms(1) by (cases d) (simp_all add: request_switch_def task_of_def packet_body_def)
next
  case (playerSetFightModes f g h)
  then show ?thesis
    by (cases f) (simp_all add: request_switch_def task_of_def packet_body_def flag_def fight_byte_def parseFightModes_def)
qed (use assms in \<open>simp_all add: packet_body_def request_switch_def parse_defs task_of_def flag_def\<close>)

section \<open>Ways\<close>

lemma getPreviousByte_eq:
  assumes "unat (msg_position m) = Suc p" "p < length (msg_buffer m)"
  shows "getPreviousByte m = Some (msg_buffer m ! p, m\<lparr>msg_position := msg_position m - 1\<rparr>)"
    and "unat (msg_position m - 1) = p"
proof -
  have "msg_position m \<noteq> 0" using assms(1) by auto
  then show *: "unat (msg_position m - 1) = p" using assms(1) by (simp add: unat_minus_one)
  show "getPreviousByte m = Some (msg_buffer m ! p, m\<lparr>msg_position := msg_position m - 1\<rparr>)"
    using * assms(2) by (simp add: getPreviousByte_def Let_def)
qed

lemma walk_loop_reads:
  assumes "unat (msg_position m) = p + n" "p + n \<le> length (msg_buffer m)"
  shows "\<exists>m'. walk_loop n path m = Some (path @ concat (map raw_direction (rev (slice p n (msg_buffer m)))), m') \<and>
    msg_overrun m' = msg_overrun m"
  using assms
proof (induction n arbitrary: path m)
  case (Suc n)
  let ?m = "m\<lparr>msg_position := msg_position m - 1\<rparr>"
  have b: "getPreviousByte m = Some (msg_buffer m ! (p + n), ?m)" "unat (msg_position m - 1) = p + n"
    using getPreviousByte_eq [of m "p + n"] Suc.prems by simp_all
  have last: "slice p (Suc n) (msg_buffer m) = slice p n (msg_buffer m) @ [msg_buffer m ! (p + n)]"
    using Suc.prems(2) by (simp add: slice_def take_Suc_conv_app_nth)
  obtain m' where "walk_loop n (path @ raw_direction (msg_buffer m ! (p + n))) ?m =
      Some ((path @ raw_direction (msg_buffer m ! (p + n))) @ concat (map raw_direction (rev (slice p n (msg_buffer m)))), m')"
    and "msg_overrun m' = msg_overrun m"
    using Suc.IH [of ?m "path @ raw_direction (msg_buffer m ! (p + n))"] Suc.prems b(2) by auto
  then show ?case using b last by (auto)
qed auto

lemma raw_direction_byte: "d \<noteq> NONE \<Longrightarrow> raw_direction (direction_byte d) = [d]"
  by (cases d) (simp_all add: raw_direction_def)

lemma raw_directions: "NONE \<notin> set ds \<Longrightarrow> concat (map (raw_direction \<circ> direction_byte) ds) = ds"
  by (induction ds) (auto simp: raw_direction_byte)

lemma wires_image_bytes: "wires_image (map (W8 \<circ> f) xs) = map f xs"
  by (induction xs) (simp_all add: wires_image_def)

lemma parse_walk:
  assumes "holds (W8 (word_of_nat (length ds)) # map (W8 \<circ> direction_byte) (rev ds)) m"
    and "ds \<noteq> []" "length ds \<le> 255" "NONE \<notin> set ds"
    and "unat (msg_position m) + Suc (length ds) = unat (msg_length m) + 8"
  shows "\<exists>m'. parseAutoWalk m = Some ([Task (playerAutoWalk ds)], m') \<and> \<not> msg_overrun m'"
proof -
  let ?n = "word_of_nat (length ds) :: byte"
  let ?bs = "map direction_byte (rev ds)"
  have n: "unat ?n = length ds" using assms(3) by (simp add: unat_of_nat take_bit_nat_eq_self_iff)
  have u: "uint ?n = int (length ds)" using n by (metis uint_nat)
  have n0: "?n \<noteq> 0" using n assms(2) by (metis length_0_conv unat_0)
  have av: "available (Suc (length ds)) m" using assms(1) wires_image_bytes [of direction_byte "rev ds"]
    by (simp add: holds_def wires_image_def)
  have get: "getByte m = (?n, advance 1 m)" "holds (map (W8 \<circ> direction_byte) (rev ds)) (advance 1 m)"
    using holds_Cons [OF assms(1)] by (simp_all add: apfst_def map_prod_def split: prod.splits)
  have pos: "unat (msg_position (advance 1 m)) = unat (msg_position m) + 1"
    using available_position [OF available_mono [OF av, of 1]] by (simp add: advance_def)
  have sl: "slice (unat (msg_position m) + 1) (length ds) (msg_buffer m) = ?bs"
    using get(2) pos wires_image_bytes [of direction_byte "rev ds"]
    by (simp add: holds_def) (simp add: advance_def)
  have len: "unat (msg_position m) + 1 + length ds \<le> length (msg_buffer m)"
  proof -
    have "length (slice (unat (msg_position m) + 1) (length ds) (msg_buffer m)) = length ds" using sl by simp
    moreover have "0 < length ds" using assms(2) by simp
    ultimately show ?thesis unfolding slice_def length_take length_drop by linarith
  qed
  have sk: "unat (msg_position (skipBytes (uint ?n) (advance 1 m))) = unat (msg_position m) + 1 + length ds"
  proof -
    have "msg_position (skipBytes (uint ?n) (advance 1 m)) = msg_position m + word_of_nat (Suc (length ds))"
      by (simp add: skipBytes_def advance_def u)
    then show ?thesis using available_position [OF av] by simp
  qed
  obtain m' where "walk_loop (length ds) [] (skipBytes (uint ?n) (advance 1 m)) =
      Some (concat (map raw_direction (rev ?bs)), m')" and ov: "\<not> msg_overrun m'"
    using walk_loop_reads [of "skipBytes (uint ?n) (advance 1 m)" "unat (msg_position m) + 1" "length ds" "[]"] sk len sl assms(1)
    by (auto simp: skipBytes_def advance_def holds_def)
  moreover have "concat (map raw_direction (rev ?bs)) = ds"
    using raw_directions [OF assms(4)] by (simp add: rev_map)
  moreover have "uint (msg_position (advance 1 m)) + uint ?n = uint (msg_length (advance 1 m)) + 8"
    using pos assms(5) unfolding u uint_nat [of "msg_position (advance 1 m)"] uint_nat [of "msg_length (advance 1 m)"]
    by (simp add: advance_def del: of_nat_unat)
  ultimately show ?thesis
    using get(1) n n0 assms(2) by (simp add: parseAutoWalk_def)
qed

section \<open>Properties\<close>

definition playing :: "game_session \<Rightarrow> bool" where
  "playing s \<longleftrightarrow> acceptPackets s \<and> \<not> server_shutdown s \<and>
     (\<exists>p. ses_player s = Some p \<and> \<not> isRemoved p \<and> 0 < health p)"

lemma dispatch_packet:
  assumes "holds (client_packet r) m" "sendable r" "is_debug_assert r \<longrightarrow> \<not> debugAssertSent s"
    and "unat (msg_position m) + length (wires_image (client_packet r)) = unat (msg_length m) + 8"
  shows "\<exists>b m1 m2. getByte m = (b, m1) \<and>
    dispatch s b m1 = Some (s\<lparr>debugAssertSent := debugAssertSent s \<or> is_debug_assert r\<rparr>, [task_of r], m2) \<and> \<not> msg_overrun m2"
proof -
  consider ds where "r = playerAutoWalk ds" | t u v w where "r = playerDebugAssert t u v w"
    | "\<not> is_walk r" "\<not> is_debug_assert r"
    by (cases r) auto
  then show ?thesis
  proof cases
    case 1
    let ?ws = "W8 (word_of_nat (length ds)) # map (W8 \<circ> direction_byte) (rev ds)"
    have m: "getByte m = (0x64, advance 1 m)" "holds ?ws (advance 1 m)"
      using holds_Cons [of "W8 0x64" ?ws m] assms(1) 1 by (simp_all add: apfst_def map_prod_def split: prod.splits)
    have len: "length (wires_image ?ws) = Suc (length ds)"
      using wires_image_bytes [of direction_byte "rev ds"] by (simp add: wires_image_def)
    have "available 1 m" using assms(1) 1 by (auto simp: holds_def wires_image_def elim: available_mono)
    then have "unat (msg_position (advance 1 m)) = unat (msg_position m) + 1"
      using available_position [of 1 m] by (simp add: advance_def)
    then have "unat (msg_position (advance 1 m)) + Suc (length ds) = unat (msg_length (advance 1 m)) + 8"
      using assms(4) 1 len by (simp add: wires_image_def advance_def)
    then show ?thesis using parse_walk [OF m(2)] assms(2) 1 m(1)
      by (auto simp: dispatch_def task_of_def)
  next
    case 2
    let ?ws = "[WString t, WString u, WString v, WString w]"
    have m: "getByte m = (0xE8, advance 1 m)" "holds ?ws (advance 1 m)"
      using holds_Cons [of "W8 0xE8" ?ws m] assms(1) 2 by (simp_all add: apfst_def map_prod_def split: prod.splits)
    have "parses (parseDebugAssert False) ?ws [task_of r]"
      using 2 by (simp add: parseDebugAssert_def task_of_def)
    then show ?thesis using m assms(3) 2 by (auto simp: dispatch_def parses_def)
  next
    case 3
    obtain b p where b: "client_packet r = W8 b # packet_body r" "b \<noteq> 0x64" "b \<noteq> 0xE8"
      "map_of request_switch b = Some p" "parses p (packet_body r) [task_of r]"
      using parse_body [OF assms(2) 3] by blast
    have m: "getByte m = (b, advance 1 m)" "holds (packet_body r) (advance 1 m)"
      using holds_Cons [of "W8 b" "packet_body r" m] assms(1) b(1) by (simp_all add: apfst_def map_prod_def split: prod.splits)
    then show ?thesis using b(2-5) 3 by (auto simp: dispatch_def parses_def)
  qed
qed

text \<open>
  C22: Every request a client can make survives the way: when a message holds, from its position to
  its end, the packet of a request, and the player is in the game, \<open>parsePacket\<close> adds exactly the task
  of that request with the arguments of the client (the way of a walk in the order the client gave
  it), with the delay that kind of request has, and does not disconnect.
\<close>

theorem client_request_roundtrip:
  assumes "holds (client_packet r) m" "sendable r" "playing s" "is_debug_assert r \<longrightarrow> \<not> debugAssertSent s"
    and "unat (msg_position m) + length (wires_image (client_packet r)) = unat (msg_length m) + 8"
    and "8 \<le> unat (msg_position m)"
  shows "\<exists>m'. parsePacket s m =
    Some (s\<lparr>debugAssertSent := debugAssertSent s \<or> is_debug_assert r\<rparr>, [task_of r], False, m')"
proof -
  obtain b m1 m2 where d: "getByte m = (b, m1)"
    "dispatch s b m1 = Some (s\<lparr>debugAssertSent := debugAssertSent s \<or> is_debug_assert r\<rparr>, [task_of r], m2)" "\<not> msg_overrun m2"
    using dispatch_packet [OF assms(1,2,4,5)] by blast
  have "wires_image (client_packet r) \<noteq> []"
    by (cases r) (simp_all add: wires_image_def)
  then have "0 < length (wires_image (client_packet r))" by simp
  then have "unat (msg_length m) \<noteq> 0" using assms(5,6) by linarith
  then have "msg_length m \<noteq> 0" by auto
  then show ?thesis using assms(3) d by (auto simp: parsePacket_def playing_def)
qed

definition packet_message :: "wire list \<Rightarrow> network_message" where
  "packet_message ws =
     \<lparr>msg_length = word_of_nat (length (wires_image ws)), msg_position = 8, msg_overrun = False,
      msg_buffer = replicate 8 0 @ wires_image ws @ replicate (24582 - length (wires_image ws)) 0\<rparr>"

lemma client_request_roundtrip_witness:
  "\<exists>m'. parsePacket \<lparr>acceptPackets = True, server_shutdown = False,
       ses_player = Some \<lparr>isRemoved = False, health = 150\<rparr>, debugAssertSent = False\<rparr>
     (packet_message (client_packet (playerMoveThing (100, 100, 7) 3031 1 (101, 100, 7) 5))) =
   Some (\<lparr>acceptPackets = True, server_shutdown = False,
       ses_player = Some \<lparr>isRemoved = False, health = 150\<rparr>, debugAssertSent = False\<rparr>,
     [TimedTask DISPATCHER_TASK_EXPIRATION (playerMoveThing (100, 100, 7) 3031 1 (101, 100, 7) 5)], False, m')"
proof -
  let ?r = "playerMoveThing (100, 100, 7) 3031 1 (101, 100, 7) 5"
  have "length (wires_image (client_packet ?r)) = 15" by (simp add: wires_image_def)
  then show ?thesis
    using client_request_roundtrip [of ?r "packet_message (client_packet ?r)"
      "\<lparr>acceptPackets = True, server_shutdown = False,
        ses_player = Some \<lparr>isRemoved = False, health = 150\<rparr>, debugAssertSent = False\<rparr>"]
    by (simp add: holds_def packet_message_def available_def net_consts slice_def playing_def task_of_def)
qed

section \<open>What no packet can do\<close>

definition one_task :: "task list parser \<Rightarrow> bool" where
  "one_task p \<longleftrightarrow> (\<forall>m. length (fst (run_state p m)) \<le> 1)"

lemma one_task_simps [simp]:
  "(\<And>x. one_task (f x)) \<Longrightarrow> one_task (g \<bind> f)"
  "one_task (addGameTask r)" "one_task (addGameTaskTimed n r)" "one_task (State_Monad.return [])"
  by (auto simp: one_task_def addGameTask_def addGameTaskTimed_def split: prod.splits)

lemma one_task_if [simp]: "one_task p \<Longrightarrow> one_task q \<Longrightarrow> one_task (if c then p else q)"
  by simp

lemma one_task_prod [simp]: "(\<And>a b. one_task (f a b)) \<Longrightarrow> one_task (case x of (a, b) \<Rightarrow> f a b)"
  by (cases x) simp

lemma switch_one_task: "(b, p) \<in> set request_switch \<Longrightarrow> one_task p"
  unfolding request_switch_def by (auto simp: parse_defs parseSay_def parseRuleViolationReport_def parseFightModes_def)

lemma walk_loop_total:
  assumes "n \<le> unat (msg_position m)" "unat (msg_position m) \<le> length (msg_buffer m)"
  shows "walk_loop n path m \<noteq> None"
  using walk_loop_reads [of m "unat (msg_position m) - n" n path] assms by auto

lemma getByte_bounds:
  "getByte m = (b, m') \<Longrightarrow> msg_length m' = msg_length m \<and> msg_buffer m' = msg_buffer m"
  by (auto simp: getByte_def can_read_def split: if_splits)

lemma parseAutoWalk_total:
  assumes "unat (msg_length m) + 8 \<le> length (msg_buffer m)" "length (msg_buffer m) \<le> NETWORKMESSAGE_MAXSIZE"
  shows "\<exists>ts m'. parseAutoWalk m = Some (ts, m') \<and> length ts \<le> 1 \<and> (\<forall>t \<in> set ts. \<exists>ds. t = Task (playerAutoWalk ds))"
proof -
  obtain n m1 where n: "getByte m = (n, m1)" by fastforce
  show ?thesis
  proof (cases "n = 0 \<or> uint (msg_position m1) + uint n \<noteq> uint (msg_length m1) + 8")
    case False
    let ?m = "skipBytes (uint n) m1"
    have sum: "unat (msg_position m1) + unat n = unat (msg_length m1) + 8"
      using False by (simp add: uint_nat del: of_nat_unat)
    have "msg_length m1 = msg_length m" "msg_buffer m1 = msg_buffer m" using getByte_bounds [OF n] by auto
    then have small: "unat (msg_position m1) + unat n \<le> length (msg_buffer m1)" using sum assms(1) by simp
    have "msg_position ?m = msg_position m1 + word_of_nat (unat n)" by (simp add: skipBytes_def)
    moreover have "unat (msg_position m1) + unat n < 2 ^ LENGTH(16)"
      using small assms(2) \<open>msg_buffer m1 = _\<close> by (simp add: net_consts)
    ultimately have "unat (msg_position ?m) = unat (msg_position m1) + unat n"
      by (simp only: unat_add_of_nat)
    then have "walk_loop (unat n) [] ?m \<noteq> None"
      using small by (intro walk_loop_total) (simp_all add: skipBytes_def)
    then show ?thesis using n False by (auto simp: parseAutoWalk_def)
  qed (use n in \<open>auto simp: parseAutoWalk_def\<close>)
qed

lemma one_task_run: "one_task p \<Longrightarrow> \<exists>ts m'. run_state p m = (ts, m') \<and> length ts \<le> 1"
  by (metis one_task_def prod.collapse)

lemma dispatch_total:
  assumes "unat (msg_length m) + 8 \<le> length (msg_buffer m)" "length (msg_buffer m) \<le> NETWORKMESSAGE_MAXSIZE"
  shows "\<exists>s' ts m'. dispatch s b m = Some (s', ts, m') \<and> length ts \<le> 1"
proof -
  consider "b = 0x64" | "b = 0xE8" | "b \<noteq> 0x64" "b \<noteq> 0xE8" "map_of request_switch b = None"
    | p where "b \<noteq> 0x64" "b \<noteq> 0xE8" "map_of request_switch b = Some p"
    by fastforce
  then show ?thesis
  proof cases
    case 1
    then show ?thesis using parseAutoWalk_total [OF assms] by (auto simp: dispatch_def)
  next
    case 2
    have "one_task (parseDebugAssert x)" for x by (simp add: parseDebugAssert_def)
    from one_task_run [OF this] 2 show ?thesis by (fastforce simp: dispatch_def)
  next
    case 4
    from one_task_run [OF switch_one_task [OF map_of_SomeD [OF 4(3)]]] 4 show ?thesis
      by (fastforce simp: dispatch_def)
  qed (simp add: dispatch_def)
qed

text \<open>
  C23: Whatever bytes a client sends, \<open>parsePacket\<close> reads inside the buffer and adds at most one task;
  it adds none before the player has entered the game or when the server shuts down, none but a
  logout for a player who is dead or gone, and it disconnects after a packet that is too short for
  what it announces.
\<close>

theorem request_gate:
  assumes "wf_message m" "unat (msg_length m) + 8 \<le> NETWORKMESSAGE_MAXSIZE"
  shows "\<exists>s' ts d m'. parsePacket s m = Some (s', ts, d, m') \<and> length ts \<le> 1 \<and>
    (\<not> acceptPackets s \<or> server_shutdown s \<or> ses_player s = None \<longrightarrow> ts = []) \<and>
    (\<not> playing s \<longrightarrow> set ts \<subseteq> {Task logout}) \<and>
    (playing s \<and> msg_length m \<noteq> 0 \<and> msg_overrun m' \<longrightarrow> d)"
proof -
  obtain b m1 where b: "getByte m = (b, m1)" by fastforce
  have m1: "unat (msg_length m1) + 8 \<le> length (msg_buffer m1)" "length (msg_buffer m1) \<le> NETWORKMESSAGE_MAXSIZE"
    using getByte_bounds [OF b] assms by (simp_all add: wf_message_def)
  obtain s' ts m' where d: "dispatch s b m1 = Some (s', ts, m')" "length ts \<le> 1"
    using dispatch_total [OF m1, of s b] by blast
  have "dispatch s 0x14 m1 = Some (s, [Task logout], m1)"
    by (simp add: dispatch_def request_switch_def addGameTask_def)
  note logout = this
  consider "\<not> acceptPackets s \<or> server_shutdown s \<or> msg_length m = 0"
    | "acceptPackets s" "\<not> server_shutdown s" "msg_length m \<noteq> 0" "ses_player s = None"
    | p where "acceptPackets s" "\<not> server_shutdown s" "msg_length m \<noteq> 0" "ses_player s = Some p" by auto
  then show ?thesis
  proof cases
    case 3
    show ?thesis
    proof (cases "isRemoved p \<or> health p \<le> 0")
      case True
      define ts d where "ts = (if b = 0x14 then [Task logout] else [])" and "d = (if b = 0x14 then msg_overrun m1 else b = 0x0F)"
      have "parsePacket s m = Some (s, ts, d, m1)"
        using 3 b logout True by (simp add: parsePacket_def ts_def d_def)
      moreover have "set ts \<subseteq> {Task logout}" "length ts \<le> 1" by (auto simp: ts_def)
      moreover have "\<not> playing s" using True 3 by (auto simp: playing_def)
      ultimately show ?thesis using 3 by (intro exI [of _ s] exI [of _ ts] exI [of _ d] exI [of _ m1]) simp
    next
      case False
      then have "parsePacket s m = Some (s', ts, msg_overrun m', m')"
        using 3 b d(1) by (simp add: parsePacket_def)
      then show ?thesis using False 3 d(2) by (simp add: playing_def)
    qed
  next
    case 1
    then have "parsePacket s m = Some (s, [], False, m)" by (auto simp: parsePacket_def)
    with 1 show ?thesis by (auto simp: playing_def)
  next
    case 2
    then have "parsePacket s m = Some (s, [], b = 0x0F, m1)" using b by (simp add: parsePacket_def)
    with 2 show ?thesis by (auto simp: playing_def)
  qed
qed

lemma request_gate_witness:
  "\<exists>s' ts d m'. parsePacket \<lparr>acceptPackets = True, server_shutdown = False,
       ses_player = Some \<lparr>isRemoved = False, health = 0\<rparr>, debugAssertSent = False\<rparr>
     (packet_message [W8 0x78]) = Some (s', ts, d, m') \<and> set ts \<subseteq> {Task logout}"
  using request_gate [of "packet_message [W8 0x78]" "\<lparr>acceptPackets = True, server_shutdown = False,
       ses_player = Some \<lparr>isRemoved = False, health = 0\<rparr>, debugAssertSent = False\<rparr>"]
  by (force simp: wf_message_def net_consts packet_message_def wires_image_def playing_def)

end
