(* ===== verification/Map_Description.thy ===== *)
theory Map_Description
  imports Game_Requests "HOL-Library.Multiset"
begin

text \<open>
  What the server tells a client of the map: \<open>GetTileDescription\<close>, \<open>GetFloorDescription\<close>,
  \<open>GetMapDescription\<close>, \<open>AddCreature\<close> and the packets that use them (\<open>src/src/protocolgame.cpp\<close>). A function
  that fills a message is the list of the values it adds, in order; \<open>put_wire\<close> writes them, and \<open>Net_Message\<close>
  says what happens at the end of the buffer. Coordinates are the \<open>int32_t\<close> of the code; \<open>getTile\<close>
  takes them modulo its 16 and 8 bits.
\<close>

section \<open>What is described\<close>

record tile_item =
  ti_type :: item_wire_type
  ti_count :: u16
  ti_fluid :: u16

text \<open>
  A creature as the viewing player has it. The health is the percentage, which the code computes in
  floating point.
\<close>

record creature_view =
  c_id :: u32
  c_name :: cstring
  c_health_hidden :: bool
  c_health :: byte
  c_direction :: direction
  c_ghost :: bool
  c_invisible :: bool
  c_outfit :: outfit
  c_light_level :: byte
  c_light_color :: byte
  c_step_speed :: u16
  c_skull :: byte
  c_shield :: byte
  c_emblem :: byte
  c_walkthrough :: bool
  c_visible :: bool

record tile_view =
  t_ground :: "tile_item option"
  t_top_items :: "tile_item list"
  t_creatures :: "creature_view list"
  t_down_items :: "tile_item list"

text \<open>
  The session: the player, the map, the item table, whether a known creature can be seen, where a
  new id comes to stand in the iteration order of the hash set \<open>knownCreatureSet\<close>, and the value
  of a variable that nothing was assigned to.
\<close>

record viewer =
  v_pos :: position
  v_access :: bool
  v_tile :: "u16 \<Rightarrow> u16 \<Rightarrow> byte \<Rightarrow> tile_view option"
  v_item_type :: "u16 \<Rightarrow> item_wire_type"
  v_sees :: "u32 \<Rightarrow> bool"
  v_insert :: "u32 \<Rightarrow> u32 list \<Rightarrow> u32 list"
  v_unassigned :: u32

definition maxClientViewportX :: int where "maxClientViewportX = 8"
definition maxClientViewportY :: int where "maxClientViewportY = 6"
definition MAP_MAX_LAYERS :: int where "MAP_MAX_LAYERS = 16"

definition canSee :: "position \<Rightarrow> int \<Rightarrow> int \<Rightarrow> int \<Rightarrow> bool" where
  "canSee myPos x y z =
     (if uint (pz myPos) \<le> 7 \<and> z > 7 then False
      else if \<not> uint (pz myPos) \<le> 7 \<and> \<bar>uint (pz myPos) - z\<bar> > 2 then False
      else
        let offsetz = uint (pz myPos) - z
        in x \<ge> uint (px myPos) - maxClientViewportX + offsetz \<and>
           x \<le> uint (px myPos) + (maxClientViewportX + 1) + offsetz \<and>
           y \<ge> uint (py myPos) - maxClientViewportY + offsetz \<and>
           y \<le> uint (py myPos) + (maxClientViewportY + 1) + offsetz)"

definition canSeePos :: "position \<Rightarrow> position \<Rightarrow> bool" where
  "canSeePos myPos p = canSee myPos (uint (px p)) (uint (py p)) (uint (pz p))"

section \<open>Things\<close>

definition item_wires :: "tile_item \<Rightarrow> wire list" where
  "item_wires i =
     W16 (clientId (ti_type i)) #
     (if it_stackable (ti_type i) then [W8 (ucast (min 0xFF (ti_count i)))]
      else if it_splash (ti_type i) \<or> it_fluid_container (ti_type i) then [W8 (fluidMap ! unat (ti_fluid i AND 7))]
      else [])"

definition AddOutfit :: "viewer \<Rightarrow> outfit \<Rightarrow> wire list" where
  "AddOutfit v outfit =
     W16 (lookType outfit) #
     (if lookType outfit \<noteq> 0
      then [W8 (lookHead outfit), W8 (lookBody outfit), W8 (lookLegs outfit), W8 (lookFeet outfit), W8 (lookAddons outfit)]
      else [W16 (clientId (v_item_type v (lookTypeEx outfit)))])"

definition no_outfit :: outfit where
  "no_outfit = \<lparr>lookType = 0, lookTypeEx = 0, lookHead = 0, lookBody = 0, lookLegs = 0, lookFeet = 0, lookAddons = 0\<rparr>"

definition AddCreature :: "viewer \<Rightarrow> creature_view \<Rightarrow> bool \<Rightarrow> u32 option \<Rightarrow> wire list" where
  "AddCreature v c known remove =
     (if known then [W16 0x62, W32 (c_id c)]
      else [W16 0x61, W32 (case remove of Some r \<Rightarrow> r | None \<Rightarrow> v_unassigned v), W32 (c_id c), WString (c_name c)]) @
     [W8 (if c_health_hidden c then 0 else c_health c), W8 (direction_code (c_direction c))] @
     AddOutfit v (if \<not> c_ghost c \<and> \<not> c_invisible c then c_outfit c else no_outfit) @
     [W8 (if v_access v then 0xFF else c_light_level c), W8 (c_light_color c), W16 (c_step_speed c),
      W8 (c_skull c), W8 (c_shield c)] @
     (if \<not> known then [W8 (c_emblem c)] else []) @
     [W8 (if c_walkthrough c then 0 else 1)]"

text \<open>Whether the creature is known, the id that makes room (unassigned when it is known), the set.\<close>

definition checkCreatureAsKnown :: "viewer \<Rightarrow> u32 \<Rightarrow> u32 list \<Rightarrow> bool \<times> u32 option \<times> u32 list" where
  "checkCreatureAsKnown v i K =
     (if i \<in> set K then (True, None, K)
      else
        let K = v_insert v i K
        in if length K > 250 then
             (case find (\<lambda>j. \<not> v_sees v j) K of
                Some j \<Rightarrow> (False, Some j, remove1 j K)
              | None \<Rightarrow>
                  let j = (if hd K = i then hd (tl K) else hd K)
                  in (False, Some j, remove1 j K))
           else (False, Some 0, K))"

section \<open>Tiles\<close>

text \<open>The items of a list up to the tenth thing, with the number of things after them.\<close>

fun add_items :: "tile_item list \<Rightarrow> int \<Rightarrow> wire list list \<times> int" where
  "add_items [] things = ([], things)"
| "add_items (i # is) things =
     (if things + 1 = 10 then ([item_wires i], things + 1)
      else apfst ((#) (item_wires i)) (add_items is (things + 1)))"

fun add_creatures :: "viewer \<Rightarrow> creature_view list \<Rightarrow> int \<Rightarrow> u32 list \<Rightarrow> wire list list \<times> int \<times> u32 list" where
  "add_creatures v [] things K = ([], things, K)"
| "add_creatures v (c # cs) things K =
     (if \<not> c_visible c then add_creatures v cs things K
      else
        let (known, removed, K) = checkCreatureAsKnown v (c_id c) K
        in apfst ((#) (AddCreature v c known removed)) (add_creatures v cs (things + 1) K))"

definition tile_things :: "viewer \<Rightarrow> tile_view \<Rightarrow> u32 list \<Rightarrow> wire list list \<times> u32 list" where
  "tile_things v t K =
     (let (ground, things) = (case t_ground t of Some g \<Rightarrow> ([item_wires g], 1) | None \<Rightarrow> ([], 0));
          (top, things) = add_items (t_top_items t) things;
          (creatures, things, K) = add_creatures v (rev (t_creatures t)) things K;
          down = (if things < 10 then fst (add_items (t_down_items t) things) else [])
      in (ground @ top @ creatures @ down, K))"

definition GetTileDescription :: "viewer \<Rightarrow> tile_view \<Rightarrow> u32 list \<Rightarrow> wire list \<times> u32 list" where
  "GetTileDescription v t K = apfst concat (tile_things v t K)"

section \<open>Floors\<close>

text \<open>The cells of a floor in the order of its two loops.\<close>

definition floor_cells :: "int \<Rightarrow> int \<Rightarrow> int \<Rightarrow> int \<Rightarrow> int \<Rightarrow> int \<Rightarrow> (int \<times> int \<times> int) list" where
  "floor_cells x y z width height offset =
     [(x + nx + offset, y + ny + offset, z). nx \<leftarrow> [0..width - 1], ny \<leftarrow> [0..height - 1]]"

definition cell_tile :: "viewer \<Rightarrow> int \<times> int \<times> int \<Rightarrow> tile_view option" where
  "cell_tile v c = (case c of (x, y, z) \<Rightarrow> v_tile v (word_of_int x) (word_of_int y) (word_of_int z))"

text \<open>The body of the loops: the message, the number of empty cells to skip, the known creatures.\<close>

type_synonym description = "wire list \<times> int \<times> u32 list"

definition describe_cell :: "viewer \<Rightarrow> int \<times> int \<times> int \<Rightarrow> description \<Rightarrow> description" where
  "describe_cell v c d =
     (case d of (msg, skip, K) \<Rightarrow>
        case cell_tile v c of
          Some tile \<Rightarrow>
            (let msg = (if skip \<ge> 0 then msg @ [W8 (word_of_int skip), W8 0xFF] else msg);
                 (ws, K) = GetTileDescription v tile K
             in (msg @ ws, 0, K))
        | None \<Rightarrow>
            if skip = 0xFE then (msg @ [W8 0xFF, W8 0xFF], -1, K) else (msg, skip + 1, K))"

definition GetFloorDescription :: "viewer \<Rightarrow> int \<Rightarrow> int \<Rightarrow> int \<Rightarrow> int \<Rightarrow> int \<Rightarrow> int \<Rightarrow> description \<Rightarrow> description" where
  "GetFloorDescription v x y z width height offset d =
     fold (describe_cell v) (floor_cells x y z width height offset) d"

text \<open>The last run of empty cells.\<close>

definition flush_skip :: "description \<Rightarrow> wire list \<times> u32 list" where
  "flush_skip d =
     (case d of (msg, skip, K) \<Rightarrow> (if skip \<ge> 0 then msg @ [W8 (word_of_int skip), W8 0xFF] else msg, K))"

text \<open>The floors from the first to the last; a floor is below 16, so the loop ends.\<close>

definition map_floors :: "int \<Rightarrow> int list" where
  "map_floors z = (if z > 7 then [z - 2..min (MAP_MAX_LAYERS - 1) (z + 2)] else rev [0..7])"

definition GetMapDescription :: "viewer \<Rightarrow> int \<Rightarrow> int \<Rightarrow> int \<Rightarrow> int \<Rightarrow> int \<Rightarrow> u32 list \<Rightarrow> wire list \<times> u32 list" where
  "GetMapDescription v x y z width height K =
     flush_skip (fold (\<lambda>nz. GetFloorDescription v x y nz width height (z - nz)) (map_floors z) ([], -1, K))"

section \<open>The packets\<close>

text \<open>A packet function yields the packets it sends and the known creatures.\<close>

definition wire_pos :: "position \<Rightarrow> wire" where
  "wire_pos p = WPosition (px p, py p, pz p)"

definition sendMapDescription :: "viewer \<Rightarrow> position \<Rightarrow> u32 list \<Rightarrow> wire list list \<times> u32 list" where
  "sendMapDescription v pos K =
     (let (ws, K) = GetMapDescription v (uint (px pos) - maxClientViewportX) (uint (py pos) - maxClientViewportY)
        (uint (pz pos)) (maxClientViewportX * 2 + 2) (maxClientViewportY * 2 + 2) K
      in ([[W8 0x64, wire_pos (v_pos v)] @ ws], K))"

definition sendAddTileItem :: "viewer \<Rightarrow> position \<Rightarrow> u32 \<Rightarrow> tile_item \<Rightarrow> wire list list" where
  "sendAddTileItem v pos stackpos item =
     (if \<not> canSeePos (v_pos v) pos then []
      else [[W8 0x6A, wire_pos pos, W8 (ucast stackpos)] @ item_wires item])"

definition sendUpdateTileItem :: "viewer \<Rightarrow> position \<Rightarrow> u32 \<Rightarrow> tile_item \<Rightarrow> wire list list" where
  "sendUpdateTileItem v pos stackpos item =
     (if \<not> canSeePos (v_pos v) pos then []
      else [[W8 0x6B, wire_pos pos, W8 (ucast stackpos)] @ item_wires item])"

definition RemoveTileThing :: "position \<Rightarrow> u32 \<Rightarrow> wire list" where
  "RemoveTileThing pos stackpos = (if stackpos \<ge> 10 then [] else [W8 0x6C, wire_pos pos, W8 (ucast stackpos)])"

definition RemoveTileCreature :: "creature_view \<Rightarrow> position \<Rightarrow> u32 \<Rightarrow> wire list" where
  "RemoveTileCreature c pos stackpos =
     (if stackpos < 10 then RemoveTileThing pos stackpos else [W8 0x6C, W16 0xFFFF, W32 (c_id c)])"

definition sendRemoveTileThing :: "viewer \<Rightarrow> position \<Rightarrow> u32 \<Rightarrow> wire list list" where
  "sendRemoveTileThing v pos stackpos =
     (if \<not> canSeePos (v_pos v) pos then [] else [RemoveTileThing pos stackpos])"

definition sendUpdateTileCreature ::
  "viewer \<Rightarrow> position \<Rightarrow> u32 \<Rightarrow> creature_view \<Rightarrow> u32 list \<Rightarrow> wire list list \<times> u32 list" where
  "sendUpdateTileCreature v pos stackpos c K =
     (if \<not> canSeePos (v_pos v) pos then ([], K)
      else
        let (known, removed, K) = checkCreatureAsKnown v (c_id c) K
        in ([[W8 0x6B, wire_pos pos, W8 (ucast stackpos)] @ AddCreature v c False removed], K))"

definition sendRemoveTileCreature :: "viewer \<Rightarrow> creature_view \<Rightarrow> position \<Rightarrow> u32 \<Rightarrow> wire list list" where
  "sendRemoveTileCreature v c pos stackpos =
     (if stackpos < 10 then
        (if \<not> canSeePos (v_pos v) pos then [] else [RemoveTileThing pos stackpos])
      else [[W8 0x6C, W16 0xFFFF, W32 (c_id c)]])"

definition sendUpdateTile :: "viewer \<Rightarrow> tile_view option \<Rightarrow> position \<Rightarrow> u32 list \<Rightarrow> wire list list \<times> u32 list" where
  "sendUpdateTile v tile pos K =
     (if \<not> canSeePos (v_pos v) pos then ([], K)
      else case tile of
             Some t \<Rightarrow> (let (ws, K) = GetTileDescription v t K
                       in ([[W8 0x69, wire_pos pos] @ ws @ [W8 0x00, W8 0xFF]], K))
           | None \<Rightarrow> ([[W8 0x69, wire_pos pos, W8 0x01, W8 0xFF]], K))"

definition CONST_ME_TELEPORT :: byte where "CONST_ME_TELEPORT = 11"

definition sendMagicEffect :: "viewer \<Rightarrow> position \<Rightarrow> byte \<Rightarrow> wire list list" where
  "sendMagicEffect v pos type =
     (if \<not> canSeePos (v_pos v) pos then [] else [[W8 0x83, wire_pos pos, W8 (type)]])"

text \<open>\<open>sendAddCreature\<close> for a creature that is not the player; \<open>tile\<close> is the creature's tile.\<close>

definition sendAddCreature ::
  "viewer \<Rightarrow> creature_view \<Rightarrow> tile_view option \<Rightarrow> position \<Rightarrow> int \<Rightarrow> bool \<Rightarrow> u32 list \<Rightarrow> wire list list \<times> u32 list" where
  "sendAddCreature v c tile pos stackpos isLogin K =
     (if \<not> canSeePos (v_pos v) pos then ([], K)
      else
        let (packets, K) =
              (if stackpos \<ge> 10 then
                 (case tile of Some t \<Rightarrow> sendUpdateTile v (Some t) pos K | None \<Rightarrow> ([], K))
               else
                 let (known, removed, K) = checkCreatureAsKnown v (c_id c) K
                 in ([[W8 0x6A, wire_pos pos, W8 (word_of_int stackpos)] @ AddCreature v c known removed], K))
        in (packets @ (if isLogin then sendMagicEffect v pos CONST_ME_TELEPORT else []), K))"

section \<open>The client's reading of a description\<close>

text \<open>
  A reference client on the bytes: it takes values off the front, knows which items have a second
  byte from its own table, reads the things of a tile until the marker \<open>0xFF\<close>, and then skips as
  many cells as the marker says.
\<close>

fun take_wire :: "wire_kind \<Rightarrow> byte list \<Rightarrow> (wire \<times> byte list) option" where
  "take_wire K8 bs = (if length bs < 1 then None else Some (W8 (hd bs), tl bs))"
| "take_wire K16 bs = (if length bs < 2 then None else Some (W16 (le_word (take 2 bs)), drop 2 bs))"
| "take_wire K32 bs = (if length bs < 4 then None else Some (W32 (le_word (take 4 bs)), drop 4 bs))"
| "take_wire KPosition bs =
     (if length bs < 5 then None
      else Some (WPosition (le_word (take 2 bs), le_word (take 2 (drop 2 bs)), bs ! 4), drop 5 bs))"
| "take_wire KString bs =
     (if length bs < 2 then None
      else let n = unat (le_word (take 2 bs) :: u16)
           in if length bs < 2 + n then None else Some (WString (take n (drop 2 bs)), drop (2 + n) bs))"

fun take_wires :: "wire_kind list \<Rightarrow> byte list \<Rightarrow> (wire list \<times> byte list) option" where
  "take_wires [] bs = Some ([], bs)"
| "take_wires (k # ks) bs =
     do { (w, bs) \<leftarrow> take_wire k bs; (ws, bs) \<leftarrow> take_wires ks bs; Some (w # ws, bs) }"

definition wire_u16 :: "wire \<Rightarrow> u16" where
  "wire_u16 w = (case w of W16 v \<Rightarrow> v | _ \<Rightarrow> 0)"

text \<open>A creature after its first value: the ids, the name of a new one, the outfit, and the rest.\<close>

definition client_creature :: "bool \<Rightarrow> byte list \<Rightarrow> (wire list \<times> byte list) option" where
  "client_creature known bs = do {
     (front, bs) \<leftarrow> take_wires (if known then [K32, K8, K8, K16] else [K32, K32, KString, K8, K8, K16]) bs;
     (look, bs) \<leftarrow> take_wires (if wire_u16 (last front) \<noteq> 0 then [K8, K8, K8, K8, K8] else [K16]) bs;
     (rest, bs) \<leftarrow> take_wires (if known then [K8, K8, K16, K8, K8, K8] else [K8, K8, K16, K8, K8, K8, K8]) bs;
     Some (front @ look @ rest, bs)
   }"

definition client_thing :: "(u16 \<Rightarrow> bool) \<Rightarrow> byte list \<Rightarrow> (wire list \<times> byte list) option" where
  "client_thing two_bytes bs = do {
     (w, bs) \<leftarrow> take_wire K16 bs;
     (ws, bs) \<leftarrow>
       (if wire_u16 w = 0x61 then client_creature False bs
        else if wire_u16 w = 0x62 then client_creature True bs
        else take_wires (if two_bytes (wire_u16 w) then [K8] else []) bs);
     Some (w # ws, bs)
   }"

text \<open>The things of a tile, the number of cells to skip after it, the bytes after the marker.\<close>

function client_tile :: "(u16 \<Rightarrow> bool) \<Rightarrow> byte list \<Rightarrow> (wire list list \<times> nat \<times> byte list) option" where
  "client_tile two_bytes bs =
     (case take_wire K16 bs of None \<Rightarrow> None
      | Some (w, rest) \<Rightarrow>
          if wire_u16 w \<ge> 0xFF00 then Some ([], unat (wire_u16 w AND 0xFF), rest)
          else case client_thing two_bytes bs of None \<Rightarrow> None
               | Some (t, rest) \<Rightarrow>
                   if length rest < length bs then map_option (apfst ((#) t)) (client_tile two_bytes rest) else None)"
  by pat_completeness auto
termination by (relation "measure (length \<circ> snd)") auto

fun client_cells :: "(u16 \<Rightarrow> bool) \<Rightarrow> nat \<Rightarrow> nat \<Rightarrow> byte list \<Rightarrow> (wire list list list \<times> byte list) option" where
  "client_cells two_bytes 0 skip bs = Some ([], bs)"
| "client_cells two_bytes (Suc n) (Suc skip) bs =
     map_option (apfst ((#) [])) (client_cells two_bytes n skip bs)"
| "client_cells two_bytes (Suc n) 0 bs =
     (case client_tile two_bytes bs of None \<Rightarrow> None
      | Some (ts, skip, bs) \<Rightarrow> map_option (apfst ((#) ts)) (client_cells two_bytes n skip bs))"

declare client_tile.simps [simp del]

lemma take_wire_image:
  "wire_valid w \<Longrightarrow> take_wire (kind_of w) (wire_image w @ bs) = Some (w, bs)"
proof (cases w)
  case (WString t)
  assume "wire_valid w"
  then have "unat (word_of_nat (length t) :: u16) = length t"
    using WString by (simp add: unat_of_nat take_bit_nat_eq_self_iff)
  then show ?thesis using WString by (simp add: string_image_def Let_def)
next
  case (WPosition p)
  then show ?thesis by (cases p) (simp add: position_image_def nth_append)
qed simp_all

lemma take_wires_image:
  "list_all wire_valid ws \<Longrightarrow> take_wires (map kind_of ws) (wires_image ws @ bs) = Some (ws, bs)"
  by (induction ws) (simp_all add: wires_image_def take_wire_image)

lemma take_wires_kinds:
  "list_all wire_valid ws \<Longrightarrow> map kind_of ws = ks \<Longrightarrow> take_wires ks (wires_image ws @ bs) = Some (ws, bs)"
  using take_wires_image by auto

lemma wires_image_append: "wires_image (xs @ ys) = wires_image xs @ wires_image ys"
  by (simp add: wires_image_def)

lemma wires_image_Cons: "wires_image (w # ws) = wire_image w @ wires_image ws"
  by (simp add: wires_image_def)

text \<open>A thing is readable if the reference client takes it off the front of any bytes.\<close>

definition readable :: "(u16 \<Rightarrow> bool) \<Rightarrow> wire list \<Rightarrow> bool" where
  "readable two_bytes ws \<longleftrightarrow>
     (\<exists>i rest. ws = W16 i # rest \<and> i < 0xFF00) \<and>
     (\<forall>bs. client_thing two_bytes (wires_image ws @ bs) = Some (ws, bs))"

definition item_agrees :: "(u16 \<Rightarrow> bool) \<Rightarrow> tile_item \<Rightarrow> bool" where
  "item_agrees two_bytes i \<longleftrightarrow>
     (let id = clientId (ti_type i)
      in id < 0xFF00 \<and> id \<noteq> 0x61 \<and> id \<noteq> 0x62 \<and>
         two_bytes id = (it_stackable (ti_type i) \<or> it_splash (ti_type i) \<or> it_fluid_container (ti_type i)))"

lemma item_readable: "item_agrees two_bytes i \<Longrightarrow> readable two_bytes (item_wires i)"
  by (auto simp: readable_def item_agrees_def item_wires_def client_thing_def wires_image_def wire_u16_def Let_def
      simp del: le_bytes.simps)

lemma client_creature_image:
  assumes "list_all wire_valid (front @ look @ rest)"
    and "map kind_of front = (if known then [K32, K8, K8, K16] else [K32, K32, KString, K8, K8, K16])"
    and "map kind_of look = (if wire_u16 (last front) \<noteq> 0 then [K8, K8, K8, K8, K8] else [K16])"
    and "map kind_of rest = (if known then [K8, K8, K16, K8, K8, K8] else [K8, K8, K16, K8, K8, K8, K8])"
  shows "client_creature known (wires_image (front @ look @ rest) @ bs) = Some (front @ look @ rest, bs)"
proof -
  have v: "list_all wire_valid front" "list_all wire_valid look" "list_all wire_valid rest" using assms(1) by simp_all
  note take_wires_kinds [OF v(1) assms(2)] take_wires_kinds [OF v(2) assms(3)] take_wires_kinds [OF v(3) assms(4)]
  then show ?thesis by (simp add: client_creature_def wires_image_append)
qed

lemma readable_creature:
  assumes "list_all wire_valid (front @ look @ rest)"
    and "map kind_of front = (if known then [K32, K8, K8, K16] else [K32, K32, KString, K8, K8, K16])"
    and "map kind_of look = (if wire_u16 (last front) \<noteq> 0 then [K8, K8, K8, K8, K8] else [K16])"
    and "map kind_of rest = (if known then [K8, K8, K16, K8, K8, K8] else [K8, K8, K16, K8, K8, K8, K8])"
  shows "readable two_bytes (W16 (if known then 0x62 else 0x61) # front @ look @ rest)"
proof -
  have "client_thing two_bytes (wires_image (W16 (if known then 0x62 else 0x61) # front @ look @ rest) @ bs) =
      Some (W16 (if known then 0x62 else 0x61) # front @ look @ rest, bs)" for bs
    using take_wire_image [of "W16 (if known then 0x62 else 0x61)" "wires_image (front @ look @ rest) @ bs"]
      client_creature_image [OF assms, of bs]
    by (cases known) (simp_all add: client_thing_def wires_image_Cons wire_u16_def del: take_wire.simps le_bytes.simps wire_image.simps)
  then show ?thesis by (simp add: readable_def)
qed

lemma creature_readable:
  assumes "length (c_name c) \<le> 8192"
  shows "readable two_bytes (AddCreature v c known removed)"
proof -
  define ot where "ot = (if \<not> c_ghost c \<and> \<not> c_invisible c then c_outfit c else no_outfit)"
  define front where "front =
    (if known then [W32 (c_id c)]
     else [W32 (case removed of Some r \<Rightarrow> r | None \<Rightarrow> v_unassigned v), W32 (c_id c), WString (c_name c)]) @
    [W8 (if c_health_hidden c then 0 else c_health c), W8 (direction_code (c_direction c)), W16 (lookType ot)]"
  define rest where "rest =
    [W8 (if v_access v then 0xFF else c_light_level c), W8 (c_light_color c), W16 (c_step_speed c),
     W8 (c_skull c), W8 (c_shield c)] @
    (if \<not> known then [W8 (c_emblem c)] else []) @ [W8 (if c_walkthrough c then 0 else 1)]"
  have "readable two_bytes (W16 (if known then 0x62 else 0x61) # front @ tl (AddOutfit v ot) @ rest)"
    using assms by (intro readable_creature) (simp_all add: front_def rest_def AddOutfit_def wire_u16_def)
  moreover have "AddCreature v c known removed = W16 (if known then 0x62 else 0x61) # front @ tl (AddOutfit v ot) @ rest"
    by (simp add: AddCreature_def front_def rest_def ot_def AddOutfit_def)
  ultimately show ?thesis by simp
qed

section \<open>The things of a tile are readable\<close>

definition tile_agrees :: "(u16 \<Rightarrow> bool) \<Rightarrow> tile_view \<Rightarrow> bool" where
  "tile_agrees two_bytes t \<longleftrightarrow>
     list_all (item_agrees two_bytes) (t_top_items t @ t_down_items t) \<and>
     pred_option (item_agrees two_bytes) (t_ground t) \<and>
     list_all (\<lambda>c. length (c_name c) \<le> 8192) (t_creatures t)"

lemma add_items_readable:
  "list_all (item_agrees two_bytes) is \<Longrightarrow> list_all (readable two_bytes) (fst (add_items is things))"
  by (induction "is" things rule: add_items.induct) (auto simp: item_readable)

lemma add_creatures_readable:
  "list_all (\<lambda>c. length (c_name c) \<le> 8192) cs \<Longrightarrow> list_all (readable two_bytes) (fst (add_creatures v cs things K))"
  by (induction v cs things K rule: add_creatures.induct) (auto simp: creature_readable split: prod.split)

lemma tile_things_readable:
  assumes "tile_agrees two_bytes t"
  shows "list_all (readable two_bytes) (fst (tile_things v t K))"
proof -
  have items: "list_all (item_agrees two_bytes) (t_top_items t)" "list_all (item_agrees two_bytes) (t_down_items t)"
    "list_all (\<lambda>c. length (c_name c) \<le> 8192) (rev (t_creatures t))"
    using assms by (auto simp: tile_agrees_def list_all_iff)
  have ground: "list_all (readable two_bytes) (fst (case t_ground t of Some g \<Rightarrow> ([item_wires g], 1 :: int) | None \<Rightarrow> ([], 0)))"
    using assms by (auto simp: tile_agrees_def item_readable split: option.split)
  show ?thesis
    using ground add_items_readable [OF items(1)] add_items_readable [OF items(2)] add_creatures_readable [OF items(3)]
    by (fastforce simp: tile_things_def split_beta Let_def)
qed

section \<open>Reading the cells\<close>

lemma low_high:
  fixes k :: byte and h :: u16
  shows "ucast k OR push_bit 8 h = ucast k + push_bit 8 h" "(ucast k OR push_bit 8 h) AND mask 8 = ucast k"
proof -
  show "ucast k OR push_bit 8 h = ucast k + push_bit 8 h"
    by (rule disjunctive_add [symmetric]) (auto simp: bit_simps dest: bit_imp_le_length)
  show "(ucast k OR push_bit 8 h) AND mask 8 = ucast k"
    by (rule bit_word_eqI) (auto simp: bit_simps dest: bit_imp_le_length)
qed

lemma marker_word: "unat (le_word [k, 0xFF] :: u16) = 0xFF00 + unat k"
proof -
  have "(le_word [k, 0xFF] :: u16) = ucast k + push_bit 8 0xFF" using low_high(1) [of k "0xFF"] by simp
  also have "\<dots> = word_of_nat (0xFF00 + unat k)" by simp
  finally have "(le_word [k, 0xFF] :: u16) = word_of_nat (0xFF00 + unat k)" .
  moreover have "unat k < 256" using unsigned_less [of k, where ?'a = nat] by simp
  ultimately show ?thesis by (simp only: unat_of_nat) (simp add: take_bit_nat_eq_self_iff)
qed

lemma marker_fields:
  "(le_word [k, 0xFF] :: u16) \<ge> 0xFF00" "unat ((le_word [k, 0xFF] :: u16) AND 0xFF) = unat k"
proof -
  show "(le_word [k, 0xFF] :: u16) \<ge> 0xFF00" using marker_word [of k] by (simp add: word_le_nat_alt)
  have "(mask 8 :: u16) = 0xFF" by (simp add: mask_eq_exp_minus_1)
  then have "(le_word [k, 0xFF] :: u16) AND 0xFF = ucast k" using low_high(2) [of k "0xFF"] by simp
  then show "unat ((le_word [k, 0xFF] :: u16) AND 0xFF) = unat k"
    by (simp only:) (simp add: unsigned_ucast_eq take_bit_nat_eq_self_iff order.strict_trans [OF unsigned_less])
qed

lemma client_tile_marker: "client_tile two_bytes (k # 0xFF # bs) = Some ([], unat k, bs)"
proof -
  have "take_wire K16 (k # 0xFF # bs) = Some (W16 (le_word [k, 0xFF]), bs)"
    by (simp add: numeral_2_eq_2 del: le_word.simps)
  then show ?thesis
    using marker_fields [of k]
    by (subst client_tile.simps) (simp add: wire_u16_def del: le_word.simps take_wire.simps)
qed

lemma client_tile_things:
  "list_all (readable two_bytes) ts \<Longrightarrow> bs = k # 0xFF # rest \<Longrightarrow>
   client_tile two_bytes (wires_image (concat ts) @ bs) = Some (ts, unat k, rest)"
proof (induction ts)
  case Nil
  then show ?case by (simp add: wires_image_def client_tile_marker)
next
  case (Cons t ts)
  obtain i ws where t: "t = W16 i # ws" "i < 0xFF00" using Cons.prems(1) by (auto simp: readable_def)
  define more where "more = wires_image (concat ts) @ bs"
  have split: "wires_image (concat (t # ts)) @ bs = wires_image t @ more"
    by (simp add: more_def wires_image_append)
  have "client_thing two_bytes (wires_image t @ more) = Some (t, more)"
    using Cons.prems(1) by (simp add: readable_def)
  moreover have "take_wire K16 (wires_image t @ more) = Some (W16 i, wires_image ws @ more)"
    using take_wire_image [of "W16 i" "wires_image ws @ more"] t(1) by (simp add: wires_image_Cons del: take_wire.simps)
  moreover have "length more < length (wires_image t @ more)" by (simp add: t(1) wires_image_def)
  moreover have "\<not> i \<ge> 0xFF00" using t(2) by (simp add: not_le)
  ultimately show ?case
    using Cons unfolding split more_def [symmetric]
    by (subst client_tile.simps) (simp add: wire_u16_def more_def del: take_wire.simps)
qed

text \<open>The cells as runs: what the loops put out from a number of cells to skip on.\<close>

fun cells_wires :: "int \<Rightarrow> wire list list option list \<Rightarrow> wire list" where
  "cells_wires skip [] = (if skip \<ge> 0 then [W8 (word_of_int skip), W8 0xFF] else [])"
| "cells_wires skip (Some ts # cs) =
     (if skip \<ge> 0 then [W8 (word_of_int skip), W8 0xFF] else []) @ concat ts @ cells_wires 0 cs"
| "cells_wires skip (None # cs) =
     (if skip = 0xFE then [W8 0xFF, W8 0xFF] @ cells_wires (-1) cs else cells_wires (skip + 1) cs)"

definition cell_list :: "wire list list option list \<Rightarrow> wire list list list" where
  "cell_list cs = map (\<lambda>c. case c of Some ts \<Rightarrow> ts | None \<Rightarrow> []) cs"

lemma client_cells_skip:
  "client_cells two_bytes n 0 bs = Some (cs, rest) \<Longrightarrow>
   client_cells two_bytes (s + n) s bs = Some (replicate s [] @ cs, rest)"
  by (induction s) simp_all

lemma client_cells_runs:
  assumes "list_all (pred_option (list_all (readable two_bytes))) cs"
  shows "client_cells two_bytes (length cs) 0 (wires_image (cells_wires (-1) cs)) = Some (cell_list cs, []) \<and>
    (\<forall>s \<le> 0xFE. \<exists>k rest. wires_image (cells_wires (int s) cs) = k # 0xFF # rest \<and>
      client_cells two_bytes (s + length cs) (unat k) rest = Some (replicate s [] @ cell_list cs, []))"
  using assms
proof (induction cs)
  case Nil
  have "unat (word_of_nat s :: byte) = s" if "s \<le> 0xFE" for s
    using that by (simp add: unat_of_nat take_bit_nat_eq_self_iff)
  then show ?case
    using client_cells_skip [of two_bytes 0 "[]" "[]" "[]"] by (auto simp: cell_list_def wires_image_def)
next
  case (Cons c cs)
  then have ok: "list_all (pred_option (list_all (readable two_bytes))) cs" by simp
  note IH = Cons.IH [OF ok]
  obtain k0 rest0 where open0: "wires_image (cells_wires 0 cs) = k0 # 0xFF # rest0"
    "client_cells two_bytes (length cs) (unat k0) rest0 = Some (cell_list cs, [])"
    using IH by (force dest: conjunct2 [THEN spec, of _ _ 0])
  have next_cell: "client_cells two_bytes (Suc (length cs)) 0 (wires_image (concat ts) @ wires_image (cells_wires 0 cs)) =
      Some (ts # cell_list cs, [])" if "list_all (readable two_bytes) ts" for ts
    using client_tile_things [OF that open0(1)] open0(2) by simp
  show ?case
  proof (cases c)
    case (Some ts)
    have ts: "list_all (readable two_bytes) ts" using Cons.prems Some by simp
    have s: "unat (word_of_nat s :: byte) = s" if "s \<le> 0xFE" for s
      using that by (simp add: unat_of_nat take_bit_nat_eq_self_iff)
    show ?thesis
      using next_cell [OF ts] client_cells_skip [OF next_cell [OF ts]] s Some
      by (auto simp: wires_image_append wires_image_Cons cell_list_def)
  next
    case None
    have first: "client_cells two_bytes (Suc (length cs)) 0 (wires_image (cells_wires (-1) (c # cs))) =
        Some (cell_list (c # cs), [])"
      using next_cell [of "[]"] None by (simp add: cell_list_def wires_image_def)
    moreover have "\<exists>k rest. wires_image (cells_wires (int s) (c # cs)) = k # 0xFF # rest \<and>
      client_cells two_bytes (s + length (c # cs)) (unat k) rest = Some (replicate s [] @ cell_list (c # cs), [])"
      if "s \<le> 0xFE" for s
    proof (cases "s = 0xFE")
      case True
      then show ?thesis
        using client_cells_skip [of two_bytes "length cs" _ _ _ 255] replicate_add [of 254 1 "[]"] IH None
        by (simp add: wires_image_append wires_image_Cons cell_list_def)
    next
      case False
      then have "Suc s \<le> 0xFE" using that by simp
      then show ?thesis using IH None False
        by (fastforce simp: cell_list_def add.commute replicate_append_same [symmetric])
    qed
    ultimately show ?thesis by simp
  qed
qed

section \<open>What a description says\<close>

definition map_cells :: "int \<Rightarrow> int \<Rightarrow> int \<Rightarrow> int \<Rightarrow> int \<Rightarrow> (int \<times> int \<times> int) list" where
  "map_cells x y z width height = concat (map (\<lambda>nz. floor_cells x y nz width height (z - nz)) (map_floors z))"

text \<open>The things of every cell in turn; the known creatures pass from one cell to the next.\<close>

fun seen_cells :: "viewer \<Rightarrow> (int \<times> int \<times> int) list \<Rightarrow> u32 list \<Rightarrow> wire list list option list \<times> u32 list" where
  "seen_cells v [] K = ([], K)"
| "seen_cells v (c # cs) K =
     (case cell_tile v c of
        None \<Rightarrow> apfst ((#) None) (seen_cells v cs K)
      | Some t \<Rightarrow> (let (ts, K) = tile_things v t K in apfst ((#) (Some ts)) (seen_cells v cs K)))"

lemma describe_cells:
  "flush_skip (fold (describe_cell v) cs (msg, skip, K)) =
     (msg @ cells_wires skip (fst (seen_cells v cs K)), snd (seen_cells v cs K))"
proof (induction cs arbitrary: msg skip K)
  case Nil
  then show ?case by (simp add: flush_skip_def)
next
  case (Cons c cs)
  show ?case
  proof (cases "cell_tile v c")
    case None
    then show ?thesis using Cons by (simp add: describe_cell_def)
  next
    case (Some t)
    obtain ts K' where "tile_things v t K = (ts, K')" by fastforce
    then show ?thesis using Cons Some by (simp add: describe_cell_def GetTileDescription_def)
  qed
qed

lemma fold_floors:
  "fold (\<lambda>nz. GetFloorDescription v x y nz w h (z - nz)) zs d =
   fold (describe_cell v) (concat (map (\<lambda>nz. floor_cells x y nz w h (z - nz)) zs)) d"
  by (induction zs arbitrary: d) (simp_all add: GetFloorDescription_def)

lemma GetMapDescription_cells:
  "GetMapDescription v x y z w h K = apfst (cells_wires (-1)) (seen_cells v (map_cells x y z w h) K)"
  by (simp add: GetMapDescription_def fold_floors map_cells_def describe_cells apfst_def map_prod_def split_beta)

lemma length_seen_cells [simp]: "length (fst (seen_cells v cs K)) = length cs"
  by (induction v cs K rule: seen_cells.induct) (auto split: option.split prod.split)

lemma seen_cells_readable:
  "\<forall>c. pred_option (tile_agrees two_bytes) (cell_tile v c) \<Longrightarrow>
   list_all (pred_option (list_all (readable two_bytes))) (fst (seen_cells v cs K))"
proof (induction v cs K rule: seen_cells.induct)
  case (2 v c cs K)
  show ?case
  proof (cases "cell_tile v c")
    case (Some t)
    obtain ts K' where ts: "tile_things v t K = (ts, K')" by fastforce
    have "tile_agrees two_bytes t" using 2(3) Some by (metis option.pred_inject(2))
    then have "list_all (readable two_bytes) ts" using tile_things_readable [of two_bytes t v K] ts by simp
    then show ?thesis using 2 Some ts by simp
  qed (use 2 in simp)
qed simp


section \<open>The creatures both sides know\<close>

text \<open>What a client that knows a set of creatures knows after one more thing.\<close>

fun client_learns :: "wire list \<Rightarrow> u32 set \<Rightarrow> u32 set" where
  "client_learns (W16 a # W32 r # W32 i # ws) S = (if a = 0x61 then insert i (S - {r}) else S)"
| "client_learns _ S = S"

text \<open>The law of the hash set: a new id comes to stand somewhere among the others.\<close>

definition inserts :: "(u32 \<Rightarrow> u32 list \<Rightarrow> u32 list) \<Rightarrow> bool" where
  "inserts put \<longleftrightarrow> (\<forall>i K. i \<notin> set K \<longrightarrow> mset (put i K) = add_mset i (mset K))"

definition known_ok :: "u32 list \<Rightarrow> bool" where
  "known_ok K \<longleftrightarrow> distinct K \<and> length K \<le> 250 \<and> 0 \<notin> set K"

definition creature_ok :: "viewer \<Rightarrow> creature_view \<Rightarrow> bool" where
  "creature_ok v c \<longleftrightarrow> c_id c \<noteq> 0 \<and> (c_visible c \<longrightarrow> v_sees v (c_id c))"

lemma check_known:
  assumes "inserts (v_insert v)" "known_ok K" "i \<noteq> 0" "v_sees v i"
    and "checkCreatureAsKnown v i K = (known, r, K')"
  shows "known_ok K' \<and> i \<in> set K' \<and> known = (i \<in> set K) \<and>
    (if known then set K' = set K else \<exists>j. r = Some j \<and> set K' = insert i (set K - {j}))"
proof (cases "i \<in> set K")
  case True
  then show ?thesis using assms(2,5) by (auto simp: checkCreatureAsKnown_def)
next
  case False
  define L where "L = v_insert v i K"
  have m: "mset L = add_mset i (mset K)" using assms(1) False by (simp add: L_def inserts_def)
  have L: "set L = insert i (set K)" "distinct L" "length L = Suc (length K)"
    using m mset_eq_setD [of L "i # K"] mset_eq_imp_distinct_iff [of L "i # K"] mset_eq_length [of L "i # K"] False assms(2)
    by (simp_all add: known_ok_def)
  have drop: "known_ok (remove1 j L) \<and> i \<in> set (remove1 j L) \<and> set (remove1 j L) = insert i (set K - {j})"
    if "j \<in> set L" "j \<noteq> i" "length L > 250" for j
    using that L assms(2,3) by (auto simp: known_ok_def length_remove1)
  show ?thesis
  proof (cases "length L > 250")
    case False
    then show ?thesis using assms(2,3,5) L \<open>i \<notin> set K\<close>
      by (auto simp: checkCreatureAsKnown_def L_def [symmetric] known_ok_def)
  next
    case big: True
    define j where "j = (case find (\<lambda>j. \<not> v_sees v j) L of Some j \<Rightarrow> j
      | None \<Rightarrow> if hd L = i then hd (tl L) else hd L)"
    have res: "checkCreatureAsKnown v i K = (False, Some j, remove1 j L)"
      using \<open>i \<notin> set K\<close> big by (simp add: checkCreatureAsKnown_def L_def [symmetric] j_def Let_def split: option.split)
    obtain a b rest where "L = a # b # rest" using big by (cases L; cases "tl L") auto
    then have "j \<in> set L \<and> j \<noteq> i"
      using L(2) assms(4) by (auto simp: j_def find_Some_iff split: option.split)
    then show ?thesis using drop [of j] big res assms(5) \<open>i \<notin> set K\<close> by auto
  qed
qed

lemma learn_creature:
  "client_learns (AddCreature v c known (Some r)) S = (if known then S else insert (c_id c) (S - {r}))"
  "client_learns (AddCreature v c True None) S = S"
  by (simp_all add: AddCreature_def)

lemma learn_item: "client_learns (item_wires i) S = S"
  by (simp add: item_wires_def)

lemma learn_items: "fold client_learns (fst (add_items is things)) S = S"
  by (induction "is" things rule: add_items.induct) (simp_all add: learn_item)

lemma learn_creatures:
  "inserts (v_insert v) \<Longrightarrow> list_all (creature_ok v) cs \<Longrightarrow> known_ok K \<Longrightarrow> add_creatures v cs things K = (ts, n, K') \<Longrightarrow>
   known_ok K' \<and> fold client_learns ts (set K) = set K'"
proof (induction v cs things K arbitrary: ts n K' rule: add_creatures.induct)
  case (2 v c cs things K)
  show ?case
  proof (cases "c_visible c")
    case True
    obtain known r L where check: "checkCreatureAsKnown v (c_id c) K = (known, r, L)" by (metis prod_cases3)
    have L: "known_ok L" "if known then set L = set K else \<exists>j. r = Some j \<and> set L = insert (c_id c) (set K - {j})"
      using check_known [OF 2(3,5) _ _ check] 2(4) True by (auto simp: creature_ok_def)
    have learn: "client_learns (AddCreature v c known r) (set K) = set L"
      using L(2) by (cases known; cases r) (auto simp: learn_creature)
    obtain ts' where ts': "add_creatures v cs (things + 1) L = (ts', n, K')" "ts = AddCreature v c known r # ts'"
      using 2(6) True check by (cases "add_creatures v cs (things + 1) L") auto
    have "known_ok K' \<and> fold client_learns ts' (set L) = set K'"
      using 2(2) [OF _ check [symmetric] refl] 2(3,4) True L(1) ts'(1) by simp
    then show ?thesis using ts'(2) learn by simp
  qed (use 2 in simp)
qed simp

lemma learn_tile:
  assumes "inserts (v_insert v)" "list_all (creature_ok v) (t_creatures t)" "known_ok K" "tile_things v t K = (ts, K')"
  shows "known_ok K' \<and> fold client_learns ts (set K) = set K'"
proof -
  have rev: "list_all (creature_ok v) (rev (t_creatures t))" using assms(2) by simp
  have n: "fold client_learns (fst (case t_ground t of Some g \<Rightarrow> ([item_wires g], 1 :: int) | None \<Rightarrow> ([], 0))) S = S" for S
    by (auto simp: learn_item split: option.split)
  obtain g n1 where g: "(case t_ground t of Some g \<Rightarrow> ([item_wires g], 1 :: int) | None \<Rightarrow> ([], 0)) = (g, n1)" by fastforce
  obtain top n2 where top: "add_items (t_top_items t) n1 = (top, n2)" by fastforce
  obtain cr n3 L where cr: "add_creatures v (rev (t_creatures t)) n2 K = (cr, n3, L)" by (metis prod_cases3)
  define down where "down = (if n3 < 10 then fst (add_items (t_down_items t) n3) else [])"
  have "ts = g @ top @ cr @ down" "K' = L" using assms(4) g top cr by (simp_all add: tile_things_def down_def)
  moreover have "fold client_learns g S = S" "fold client_learns top S = S" "fold client_learns down S = S" for S
    using n [of S] g learn_items [of "t_top_items t" n1 S] top by (simp_all add: down_def learn_items)
  ultimately show ?thesis using learn_creatures [OF assms(1) rev assms(3) cr] by simp
qed

lemma learn_cells:
  assumes "inserts (v_insert v)" "\<forall>c. pred_option (\<lambda>t. list_all (creature_ok v) (t_creatures t)) (cell_tile v c)" "known_ok K"
  shows "known_ok (snd (seen_cells v cs K)) \<and>
    fold client_learns (concat (cell_list (fst (seen_cells v cs K)))) (set K) = set (snd (seen_cells v cs K))"
  using assms
proof (induction v cs K rule: seen_cells.induct)
  case (2 v c cs K)
  show ?case
  proof (cases "cell_tile v c")
    case None
    then show ?thesis using 2 by (simp add: cell_list_def)
  next
    case (Some t)
    obtain ts L where ts: "tile_things v t K = (ts, L)" by fastforce
    have "list_all (creature_ok v) (t_creatures t)" using 2(4) Some by (metis option.pred_inject(2))
    then have "known_ok L \<and> fold client_learns ts (set K) = set L" using learn_tile [OF 2(3) _ 2(5) ts] by simp
    then show ?thesis using 2 Some ts by (simp add: cell_list_def)
  qed
qed (simp add: cell_list_def)

text \<open>
  C25: The server and the client always agree on the creatures the client knows: after any map
  description, the server's set is what the client has who forgot, with every new creature, the one
  it was told to remove, and at most 250 creatures are known. It needs the law of the hash set
  (\<open>inserts\<close>), ids other than zero, which says that nothing is removed, and that a creature described
  can be seen, or the search for one to remove could pick the new one.
\<close>

theorem known_creatures_agree:
  assumes "inserts (v_insert v)" "known_ok K"
    and "\<forall>c. pred_option (\<lambda>t. list_all (creature_ok v) (t_creatures t)) (cell_tile v c)"
  shows "known_ok (snd (GetMapDescription v x y z w h K)) \<and>
    fold client_learns (concat (cell_list (fst (seen_cells v (map_cells x y z w h) K)))) (set K) =
      set (snd (GetMapDescription v x y z w h K))"
  using learn_cells [OF assms(1,3,2), of "map_cells x y z w h"] by (simp add: GetMapDescription_cells)

section \<open>Witnesses\<close>

definition example_tile :: tile_view where
  "example_tile =
     \<lparr>t_ground = Some \<lparr>ti_type = \<lparr>clientId = 102, it_stackable = False, it_splash = False, it_fluid_container = False\<rparr>,
        ti_count = 1, ti_fluid = 0\<rparr>,
      t_top_items = [],
      t_creatures = [\<lparr>c_id = 0x10000001, c_name = [82, 97, 116], c_health_hidden = False, c_health = 100,
        c_direction = SOUTH, c_ghost = False, c_invisible = False,
        c_outfit = \<lparr>lookType = 21, lookTypeEx = 0, lookHead = 0, lookBody = 0, lookLegs = 0, lookFeet = 0, lookAddons = 0\<rparr>,
        c_light_level = 0, c_light_color = 0, c_step_speed = 134, c_skull = 0, c_shield = 0, c_emblem = 0,
        c_walkthrough = False, c_visible = True\<rparr>],
      t_down_items = [\<lparr>ti_type = \<lparr>clientId = 3031, it_stackable = True, it_splash = False, it_fluid_container = False\<rparr>,
        ti_count = 100, ti_fluid = 0\<rparr>]\<rparr>"

definition example_viewer :: viewer where
  "example_viewer =
     \<lparr>v_pos = Position 100 100 7, v_access = False,
      v_tile = (\<lambda>x y z. if x = 100 \<and> z = 7 then Some example_tile else None),
      v_item_type = (\<lambda>_. \<lparr>clientId = 100, it_stackable = False, it_splash = False, it_fluid_container = False\<rparr>),
      v_sees = (\<lambda>i. i = 0x10000001), v_insert = (\<lambda>i K. i # K), v_unassigned = 0\<rparr>"

lemma example_viewer_tile: "cell_tile example_viewer c = None \<or> cell_tile example_viewer c = Some example_tile"
  by (cases c) (simp add: cell_tile_def example_viewer_def)


lemma known_creatures_agree_witness:
  "fold client_learns (concat (cell_list (fst (seen_cells example_viewer (map_cells 92 94 7 18 14) [5])))) {5} =
     set (snd (GetMapDescription example_viewer 92 94 7 18 14 [5]))"
proof -
  have "list_all (creature_ok example_viewer) (t_creatures example_tile)"
    by (simp add: creature_ok_def example_tile_def example_viewer_def)
  then have "pred_option (\<lambda>t. list_all (creature_ok example_viewer) (t_creatures t)) (cell_tile example_viewer c)" for c
    using example_viewer_tile [of c] by auto
  moreover have "inserts (v_insert example_viewer)" by (simp add: inserts_def example_viewer_def)
  ultimately show ?thesis
    using known_creatures_agree [of example_viewer "[5]" 92 94 7 18 14] by (simp add: known_ok_def)
qed

end
