(* ===== verification/Client_View.thy ===== *)
theory Client_View
  imports Map_Description
begin

text \<open>
  The packets that keep the client's map up to date while the player moves: \<open>sendMoveCreature\<close>,
  \<open>MoveUpCreature\<close> and \<open>MoveDownCreature\<close> of \<open>src/src/protocolgame.cpp\<close>, and what they cover of the area the
  player can see.
\<close>

section \<open>Floor changes and steps\<close>

definition view_width :: int where "view_width = maxClientViewportX * 2 + 2"
definition view_height :: int where "view_height = maxClientViewportY * 2 + 2"

definition MoveUpCreature :: "viewer \<Rightarrow> position \<Rightarrow> position \<Rightarrow> u32 list \<Rightarrow> wire list \<times> u32 list" where
  "MoveUpCreature v newPos oldPos K =
     (let ox = uint (px oldPos); oy = uint (py oldPos); oz = uint (pz oldPos); nz = uint (pz newPos);
          (floors, K) =
            (if nz = 7 then
               flush_skip (fold (\<lambda>i. GetFloorDescription v (ox - maxClientViewportX) (oy - maxClientViewportY) i
                 view_width view_height (8 - i)) [5, 4, 3, 2, 1, 0] ([], -1, K))
             else if nz > 7 then
               flush_skip (GetFloorDescription v (ox - maxClientViewportX) (oy - maxClientViewportY) (oz - 3)
                 view_width view_height 3 ([], -1, K))
             else ([], K));
          (west, K) = GetMapDescription v (ox - maxClientViewportX) (oy - (maxClientViewportY - 1)) nz 1 view_height K;
          (north, K) = GetMapDescription v (ox - maxClientViewportX) (oy - maxClientViewportY) nz view_width 1 K
      in ([W8 0xBE] @ floors @ [W8 0x68] @ west @ [W8 0x65] @ north, K))"

definition MoveDownCreature :: "viewer \<Rightarrow> position \<Rightarrow> position \<Rightarrow> u32 list \<Rightarrow> wire list \<times> u32 list" where
  "MoveDownCreature v newPos oldPos K =
     (let ox = uint (px oldPos); oy = uint (py oldPos); oz = uint (pz oldPos); nz = uint (pz newPos);
          (floors, K) =
            (if nz = 8 then
               flush_skip (fold (\<lambda>i. GetFloorDescription v (ox - maxClientViewportX) (oy - maxClientViewportY) (nz + i)
                 view_width view_height (- i - 1)) [0, 1, 2] ([], -1, K))
             else if nz > oz \<and> nz > 8 \<and> nz < 14 then
               flush_skip (GetFloorDescription v (ox - maxClientViewportX) (oy - maxClientViewportY) (nz + 2)
                 view_width view_height (-3) ([], -1, K))
             else ([], K));
          (east, K) = GetMapDescription v (ox + (maxClientViewportX + 1)) (oy - (maxClientViewportY + 1)) nz 1 view_height K;
          (south, K) = GetMapDescription v (ox - maxClientViewportX) (oy + (maxClientViewportY + 1)) nz view_width 1 K
      in ([W8 0xBF] @ floors @ [W8 0x66] @ east @ [W8 0x67] @ south, K))"

text \<open>The message of a player who walks: the branch of \<open>sendMoveCreature\<close> for oneself.\<close>

definition sendMoveSelf ::
  "viewer \<Rightarrow> creature_view \<Rightarrow> position \<Rightarrow> position \<Rightarrow> int \<Rightarrow> u32 list \<Rightarrow> wire list \<times> u32 list" where
  "sendMoveSelf v c newPos oldPos oldStackPos K =
     (let nx = uint (px newPos); ny = uint (py newPos); nz = uint (pz newPos);
          ox = uint (px oldPos); oy = uint (py oldPos); oz = uint (pz oldPos);
          front =
            (if oz = 7 \<and> nz \<ge> 8 then RemoveTileCreature c oldPos (word_of_int oldStackPos)
             else
               [W8 0x6D] @
               (if oldStackPos < 10 then [wire_pos oldPos, W8 (word_of_int oldStackPos)]
                else [W16 0xFFFF, W32 (c_id c)]) @
               [wire_pos newPos]);
          (floor, K) =
            (if nz > oz then MoveDownCreature v newPos oldPos K
             else if nz < oz then MoveUpCreature v newPos oldPos K
             else ([], K));
          (row, K) =
            (if oy > ny then
               apfst ((#) (W8 0x65)) (GetMapDescription v (ox - maxClientViewportX) (ny - maxClientViewportY) nz view_width 1 K)
             else if oy < ny then
               apfst ((#) (W8 0x67)) (GetMapDescription v (ox - maxClientViewportX) (ny + (maxClientViewportY + 1)) nz view_width 1 K)
             else ([], K));
          (column, K) =
            (if ox < nx then
               apfst ((#) (W8 0x66)) (GetMapDescription v (nx + (maxClientViewportX + 1)) (ny - maxClientViewportY) nz 1 view_height K)
             else if ox > nx then
               apfst ((#) (W8 0x68)) (GetMapDescription v (nx - maxClientViewportX) (ny - maxClientViewportY) nz 1 view_height K)
             else ([], K))
      in (front @ floor @ row @ column, K))"

text \<open>\<open>sendMoveCreature\<close>; \<open>is_self\<close> is \<open>creature == player\<close> and \<open>now\<close> the creature's position and tile.\<close>

definition sendMoveCreature ::
  "viewer \<Rightarrow> bool \<Rightarrow> creature_view \<Rightarrow> position \<times> tile_view option \<Rightarrow> position \<Rightarrow> int \<Rightarrow> position \<Rightarrow> int \<Rightarrow> bool \<Rightarrow> u32 list \<Rightarrow>
     wire list list \<times> u32 list" where
  "sendMoveCreature v is_self c now newPos newStackPos oldPos oldStackPos teleport K =
     (if is_self then
        (if teleport then
           apfst ((@) (sendRemoveTileCreature v c oldPos (word_of_int oldStackPos))) (sendMapDescription v newPos K)
         else apfst (\<lambda>ws. [ws]) (sendMoveSelf v c newPos oldPos oldStackPos K))
      else if canSeePos (v_pos v) oldPos \<and> canSeePos (v_pos v) (fst now) then
        (if teleport \<or> pz oldPos = 7 \<and> pz newPos \<ge> 8 then
           apfst ((@) (sendRemoveTileCreature v c oldPos (word_of_int oldStackPos)))
             (sendAddCreature v c (snd now) newPos newStackPos False K)
         else
           ([[W8 0x6D] @
             (if oldStackPos < 10 then [wire_pos oldPos, W8 (word_of_int oldStackPos)]
              else [W16 0xFFFF, W32 (c_id c)]) @
             [wire_pos (fst now)]], K))
      else if canSeePos (v_pos v) oldPos then (sendRemoveTileCreature v c oldPos (word_of_int oldStackPos), K)
      else if canSeePos (v_pos v) (fst now) then sendAddCreature v c (snd now) newPos newStackPos False K
      else ([], K))"

section \<open>The cells of a packet\<close>

text \<open>A description is an opcode, or none, with the cells described after it.\<close>

type_synonym part = "wire list \<times> (int \<times> int \<times> int) list"

fun describe_parts :: "viewer \<Rightarrow> part list \<Rightarrow> u32 list \<Rightarrow> wire list \<times> u32 list" where
  "describe_parts v [] K = ([], K)"
| "describe_parts v ((front, cs) # parts) K =
     (let (ws, K) = apfst (cells_wires (-1)) (seen_cells v cs K); (rest, K) = describe_parts v parts K
      in (front @ ws @ rest, K))"

definition up_floors :: "int \<Rightarrow> int \<Rightarrow> int \<Rightarrow> int \<Rightarrow> (int \<times> int \<times> int) list" where
  "up_floors ox oy oz nz =
     (if nz = 7 then concat (map (\<lambda>i. floor_cells (ox - 8) (oy - 6) i 18 14 (8 - i)) [5, 4, 3, 2, 1, 0])
      else if nz > 7 then floor_cells (ox - 8) (oy - 6) (oz - 3) 18 14 3 else [])"

definition down_floors :: "int \<Rightarrow> int \<Rightarrow> int \<Rightarrow> int \<Rightarrow> (int \<times> int \<times> int) list" where
  "down_floors ox oy oz nz =
     (if nz = 8 then concat (map (\<lambda>i. floor_cells (ox - 8) (oy - 6) (nz + i) 18 14 (- i - 1)) [0, 1, 2])
      else if nz > oz \<and> nz > 8 \<and> nz < 14 then floor_cells (ox - 8) (oy - 6) (nz + 2) 18 14 (-3) else [])"

definition up_parts :: "position \<Rightarrow> position \<Rightarrow> part list" where
  "up_parts newPos oldPos =
     (let ox = uint (px oldPos); oy = uint (py oldPos); oz = uint (pz oldPos); nz = uint (pz newPos)
      in [([W8 0xBE],
           up_floors ox oy oz nz),
          ([W8 0x68], map_cells (ox - 8) (oy - 5) nz 1 14),
          ([W8 0x65], map_cells (ox - 8) (oy - 6) nz 18 1)])"

definition down_parts :: "position \<Rightarrow> position \<Rightarrow> part list" where
  "down_parts newPos oldPos =
     (let ox = uint (px oldPos); oy = uint (py oldPos); oz = uint (pz oldPos); nz = uint (pz newPos)
      in [([W8 0xBF],
           down_floors ox oy oz nz),
          ([W8 0x66], map_cells (ox + 9) (oy - 7) nz 1 14),
          ([W8 0x67], map_cells (ox - 8) (oy + 7) nz 18 1)])"

definition step_parts :: "position \<Rightarrow> position \<Rightarrow> part list" where
  "step_parts newPos oldPos =
     (let nx = uint (px newPos); ny = uint (py newPos); nz = uint (pz newPos);
          ox = uint (px oldPos); oy = uint (py oldPos); oz = uint (pz oldPos)
      in (if nz > oz then down_parts newPos oldPos else if nz < oz then up_parts newPos oldPos else []) @
         (if oy > ny then [([W8 0x65], map_cells (ox - 8) (ny - 6) nz 18 1)]
          else if oy < ny then [([W8 0x67], map_cells (ox - 8) (ny + 7) nz 18 1)] else []) @
         (if ox < nx then [([W8 0x66], map_cells (nx + 9) (ny - 6) nz 1 14)]
          else if ox > nx then [([W8 0x68], map_cells (nx - 8) (ny - 6) nz 1 14)] else []))"

definition parts_cells :: "part list \<Rightarrow> (int \<times> int \<times> int) set" where
  "parts_cells parts = set (concat (map snd parts))"

lemmas view_consts = maxClientViewportX_def maxClientViewportY_def view_width_def view_height_def MAP_MAX_LAYERS_def

lemma describe_parts_append:
  "describe_parts v (ps @ qs) K =
     (let (ws, K) = describe_parts v ps K; (us, K) = describe_parts v qs K in (ws @ us, K))"
proof (induction ps arbitrary: K)
  case (Cons p ps)
  then show ?case by (cases p) (simp add: Let_def split_beta)
qed simp

lemma floors_description:
  "flush_skip (fold (\<lambda>i. GetFloorDescription v x y (f i) w h (g i)) is ([], -1, K)) =
     apfst (cells_wires (-1)) (seen_cells v (concat (map (\<lambda>i. floor_cells x y (f i) w h (g i)) is)) K)"
proof -
  have "fold (\<lambda>i. GetFloorDescription v x y (f i) w h (g i)) is d =
      fold (describe_cell v) (concat (map (\<lambda>i. floor_cells x y (f i) w h (g i)) is)) d" for d
    by (induction "is" arbitrary: d) (simp_all add: GetFloorDescription_def)
  then show ?thesis by (simp add: describe_cells apfst_def map_prod_def split_beta)
qed

lemma floor_description:
  "flush_skip (GetFloorDescription v x y z w h off ([], -1, K)) =
     apfst (cells_wires (-1)) (seen_cells v (floor_cells x y z w h off) K)"
  by (simp add: GetFloorDescription_def describe_cells apfst_def map_prod_def split_beta)

lemma up_floors_description:
  "(if nz = 7 then
      flush_skip (fold (\<lambda>i. GetFloorDescription v (ox - 8) (oy - 6) i 18 14 (8 - i)) [5, 4, 3, 2, 1, 0] ([], -1, K))
    else if nz > 7 then flush_skip (GetFloorDescription v (ox - 8) (oy - 6) (oz - 3) 18 14 3 ([], -1, K))
    else ([], K)) = apfst (cells_wires (-1)) (seen_cells v (up_floors ox oy oz nz) K)"
  unfolding up_floors_def floors_description [where f = "\<lambda>i. i"] floor_description by simp

lemma down_floors_description:
  "(if nz = 8 then
      flush_skip (fold (\<lambda>i. GetFloorDescription v (ox - 8) (oy - 6) (nz + i) 18 14 (- i - 1)) [0, 1, 2] ([], -1, K))
    else if nz > oz \<and> nz > 8 \<and> nz < 14 then flush_skip (GetFloorDescription v (ox - 8) (oy - 6) (nz + 2) 18 14 (-3) ([], -1, K))
    else ([], K)) = apfst (cells_wires (-1)) (seen_cells v (down_floors ox oy oz nz) K)"
  unfolding down_floors_def floors_description [where f = "\<lambda>i. nz + i"] floor_description by simp

lemma view_sums:
  "maxClientViewportX = 8" "maxClientViewportY = 6" "maxClientViewportY - 1 = 5" "maxClientViewportX + 1 = 9"
  "maxClientViewportY + 1 = 7" "view_width = 18" "view_height = 14"
  by (simp_all add: view_consts)

lemma MoveUpCreature_parts: "MoveUpCreature v newPos oldPos K = describe_parts v (up_parts newPos oldPos) K"
  unfolding MoveUpCreature_def up_parts_def view_sums Let_def up_floors_description
  by (simp add: GetMapDescription_cells split_beta)

lemma MoveDownCreature_parts: "MoveDownCreature v newPos oldPos K = describe_parts v (down_parts newPos oldPos) K"
  unfolding MoveDownCreature_def down_parts_def view_sums Let_def down_floors_description
  by (simp add: GetMapDescription_cells split_beta)

lemma sendMoveSelf_parts:
  "\<exists>front. sendMoveSelf v c newPos oldPos oldStackPos K =
     apfst ((@) front) (describe_parts v (step_parts newPos oldPos) K)"
  unfolding sendMoveSelf_def step_parts_def
  by (simp add: MoveUpCreature_parts MoveDownCreature_parts describe_parts_append view_consts GetMapDescription_cells
      Let_def split_beta apfst_def map_prod_def)

section \<open>What can be seen and what is sent\<close>

lemma floor_cells_iff:
  "(a, b, c) \<in> set (floor_cells x y z w h off) \<longleftrightarrow>
     c = z \<and> x + off \<le> a \<and> a < x + w + off \<and> y + off \<le> b \<and> b < y + h + off"
proof
  assume "c = z \<and> x + off \<le> a \<and> a < x + w + off \<and> y + off \<le> b \<and> b < y + h + off"
  then have "c = z" "a - x - off \<in> set [0..w - 1]" "b - y - off \<in> set [0..h - 1]" by auto
  then show "(a, b, c) \<in> set (floor_cells x y z w h off)"
    unfolding floor_cells_def
    by (auto intro!: bexI [of _ "a - x - off"] image_eqI [of _ _ "b - y - off"])
qed (auto simp: floor_cells_def)

lemma map_cells_iff:
  "(a, b, c) \<in> set (map_cells x y z w h) \<longleftrightarrow>
     (if z > 7 then z - 2 \<le> c \<and> c \<le> min 15 (z + 2) else 0 \<le> c \<and> c \<le> 7) \<and>
     x + (z - c) \<le> a \<and> a < x + w + (z - c) \<and> y + (z - c) \<le> b \<and> b < y + h + (z - c)"
  by (auto simp: map_cells_def map_floors_def floor_cells_iff view_consts)

lemma canSee_iff:
  "canSee pos a b c \<longleftrightarrow>
     (if uint (pz pos) \<le> 7 then c \<le> 7 else uint (pz pos) - 2 \<le> c \<and> c \<le> uint (pz pos) + 2) \<and>
     uint (px pos) - 8 + (uint (pz pos) - c) \<le> a \<and> a < uint (px pos) + 10 + (uint (pz pos) - c) \<and>
     uint (py pos) - 6 + (uint (pz pos) - c) \<le> b \<and> b < uint (py pos) + 8 + (uint (pz pos) - c)"
  by (auto simp: canSee_def view_consts abs_le_iff Let_def)


lemma some_floors_iff:
  "(a, b, c) \<in> set (concat (map (\<lambda>i. floor_cells x y (k + i) w h (m - i)) is)) \<longleftrightarrow>
     c - k \<in> set is \<and> x + (m + k - c) \<le> a \<and> a < x + w + (m + k - c) \<and> y + (m + k - c) \<le> b \<and> b < y + h + (m + k - c)"
  by (auto simp: floor_cells_iff intro!: bexI [of _ "c - k"])

lemma up_floors_iff:
  "(a, b, c) \<in> set (up_floors ox oy oz nz) \<longleftrightarrow>
     (if nz = 7 then 0 \<le> c \<and> c \<le> 5 \<and> ox - c \<le> a \<and> a < ox + 18 - c \<and> oy + 2 - c \<le> b \<and> b < oy + 16 - c
      else nz > 7 \<and> c = oz - 3 \<and> ox - 5 \<le> a \<and> a < ox + 13 \<and> oy - 3 \<le> b \<and> b < oy + 11)"
proof (cases "nz = 7")
  case True
  have "c - 0 \<in> set [5, 4, 3, 2, 1, 0] \<longleftrightarrow> 0 \<le> c \<and> c \<le> 5" by auto
  then have "(a, b, c) \<in> set (up_floors ox oy oz nz) \<longleftrightarrow>
      (0 \<le> c \<and> c \<le> 5) \<and> ox - 8 + (8 + 0 - c) \<le> a \<and> a < ox - 8 + 18 + (8 + 0 - c) \<and>
      oy - 6 + (8 + 0 - c) \<le> b \<and> b < oy - 6 + 14 + (8 + 0 - c)"
    using some_floors_iff [of a b c "ox - 8" "oy - 6" 0 18 14 8 "[5, 4, 3, 2, 1, 0]"] True
    unfolding up_floors_def by (simp only: add_0 if_True simp_thms)
  then show ?thesis
    using True by (simp only: if_True simp_thms) (intro iffI; elim conjE; intro conjI; linarith)
next
  case False
  then show ?thesis by (auto simp: up_floors_def floor_cells_iff)
qed

lemma down_floors_iff:
  "(a, b, c) \<in> set (down_floors ox oy oz nz) \<longleftrightarrow>
     (if nz = 8 then 8 \<le> c \<and> c \<le> 10 \<and> ox - 1 - c \<le> a \<and> a < ox + 17 - c \<and> oy + 1 - c \<le> b \<and> b < oy + 15 - c
      else nz > oz \<and> nz > 8 \<and> nz < 14 \<and> c = nz + 2 \<and> ox - 11 \<le> a \<and> a < ox + 7 \<and> oy - 9 \<le> b \<and> b < oy + 5)"
proof (cases "nz = 8")
  case True
  have "c - 8 \<in> set [0, 1, 2] \<longleftrightarrow> 8 \<le> c \<and> c \<le> 10" by auto
  moreover have "- i - 1 = -1 - i" for i :: int by simp
  ultimately have "(a, b, c) \<in> set (down_floors ox oy oz nz) \<longleftrightarrow>
      (8 \<le> c \<and> c \<le> 10) \<and> ox - 8 + (-1 + 8 - c) \<le> a \<and> a < ox - 8 + 18 + (-1 + 8 - c) \<and>
      oy - 6 + (-1 + 8 - c) \<le> b \<and> b < oy - 6 + 14 + (-1 + 8 - c)"
    using some_floors_iff [of a b c "ox - 8" "oy - 6" 8 18 14 "-1" "[0, 1, 2]"] True
    unfolding down_floors_def by (simp only: if_True simp_thms)
  then show ?thesis
    using True by (simp only: if_True simp_thms) (intro iffI; elim conjE; intro conjI; linarith)
next
  case False
  then show ?thesis by (auto simp: down_floors_def floor_cells_iff)
qed

lemma parts_cells_append [simp]: "parts_cells (ps @ qs) = parts_cells ps \<union> parts_cells qs"
  by (simp add: parts_cells_def)

lemma parts_cells_Cons [simp]: "parts_cells ((f, cs) # ps) = set cs \<union> parts_cells ps"
  by (simp add: parts_cells_def)

lemma parts_cells_Nil [simp]: "parts_cells [] = {}"
  by (simp add: parts_cells_def)

text \<open>The area seen from a place and what the packets of a step cover, on plain coordinates.\<close>

definition seen_from :: "int \<Rightarrow> int \<Rightarrow> int \<Rightarrow> int \<Rightarrow> int \<Rightarrow> int \<Rightarrow> bool" where
  "seen_from x y z a b c \<longleftrightarrow>
     (if z \<le> 7 then c \<le> 7 else z - 2 \<le> c \<and> c \<le> z + 2) \<and>
     x - 8 + (z - c) \<le> a \<and> a < x + 10 + (z - c) \<and> y - 6 + (z - c) \<le> b \<and> b < y + 8 + (z - c)"

lemma canSee_seen_from: "canSee pos a b c \<longleftrightarrow> seen_from (uint (px pos)) (uint (py pos)) (uint (pz pos)) a b c"
  by (simp only: canSee_iff seen_from_def)

lemma step_same_floor:
  assumes "\<bar>nx - ox\<bar> \<le> 1" "\<bar>ny - oy\<bar> \<le> 1" "0 \<le> c" "c \<le> 15" "seen_from nx ny z a b c" "\<not> seen_from ox oy z a b c"
  shows "oy > ny \<and> (a, b, c) \<in> set (map_cells (ox - 8) (ny - 6) z 18 1) \<or>
    oy < ny \<and> (a, b, c) \<in> set (map_cells (ox - 8) (ny + 7) z 18 1) \<or>
    ox < nx \<and> (a, b, c) \<in> set (map_cells (nx + 9) (ny - 6) z 1 14) \<or>
    ox > nx \<and> (a, b, c) \<in> set (map_cells (nx - 8) (ny - 6) z 1 14)"
  using assms unfolding seen_from_def map_cells_iff
  by (cases "z \<le> 7") (simp_all, linarith+)

lemma floor_up:
  assumes "oz = nz + 1" "0 \<le> c" "c \<le> 15" "seen_from x y nz a b c" "\<not> seen_from x y oz a b c"
  shows "(a, b, c) \<in> set (up_floors x y oz nz) \<or>
    (a, b, c) \<in> set (map_cells (x - 8) (y - 5) nz 1 14) \<or> (a, b, c) \<in> set (map_cells (x - 8) (y - 6) nz 18 1)"
proof -
  have floors: "if nz > 7 then nz - 2 \<le> c \<and> c \<le> min 15 (nz + 2) else 0 \<le> c \<and> c \<le> 7"
    and a: "x - 8 + (nz - c) \<le> a" "a < x + 10 + (nz - c)"
    and b: "y - 6 + (nz - c) \<le> b" "b < y + 8 + (nz - c)"
    using assms(2-4) by (simp_all add: seen_from_def split: if_splits)
  consider "b = y - 6 + (nz - c)" | "a = x - 8 + (nz - c)" "b \<ge> y - 5 + (nz - c)"
    | "b \<ge> y - 5 + (nz - c)" "a \<ge> x - 7 + (nz - c)"
    using a b by linarith
  then show ?thesis
  proof cases
    case 1
    then have "(a, b, c) \<in> set (map_cells (x - 8) (y - 6) nz 18 1)" using floors a by (simp add: map_cells_iff)
    then show ?thesis by simp
  next
    case 2
    then have "(a, b, c) \<in> set (map_cells (x - 8) (y - 5) nz 1 14)" using floors b by (simp add: map_cells_iff)
    then show ?thesis by simp
  next
    case 3
    then have "\<not> (if oz \<le> 7 then c \<le> 7 else oz - 2 \<le> c \<and> c \<le> oz + 2)"
      using assms(1,5) a b unfolding seen_from_def by linarith
    then have "(nz = 7 \<and> c \<le> 5) \<or> (nz > 7 \<and> c = oz - 3)"
      using floors assms(1) by (auto split: if_splits)
    then have "(a, b, c) \<in> set (up_floors x y oz nz)"
      unfolding up_floors_iff using 3 a b assms(1,2) by (elim disjE) simp_all
    then show ?thesis by simp
  qed
qed

lemma floor_down:
  assumes "nz = oz + 1" "nz \<le> 15" "0 \<le> c" "c \<le> 15" "seen_from x y nz a b c" "\<not> seen_from x y oz a b c"
  shows "(a, b, c) \<in> set (down_floors x y oz nz) \<or>
    (a, b, c) \<in> set (map_cells (x + 9) (y - 7) nz 1 14) \<or> (a, b, c) \<in> set (map_cells (x - 8) (y + 7) nz 18 1)"
proof -
  have floors: "if nz > 7 then nz - 2 \<le> c \<and> c \<le> min 15 (nz + 2) else 0 \<le> c \<and> c \<le> 7"
    and a: "x - 8 + (nz - c) \<le> a" "a < x + 10 + (nz - c)"
    and b: "y - 6 + (nz - c) \<le> b" "b < y + 8 + (nz - c)"
    using assms(3-5) by (simp_all add: seen_from_def split: if_splits)
  consider "b = y + 7 + (nz - c)" | "a = x + 9 + (nz - c)" "b < y + 7 + (nz - c)"
    | "b < y + 7 + (nz - c)" "a < x + 9 + (nz - c)"
    using a b by linarith
  then show ?thesis
  proof cases
    case 1
    then have "(a, b, c) \<in> set (map_cells (x - 8) (y + 7) nz 18 1)" using floors a by (simp add: map_cells_iff)
    then show ?thesis by simp
  next
    case 2
    then have "(a, b, c) \<in> set (map_cells (x + 9) (y - 7) nz 1 14)" using floors b by (simp add: map_cells_iff)
    then show ?thesis by simp
  next
    case 3
    then have "\<not> (if oz \<le> 7 then c \<le> 7 else oz - 2 \<le> c \<and> c \<le> oz + 2)"
      using assms(1,6) a b unfolding seen_from_def by linarith
    then have "(nz = 8 \<and> 8 \<le> c \<and> c \<le> 10) \<or> (nz > 8 \<and> nz < 14 \<and> c = nz + 2)"
      using floors assms(1-4) by (auto split: if_splits)
    then have "(a, b, c) \<in> set (down_floors x y oz nz)"
      unfolding down_floors_iff using 3 a b assms(1) by (elim disjE) simp_all
    then show ?thesis by simp
  qed
qed

text \<open>
  C27: The client's map stays complete. After every step of the player to a neighbouring place, on
  the same floor or one floor up or down, each cell that can be seen from the new place could be seen
  from the old one or is described in the packet of the step; the packet is, after its header, exactly
  those descriptions.
\<close>

theorem step_keeps_view:
  assumes "\<bar>uint (px newPos) - uint (px oldPos)\<bar> \<le> 1" "\<bar>uint (py newPos) - uint (py oldPos)\<bar> \<le> 1"
    "\<bar>uint (pz newPos) - uint (pz oldPos)\<bar> \<le> 1" "uint (pz newPos) \<le> 15"
    and "canSee newPos a b c" "0 \<le> c" "c \<le> 15"
  shows "(canSee oldPos a b c \<or> (a, b, c) \<in> parts_cells (step_parts newPos oldPos)) \<and>
    (\<exists>front. sendMoveSelf v cr newPos oldPos oldStackPos K =
       apfst ((@) front) (describe_parts v (step_parts newPos oldPos) K))"
proof -
  define nx ny nz ox oy oz where p: "nx = uint (px newPos)" "ny = uint (py newPos)" "nz = uint (pz newPos)"
    "ox = uint (px oldPos)" "oy = uint (py oldPos)" "oz = uint (pz oldPos)"
  note sight = assms(5) [unfolded canSee_seen_from p [symmetric]]
  have step: "seen_from ox oy nz a b c \<or> (a, b, c) \<in> parts_cells (step_parts newPos oldPos)"
  proof (cases "seen_from ox oy nz a b c")
    case False
    then show ?thesis using step_same_floor [OF assms(1,2,6,7) [unfolded p [symmetric]] sight False]
      by (auto simp: step_parts_def p Let_def)
  qed simp
  moreover have "seen_from ox oy oz a b c \<or> (a, b, c) \<in> parts_cells (step_parts newPos oldPos)"
    if "seen_from ox oy nz a b c"
  proof -
    consider "nz = oz" | "oz = nz + 1" | "nz = oz + 1" using assms(3) by (fold p) linarith
    then show ?thesis
    proof cases
      case 2
      then show ?thesis using floor_up [OF 2 assms(6,7) that]
        by (auto simp: step_parts_def up_parts_def p Let_def)
    next
      case 3
      then show ?thesis using floor_down [OF 3 _ assms(6,7) that] assms(4)
        by (auto simp: step_parts_def down_parts_def p Let_def)
    qed (use that in simp)
  qed
  ultimately show ?thesis using sendMoveSelf_parts [of v cr newPos oldPos oldStackPos K]
    by (auto simp: canSee_seen_from p)
qed

text \<open>Down a hole, one field to the east: the tile two floors below comes with the packet.\<close>

lemma step_keeps_view_witness:
  "canSee (Position 100 100 7) 101 100 10 \<or>
   (101, 100, 10) \<in> parts_cells (step_parts (Position 101 100 8) (Position 100 100 7))"
  using step_keeps_view [of "Position 101 100 8" "Position 100 100 7" 101 100 10]
  by (simp add: canSee_iff)

end
