(* ===== verification/Containers.thy ===== *)
theory Containers
  imports Item Return_Value
begin

text \<open>
  Containers, \<open>src/src/container.cpp\<close>. Items and the things that hold them point at each other, so the
  model has a store: an item is an address, with its data, its parent, and, when it is a container,
  its list of items and its cached weight. What holds things and is no container, a tile or a
  creature, is an address of its own; its answers to queries are parameters. Messages to the players
  who look on are left out.
\<close>

section \<open>The store\<close>

datatype cylinder = Box nat | Outside nat

record container_data =
  itemlist :: "nat list"
  maxSize :: u32
  totalWeight :: u32

record item_store =
  s_item :: "nat \<Rightarrow> item"
  s_parent :: "nat \<Rightarrow> cylinder option"
  s_outer :: "nat \<Rightarrow> nat option"
  s_box :: "nat \<Rightarrow> container_data option"

definition items_of :: "item_store \<Rightarrow> nat \<Rightarrow> nat list" where
  "items_of s c = (case s_box s c of None \<Rightarrow> [] | Some b \<Rightarrow> itemlist b)"

definition set_items :: "nat \<Rightarrow> nat list \<Rightarrow> item_store \<Rightarrow> item_store" where
  "set_items c xs s = s\<lparr>s_box := (s_box s)(c := map_option (itemlist_update (\<lambda>_. xs)) (s_box s c))\<rparr>"

definition setParent :: "cylinder option \<Rightarrow> nat \<Rightarrow> item_store \<Rightarrow> item_store" where
  "setParent p i s = s\<lparr>s_parent := (s_parent s)(i := p)\<rparr>"

definition set_item :: "nat \<Rightarrow> item \<Rightarrow> item_store \<Rightarrow> item_store" where
  "set_item i x s = s\<lparr>s_item := (s_item s)(i := x)\<rparr>"

definition capacity :: "item_store \<Rightarrow> nat \<Rightarrow> u32" where
  "capacity s c = (case s_box s c of None \<Rightarrow> 0 | Some b \<Rightarrow> maxSize b)"

section \<open>Weight\<close>

definition item_weight :: "items_table \<Rightarrow> item_store \<Rightarrow> nat \<Rightarrow> u32" where
  "item_weight T s i =
     getWeight T (s_item s i) + (case s_box s i of None \<Rightarrow> 0 | Some b \<Rightarrow> totalWeight b)"

definition getParentContainer :: "item_store \<Rightarrow> nat \<Rightarrow> nat option" where
  "getParentContainer s c = (case s_parent s c of Some (Box p) \<Rightarrow> Some p | _ \<Rightarrow> None)"

definition add_weight :: "u32 \<Rightarrow> nat \<Rightarrow> item_store \<Rightarrow> item_store" where
  "add_weight d c s = s\<lparr>s_box := (s_box s)(c := map_option (totalWeight_update (\<lambda>w. w + d)) (s_box s c))\<rparr>"

text \<open>A difference of weights is reduced to 32 bits, signed or not.\<close>

partial_function (option) updateItemWeight :: "item_store \<Rightarrow> nat \<Rightarrow> u32 \<Rightarrow> item_store option" where
  "updateItemWeight s c d =
     (let s = add_weight d c s
      in case getParentContainer s c of None \<Rightarrow> Some s | Some p \<Rightarrow> updateItemWeight s p d)"

section \<open>Finding things\<close>

fun index_from :: "int \<Rightarrow> nat list \<Rightarrow> nat \<Rightarrow> int" where
  "index_from n [] i = -1"
| "index_from n (x # xs) i = (if x = i then n else index_from (n + 1) xs i)"

definition getThingIndex :: "item_store \<Rightarrow> nat \<Rightarrow> nat \<Rightarrow> int" where
  "getThingIndex s c i = index_from 0 (items_of s c) i"

definition getItemByIndex :: "item_store \<Rightarrow> nat \<Rightarrow> nat \<Rightarrow> nat option" where
  "getItemByIndex s c index = (if index \<ge> length (items_of s c) then None else Some (items_of s c ! index))"

definition getItemTypeCount :: "items_table \<Rightarrow> item_store \<Rightarrow> nat \<Rightarrow> u16 \<Rightarrow> int \<Rightarrow> u32" where
  "getItemTypeCount T s c itemId subType =
     fold (\<lambda>i n. if i_id (s_item s i) = itemId then n + word_of_nat (countByType T (s_item s i) subType) else n)
       (items_of s c) 0"

definition getAllItemTypeCount :: "item_store \<Rightarrow> nat \<Rightarrow> (u16 \<Rightarrow> u32) \<Rightarrow> u16 \<Rightarrow> u32" where
  "getAllItemTypeCount s c countMap =
     fold (\<lambda>i m. m(i_id (s_item s i) := m (i_id (s_item s i)) + ucast (i_count (s_item s i)))) (items_of s c) countMap"

section \<open>Queries\<close>

datatype thing = ItemThing nat | CreatureThing

definition INDEX_WHEREEVER :: int where "INDEX_WHEREEVER = -1"
definition FLAG_NOLIMIT :: u32 where "FLAG_NOLIMIT = 1"
definition FLAG_CHILDISOWNER :: u32 where "FLAG_CHILDISOWNER = 8"
definition FLAG_IGNORENOTMOVEABLE :: u32 where "FLAG_IGNORENOTMOVEABLE = 64"
definition FLAG_IGNOREAUTOSTACK :: u32 where "FLAG_IGNOREAUTOSTACK = 128"

fun cylinder_parent :: "item_store \<Rightarrow> cylinder \<Rightarrow> cylinder option" where
  "cylinder_parent s (Box c) = s_parent s c"
| "cylinder_parent s (Outside o') = map_option Outside (s_outer s o')"

text \<open>The loop over the parents: whether the item is one of them.\<close>

partial_function (option) holds_above :: "item_store \<Rightarrow> nat \<Rightarrow> cylinder option \<Rightarrow> bool option" where
  "holds_above s i cyl =
     (case cyl of None \<Rightarrow> Some False
      | Some c \<Rightarrow> if c = Box i then Some True else holds_above s i (cylinder_parent s c))"

text \<open>\<open>Item::getTopParent\<close>: the last cylinder below the outermost one, or the container itself.\<close>

partial_function (option) top_parent_loop :: "item_store \<Rightarrow> cylinder \<Rightarrow> cylinder \<Rightarrow> cylinder option" where
  "top_parent_loop s prevaux aux =
     (case cylinder_parent s aux of None \<Rightarrow> Some prevaux | Some p \<Rightarrow> top_parent_loop s aux p)"

definition getTopParent :: "item_store \<Rightarrow> nat \<Rightarrow> cylinder option" where
  "getTopParent s c =
     (case s_parent s c of None \<Rightarrow> Some (Box c) | Some p \<Rightarrow> top_parent_loop s (Box c) p)"

text \<open>The answer of what is not a container to a query on behalf of one inside it.\<close>

type_synonym outer_query = "nat \<Rightarrow> nat \<Rightarrow> u32 \<Rightarrow> u32 \<Rightarrow> return_value"

definition queryAdd ::
  "items_table \<Rightarrow> outer_query \<Rightarrow> item_store \<Rightarrow> nat \<Rightarrow> int \<Rightarrow> thing \<Rightarrow> u32 \<Rightarrow> u32 \<Rightarrow> return_value option" where
  "queryAdd T ask s this index thing count flags =
     (if hasBitSet FLAG_CHILDISOWNER flags then Some RETURNVALUE_NOERROR
      else case thing of
        CreatureThing \<Rightarrow> Some RETURNVALUE_NOTPOSSIBLE
      | ItemThing item \<Rightarrow>
          if \<not> it_pickupable (type_of T (s_item s item)) then Some RETURNVALUE_CANNOTPICKUP
          else if item = this then Some RETURNVALUE_THISISIMPOSSIBLE
          else case holds_above s item (s_parent s this) of
            None \<Rightarrow> None
          | Some True \<Rightarrow> Some RETURNVALUE_THISISIMPOSSIBLE
          | Some False \<Rightarrow>
              if \<not> hasBitSet FLAG_NOLIMIT flags \<and> index = INDEX_WHEREEVER \<and>
                 length (items_of s this) \<ge> unat (capacity s this)
              then Some RETURNVALUE_CONTAINERNOTENOUGHROOM
              else case getTopParent s this of
                None \<Rightarrow> None
              | Some (Box t) \<Rightarrow> Some RETURNVALUE_NOERROR
              | Some (Outside t) \<Rightarrow> Some (ask t item count (flags OR FLAG_CHILDISOWNER)))"

definition queryMaxCount ::
  "items_table \<Rightarrow> outer_query \<Rightarrow> item_store \<Rightarrow> nat \<Rightarrow> int \<Rightarrow> thing \<Rightarrow> u32 \<Rightarrow> u32 \<Rightarrow> (return_value \<times> u32) option" where
  "queryMaxCount T ask s this index thing count flags =
     (case thing of
        CreatureThing \<Rightarrow> Some (RETURNVALUE_NOTPOSSIBLE, 0)
      | ItemThing item \<Rightarrow>
          if hasBitSet FLAG_NOLIMIT flags then Some (RETURNVALUE_NOERROR, max 1 count)
          else
            let freeSlots = word_of_int (max (sint (capacity s this - word_of_nat (length (items_of s this)))) 0) :: u32;
                room = (\<lambda>i. 100 - ucast (i_count (s_item s i)) :: u32);
                fits = (\<lambda>i. item_equals (s_item s i) (s_item s item) \<and> i_count (s_item s i) < 100)
            in if it_stackable (type_of T (s_item s item)) then
                 (let n =
                    (if index = INDEX_WHEREEVER then
                       map_option snd (fold (\<lambda>i acc. case acc of None \<Rightarrow> None
                         | Some (slotIndex, n) \<Rightarrow>
                             if i \<noteq> item \<and> fits i
                             then (case queryAdd T ask s this slotIndex (ItemThing item) count flags of None \<Rightarrow> None
                                   | Some r \<Rightarrow> Some (slotIndex + 1, if r = RETURNVALUE_NOERROR then n + room i else n))
                             else Some (slotIndex, n)) (items_of s this) (Some (0, 0)))
                     else case getItemByIndex s this (nat index) of
                            None \<Rightarrow> Some 0
                          | Some destItem \<Rightarrow>
                              if fits destItem
                              then map_option (\<lambda>r. if r = RETURNVALUE_NOERROR then room destItem else 0)
                                     (queryAdd T ask s this index (ItemThing item) count flags)
                              else Some 0)
                  in map_option (\<lambda>n. let m = freeSlots * 100 + n
                       in (if m < count then RETURNVALUE_CONTAINERNOTENOUGHROOM else RETURNVALUE_NOERROR, m)) n)
               else Some (if freeSlots = 0 then RETURNVALUE_CONTAINERNOTENOUGHROOM else RETURNVALUE_NOERROR, freeSlots))"

text \<open>\<open>house\<close>: what the house tile at the top says of a removal, when there is one.\<close>

definition queryRemove ::
  "items_table \<Rightarrow> (cylinder \<Rightarrow> return_value option) \<Rightarrow> item_store \<Rightarrow> nat \<Rightarrow> thing \<Rightarrow> u32 \<Rightarrow> u32 \<Rightarrow> return_value option" where
  "queryRemove T house s this thing count flags =
     (case thing of
        CreatureThing \<Rightarrow> Some RETURNVALUE_NOTPOSSIBLE
      | ItemThing item \<Rightarrow>
          if getThingIndex s this item = -1 then Some RETURNVALUE_NOTPOSSIBLE
          else if count = 0 \<or> (it_stackable (type_of T (s_item s item)) \<and> count > ucast (i_count (s_item s item)))
          then Some RETURNVALUE_NOTPOSSIBLE
          else if \<not> it_moveable (type_of T (s_item s item)) \<and> \<not> hasBitSet FLAG_IGNORENOTMOVEABLE flags
          then Some RETURNVALUE_NOTMOVEABLE
          else case getTopParent s this of None \<Rightarrow> None
               | Some t \<Rightarrow> Some (case house t of Some r \<Rightarrow> r | None \<Rightarrow> RETURNVALUE_NOERROR))"

fun find_stack :: "items_table \<Rightarrow> item_store \<Rightarrow> nat \<Rightarrow> int \<Rightarrow> nat list \<Rightarrow> (int \<times> nat) option" where
  "find_stack T s item n [] = None"
| "find_stack T s item n (i # is) =
     (if i \<noteq> item \<and> item_equals (s_item s i) (s_item s item) \<and> i_count (s_item s i) < 100
      then Some (n, i) else find_stack T s item (n + 1) is)"

text \<open>The destination: the cylinder, the index and the item there.\<close>

definition queryDestination ::
  "items_table \<Rightarrow> item_store \<Rightarrow> nat \<Rightarrow> int \<Rightarrow> thing \<Rightarrow> nat option \<Rightarrow> u32 \<Rightarrow> nat \<times> int \<times> nat option" where
  "queryDestination T s this index thing destItem flags =
     (if index = 254 then
        (case s_parent s this of Some (Box p) \<Rightarrow> (p, INDEX_WHEREEVER, None) | _ \<Rightarrow> (this, INDEX_WHEREEVER, None))
      else
        let (index, destItem) =
              (if index = 255 \<or> index \<ge> sint (capacity s this) then (INDEX_WHEREEVER, None) else (index, destItem))
        in case thing of
             CreatureThing \<Rightarrow> (this, index, destItem)
           | ItemThing item \<Rightarrow>
               let destItem = (if index \<noteq> INDEX_WHEREEVER
                     then (case getItemByIndex s this (nat index) of Some i \<Rightarrow> Some i | None \<Rightarrow> destItem) else destItem)
               in if index \<noteq> INDEX_WHEREEVER \<and> (case destItem of Some i \<Rightarrow> s_box s i \<noteq> None | None \<Rightarrow> False)
                  then (the destItem, INDEX_WHEREEVER, None)
                  else if \<not> hasBitSet FLAG_IGNOREAUTOSTACK flags \<and> it_stackable (type_of T (s_item s item)) \<and>
                          s_parent s item \<noteq> Some (Box this)
                  then (if (case destItem of None \<Rightarrow> False
                            | Some i \<Rightarrow> item_equals (s_item s i) (s_item s item) \<and> i_count (s_item s i) < 100)
                        then (this, index, destItem)
                        else case find_stack T s item 0 (items_of s this) of
                               Some (n, i) \<Rightarrow> (this, n, Some i)
                             | None \<Rightarrow> (this, index, destItem))
                  else (this, index, destItem))"

section \<open>Changes\<close>

text \<open>\<open>None\<close> is an update of weights that does not end.\<close>

definition addItem :: "nat \<Rightarrow> nat \<Rightarrow> item_store \<Rightarrow> item_store" where
  "addItem this item s = setParent (Some (Box this)) item (set_items this (items_of s this @ [item]) s)"

definition addThing :: "items_table \<Rightarrow> nat \<Rightarrow> int \<Rightarrow> thing \<Rightarrow> item_store \<Rightarrow> item_store option" where
  "addThing T this index thing s =
     (if index \<ge> sint (capacity s this) then Some s
      else case thing of
        CreatureThing \<Rightarrow> Some s
      | ItemThing item \<Rightarrow>
          let s = setParent (Some (Box this)) item s;
              s = set_items this (item # items_of s this) s
          in updateItemWeight s this (item_weight T s item))"

definition addItemBack :: "items_table \<Rightarrow> nat \<Rightarrow> nat \<Rightarrow> item_store \<Rightarrow> item_store option" where
  "addItemBack T this item s = (let s = addItem this item s in updateItemWeight s this (item_weight T s item))"

definition internalAddThing :: "items_table \<Rightarrow> nat \<Rightarrow> thing \<Rightarrow> item_store \<Rightarrow> item_store option" where
  "internalAddThing T this thing s =
     (case thing of
        CreatureThing \<Rightarrow> Some s
      | ItemThing item \<Rightarrow>
          let s = setParent (Some (Box this)) item s;
              s = set_items this (item # items_of s this) s
          in updateItemWeight s this (item_weight T s item))"

definition updateThing :: "items_table \<Rightarrow> nat \<Rightarrow> thing \<Rightarrow> u16 \<Rightarrow> u16 \<Rightarrow> item_store \<Rightarrow> item_store option" where
  "updateThing T this thing itemId count s =
     (case thing of
        CreatureThing \<Rightarrow> Some s
      | ItemThing item \<Rightarrow>
          if getThingIndex s this item = -1 then Some s
          else
            let oldWeight = item_weight T s item;
                s = set_item item (setSubType T count (setID T itemId (s_item s item))) s
            in updateItemWeight s this (- oldWeight + item_weight T s item))"

definition replaceThing :: "items_table \<Rightarrow> nat \<Rightarrow> nat \<Rightarrow> thing \<Rightarrow> item_store \<Rightarrow> item_store option" where
  "replaceThing T this index thing s =
     (case thing of
        CreatureThing \<Rightarrow> Some s
      | ItemThing item \<Rightarrow>
          case getItemByIndex s this index of
            None \<Rightarrow> Some s
          | Some replacedItem \<Rightarrow>
              let s = set_items this ((items_of s this)[index := item]) s;
                  s = setParent (Some (Box this)) item s
              in map_option (setParent None replacedItem)
                   (updateItemWeight s this (- item_weight T s replacedItem + item_weight T s item)))"

definition removeThing :: "items_table \<Rightarrow> nat \<Rightarrow> thing \<Rightarrow> u32 \<Rightarrow> item_store \<Rightarrow> item_store option" where
  "removeThing T this thing count s =
     (case thing of
        CreatureThing \<Rightarrow> Some s
      | ItemThing item \<Rightarrow>
          let index = getThingIndex s this item
          in if index = -1 then Some s
             else if it_stackable (type_of T (s_item s item)) \<and> count \<noteq> ucast (i_count (s_item s item)) then
               (let newCount = word_of_int (max 0 (sint (ucast (i_count (s_item s item)) - count :: u32)));
                    oldWeight = item_weight T s item;
                    s = set_item item (setItemCount newCount (s_item s item)) s
                in updateItemWeight s this (- oldWeight + item_weight T s item))
             else
               map_option
                 (\<lambda>s. let s = setParent None item s;
                          xs = items_of s this
                      in set_items this (take (nat index) xs @ drop (Suc (nat index)) xs) s)
                 (updateItemWeight s this (- item_weight T s item)))"

section \<open>Iteration\<close>

text \<open>The containers that wait, the first of which is being walked through, and the place in it.\<close>

definition iterator :: "item_store \<Rightarrow> nat \<Rightarrow> nat list \<times> nat" where
  "iterator s c = (if items_of s c \<noteq> [] then ([c], 0) else ([], 0))"

definition it_current :: "item_store \<Rightarrow> nat list \<times> nat \<Rightarrow> nat" where
  "it_current s it = items_of s (hd (fst it)) ! snd it"

definition it_advance :: "item_store \<Rightarrow> nat list \<times> nat \<Rightarrow> nat list \<times> nat" where
  "it_advance s it =
     (let i = it_current s it;
          over = (if s_box s i \<noteq> None \<and> items_of s i \<noteq> [] then fst it @ [i] else fst it);
          cur = snd it + 1
      in if cur = length (items_of s (hd over)) then (tl over, 0) else (over, cur))"

text \<open>The loops over an iterator: the items it visits.\<close>

partial_function (option) visit :: "item_store \<Rightarrow> nat list \<times> nat \<Rightarrow> nat list option" where
  "visit s it =
     (if fst it = [] then Some []
      else Option.bind (visit s (it_advance s it)) (\<lambda>is. Some (it_current s it # is)))"

definition getItemHoldingCount :: "item_store \<Rightarrow> nat \<Rightarrow> nat option" where
  "getItemHoldingCount s c = map_option length (visit s (iterator s c))"

definition isHoldingItem :: "item_store \<Rightarrow> nat \<Rightarrow> nat \<Rightarrow> bool option" where
  "isHoldingItem s c i = map_option (\<lambda>is. i \<in> set is) (visit s (iterator s c))"

definition getItems :: "item_store \<Rightarrow> nat \<Rightarrow> bool \<Rightarrow> nat list option" where
  "getItems s c recursive = (if recursive then visit s (iterator s c) else Some (items_of s c))"


section \<open>What holds what\<close>

definition inside :: "item_store \<Rightarrow> (nat \<times> nat) set" where
  "inside s = {(i, c). s_parent s i = Some (Box c)}"

definition store_wf :: "item_store \<Rightarrow> bool" where
  "store_wf s \<longleftrightarrow>
     finite {c. s_box s c \<noteq> None} \<and> acyclic (inside s) \<and>
     (\<forall>c. distinct (items_of s c)) \<and>
     (\<forall>i c. i \<in> set (items_of s c) \<longleftrightarrow> s_parent s i = Some (Box c))"

definition held_weight :: "items_table \<Rightarrow> item_store \<Rightarrow> nat \<Rightarrow> u32" where
  "held_weight T s c = sum_list (map (item_weight T s) (items_of s c))"

definition missing :: "items_table \<Rightarrow> item_store \<Rightarrow> nat \<Rightarrow> u32" where
  "missing T s c = (case s_box s c of None \<Rightarrow> 0 | Some b \<Rightarrow> totalWeight b - held_weight T s c)"

definition store_ok :: "items_table \<Rightarrow> item_store \<Rightarrow> bool" where
  "store_ok T s \<longleftrightarrow>
     store_wf s \<and> (\<forall>c b. s_box s c = Some b \<longrightarrow> totalWeight b = held_weight T s c)"

lemma store_ok_missing: "store_ok T s \<longleftrightarrow> store_wf s \<and> (\<forall>c. missing T s c = 0)"
  by (auto simp: store_ok_def missing_def split: option.splits)

lemma inside_iff [simp]: "(i, c) \<in> inside s \<longleftrightarrow> s_parent s i = Some (Box c)"
  by (simp add: inside_def)

lemma items_of_none [simp]: "s_box s c = None \<Longrightarrow> items_of s c = []"
  by (simp add: items_of_def)

lemma box_of_inside: "store_wf s \<Longrightarrow> s_parent s i = Some (Box c) \<Longrightarrow> s_box s c \<noteq> None"
  unfolding store_wf_def by (metis items_of_none empty_iff empty_set)

lemma inside_finite:
  assumes "store_wf s"
  shows "finite (inside s)"
proof -
  have "inside s \<subseteq> (\<Union>c \<in> {c. s_box s c \<noteq> None}. (\<lambda>i. (i, c)) ` set (items_of s c))"
    using box_of_inside [OF assms] assms unfolding store_wf_def by (fastforce simp: image_iff)
  then show ?thesis
    using assms by (auto intro: finite_subset simp: store_wf_def)
qed

lemma inside_wf: "store_wf s \<Longrightarrow> wf (inside s)"
  by (simp add: finite_acyclic_wf inside_finite store_wf_def)

lemma holder_wf: "store_wf s \<Longrightarrow> wf ((inside s)\<inverse>)"
  by (simp add: finite_acyclic_wf_converse inside_finite store_wf_def)

lemma parent_unique: "\<lbrakk>(i, c) \<in> inside s; (i, c') \<in> inside s\<rbrakk> \<Longrightarrow> c = c'"
  by simp

lemma not_above_self:
  assumes "store_wf s" "s_parent s i = Some (Box c)"
  shows "(c, i) \<notin> (inside s)\<^sup>*"
proof
  assume "(c, i) \<in> (inside s)\<^sup>*"
  then have "(i, i) \<in> (inside s)\<^sup>+"
    using assms by (meson inside_iff rtrancl_into_trancl2)
  then show False
    using assms by (simp add: store_wf_def acyclic_def)
qed

section \<open>The store operations\<close>

lemma set_items_simps [simp]:
  "s_item (set_items c xs s) = s_item s"
  "s_parent (set_items c xs s) = s_parent s"
  "s_outer (set_items c xs s) = s_outer s"
  "s_box (set_items c xs s) x = None \<longleftrightarrow> s_box s x = None"
  "items_of (set_items c xs s) x = (if x = c \<and> s_box s c \<noteq> None then xs else items_of s x)"
  "item_weight T (set_items c xs s) = item_weight T s"
  by (auto simp: set_items_def items_of_def item_weight_def fun_eq_iff split: option.splits)

lemma setParent_simps [simp]:
  "s_item (setParent p i s) = s_item s"
  "s_parent (setParent p i s) = (s_parent s)(i := p)"
  "s_outer (setParent p i s) = s_outer s"
  "s_box (setParent p i s) = s_box s"
  "items_of (setParent p i s) x = items_of s x"
  "item_weight T (setParent p i s) = item_weight T s"
  by (auto simp: setParent_def items_of_def item_weight_def fun_eq_iff split: option.splits)

lemma missing_setParent [simp]: "missing T (setParent p i s) = missing T s"
  by (rule ext) (simp add: missing_def held_weight_def split: option.split)

lemma set_item_simps [simp]:
  "s_item (set_item i x s) = (s_item s)(i := x)"
  "s_parent (set_item i x s) = s_parent s"
  "s_outer (set_item i x s) = s_outer s"
  "s_box (set_item i x s) = s_box s"
  "items_of (set_item i x s) c = items_of s c"
  by (auto simp: set_item_def items_of_def split: option.splits)

lemma add_weight_simps [simp]:
  "s_item (add_weight d c s) = s_item s"
  "s_parent (add_weight d c s) = s_parent s"
  "s_outer (add_weight d c s) = s_outer s"
  "s_box (add_weight d c s) x = None \<longleftrightarrow> s_box s x = None"
  "x \<noteq> c \<Longrightarrow> s_box (add_weight d c s) x = s_box s x"
  "items_of (add_weight d c s) x = items_of s x"
  "getParentContainer (add_weight d c s) x = getParentContainer s x"
  by (auto simp: add_weight_def items_of_def getParentContainer_def split: option.splits)

lemma item_weight_add_weight:
  "s_box s c \<noteq> None \<Longrightarrow> item_weight T (add_weight d c s) i = item_weight T s i + (if i = c then d else 0)"
  by (auto simp: add_weight_def item_weight_def)

lemma sum_list_bump:
  fixes f :: "nat \<Rightarrow> u32"
  assumes "distinct xs"
  shows "sum_list (map (\<lambda>x. f x + (if x = c then d else 0)) xs) = sum_list (map f xs) + (if c \<in> set xs then d else 0)"
  using assms by (induction xs) auto

lemma missing_add_weight:
  assumes "s_box s c \<noteq> None" "distinct (items_of s x)" "c \<notin> set (items_of s c)"
  shows "missing T (add_weight d c s) x =
    missing T s x + (if x = c then d else 0) - (if c \<in> set (items_of s x) then d else 0)"
proof -
  have "held_weight T (add_weight d c s) x = held_weight T s x + (if c \<in> set (items_of s x) then d else 0)"
    using assms by (simp add: held_weight_def item_weight_add_weight sum_list_bump cong: map_cong)
  then show ?thesis
    using assms by (auto simp: missing_def add_weight_def split: option.splits)
qed


text \<open>\<open>updateItemWeight\<close> ends, and what is missing is set right at the container and nowhere else.\<close>

definition linked_above :: "item_store \<Rightarrow> nat \<Rightarrow> bool" where
  "linked_above s c \<longleftrightarrow>
     finite (inside s) \<and> acyclic (inside s) \<and> (\<forall>x. distinct (items_of s x)) \<and>
     (\<forall>y. (c, y) \<in> (inside s)\<^sup>* \<longrightarrow> s_box s y \<noteq> None \<and> (\<forall>x. y \<in> set (items_of s x) \<longleftrightarrow> s_parent s y = Some (Box x)))"

lemma linked_above_add_weight [simp]: "linked_above (add_weight d c s) x = linked_above s x"
  by (simp add: linked_above_def inside_def del: not_None_eq)

lemma linked_above_parent: "linked_above s c \<Longrightarrow> s_parent s c = Some (Box p) \<Longrightarrow> linked_above s p"
  unfolding linked_above_def by (meson converse_rtrancl_into_rtrancl inside_iff)

lemma linked_not_self: "linked_above s c \<Longrightarrow> c \<notin> set (items_of s c)"
  unfolding linked_above_def acyclic_def by (metis inside_iff r_into_trancl rtrancl.rtrancl_refl)

definition reweighed :: "item_store \<Rightarrow> item_store \<Rightarrow> bool" where
  "reweighed s s' \<longleftrightarrow>
     s_item s' = s_item s \<and> s_parent s' = s_parent s \<and> s_outer s' = s_outer s \<and>
     (\<forall>x. items_of s' x = items_of s x \<and> (s_box s' x = None \<longleftrightarrow> s_box s x = None))"

lemma reweighed_trans: "reweighed s s' \<Longrightarrow> reweighed s' s'' \<Longrightarrow> reweighed s s''"
  by (simp add: reweighed_def)

lemma reweighed_add_weight: "reweighed s (add_weight d c s)"
  by (simp add: reweighed_def)

lemma inside_add_weight [simp]: "inside (add_weight d c s) = inside s"
  by (simp add: inside_def)

lemma updateItemWeight_wf:
  "wf r \<Longrightarrow> r = (inside s)\<inverse> \<Longrightarrow> linked_above s c \<Longrightarrow>
    \<exists>s'. updateItemWeight s c d = Some s' \<and> reweighed s s' \<and>
      (\<forall>x. missing T s' x = missing T s x + (if x = c then d else 0)) \<and>
      (\<forall>x. (c, x) \<notin> (inside s)\<^sup>* \<longrightarrow> s_box s' x = s_box s x)"
proof (induction c arbitrary: s rule: wf_induct_rule)
  case (less c)
  let ?t = "add_weight d c s"
  have c: "s_box s c \<noteq> None" "\<And>x. distinct (items_of s x)"
    "\<And>x. c \<in> set (items_of s x) \<longleftrightarrow> s_parent s c = Some (Box x)"
    using less.prems by (auto simp: linked_above_def)
  have t: "missing T ?t x = missing T s x + (if x = c then d else 0) - (if s_parent s c = Some (Box x) then d else 0)" for x
    using missing_add_weight [OF c(1,2) linked_not_self [OF less.prems(2)]] by (simp add: c(3))
  show ?case
  proof (cases "\<exists>p. s_parent s c = Some (Box p)")
    case False
    then have "updateItemWeight s c d = Some ?t"
      by (subst updateItemWeight.simps) (auto simp: getParentContainer_def split: option.splits cylinder.splits)
    moreover have "s_box ?t x = s_box s x" if "(c, x) \<notin> (inside s)\<^sup>*" for x
      using that by (metis add_weight_simps(5) rtrancl.rtrancl_refl)
    ultimately show ?thesis
      using False by (auto simp: t reweighed_add_weight)
  next
    case True
    then obtain p where p: "s_parent s c = Some (Box p)" by auto
    then have step: "updateItemWeight s c d = updateItemWeight ?t p d"
      by (subst updateItemWeight.simps) (simp add: getParentContainer_def)
    obtain s' where s': "updateItemWeight ?t p d = Some s'" "reweighed ?t s'"
      "\<forall>x. missing T s' x = missing T ?t x + (if x = p then d else 0)"
      "\<forall>x. (p, x) \<notin> (inside s)\<^sup>* \<longrightarrow> s_box s' x = s_box ?t x"
      using less.IH [of p ?t] less.prems p linked_above_parent [OF less.prems(2) p] by auto
    have "s_box s' x = s_box s x" if "(c, x) \<notin> (inside s)\<^sup>*" for x
      using that s'(4) p by (metis add_weight_simps(5) converse_rtrancl_into_rtrancl inside_iff rtrancl.rtrancl_refl)
    then show ?thesis
      using s' step p reweighed_trans [OF reweighed_add_weight s'(2)] by (auto simp: t)
  qed
qed

lemma updateItemWeight_spec:
  assumes "linked_above s c"
  obtains s' where "updateItemWeight s c d = Some s'" "reweighed s s'"
    "\<And>x. missing T s' x = missing T s x + (if x = c then d else 0)"
    "\<And>x. (c, x) \<notin> (inside s)\<^sup>* \<Longrightarrow> s_box s' x = s_box s x"
  using updateItemWeight_wf [OF _ refl assms, of d T] assms
  by (auto simp: linked_above_def finite_acyclic_wf_converse)

lemma store_wf_linked: "store_wf s \<Longrightarrow> s_box s c \<noteq> None \<Longrightarrow> linked_above s c"
  unfolding linked_above_def
  by (metis box_of_inside inside_finite inside_iff rtrancl.cases store_wf_def)

lemma reweighed_store_wf: "reweighed s s' \<Longrightarrow> store_wf s' = store_wf s"
  by (simp add: reweighed_def store_wf_def inside_def del: not_None_eq)


lemma index_from_bounds: "i \<in> set xs \<Longrightarrow> n \<le> index_from n xs i \<and> index_from n xs i < n + int (length xs)"
proof (induction xs arbitrary: n)
  case (Cons x xs)
  show ?case using Cons.IH [of "n + 1"] Cons.prems by (cases "x = i") auto
qed simp

lemma index_from_absent: "i \<notin> set xs \<Longrightarrow> index_from n xs i = -1"
  by (induction xs arbitrary: n) auto

lemma index_from_found: "0 \<le> n \<Longrightarrow> index_from n xs i = -1 \<longleftrightarrow> i \<notin> set xs"
  using index_from_bounds [of i xs n] index_from_absent [of i xs n] by (cases "i \<in> set xs") auto

lemma erase_index:
  "i \<in> set xs \<Longrightarrow> 0 \<le> n \<Longrightarrow>
    take (nat (index_from n xs i - n)) xs @ drop (Suc (nat (index_from n xs i - n))) xs = remove1 i xs"
proof (induction xs arbitrary: n)
  case (Cons x xs)
  show ?case
  proof (cases "x = i")
    case False
    then have i: "i \<in> set xs" using Cons.prems by simp
    then have "nat (index_from (n + 1) xs i - n) = Suc (nat (index_from (n + 1) xs i - (n + 1)))"
      using index_from_bounds [OF i, of "n + 1"] by linarith
    then show ?thesis
      using Cons.IH [OF i, of "n + 1"] Cons.prems False by simp
  qed simp
qed simp

lemma getThingIndex_absent: "getThingIndex s c i = -1 \<longleftrightarrow> i \<notin> set (items_of s c)"
  by (simp add: getThingIndex_def index_from_found)

lemma erase_getThingIndex:
  "i \<in> set (items_of s c) \<Longrightarrow>
    take (nat (getThingIndex s c i)) (items_of s c) @ drop (Suc (nat (getThingIndex s c i))) (items_of s c)
      = remove1 i (items_of s c)"
  using erase_index [of i "items_of s c" 0] by (simp add: getThingIndex_def)

text \<open>What is put into a container: an item that is in no container, and that does not hold this one.\<close>

definition loose :: "item_store \<Rightarrow> nat \<Rightarrow> bool" where
  "loose s i \<longleftrightarrow> (case s_parent s i of Some (Box c) \<Rightarrow> False | _ \<Rightarrow> True)"

lemma loose_iff: "loose s i \<longleftrightarrow> (\<forall>c. s_parent s i \<noteq> Some (Box c))"
  by (auto simp: loose_def split: option.splits cylinder.splits)

lemma holds_above_inside:
  assumes "(c, i) \<in> (inside s)\<^sup>+" "holds_above s i (s_parent s c) = Some b"
  shows b
  using assms
proof (induction rule: converse_trancl_induct)
  case (base c)
  then show ?case by (subst (asm) holds_above.simps) simp
next
  case (step c p)
  then have "holds_above s i (Some (Box p)) = Some b" by simp
  then have "(if p = i then Some True else holds_above s i (s_parent s p)) = Some b"
    by (subst (asm) holds_above.simps) (simp split: if_splits)
  then show ?case
    using step.IH by (simp split: if_splits)
qed

lemma queryAdd_not_above:
  assumes "queryAdd T ask s c index (ItemThing i) n flags = Some RETURNVALUE_NOERROR"
    "\<not> hasBitSet FLAG_CHILDISOWNER flags"
  shows "(c, i) \<notin> (inside s)\<^sup>*"
proof
  assume "(c, i) \<in> (inside s)\<^sup>*"
  moreover have "i \<noteq> c" "holds_above s i (s_parent s c) = Some False"
    using assms by (auto simp: queryAdd_def split: if_splits option.splits bool.splits)
  ultimately show False
    using holds_above_inside by (metis rtranclD)
qed

lemma empty_not_above: "\<lbrakk>store_wf s; items_of s i = []; i \<noteq> c\<rbrakk> \<Longrightarrow> (c, i) \<notin> (inside s)\<^sup>*"
  by (metis empty_iff empty_set inside_iff rtranclE store_wf_def)

lemma inside_setParent_loose:
  "loose s i \<Longrightarrow> inside (setParent (Some (Box c)) i s) = insert (i, c) (inside s)"
  by (auto simp: inside_def loose_iff split: if_splits)

definition put_in :: "nat \<Rightarrow> nat \<Rightarrow> nat list \<Rightarrow> item_store \<Rightarrow> item_store" where
  "put_in c i xs s = set_items c xs (setParent (Some (Box c)) i s)"

lemma inside_set_items [simp]: "inside (set_items c xs s) = inside s"
  by (simp add: inside_def)

lemma held_weight_set_items:
  "held_weight T (set_items c xs s) x =
    (if x = c \<and> s_box s c \<noteq> None then sum_list (map (item_weight T s) xs) else held_weight T s x)"
  by (cases "s_box s c") (auto simp: held_weight_def)

lemma missing_set_items:
  "missing T (set_items c xs s) x =
    missing T s x + (if x = c \<and> s_box s c \<noteq> None
      then held_weight T s c - sum_list (map (item_weight T s) xs) else 0)"
  unfolding missing_def held_weight_set_items by (cases "x = c"; cases "s_box s c"; cases "s_box s x") (simp_all add: set_items_def)

lemma put_in_wf:
  assumes "store_wf s" "s_box s c \<noteq> None" "loose s i" "(c, i) \<notin> (inside s)\<^sup>*"
    "distinct xs" "set xs = insert i (set (items_of s c))"
  shows "store_wf (put_in c i xs s)"
  unfolding store_wf_def put_in_def inside_set_items inside_setParent_loose [OF assms(3)]
  using assms by (auto simp: store_wf_def acyclic_insert loose_iff)


lemma put_in_missing:
  assumes "s_box s c \<noteq> None"
  shows "missing T (put_in c i xs s) x =
    missing T s x + (if x = c then held_weight T s c - sum_list (map (item_weight T s) xs) else 0)"
  using assms by (simp add: put_in_def missing_set_items held_weight_def)

lemma put_in_simps [simp]:
  "item_weight T (put_in c i xs s) = item_weight T s"
  "s_box (put_in c i xs s) x = None \<longleftrightarrow> s_box s x = None"
  by (simp_all add: put_in_def)

lemma settle:
  assumes "store_wf s" "s_box s c \<noteq> None" "\<And>x. missing T s x = (if x = c then - d else 0)"
  shows "\<exists>s'. updateItemWeight s c d = Some s' \<and> store_ok T s'"
proof -
  obtain s' where "updateItemWeight s c d = Some s'" "reweighed s s'"
    "\<And>x. missing T s' x = missing T s x + (if x = c then d else 0)"
    using updateItemWeight_spec [OF store_wf_linked [OF assms(1,2)]] by metis
  then show ?thesis
    using assms by (auto simp: store_ok_missing reweighed_store_wf)
qed

lemma put_in_ok:
  assumes s: "store_ok T s" and c: "s_box s c \<noteq> None" and i: "loose s i" "(c, i) \<notin> (inside s)\<^sup>*"
    and xs: "xs = i # items_of s c \<or> xs = items_of s c @ [i]"
  shows "\<exists>s'. updateItemWeight (put_in c i xs s) c (item_weight T s i) = Some s' \<and> store_ok T s'"
proof (rule settle)
  have "i \<notin> set (items_of s c)" "distinct (items_of s c)"
    using s i by (auto simp: store_ok_missing store_wf_def loose_iff)
  then show "store_wf (put_in c i xs s)"
    using put_in_wf [OF _ c i, of xs] s xs by (auto simp: store_ok_missing)
  show "missing T (put_in c i xs s) x = (if x = c then - item_weight T s i else 0)" for x
    using put_in_missing [OF c] s xs by (auto simp: store_ok_missing held_weight_def)
qed (use c in simp)

lemma held_weight_set_item:
  assumes "distinct (items_of s x)"
  shows "held_weight T (set_item i y s) x =
    held_weight T s x + (if i \<in> set (items_of s x) then item_weight T (set_item i y s) i - item_weight T s i else 0)"
proof -
  let ?d = "item_weight T (set_item i y s) i - item_weight T s i"
  have "held_weight T (set_item i y s) x =
      sum_list (map (\<lambda>j. item_weight T s j + (if j = i then ?d else 0)) (items_of s x))"
    unfolding held_weight_def set_item_simps
    by (rule arg_cong [where f = sum_list], rule map_cong) (simp_all add: item_weight_def)
  then show ?thesis
    by (simp only: sum_list_bump [OF assms] held_weight_def)
qed

lemma alter_ok:
  assumes s: "store_ok T s" and i: "i \<in> set (items_of s c)"
  shows "\<exists>s'. updateItemWeight (set_item i y s) c (- item_weight T s i + item_weight T (set_item i y s) i) = Some s'
    \<and> store_ok T s'"
proof (rule settle)
  show "store_wf (set_item i y s)"
    using s by (simp add: store_ok_missing store_wf_def inside_def)
  show "s_box (set_item i y s) c \<noteq> None"
    using i by (cases "s_box s c") auto
  have "s_parent s i = Some (Box c)" "distinct (items_of s x)" "s_box s c \<noteq> None" for x
    using s i by (cases "s_box s c"; auto simp: store_ok_missing store_wf_def)+
  then show "missing T (set_item i y s) x =
    (if x = c then - (- item_weight T s i + item_weight T (set_item i y s) i) else 0)" for x
    using s held_weight_set_item [of s x T i y]
    by (auto simp: store_ok_missing store_wf_def missing_def i split: option.splits)
qed


lemma take_out_ok:
  assumes s: "store_ok T s" and i: "i \<in> set (items_of s c)"
    and s': "updateItemWeight s c (- item_weight T s i) = Some s'"
  shows "store_ok T (set_items c (remove1 i (items_of s c)) (setParent None i s'))" (is "store_ok T ?t")
proof -
  have wf: "store_wf s" and p: "s_parent s i = Some (Box c)"
    using s i by (simp_all add: store_ok_missing store_wf_def)
  have c: "s_box s c \<noteq> None"
    by (rule box_of_inside [OF wf p])
  obtain s'' where s'': "updateItemWeight s c (- item_weight T s i) = Some s''" "reweighed s s''"
    "\<And>x. missing T s'' x = missing T s x + (if x = c then - item_weight T s i else 0)"
    "\<And>x. (c, x) \<notin> (inside s)\<^sup>* \<Longrightarrow> s_box s'' x = s_box s x"
    using updateItemWeight_spec [OF store_wf_linked [OF wf c]] by metis
  then have w: "item_weight T s' i = item_weight T s i"
    using s' not_above_self [OF wf p] by (simp add: item_weight_def reweighed_def)
  have rw: "reweighed s s'" using s' s'' by simp
  then have "inside ?t \<subseteq> inside s"
    by (auto simp: inside_def reweighed_def split: if_splits)
  then have "store_wf ?t"
    using wf rw i c acyclic_subset by (auto simp: store_wf_def reweighed_def)
  moreover have "missing T ?t x = 0" for x
  proof -
    have "held_weight T s' c = item_weight T s' i + sum_list (map (item_weight T s') (remove1 i (items_of s c)))"
      using rw i by (simp add: held_weight_def reweighed_def sum_list_map_remove1)
    moreover have "s_box s' c \<noteq> None" "missing T s' x = (if x = c then - item_weight T s i else 0)"
      using rw c s s' s''(1,3) by (simp_all add: reweighed_def store_ok_missing del: not_None_eq)
    ultimately show ?thesis
      by (simp add: missing_set_items held_weight_def w del: not_None_eq)
  qed
  ultimately show ?thesis by (simp add: store_ok_missing)
qed


lemma sum_list_exchange:
  fixes f :: "nat \<Rightarrow> u32"
  shows "k < length xs \<Longrightarrow> sum_list (map f (xs[k := y])) = sum_list (map f xs) - f (xs ! k) + f y"
  by (induction xs arbitrary: k) (auto split: nat.splits)

lemma set_exchange:
  "\<lbrakk>distinct xs; k < length xs; y \<notin> set xs\<rbrakk> \<Longrightarrow>
    distinct (xs[k := y]) \<and> set (xs[k := y]) = insert y (set xs - {xs ! k})"
  by (induction xs arbitrary: k) (auto split: nat.splits simp: nth_mem)

lemma exchange_linked:
  assumes wf: "store_wf s" and c: "s_box s c \<noteq> None" and i: "loose s i" "(c, i) \<notin> (inside s)\<^sup>*"
    and k: "k < length (items_of s c)"
  shows "linked_above (put_in c i ((items_of s c)[k := i]) s) c" (is "linked_above ?t c")
proof -
  let ?o = "items_of s c ! k"
  have new: "i \<notin> set (items_of s c)" and old: "s_parent s ?o = Some (Box c)" "?o \<noteq> i"
    using wf i k nth_mem [OF k] by (auto simp: store_wf_def loose_iff)
  have ins: "inside ?t = insert (i, c) (inside s)"
    using i by (simp add: put_in_def inside_setParent_loose)
  have ac: "acyclic (inside ?t)"
    using wf i by (simp add: ins acyclic_insert store_wf_def)
  have set: "distinct ((items_of s c)[k := i])" "set ((items_of s c)[k := i]) = insert i (set (items_of s c) - {?o})"
    using set_exchange [OF _ k new] wf by (simp_all add: store_wf_def)
  have up: "s_box s y \<noteq> None \<and> y \<noteq> ?o" if y: "(c, y) \<in> (inside ?t)\<^sup>*" for y
  proof
    show "s_box s y \<noteq> None"
      using y by (cases rule: rtrancl.cases) (use c ins box_of_inside [OF wf] in auto)
    show "y \<noteq> ?o"
    proof
      assume "y = ?o"
      moreover have "(?o, c) \<in> inside ?t" using old by (simp add: ins del: inside_iff) simp
      ultimately show False
        using y ac by (metis acyclic_def rtrancl_into_trancl2)
    qed
  qed
  show ?thesis
    unfolding linked_above_def
  proof (intro conjI allI impI)
    show "finite (inside ?t)" using inside_finite [OF wf] by (simp add: ins)
    show "acyclic (inside ?t)" by (rule ac)
    show "distinct (items_of ?t x)" for x using set wf by (simp add: put_in_def store_wf_def)
  next
    fix y assume y: "(c, y) \<in> (inside ?t)\<^sup>*"
    then show "s_box ?t y \<noteq> None" using up by simp
    show "y \<in> set (items_of ?t x) \<longleftrightarrow> s_parent ?t y = Some (Box x)" for x
      using up [OF y] wf c i set by (auto simp: put_in_def store_wf_def loose_iff)
  qed
qed

lemma exchange_ok:
  assumes s: "store_ok T s" and c: "s_box s c \<noteq> None" and i: "loose s i" "(c, i) \<notin> (inside s)\<^sup>*"
    and k: "k < length (items_of s c)"
  shows "\<exists>s'. updateItemWeight (put_in c i ((items_of s c)[k := i]) s) c
      (- item_weight T s (items_of s c ! k) + item_weight T s i) = Some s' \<and>
    store_ok T (setParent None (items_of s c ! k) s')"
proof -
  let ?o = "items_of s c ! k" and ?t = "put_in c i ((items_of s c)[k := i]) s"
  have wf: "store_wf s" using s by (simp add: store_ok_missing)
  obtain s' where s': "updateItemWeight ?t c (- item_weight T s ?o + item_weight T s i) = Some s'" "reweighed ?t s'"
    "\<And>x. missing T s' x = missing T ?t x + (if x = c then - item_weight T s ?o + item_weight T s i else 0)"
    using updateItemWeight_spec [OF exchange_linked [OF wf c i k]] by metis
  have "missing T s' x = 0" for x
    using s k by (simp add: s'(3) put_in_missing [OF c] store_ok_missing held_weight_def sum_list_exchange)
  moreover have "store_wf (setParent None ?o s')"
  proof -
    have new: "i \<notin> set (items_of s c)" "?o \<noteq> i"
      using wf i k nth_mem [OF k] by (auto simp: store_wf_def loose_iff)
    then have set: "distinct ((items_of s c)[k := i])" "set ((items_of s c)[k := i]) = insert i (set (items_of s c) - {?o})"
      using set_exchange [OF _ k] wf by (simp_all add: store_wf_def)
    have "acyclic (insert (i, c) (inside s))"
      using wf i by (simp add: acyclic_insert store_wf_def)
    moreover have "inside (setParent None ?o s') \<subseteq> insert (i, c) (inside s)"
      using s'(2) by (auto simp: inside_def reweighed_def put_in_def split: if_splits)
    ultimately have "acyclic (inside (setParent None ?o s'))"
      by (rule acyclic_subset)
    then show ?thesis
      using s'(2) wf set new c i k nth_mem [OF k]
      by (auto simp: store_wf_def reweighed_def put_in_def loose_iff)
  qed
  ultimately show ?thesis using s'(1) by (simp add: store_ok_missing)
qed


section \<open>Every change keeps the weights\<close>

datatype container_op =
  AddThing nat int nat | AddItemBack nat nat | InternalAddThing nat nat
  | UpdateThing nat nat u16 u16 | ReplaceThing nat nat nat | RemoveThing nat nat u32

fun apply_op :: "items_table \<Rightarrow> container_op \<Rightarrow> item_store \<Rightarrow> item_store option" where
  "apply_op T (AddThing c index i) s = addThing T c index (ItemThing i) s"
| "apply_op T (AddItemBack c i) s = addItemBack T c i s"
| "apply_op T (InternalAddThing c i) s = internalAddThing T c (ItemThing i) s"
| "apply_op T (UpdateThing c i itemId n) s = updateThing T c (ItemThing i) itemId n s"
| "apply_op T (ReplaceThing c k i) s = replaceThing T c k (ItemThing i) s"
| "apply_op T (RemoveThing c i n) s = removeThing T c (ItemThing i) n s"

text \<open>
  What the callers keep to: an item goes in when the container has agreed to it, or when it is new and
  empty, and only while it is in no other container.
\<close>

definition may_hold :: "items_table \<Rightarrow> item_store \<Rightarrow> nat \<Rightarrow> nat \<Rightarrow> bool" where
  "may_hold T s c i \<longleftrightarrow> s_box s c \<noteq> None \<and> loose s i \<and>
     ((\<exists>ask index n flags. queryAdd T ask s c index (ItemThing i) n flags = Some RETURNVALUE_NOERROR \<and>
         \<not> hasBitSet FLAG_CHILDISOWNER flags) \<or> items_of s i = [] \<and> i \<noteq> c)"

fun permitted :: "items_table \<Rightarrow> item_store \<Rightarrow> container_op \<Rightarrow> bool" where
  "permitted T s (AddThing c index i) = may_hold T s c i"
| "permitted T s (AddItemBack c i) = may_hold T s c i"
| "permitted T s (InternalAddThing c i) = may_hold T s c i"
| "permitted T s (ReplaceThing c k i) = may_hold T s c i"
| "permitted T s _ = True"

fun apply_ops :: "items_table \<Rightarrow> container_op list \<Rightarrow> item_store \<Rightarrow> item_store option" where
  "apply_ops T [] s = Some s"
| "apply_ops T (x # xs) s = Option.bind (apply_op T x s) (apply_ops T xs)"

fun ops_permitted :: "items_table \<Rightarrow> container_op list \<Rightarrow> item_store \<Rightarrow> bool" where
  "ops_permitted T [] s = True"
| "ops_permitted T (x # xs) s =
     (permitted T s x \<and> (case apply_op T x s of None \<Rightarrow> True | Some s' \<Rightarrow> ops_permitted T xs s'))"

lemma may_hold_rules:
  assumes "may_hold T s c i" "store_ok T s"
  shows "s_box s c \<noteq> None" "loose s i" "(c, i) \<notin> (inside s)\<^sup>*"
  using assms queryAdd_not_above empty_not_above unfolding may_hold_def store_ok_def by metis+

lemma put_in_fold:
  "s_box s c \<noteq> None \<Longrightarrow> setParent (Some (Box c)) i (set_items c xs s) = put_in c i xs s"
  by (simp add: put_in_def setParent_def set_items_def)

lemma apply_op_ok:
  assumes "store_ok T s" "permitted T s op"
  shows "\<exists>s'. apply_op T op s = Some s' \<and> store_ok T s'"
proof (cases op)
  case (AddThing c index i)
  then have h: "may_hold T s c i" using assms by simp
  show ?thesis
    using put_in_ok [OF assms(1) may_hold_rules [OF h assms(1)], of "i # items_of s c"] assms(1)
    by (simp add: AddThing addThing_def Let_def put_in_def)
next
  case (AddItemBack c i)
  then have h: "may_hold T s c i" using assms by simp
  show ?thesis
    using put_in_ok [OF assms(1) may_hold_rules [OF h assms(1)], of "items_of s c @ [i]"]
      may_hold_rules(1) [OF h assms(1)]
    by (simp add: AddItemBack addItemBack_def addItem_def Let_def put_in_fold del: not_None_eq)
next
  case (InternalAddThing c i)
  then have h: "may_hold T s c i" using assms by simp
  show ?thesis
    using put_in_ok [OF assms(1) may_hold_rules [OF h assms(1)], of "i # items_of s c"]
    by (simp add: InternalAddThing internalAddThing_def Let_def put_in_def)
next
  case (UpdateThing c i itemId n)
  then show ?thesis
    using alter_ok [OF assms(1)] assms(1) by (simp add: updateThing_def getThingIndex_absent Let_def)
next
  case (ReplaceThing c k i)
  then have h: "may_hold T s c i" using assms by simp
  note rules = may_hold_rules [OF h assms(1)]
  show ?thesis
  proof (cases "k < length (items_of s c)")
    case True
    then show ?thesis
      using exchange_ok [OF assms(1) rules True] rules(1)
      by (auto simp: ReplaceThing replaceThing_def getItemByIndex_def Let_def put_in_fold)
  next
    case False
    then show ?thesis using assms(1) by (simp add: ReplaceThing replaceThing_def getItemByIndex_def)
  qed
next
  case (RemoveThing c i n)
  show ?thesis
  proof (cases "i \<in> set (items_of s c)")
    case True
    have wf: "store_wf s" using assms(1) by (simp add: store_ok_def)
    have c: "s_box s c \<noteq> None" using True by (cases "s_box s c") auto
    obtain s' where s': "updateItemWeight s c (- item_weight T s i) = Some s'" "reweighed s s'"
      using updateItemWeight_spec [OF store_wf_linked [OF wf c]] by metis
    have "store_ok T (set_items c (remove1 i (items_of s c)) (setParent None i s'))"
      by (rule take_out_ok [OF assms(1) True s'(1)])
    moreover have "items_of s' c = items_of s c" using s'(2) by (simp add: reweighed_def)
    ultimately show ?thesis
      using alter_ok [OF assms(1) True] s'(1) erase_getThingIndex [OF True]
      by (auto simp: RemoveThing removeThing_def getThingIndex_absent True Let_def)
  next
    case False
    then show ?thesis using assms(1) by (simp add: RemoveThing removeThing_def getThingIndex_absent Let_def)
  qed
qed


section \<open>The iterator visits everything inside\<close>

definition contents :: "item_store \<Rightarrow> nat \<Rightarrow> nat set" where
  "contents s c = {i. (i, c) \<in> (inside s)\<^sup>+}"

definition waiting :: "item_store \<Rightarrow> nat list \<times> nat \<Rightarrow> nat list" where
  "waiting s it = (case fst it of [] \<Rightarrow> [] | c # cs \<Rightarrow> drop (snd it) (items_of s c) @ concat (map (items_of s) cs))"

definition it_ok :: "item_store \<Rightarrow> nat list \<times> nat \<Rightarrow> bool" where
  "it_ok s it \<longleftrightarrow> (\<forall>c \<in> set (fst it). items_of s c \<noteq> []) \<and>
     (fst it \<noteq> [] \<longrightarrow> snd it < length (items_of s (hd (fst it))))"

lemma iterator_ok: "it_ok s (iterator s c)" "waiting s (iterator s c) = items_of s c"
  by (simp_all add: it_ok_def iterator_def waiting_def)

lemma it_advance_spec:
  assumes "it_ok s it" "fst it \<noteq> []"
  shows "it_ok s (it_advance s it)"
    "\<exists>q. waiting s it = it_current s it # q \<and> waiting s (it_advance s it) = q @ items_of s (it_current s it)"
proof -
  obtain c cs n where it: "it = (c # cs, n)" using assms(2) by (cases it; cases "fst it") auto
  have n: "n < length (items_of s c)" using assms(1) by (simp add: it it_ok_def)
  let ?i = "items_of s c ! n"
  have i: "it_current s it = ?i" by (simp add: it it_current_def)
  have over: "(if s_box s ?i \<noteq> None \<and> items_of s ?i \<noteq> [] then x @ [?i] else x) =
    x @ (if items_of s ?i \<noteq> [] then [?i] else [])" for x
    by (cases "s_box s ?i") simp_all
  have adv: "it_advance s it =
    (let more = cs @ (if items_of s ?i \<noteq> [] then [?i] else [])
     in if n + 1 = length (items_of s c) then (more, 0) else (c # more, n + 1))"
    unfolding it_advance_def i over by (simp add: it Let_def)
  show "it_ok s (it_advance s it)"
    using assms(1) n unfolding adv by (cases cs) (auto simp: it it_ok_def Let_def)
  have d: "drop n (items_of s c) = ?i # drop (Suc n) (items_of s c)"
    using n by (simp add: Cons_nth_drop_Suc)
  have w: "waiting s (more, 0) = concat (map (items_of s) more)" for more
    by (cases more) (simp_all add: waiting_def)
  have "waiting s (it_advance s it) = drop (Suc n) (items_of s c) @ concat (map (items_of s) cs) @ items_of s ?i"
    using n unfolding adv by (auto simp: Let_def w) (simp_all add: waiting_def)
  then show "\<exists>q. waiting s it = it_current s it # q \<and> waiting s (it_advance s it) = q @ items_of s (it_current s it)"
    unfolding i by (simp add: waiting_def it d)
qed

text \<open>What has been visited and what waits: every item once, and nothing inside is left out.\<close>

definition walked :: "item_store \<Rightarrow> nat \<Rightarrow> nat list \<Rightarrow> nat list \<Rightarrow> bool" where
  "walked s c before after \<longleftrightarrow> distinct (before @ after) \<and> set (before @ after) \<subseteq> contents s c \<and>
     (\<forall>i \<in> set (before @ after). \<exists>p. (p = c \<or> p \<in> set before) \<and> s_parent s i = Some (Box p)) \<and>
     (\<forall>p i. p = c \<or> p \<in> set before \<longrightarrow> s_parent s i = Some (Box p) \<longrightarrow> i \<in> set (before @ after))"

lemma contents_finite: "store_wf s \<Longrightarrow> finite (contents s c)"
  unfolding contents_def by (rule finite_subset [of _ "fst ` (inside s)\<^sup>+"]) (force simp: inside_finite)+

lemma contents_self: "store_wf s \<Longrightarrow> c \<notin> contents s c"
  by (simp add: contents_def store_wf_def acyclic_def)

lemma walk_start: "store_wf s \<Longrightarrow> walked s c [] (items_of s c)"
  by (auto simp: walked_def contents_def store_wf_def)

lemma walk_step:
  assumes wf: "store_wf s" and w: "walked s c before (i # q)"
  shows "walked s c (before @ [i]) (q @ items_of s i)"
proof -
  have kids: "j \<in> set (items_of s i) \<longleftrightarrow> s_parent s j = Some (Box i)" for j
    using wf by (simp add: store_wf_def)
  have i: "i \<in> contents s c" "i \<noteq> c" "i \<notin> set before"
    using w contents_self [OF wf] by (auto simp: walked_def)
  have new: "j \<notin> set (before @ i # q)" if "s_parent s j = Some (Box i)" for j
  proof
    assume "j \<in> set (before @ i # q)"
    then obtain p where "p = c \<or> p \<in> set before" "s_parent s j = Some (Box p)"
      using w unfolding walked_def by blast
    then show False using that i by auto
  qed
  have "j \<in> contents s c" if "s_parent s j = Some (Box i)" for j
    using that i(1) by (simp add: contents_def trancl_into_trancl2)
  moreover have "distinct (items_of s i)" using wf by (simp add: store_wf_def)
  ultimately have "distinct ((before @ [i]) @ q @ items_of s i)" "set ((before @ [i]) @ q @ items_of s i) \<subseteq> contents s c"
    using w new by (auto simp: walked_def kids)
  moreover have "\<exists>p. (p = c \<or> p \<in> set (before @ [i])) \<and> s_parent s j = Some (Box p)"
    if "j \<in> set ((before @ [i]) @ q @ items_of s i)" for j
    using that w by (auto simp: walked_def kids)
  moreover have "j \<in> set ((before @ [i]) @ q @ items_of s i)"
    if "p = c \<or> p \<in> set (before @ [i])" "s_parent s j = Some (Box p)" for p j
    using that w by (auto simp: walked_def kids)
  ultimately show ?thesis
    unfolding walked_def by blast
qed

lemma walk_end:
  assumes "walked s c before []"
  shows "distinct before \<and> set before = contents s c"
proof -
  have "i \<in> set before" if "(i, c) \<in> (inside s)\<^sup>+" for i
    using that by (induction rule: converse_trancl_induct) (use assms in \<open>auto simp: walked_def\<close>)
  then show ?thesis using assms by (auto simp: walked_def contents_def)
qed

lemma visit_walk:
  assumes wf: "store_wf s"
  shows "walked s c before (waiting s it) \<Longrightarrow> it_ok s it \<Longrightarrow>
    \<exists>is. visit s it = Some is \<and> distinct (before @ is) \<and> set (before @ is) = contents s c"
proof (induction "card (contents s c - set before)" arbitrary: before it rule: less_induct)
  case less
  show ?case
  proof (cases "fst it = []")
    case True
    then show ?thesis
      using walk_end less.prems by (subst visit.simps) (simp add: waiting_def)
  next
    case False
    then obtain q where q: "waiting s it = it_current s it # q"
      "waiting s (it_advance s it) = q @ items_of s (it_current s it)" "it_ok s (it_advance s it)"
      using it_advance_spec [OF less.prems(2)] by blast
    let ?i = "it_current s it"
    have "?i \<in> contents s c" "?i \<notin> set before"
      using less.prems(1) by (auto simp: walked_def q(1))
    then have "card (contents s c - set (before @ [?i])) < card (contents s c - set before)"
      by (intro psubset_card_mono) (auto simp: contents_finite [OF wf])
    moreover have "walked s c (before @ [?i]) (waiting s (it_advance s it))"
      using walk_step [OF wf] less.prems(1) by (simp add: q(1,2))
    ultimately obtain "is" where "visit s (it_advance s it) = Some is"
      "distinct ((before @ [?i]) @ is)" "set ((before @ [?i]) @ is) = contents s c"
      using less.hyps q(3) by blast
    then show ?thesis using False by (subst visit.simps) simp
  qed
qed


section \<open>What a container refuses\<close>

text \<open>What holds a creature or a container that is not one itself: a tile, which nothing holds.\<close>

definition shallow :: "item_store \<Rightarrow> bool" where
  "shallow s \<longleftrightarrow> (\<forall>p o'. s_outer s p = Some o' \<longrightarrow> s_outer s o' = None)"

lemma holds_above_outside: "shallow s \<Longrightarrow> holds_above s i (Some (Outside p)) = Some False"
  by (subst holds_above.simps, subst holds_above.simps, subst holds_above.simps)
    (auto simp: shallow_def split: option.splits)

lemma holds_above_total:
  assumes "store_wf s" "shallow s"
  shows "holds_above s i (s_parent s c) = Some ((c, i) \<in> (inside s)\<^sup>+)"
proof (induction c rule: wf_induct_rule [OF holder_wf [OF assms(1)]])
  case (1 c)
  consider (none) "s_parent s c = None" | (out) p where "s_parent s c = Some (Outside p)"
    | (box) p where "s_parent s c = Some (Box p)"
    by (metis cylinder.exhaust not_Some_eq)
  then show ?case
  proof cases
    case none
    then have "(c, i) \<notin> (inside s)\<^sup>+" by (auto dest: tranclD)
    then show ?thesis using none by (subst holds_above.simps) simp
  next
    case out
    then have "(c, i) \<notin> (inside s)\<^sup>+" by (auto dest: tranclD)
    then show ?thesis using out holds_above_outside [OF assms(2)] by simp
  next
    case box
    then have "holds_above s i (s_parent s p) = Some ((p, i) \<in> (inside s)\<^sup>+)" using 1 by simp
    moreover have "(c, i) \<in> (inside s)\<^sup>+ \<longleftrightarrow> p = i \<or> (p, i) \<in> (inside s)\<^sup>+"
      using box by (metis converse_tranclE inside_iff option.inject cylinder.inject(1) r_into_trancl trancl_into_trancl2)
    ultimately show ?thesis using box by (subst holds_above.simps) auto
  qed
qed

lemma top_parent_outside: "shallow s \<Longrightarrow> \<exists>t. top_parent_loop s q (Outside p) = Some t"
  by (cases "s_outer s p") (simp_all add: top_parent_loop.simps shallow_def)

lemma top_parent_total:
  assumes "store_wf s" "shallow s"
  shows "\<exists>t. top_parent_loop s q (Box c) = Some t"
proof (induction c arbitrary: q rule: wf_induct_rule [OF holder_wf [OF assms(1)]])
  case (1 c)
  then show ?case
    using top_parent_outside [OF assms(2)]
    by (subst top_parent_loop.simps) (auto split: option.splits, metis cylinder.exhaust)
qed

lemma getTopParent_total: "store_wf s \<Longrightarrow> shallow s \<Longrightarrow> \<exists>t. getTopParent s c = Some t"
  using top_parent_total top_parent_outside unfolding getTopParent_def
  by (auto split: option.splits) (metis cylinder.exhaust)


text \<open>
  C28: Starting from a store where every container's cached weight is the sum of the weights of its items, any
  sequence of additions, updates, replacements and removals that the callers are permitted ends, is never
  stuck in \<open>updateItemWeight\<close>, and leaves a store where items and parents agree, nothing contains itself
  and every cached weight, at every depth, is again that sum (modulo $2^{32}$).
\<close>

theorem container_weights_kept:
  assumes "store_ok T s" "ops_permitted T ops s"
  shows "\<exists>s'. apply_ops T ops s = Some s' \<and> store_ok T s'"
  using assms
proof (induction ops arbitrary: s)
  case (Cons op ops)
  then obtain s' where "apply_op T op s = Some s'" "store_ok T s'"
    using apply_op_ok [of T s op] by auto
  then show ?case using Cons by simp
qed simp

definition two_bags :: item_store where
  "two_bags = \<lparr>s_item = (\<lambda>i. \<lparr>i_id = 0, i_count = 1, i_attributes = None, i_loadedFromMap = False\<rparr>),
     s_parent = (\<lambda>_. None), s_outer = (\<lambda>_. None),
     s_box = (\<lambda>i. if i < 2 then Some \<lparr>itemlist = [], maxSize = 8, totalWeight = 0\<rparr> else None)\<rparr>"

definition feather :: items_table where
  "feather = \<lparr>items = [new_item_type\<lparr>it_pickupable := True, it_weight := 100\<rparr>], clientIdToServerIdMap = [],
     majorVersion = 0, minorVersion = 0, buildNumber = 0\<rparr>"

lemma two_bags_items [simp]: "items_of two_bags c = []"
  by (simp add: two_bags_def items_of_def)

lemma two_bags_ok: "store_ok T two_bags"
proof -
  have "finite {c. s_box two_bags c \<noteq> None}"
    by (rule finite_subset [of _ "{..<2}"]) (auto simp: two_bags_def split: if_splits)
  moreover have "inside two_bags = {}" by (auto simp: two_bags_def inside_def)
  ultimately show ?thesis
    by (auto simp: store_ok_def store_wf_def held_weight_def acyclic_def) (auto simp: two_bags_def split: if_splits)
qed


lemma may_hold_asked:
  "\<lbrakk>queryAdd T (\<lambda>_ _ _ _. RETURNVALUE_NOERROR) s c 0 (ItemThing i) 1 0 = Some RETURNVALUE_NOERROR;
     s_box s c \<noteq> None; loose s i\<rbrakk> \<Longrightarrow> may_hold T s c i"
  unfolding may_hold_def by (auto simp: hasBitSet_def FLAG_CHILDISOWNER_def intro!: exI)

theorem container_weights_kept_witness:
  "\<exists>s'. apply_ops feather [AddThing 0 0 2, AddItemBack 1 0, RemoveThing 0 2 1] two_bags = Some s' \<and> store_ok feather s'"
proof (rule container_weights_kept [OF two_bags_ok])
  have t: "items_at feather 0 = new_item_type\<lparr>it_pickupable := True, it_weight := 100\<rparr>"
    by (simp add: items_at_def getItemType_def feather_def)
  show "ops_permitted feather [AddThing 0 0 2, AddItemBack 1 0, RemoveThing 0 2 1] two_bags"
    by (simp add: addThing_def two_bags_def setParent_def set_items_def items_of_def capacity_def Let_def
        updateItemWeight.simps add_weight_def getParentContainer_def may_hold_asked queryAdd_def t
        hasBitSet_def FLAG_CHILDISOWNER_def FLAG_NOLIMIT_def INDEX_WHEREEVER_def holds_above.simps getTopParent_def loose_def
        split: option.splits)
qed


text \<open>
  C29: The container iterator, run over any container of a well-formed store, comes to its end, and the items it
  passes are exactly those inside the container at any depth, each of them once; so \<open>getItems(true)\<close> returns them
  all, \<open>getItemHoldingCount\<close> is their number and \<open>isHoldingItem\<close> is membership.
\<close>

theorem iterator_visits_contents:
  assumes "store_wf s"
  shows "\<exists>is. getItems s c True = Some is \<and> distinct is \<and> set is = contents s c \<and>
    getItemHoldingCount s c = Some (card (contents s c)) \<and> isHoldingItem s c i = Some (i \<in> contents s c)"
proof -
  obtain "is" where "visit s (iterator s c) = Some is" "distinct is" "set is = contents s c"
    using visit_walk [OF assms, of c "[]" "iterator s c"] walk_start [OF assms] iterator_ok by auto
  then show ?thesis
    using distinct_card [of "is"] by (simp add: getItems_def getItemHoldingCount_def isHoldingItem_def)
qed

definition packed :: item_store where
  "packed = two_bags\<lparr>s_parent := [1 \<mapsto> Box 0, 2 \<mapsto> Box 0, 3 \<mapsto> Box 1],
     s_box := [0 \<mapsto> \<lparr>itemlist = [1, 2], maxSize = 8, totalWeight = 0\<rparr>, 1 \<mapsto> \<lparr>itemlist = [3], maxSize = 8, totalWeight = 0\<rparr>]\<rparr>"

lemma packed_items: "items_of packed c = (if c = 0 then [1, 2] else if c = 1 then [3] else [])"
  by (simp add: packed_def items_of_def)

lemma packed_box: "s_box packed c = None \<longleftrightarrow> c \<ge> 2"
  by (auto simp: packed_def)

lemma packed_wf: "store_wf packed"
proof -
  have "finite {c. s_box packed c \<noteq> None}"
    by (rule finite_subset [of _ "{..<2}"]) (auto simp: packed_def split: if_splits)
  moreover have "inside packed \<subseteq> less_than\<inverse>"
    by (auto simp: packed_def inside_def split: if_splits)
  then have "acyclic (inside packed)"
    by (rule acyclic_subset [rotated]) (simp add: wf_acyclic acyclic_converse)
  ultimately show ?thesis
    unfolding store_wf_def packed_items by (auto simp: packed_def split: if_splits)
qed

theorem iterator_visits_contents_witness:
  "getItems packed 0 True = Some [1, 2, 3] \<and> contents packed 0 = {1, 2, 3} \<and> isHoldingItem packed 0 3 = Some True"
proof -
  have "getItems packed 0 True = Some [1, 2, 3]"
    by (simp add: getItems_def iterator_def visit.simps it_advance_def it_current_def packed_items packed_box Let_def
        del: not_None_eq)
  then show ?thesis
    using iterator_visits_contents [OF packed_wf, of 0 3] by auto
qed



end
