(* ===== verification/Game_Login.thy ===== *)
theory Game_Login
  imports Protocol Game_Requests
begin

text \<open>
  The way into the game, \<open>src/src/protocolgame.cpp\<close>: the first message of a connection, which must
  answer the challenge that the server sent; the gate \<open>login\<close> with its refusals in order; and the two
  waiting lists for a full server. The database (accounts, bans) and the map are parameters. Times are
  in milliseconds and unbounded.
\<close>

section \<open>Refusals\<close>

datatype game_state =
    GAME_STATE_STARTUP | GAME_STATE_INIT | GAME_STATE_NORMAL | GAME_STATE_CLOSED | GAME_STATE_SHUTDOWN
  | GAME_STATE_CLOSING | GAME_STATE_MAINTAIN

record ban_info =
  bannedBy :: string
  reason :: string
  expiresAt :: int

text \<open>What the client is told; a ban is shown with its date when it has one.\<close>

datatype refusal = Told string | BannedUntil ban_info | BannedForever ban_info

definition with_reason :: "ban_info \<Rightarrow> ban_info" where
  "with_reason b = (if reason b = [] then b\<lparr>reason := ''(none)''\<rparr> else b)"

section \<open>The first message\<close>

definition CLIENT_VERSION_MIN :: u16 where "CLIENT_VERSION_MIN = 860"
definition CLIENT_VERSION_MAX :: u16 where "CLIENT_VERSION_MAX = 860"
definition CLIENTOS_OTCLIENT_LINUX :: byte where "CLIENTOS_OTCLIENT_LINUX = 10"

record first_session =
  challengeTimestamp :: u32
  challengeRandom :: byte
  version :: u16
  fs_protocol :: protocol_state
  opcodesAnnounced :: bool

record first_env =
  fe_gameState :: game_state
  ipBan :: "ban_info option"
  gameworldAuthentication :: "cstring \<Rightarrow> cstring \<Rightarrow> cstring \<Rightarrow> u32"

datatype first_outcome = Dropped | FirstRefused refusal | LoginTask cstring u32 byte

text \<open>The challenge: time, random byte, and the packet.\<close>

definition challenge_packet :: "u32 \<Rightarrow> byte \<Rightarrow> byte list" where
  "challenge_packet timestamp rnd =
     (let body = le_bytes 2 (0x0006 :: u16) @ [0x1F] @ le_bytes 4 timestamp @ [rnd]
      in le_bytes 4 (adlerChecksum body) @ body)"

definition onConnect :: "u32 \<Rightarrow> byte \<Rightarrow> first_session \<Rightarrow> byte list \<times> first_session" where
  "onConnect time rnd s = (challenge_packet time rnd, s\<lparr>challengeTimestamp := time, challengeRandom := rnd\<rparr>)"

type_synonym credentials = "cstring \<times> cstring \<times> cstring \<times> u32 \<times> byte"

definition read_key :: "u32 list parser" where
  "read_key = do { k0 \<leftarrow> read_u32; k1 \<leftarrow> read_u32; k2 \<leftarrow> read_u32; k3 \<leftarrow> read_u32; State_Monad.return [k0, k1, k2, k3] }"

definition read_credentials :: "credentials parser" where
  "read_credentials = do {
     _ \<leftarrow> read_skip 1;
     accountName \<leftarrow> read_string;
     characterName \<leftarrow> read_string;
     password \<leftarrow> read_string;
     timeStamp \<leftarrow> read_u32;
     randNumber \<leftarrow> read_byte;
     State_Monad.return (accountName, characterName, password, timeStamp, randNumber) }"

definition first_verdict :: "first_env \<Rightarrow> first_session \<Rightarrow> credentials \<Rightarrow> byte \<Rightarrow> first_outcome" where
  "first_verdict e s c operatingSystem =
     (case c of (accountName, characterName, password, timeStamp, randNumber) \<Rightarrow>
        if accountName = [] then FirstRefused (Told ''You must enter your account name.'')
        else if challengeTimestamp s \<noteq> timeStamp \<or> challengeRandom s \<noteq> randNumber then Dropped
        else if version s < CLIENT_VERSION_MIN \<or> version s > CLIENT_VERSION_MAX
        then FirstRefused (Told ''Only clients with protocol 8.60 allowed!'')
        else if fe_gameState e = GAME_STATE_STARTUP
        then FirstRefused (Told ''Gameworld is starting up. Please wait.'')
        else if fe_gameState e = GAME_STATE_MAINTAIN
        then FirstRefused (Told ''Gameworld is under maintenance. Please re-connect in a while.'')
        else case ipBan e of
          Some b \<Rightarrow> FirstRefused (BannedUntil (with_reason b))
        | None \<Rightarrow>
            let accountId = gameworldAuthentication e accountName password characterName
            in if accountId = 0 then FirstRefused (Told ''Account name or password is not correct.'')
               else LoginTask characterName accountId operatingSystem)"

definition onRecvFirstMessage ::
  "(byte list \<Rightarrow> byte list) \<Rightarrow> first_env \<Rightarrow> first_session \<Rightarrow> network_message \<Rightarrow> first_outcome \<times> first_session" where
  "onRecvFirstMessage rsa e s msg =
     (if fe_gameState e = GAME_STATE_SHUTDOWN then (Dropped, s)
      else
        let (os, msg) = get_u16 msg;
            operatingSystem = ucast os;
            (v, msg) = get_u16 msg;
            s = s\<lparr>version := v\<rparr>
        in case RSA_decrypt rsa msg of
             (False, msg) \<Rightarrow> (Dropped, s)
           | (True, msg) \<Rightarrow>
               let (key, msg) = run_state read_key msg;
                   s = s\<lparr>fs_protocol := (fs_protocol s)\<lparr>encryptionEnabled := True, proto_key := expand_key key\<rparr>,
                         opcodesAnnounced := operatingSystem \<ge> CLIENTOS_OTCLIENT_LINUX\<rparr>;
                   (c, msg) = run_state read_credentials msg
               in (first_verdict e s c operatingSystem, s))"


section \<open>The waiting lists\<close>

text \<open>The entries: a time and the guid of a player.\<close>

type_synonym wait_list = "(int \<times> u32) list"

record wait_lists =
  priorityWaitList :: wait_list
  waitList :: wait_list

record login_player =
  guid :: u32
  canAlwaysLogin :: bool
  cannotBeBanned :: bool
  accountType :: nat
  isPremium :: bool

definition ACCOUNT_TYPE_GAMEMASTER :: nat where "ACCOUNT_TYPE_GAMEMASTER = 4"

fun find_guid :: "u32 \<Rightarrow> wait_list \<Rightarrow> nat option" where
  "find_guid g [] = None"
| "find_guid g ((t, h) # xs) = (if h = g then Some 0 else map_option Suc (find_guid g xs))"

text \<open>The list, the place in it, and the slot: the distance to the end of the list, and one more.\<close>

definition findClient :: "u32 \<Rightarrow> wait_lists \<Rightarrow> bool \<times> nat option \<times> nat" where
  "findClient g q =
     (case find_guid g (priorityWaitList q) of
        Some i \<Rightarrow> (True, Some i, length (priorityWaitList q) - i + 1)
      | None \<Rightarrow>
          (case find_guid g (waitList q) of
             Some i \<Rightarrow> (False, Some i, length (priorityWaitList q) + (length (waitList q) - i) + 1)
           | None \<Rightarrow> (False, None, length (priorityWaitList q) + length (waitList q))))"

definition getWaitTime :: "nat \<Rightarrow> byte" where
  "getWaitTime slot =
     (if slot < 5 then 5 else if slot < 10 then 10 else if slot < 20 then 20 else if slot < 50 then 60 else 120)"

definition getTimeout :: "nat \<Rightarrow> int" where
  "getTimeout slot = uint (getWaitTime slot) + 15"

definition cleanupList :: "int \<Rightarrow> wait_list \<Rightarrow> wait_list" where
  "cleanupList time xs = filter (\<lambda>(t, g). \<not> t \<le> time) xs"

definition update_list :: "bool \<Rightarrow> (wait_list \<Rightarrow> wait_list) \<Rightarrow> wait_lists \<Rightarrow> wait_lists" where
  "update_list priority f q =
     (if priority then q\<lparr>priorityWaitList := f (priorityWaitList q)\<rparr> else q\<lparr>waitList := f (waitList q)\<rparr>)"

text \<open>The slot, zero for direct access, and the lists afterwards.\<close>

definition clientLogin :: "int \<Rightarrow> u32 \<Rightarrow> nat \<Rightarrow> login_player \<Rightarrow> wait_lists \<Rightarrow> nat \<times> wait_lists" where
  "clientLogin time maxPlayers playersOnline player q =
     (if canAlwaysLogin player \<or> accountType player \<ge> ACCOUNT_TYPE_GAMEMASTER then (0, q)
      else
        let q = \<lparr>priorityWaitList = cleanupList time (priorityWaitList q), waitList = cleanupList time (waitList q)\<rparr>
        in if maxPlayers = 0 \<or> (priorityWaitList q = [] \<and> waitList q = [] \<and> playersOnline < unat maxPlayers)
           then (0, q)
           else case findClient (guid player) q of
             (priority, Some i, currentSlot) \<Rightarrow>
               if playersOnline + currentSlot \<le> unat maxPlayers
               then (0, update_list priority (\<lambda>xs. take i xs @ drop (Suc i) xs) q)
               else (currentSlot, update_list priority
                      (\<lambda>xs. xs[i := (fst (xs ! i), word_of_int (time + getTimeout currentSlot * 1000))]) q)
           | (_, None, _) \<Rightarrow>
               if isPremium player
               then let currentSlot = length (priorityWaitList q) + 1
                    in (currentSlot, update_list True (\<lambda>xs. xs @ [(time + getTimeout currentSlot * 1000, guid player)]) q)
               else let currentSlot = length (priorityWaitList q) + length (waitList q) + 1
                    in (currentSlot, update_list False (\<lambda>xs. xs @ [(time + getTimeout currentSlot * 1000, guid player)]) q))"

section \<open>The gate\<close>

text \<open>
  What \<open>login\<close> finds: the player of that name in the game, if any, and whether a client plays him; the
  settings; the data of the player, when they can be loaded; and the answers of the map.
\<close>

record login_env =
  foundPlayer :: "bool option"
  le_gameState :: game_state
  allowClones :: bool
  replaceKickOnLogin :: bool
  onePlayerOnAccount :: bool
  preloadPlayer :: "login_player option"
  isPlayerNamelocked :: "u32 \<Rightarrow> bool"
  accountOnline :: bool
  isAccountBanned :: "ban_info option"
  loadPlayerById :: bool
  placedAtLogin :: bool
  placedAtTemple :: bool
  maxPlayers :: u32
  playersOnline :: nat

datatype login_outcome =
    LoginRefused refusal
  | OnWaitingList nat byte
  | Entered
  | KickedFirst
  | ConnectedAgain

definition ban_refusal :: "ban_info \<Rightarrow> refusal" where
  "ban_refusal b = (if expiresAt b > 0 then BannedUntil (with_reason b) else BannedForever (with_reason b))"

definition login :: "int \<Rightarrow> login_env \<Rightarrow> bool \<Rightarrow> wait_lists \<Rightarrow> login_outcome \<times> wait_lists" where
  "login time e eventConnect q =
     (if foundPlayer e = None \<or> allowClones e then
        (case preloadPlayer e of
           None \<Rightarrow> (LoginRefused (Told ''Your character could not be loaded.''), q)
         | Some player \<Rightarrow>
             if isPlayerNamelocked e (guid player)
             then (LoginRefused (Told ''Your character has been namelocked.''), q)
             else if le_gameState e = GAME_STATE_CLOSING \<and> \<not> canAlwaysLogin player
             then (LoginRefused (Told (''The game is just going down.'' @ [CHR 0x0A] @ ''Please try again later.'')), q)
             else if le_gameState e = GAME_STATE_CLOSED \<and> \<not> canAlwaysLogin player
             then (LoginRefused (Told (''Server is currently closed.'' @ [CHR 0x0A] @ ''Please try again later.'')), q)
             else if onePlayerOnAccount e \<and> accountType player < ACCOUNT_TYPE_GAMEMASTER \<and> accountOnline e
             then (LoginRefused (Told (''You may only login with one character'' @ [CHR 0x0A] @
                     ''of your account at the same time.'')), q)
             else if \<not> cannotBeBanned player \<and> isAccountBanned e \<noteq> None
             then (LoginRefused (ban_refusal (the (isAccountBanned e))), q)
             else case clientLogin time (maxPlayers e) (playersOnline e) player q of
               (currentSlot, q) \<Rightarrow>
                 if currentSlot \<noteq> 0 then (OnWaitingList currentSlot (getWaitTime currentSlot), q)
                 else if \<not> loadPlayerById e then (LoginRefused (Told ''Your character could not be loaded.''), q)
                 else if \<not> placedAtLogin e \<and> \<not> placedAtTemple e
                 then (LoginRefused (Told ''Temple position is wrong. Contact the administrator.''), q)
                 else (Entered, q))
      else if eventConnect \<or> \<not> replaceKickOnLogin e
      then (LoginRefused (Told ''You are already logged in.''), q)
      else if foundPlayer e = Some True then (KickedFirst, q) else (ConnectedAgain, q))"


section \<open>Reading the first message\<close>

definition reads :: "'a parser \<Rightarrow> wire list \<Rightarrow> 'a \<Rightarrow> wire list \<Rightarrow> bool" where
  "reads p ws v ws' \<longleftrightarrow> (\<forall>m. holds ws m \<longrightarrow> (\<exists>m'. run_state p m = (v, m') \<and> holds ws' m'))"

lemma reads_bind: "reads g ws x ws' \<Longrightarrow> reads (f x) ws' v ws'' \<Longrightarrow> reads (g \<bind> f) ws v ws''"
  by (fastforce simp: reads_def)

lemma holds_skip1: "holds (W8 b # ws) m \<Longrightarrow> \<exists>m'. run_state (read_skip 1) m = ((), m') \<and> holds ws m'"
  using holds_Cons(2) [of "W8 b" ws m] by (auto simp: read_skip_def skipBytes_def advance_def)

lemma reads_one:
  "reads read_byte (W8 b # ws) b ws" "reads read_u32 (W32 d # ws) d ws" "reads read_string (WString t # ws) t ws"
  "reads (read_skip 1) (W8 b # ws) () ws" "reads (State_Monad.return v) ws v ws"
  unfolding reads_def using holds_read(1,3,4) holds_skip1 by fastforce+

lemma reads_key: "reads read_key (W32 k0 # W32 k1 # W32 k2 # W32 k3 # ws) [k0, k1, k2, k3] ws"
  unfolding read_key_def by (intro reads_bind [OF reads_one(2)] reads_one(5))

lemma reads_credentials:
  "reads read_credentials (W8 gm # WString a # WString c # WString p # W32 t # W8 r # ws) (a, c, p, t, r) ws"
  unfolding read_credentials_def
  by (intro reads_bind [OF reads_one(1)] reads_bind [OF reads_one(2)] reads_bind [OF reads_one(3)]
      reads_bind [OF reads_one(4)] reads_one(5))

text \<open>What the client encrypts: its key, a flag, the names, the password and the challenge.\<close>

definition first_wires :: "u32 \<times> u32 \<times> u32 \<times> u32 \<Rightarrow> byte \<Rightarrow> credentials \<Rightarrow> wire list" where
  "first_wires k gm cr = (case (k, cr) of ((k0, k1, k2, k3), (a, c, p, t, r)) \<Rightarrow>
     [W32 k0, W32 k1, W32 k2, W32 k3, W8 gm, WString a, WString c, WString p, W32 t, W8 r])"

lemma RSA_decrypt_block:
  assumes "unat (msg_position m) + 128 = unat (msg_length m)" "length (msg_buffer m) = NETWORKMESSAGE_MAXSIZE"
    "unat (msg_length m) < NETWORKMESSAGE_MAXSIZE" "\<not> msg_overrun m"
    "rsa (slice (unat (msg_position m)) 128 (msg_buffer m)) = 0 # wires_image ws @ padding"
    "length (wires_image ws @ padding) = 127" "list_all wire_valid ws"
  shows "\<exists>m'. RSA_decrypt rsa m = (True, m') \<and> holds ws m'"
proof -
  let ?p = "unat (msg_position m)" and ?block = "0 # wires_image ws @ padding"
  let ?m = "m\<lparr>msg_buffer := blit ?p ?block (msg_buffer m)\<rparr>"
  have len: "length ?block = 128" using assms(6) by simp
  have fits: "?p + length ?block \<le> length (msg_buffer m)" using assms(1-3) len by linarith
  have buf: "slice ?p 128 (msg_buffer ?m) = ?block"
    using slice_blit_same [OF fits] len by simp
  have "available 1 ?m" using assms(1,3) by (simp add: available_def)
  moreover have "slice ?p 1 (msg_buffer ?m) = [0]"
    using slice_split [of ?p "[0]" "wires_image ws @ padding" "msg_buffer ?m"] buf assms(6) by simp
  ultimately have byte: "getByte ?m = (0, advance 1 ?m)"
    using getByte_image [of ?m 0] fits assms(2) by (simp add: wf_message_def)
  have pos: "unat (msg_position (advance 1 ?m)) = ?p + 1"
    using available_position [of 1 ?m] \<open>available 1 ?m\<close> by (simp add: advance_def)
  have "slice (?p + 1) (length (wires_image ws)) (msg_buffer ?m) = wires_image ws"
    using slice_split [of "?p + 1" "wires_image ws" padding "msg_buffer ?m"]
      slice_split [of ?p "[0]" "wires_image ws @ padding" "msg_buffer ?m"] buf assms(6) by simp
  then have "holds ws (advance 1 ?m)"
    using pos assms(1,3,4,6,7) by (simp add: holds_def available_def) (simp add: advance_def)
  moreover have "uint (msg_length m) - uint (msg_position m) = 128"
    using assms(1) unfolding uint_nat by linarith
  ultimately show ?thesis
    using byte assms(5) by (simp add: RSA_decrypt_def Let_def)
qed


text \<open>
  C31: The handshake. When the bytes of a first message, after the operating system and the version, are
  a block of 128 that the key of the server decrypts to a zero byte, the client's XTEA key, its names,
  its password and its answer to the challenge (with any padding), the server sets that key, and its
  verdict is the one on exactly those values: nothing is lost or misread on the way. And a login only
  follows when the answer is the challenge of this connection, the version is 8.60, the address is not
  banned and the account is known, so that a message recorded on another connection is of no use.
\<close>

theorem first_message_handshake:
  assumes "holds [W16 os, W16 v] m" "unat (msg_position m) + 132 = unat (msg_length m)"
    "length (msg_buffer m) = NETWORKMESSAGE_MAXSIZE" "unat (msg_length m) < NETWORKMESSAGE_MAXSIZE"
    "rsa (slice (unat (msg_position m) + 4) 128 (msg_buffer m)) =
      0 # wires_image (first_wires (k0, k1, k2, k3) gm (a, c, p, t, r)) @ padding"
    "length (wires_image (first_wires (k0, k1, k2, k3) gm (a, c, p, t, r)) @ padding) = 127"
    "list_all wire_valid [WString a, WString c, WString p]" "fe_gameState e \<noteq> GAME_STATE_SHUTDOWN"
  shows "\<exists>s'. onRecvFirstMessage rsa e s m = (first_verdict e s' (a, c, p, t, r) (ucast os), s') \<and>
      proto_key (fs_protocol s') = expand_key [k0, k1, k2, k3] \<and> encryptionEnabled (fs_protocol s') \<and>
      version s' = v \<and> challengeTimestamp s' = challengeTimestamp s \<and> challengeRandom s' = challengeRandom s \<and>
      (first_verdict e s' (a, c, p, t, r) (ucast os) = LoginTask name account os' \<longrightarrow>
         t = challengeTimestamp s \<and> r = challengeRandom s \<and> v = 860 \<and> ipBan e = None \<and> name = c \<and>
         os' = ucast os \<and> account = gameworldAuthentication e a p c \<and> account \<noteq> 0)"
proof -
  let ?ws = "first_wires (k0, k1, k2, k3) gm (a, c, p, t, r)"
  have holds2: "holds [W16 v] (advance 2 m)" and get1: "get_u16 m = (os, advance 2 m)"
    using holds_Cons [OF assms(1)] by (simp_all add: apfst_def map_prod_def split: prod.splits)
  have holds4: "holds [] (advance 4 m)" and get2: "get_u16 (advance 2 m) = (v, advance 4 m)"
    using holds_Cons [OF holds2] by (simp_all add: apfst_def map_prod_def advance_advance split: prod.splits)
  have "available 4 m" using assms(2,4) by (simp add: available_def)
  then have pos: "unat (msg_position (advance 4 m)) = unat (msg_position m) + 4"
    using available_position [of 4 m] by (simp add: advance_def)
  have "\<exists>m'. RSA_decrypt rsa (advance 4 m) = (True, m') \<and> holds ?ws m'"
  proof (rule RSA_decrypt_block)
    show "unat (msg_position (advance 4 m)) + 128 = unat (msg_length (advance 4 m))"
      using pos assms(2) by (simp add: advance_def)
    show "rsa (slice (unat (msg_position (advance 4 m))) 128 (msg_buffer (advance 4 m))) = 0 # wires_image ?ws @ padding"
      unfolding pos using assms(5) by (simp add: advance_def)
    show "list_all wire_valid ?ws" using assms(7) by (simp add: first_wires_def)
  qed (use assms holds_end [OF holds4] in \<open>simp_all add: advance_def\<close>)
  then obtain m4 where m4: "RSA_decrypt rsa (advance 4 m) = (True, m4)" "holds ?ws m4" by blast
  then obtain m5 where m5: "run_state read_key m4 = ([k0, k1, k2, k3], m5)"
    "holds [W8 gm, WString a, WString c, WString p, W32 t, W8 r] m5"
    using reads_key [of k0 k1 k2 k3 "[W8 gm, WString a, WString c, WString p, W32 t, W8 r]"]
    unfolding reads_def first_wires_def prod.case by blast
  then obtain m6 where "run_state read_credentials m5 = ((a, c, p, t, r), m6)"
    using reads_credentials [of gm a c p t r "[]"] unfolding reads_def by blast
  then show ?thesis
    using assms(8) get1 get2 m4(1) m5(1)
    by (auto simp: onRecvFirstMessage_def first_verdict_def Let_def CLIENT_VERSION_MIN_def CLIENT_VERSION_MAX_def
        split: if_splits option.splits)
qed

definition demo_message :: network_message where
  "demo_message = \<lparr>msg_length = 143, msg_position = 11, msg_overrun = False,
     msg_buffer = replicate 11 0 @ wires_image [W16 2, W16 860] @
       (0 # wires_image (first_wires (1, 2, 3, 4) 0 ([65], [66], [67], 77, 9)) @ replicate 96 0) @ replicate 24447 0\<rparr>"

definition demo_env :: first_env where
  "demo_env = \<lparr>fe_gameState = GAME_STATE_NORMAL, ipBan = None,
     gameworldAuthentication = (\<lambda>a p c. if p = [67] then 5 else 0)\<rparr>"

definition demo_session :: first_session where
  "demo_session = \<lparr>challengeTimestamp = 77, challengeRandom = 9, version = 0,
     fs_protocol = \<lparr>proto_key = [], encryptionEnabled = False, checksumEnabled = True, rawMessages = False\<rparr>,
     opcodesAnnounced = False\<rparr>"

theorem first_message_handshake_witness:
  "\<exists>s'. onRecvFirstMessage id demo_env demo_session demo_message = (LoginTask [66] 5 2, s')"
proof -
  let ?ws = "first_wires (1, 2, 3, 4) 0 ([65], [66], [67], 77, 9)"
  have len: "length (wires_image ?ws @ replicate 96 0) = 127" "length (wires_image ?ws) = 31"
    by (simp_all add: first_wires_def wires_image_def string_image_def)
  have two: "length (wires_image [W16 2, W16 860]) = 4" by (simp add: wires_image_def)
  have block: "id (slice (unat (msg_position demo_message) + 4) 128 (msg_buffer demo_message)) =
      0 # wires_image ?ws @ replicate 96 0"
    using len two by (simp add: demo_message_def slice_def)
  have front: "holds [W16 2, W16 860] demo_message"
    using two by (simp add: holds_def demo_message_def available_def net_consts slice_def)
  have rest: "unat (msg_position demo_message) + 132 = unat (msg_length demo_message)"
    "length (msg_buffer demo_message) = NETWORKMESSAGE_MAXSIZE" "unat (msg_length demo_message) < NETWORKMESSAGE_MAXSIZE"
    using len two by (simp_all add: demo_message_def NETWORKMESSAGE_MAXSIZE_def)
  obtain s' where "onRecvFirstMessage id demo_env demo_session demo_message =
      (first_verdict demo_env s' ([65], [66], [67], 77, 9) (ucast (2 :: u16)), s')"
    "version s' = 860" "challengeTimestamp s' = 77" "challengeRandom s' = 9"
    using first_message_handshake [where rsa = id, OF front rest block len(1), of demo_env demo_session "[]" 0 0]
    by (auto simp: demo_env_def demo_session_def)
  then show ?thesis
    by (simp add: first_verdict_def demo_env_def CLIENT_VERSION_MIN_def CLIENT_VERSION_MAX_def)
qed

section \<open>The waiting lists do not lock anybody out\<close>

inductive queue_reachable :: "int \<Rightarrow> wait_lists \<Rightarrow> bool" where
  start: "queue_reachable time \<lparr>priorityWaitList = [], waitList = []\<rparr>"
| attempt: "\<lbrakk>queue_reachable time q; time \<le> time'\<rbrakk> \<Longrightarrow> queue_reachable time' (snd (clientLogin time' m n player q))"

definition times_until :: "int \<Rightarrow> wait_lists \<Rightarrow> bool" where
  "times_until t q \<longleftrightarrow> list_all (\<lambda>e. fst e \<le> t) (priorityWaitList q) \<and> list_all (\<lambda>e. fst e \<le> t) (waitList q)"

lemma getTimeout_bounds: "20 \<le> getTimeout slot" "getTimeout slot \<le> 135"
  by (simp_all add: getTimeout_def getWaitTime_def)

lemma times_until_cleanup:
  "times_until t q \<Longrightarrow> times_until t \<lparr>priorityWaitList = cleanupList now (priorityWaitList q), waitList = cleanupList now (waitList q)\<rparr>"
  by (auto simp: times_until_def cleanupList_def list_all_iff)

lemma times_until_update:
  assumes "times_until t q" "\<And>xs. list_all (\<lambda>e. fst e \<le> t) xs \<Longrightarrow> list_all (\<lambda>e. fst e \<le> t) (f xs)"
  shows "times_until t (update_list b f q)"
  using assms by (simp add: times_until_def update_list_def)

lemma times_until_login:
  assumes "times_until (now + 135000) q"
  shows "times_until (now + 135000) (snd (clientLogin now m n player q))"
proof -
  have "list_all (\<lambda>e. fst e \<le> t) (take i xs @ drop (Suc i) xs)" if "list_all (\<lambda>e. fst e \<le> t) xs" for i t and xs :: wait_list
    using that by (auto simp: list_all_iff dest: in_set_takeD in_set_dropD)
  moreover have "list_all (\<lambda>e. fst e \<le> t) (xs[i := (fst (xs ! i), g)])" if "list_all (\<lambda>e. fst e \<le> t) xs" for i t g and xs :: wait_list
    using that by (cases "i < length xs") (auto simp: list_all_length nth_list_update)
  ultimately show ?thesis
    unfolding clientLogin_def
    by (auto simp: Let_def assms times_until_cleanup getTimeout_bounds split: prod.split option.split intro!: times_until_update)
qed

lemma queue_times: "queue_reachable time q \<Longrightarrow> times_until (time + 135000) q"
proof (induction rule: queue_reachable.induct)
  case (attempt time q time' m n player)
  then have "times_until (time' + 135000) q" by (auto simp: times_until_def list_all_iff)
  then show ?case by (rule times_until_login)
qed (simp add: times_until_def)

lemma cleanup_all: "list_all (\<lambda>e. fst e \<le> t) xs \<Longrightarrow> t \<le> now \<Longrightarrow> cleanupList now xs = []"
  by (auto simp: cleanupList_def filter_empty_conv list_all_iff)


definition traveller :: "u32 \<Rightarrow> login_player" where
  "traveller g = \<lparr>guid = g, canAlwaysLogin = False, cannotBeBanned = False, accountType = 1, isPremium = False\<rparr>"


section \<open>Admission\<close>

lemma find_guid_less: "find_guid g xs = Some i \<Longrightarrow> i < length xs"
  by (induction xs arbitrary: i) (auto split: if_splits)

lemma slot_positive: "findClient g q = (b, Some i, slot) \<Longrightarrow> 2 \<le> slot"
  by (auto simp: findClient_def split: option.splits dest: find_guid_less)

lemma clientLogin_admits:
  assumes "clientLogin time m n player q = (0, q')"
  shows "canAlwaysLogin player \<or> ACCOUNT_TYPE_GAMEMASTER \<le> accountType player \<or> m = 0 \<or> n < unat m"
proof -
  have "n < unat m" if "findClient g q0 = (b, Some i, slot)" "n + slot \<le> unat m" for g q0 b i slot
    using slot_positive [OF that(1)] that(2) by linarith
  moreover have "slot \<noteq> 0" if "findClient g q0 = (b, Some i, slot)" for g q0 b i slot
    using slot_positive [OF that] by linarith
  ultimately show ?thesis
    using assms unfolding clientLogin_def Let_def
    by (auto split: if_splits prod.splits option.splits dest: slot_positive)
qed


text \<open>
  C33: Who gets in. When \<open>login\<close> lets a new player in, his data could be loaded and a place was found
  for him, he is not namelocked, and unless he has the flag for it his account is not banned and the
  game is neither closed nor closing; and unless he may always log in, is a gamemaster or there is no
  limit, fewer players than the limit were in the game, so that the limit is never passed.
\<close>

theorem admission_gate:
  assumes "login time e eventConnect q = (Entered, q')"
  shows "\<exists>player. preloadPlayer e = Some player \<and> loadPlayerById e \<and> (placedAtLogin e \<or> placedAtTemple e) \<and>
    \<not> isPlayerNamelocked e (guid player) \<and> (cannotBeBanned player \<or> isAccountBanned e = None) \<and>
    (canAlwaysLogin player \<or> le_gameState e \<notin> {GAME_STATE_CLOSING, GAME_STATE_CLOSED}) \<and>
    (onePlayerOnAccount e \<longrightarrow> ACCOUNT_TYPE_GAMEMASTER \<le> accountType player \<or> \<not> accountOnline e) \<and>
    (canAlwaysLogin player \<or> ACCOUNT_TYPE_GAMEMASTER \<le> accountType player \<or> maxPlayers e = 0 \<or>
     playersOnline e + 1 \<le> unat (maxPlayers e))"
proof -
  obtain player where p: "preloadPlayer e = Some player"
    using assms by (cases "preloadPlayer e") (auto simp: login_def split: if_splits)
  obtain slot q1 where c: "clientLogin time (maxPlayers e) (playersOnline e) player q = (slot, q1)"
    by (cases "clientLogin time (maxPlayers e) (playersOnline e) player q")
  have "slot = 0" and rest: "loadPlayerById e \<and> (placedAtLogin e \<or> placedAtTemple e) \<and>
    \<not> isPlayerNamelocked e (guid player) \<and> (cannotBeBanned player \<or> isAccountBanned e = None) \<and>
    (canAlwaysLogin player \<or> le_gameState e \<notin> {GAME_STATE_CLOSING, GAME_STATE_CLOSED}) \<and>
    (onePlayerOnAccount e \<longrightarrow> ACCOUNT_TYPE_GAMEMASTER \<le> accountType player \<or> \<not> accountOnline e)"
    using assms by (auto simp: login_def p c split: if_splits)
  then show ?thesis
    using p clientLogin_admits c by fastforce
qed

definition arriving :: "login_player \<Rightarrow> nat \<Rightarrow> login_env" where
  "arriving p n = \<lparr>foundPlayer = None, le_gameState = GAME_STATE_NORMAL, allowClones = False, replaceKickOnLogin = True,
     onePlayerOnAccount = True, preloadPlayer = Some p, isPlayerNamelocked = (\<lambda>_. False), accountOnline = False,
     isAccountBanned = None, loadPlayerById = True, placedAtLogin = True, placedAtTemple = True, maxPlayers = 100,
     playersOnline = n\<rparr>"

theorem admission_gate_witness:
  "login 0 (arriving (traveller 7) 99) False \<lparr>priorityWaitList = [], waitList = []\<rparr> =
     (Entered, \<lparr>priorityWaitList = [], waitList = []\<rparr>) \<and>
   (canAlwaysLogin (traveller 7) \<or> ACCOUNT_TYPE_GAMEMASTER \<le> accountType (traveller 7) \<or>
    playersOnline (arriving (traveller 7) 99) + 1 \<le> 100)"
proof -
  have "login 0 (arriving (traveller 7) 99) False \<lparr>priorityWaitList = [], waitList = []\<rparr> =
     (Entered, \<lparr>priorityWaitList = [], waitList = []\<rparr>)"
    by (simp add: login_def arriving_def traveller_def clientLogin_def cleanupList_def)
  then show ?thesis
    using admission_gate [of 0 "arriving (traveller 7) 99" False] by (simp add: arriving_def)
qed

section \<open>Two flaws of the waiting list\<close>

text \<open>
  The time is written over the guid, not over the time of the entry: a player who tries again while
  the server is full is not known the next time and goes to the end of the list again.
\<close>

lemma retry_forgets_player:
  "let (first, q) = clientLogin 0 1 1 (traveller 7) \<lparr>priorityWaitList = [], waitList = []\<rparr>;
       (second, q) = clientLogin 5000 1 1 (traveller 7) q;
       (third, q) = clientLogin 10000 1 1 (traveller 7) q
   in (first, second, third) = (1, 2, 2) \<and> waitList q = [(20000, 25000), (30000, 7)]"
  by code_simp

text \<open>The slot is counted from the end of the list: who came last is let in first.\<close>

lemma last_comer_first:
  "findClient 1 \<lparr>priorityWaitList = [], waitList = [(t, 1), (t, 2), (t, 3)]\<rparr> = (False, Some 0, 4)"
  "findClient 3 \<lparr>priorityWaitList = [], waitList = [(t, 1), (t, 2), (t, 3)]\<rparr> = (False, Some 2, 2)"
  by (simp_all add: findClient_def)

end
