(* ===== verification/Tiles.thy ===== *)
theory Tiles
  imports Containers
begin

text \<open>
  Tiles, \<open>src/src/tile.cpp\<close> and \<open>tile.h\<close>: the ground, the vector of items with the items that lie on
  the ground in front and those that are always on top behind, the creatures, and the flags that sum
  the items up. Items are addresses of the store of \<open>Containers\<close>, whose class is given by \<open>cls\<close>; a
  tile is the address \<open>k\<close> of what is no container. An item list that was not made yet is empty.
  Messages to the players who look on, events of scripts and the list of tiles to clean are left out.
\<close>

section \<open>Flags\<close>

definition TILESTATE_FLOORCHANGE_DOWN :: u32 where "TILESTATE_FLOORCHANGE_DOWN = push_bit 0 1"
definition TILESTATE_FLOORCHANGE_NORTH :: u32 where "TILESTATE_FLOORCHANGE_NORTH = push_bit 1 1"
definition TILESTATE_FLOORCHANGE_SOUTH :: u32 where "TILESTATE_FLOORCHANGE_SOUTH = push_bit 2 1"
definition TILESTATE_FLOORCHANGE_EAST :: u32 where "TILESTATE_FLOORCHANGE_EAST = push_bit 3 1"
definition TILESTATE_FLOORCHANGE_WEST :: u32 where "TILESTATE_FLOORCHANGE_WEST = push_bit 4 1"
definition TILESTATE_FLOORCHANGE_SOUTH_ALT :: u32 where "TILESTATE_FLOORCHANGE_SOUTH_ALT = push_bit 5 1"
definition TILESTATE_FLOORCHANGE_EAST_ALT :: u32 where "TILESTATE_FLOORCHANGE_EAST_ALT = push_bit 6 1"
definition TILESTATE_PROTECTIONZONE :: u32 where "TILESTATE_PROTECTIONZONE = push_bit 7 1"
definition TILESTATE_NOPVPZONE :: u32 where "TILESTATE_NOPVPZONE = push_bit 8 1"
definition TILESTATE_NOLOGOUT :: u32 where "TILESTATE_NOLOGOUT = push_bit 9 1"
definition TILESTATE_PVPZONE :: u32 where "TILESTATE_PVPZONE = push_bit 10 1"
definition TILESTATE_TELEPORT :: u32 where "TILESTATE_TELEPORT = push_bit 11 1"
definition TILESTATE_MAGICFIELD :: u32 where "TILESTATE_MAGICFIELD = push_bit 12 1"
definition TILESTATE_MAILBOX :: u32 where "TILESTATE_MAILBOX = push_bit 13 1"
definition TILESTATE_TRASHHOLDER :: u32 where "TILESTATE_TRASHHOLDER = push_bit 14 1"
definition TILESTATE_BED :: u32 where "TILESTATE_BED = push_bit 15 1"
definition TILESTATE_DEPOT :: u32 where "TILESTATE_DEPOT = push_bit 16 1"
definition TILESTATE_BLOCKSOLID :: u32 where "TILESTATE_BLOCKSOLID = push_bit 17 1"
definition TILESTATE_BLOCKPATH :: u32 where "TILESTATE_BLOCKPATH = push_bit 18 1"
definition TILESTATE_IMMOVABLEBLOCKSOLID :: u32 where "TILESTATE_IMMOVABLEBLOCKSOLID = push_bit 19 1"
definition TILESTATE_IMMOVABLEBLOCKPATH :: u32 where "TILESTATE_IMMOVABLEBLOCKPATH = push_bit 20 1"
definition TILESTATE_IMMOVABLENOFIELDBLOCKPATH :: u32 where "TILESTATE_IMMOVABLENOFIELDBLOCKPATH = push_bit 21 1"
definition TILESTATE_NOFIELDBLOCKPATH :: u32 where "TILESTATE_NOFIELDBLOCKPATH = push_bit 22 1"
definition TILESTATE_SUPPORTS_HANGABLE :: u32 where "TILESTATE_SUPPORTS_HANGABLE = push_bit 23 1"

definition TILESTATE_FLOORCHANGE :: u32 where
  "TILESTATE_FLOORCHANGE = TILESTATE_FLOORCHANGE_DOWN OR TILESTATE_FLOORCHANGE_NORTH OR TILESTATE_FLOORCHANGE_SOUTH
     OR TILESTATE_FLOORCHANGE_EAST OR TILESTATE_FLOORCHANGE_WEST OR TILESTATE_FLOORCHANGE_SOUTH_ALT
     OR TILESTATE_FLOORCHANGE_EAST_ALT"

lemmas floorchange_defs = TILESTATE_FLOORCHANGE_DOWN_def TILESTATE_FLOORCHANGE_NORTH_def TILESTATE_FLOORCHANGE_SOUTH_def
  TILESTATE_FLOORCHANGE_EAST_def TILESTATE_FLOORCHANGE_WEST_def TILESTATE_FLOORCHANGE_SOUTH_ALT_def
  TILESTATE_FLOORCHANGE_EAST_ALT_def TILESTATE_FLOORCHANGE_def

lemmas tilestate_defs = floorchange_defs TILESTATE_PROTECTIONZONE_def TILESTATE_NOPVPZONE_def TILESTATE_NOLOGOUT_def
  TILESTATE_PVPZONE_def TILESTATE_TELEPORT_def TILESTATE_MAGICFIELD_def TILESTATE_MAILBOX_def TILESTATE_TRASHHOLDER_def
  TILESTATE_BED_def TILESTATE_DEPOT_def TILESTATE_BLOCKSOLID_def TILESTATE_BLOCKPATH_def
  TILESTATE_IMMOVABLEBLOCKSOLID_def TILESTATE_IMMOVABLEBLOCKPATH_def TILESTATE_IMMOVABLENOFIELDBLOCKPATH_def
  TILESTATE_NOFIELDBLOCKPATH_def TILESTATE_SUPPORTS_HANGABLE_def

section \<open>The tile\<close>

record tile =
  t_ground :: "nat option"
  t_items :: "nat list"
  downItemCount :: u16
  t_creatures :: "nat list"
  t_flags :: u32
  tilePos :: "u16 \<times> u16 \<times> byte"

datatype tile_thing = TileItem nat | TileCreature nat

type_synonym class_map = "nat \<Rightarrow> item_class"

definition hasFlag :: "u32 \<Rightarrow> tile \<Rightarrow> bool" where "hasFlag flag t = hasBitSet flag (t_flags t)"
definition setFlag :: "u32 \<Rightarrow> tile \<Rightarrow> tile" where "setFlag flag t = t\<lparr>t_flags := t_flags t OR flag\<rparr>"
definition resetFlag :: "u32 \<Rightarrow> tile \<Rightarrow> tile" where "resetFlag flag t = t\<lparr>t_flags := t_flags t AND NOT flag\<rparr>"

datatype zone = ZONE_PROTECTION | ZONE_NOPVP | ZONE_PVP | ZONE_NOLOGOUT | ZONE_NORMAL

definition getZone :: "tile \<Rightarrow> zone" where
  "getZone t = (if hasFlag TILESTATE_PROTECTIONZONE t then ZONE_PROTECTION
     else if hasFlag TILESTATE_NOPVPZONE t then ZONE_NOPVP
     else if hasFlag TILESTATE_PVPZONE t then ZONE_PVP else ZONE_NORMAL)"

definition down_items :: "tile \<Rightarrow> nat list" where "down_items t = take (unat (downItemCount t)) (t_items t)"
definition top_items :: "tile \<Rightarrow> nat list" where "top_items t = drop (unat (downItemCount t)) (t_items t)"

definition addDownItemCount :: "int \<Rightarrow> tile \<Rightarrow> tile" where
  "addDownItemCount n t = t\<lparr>downItemCount := downItemCount t + word_of_int n\<rparr>"

definition getCreatureCount :: "tile \<Rightarrow> nat" where "getCreatureCount t = length (t_creatures t)"
definition getItemCount :: "tile \<Rightarrow> nat" where "getItemCount t = length (t_items t)"
definition getTopItemCount :: "tile \<Rightarrow> nat" where "getTopItemCount t = length (t_items t) - unat (downItemCount t)"
definition getDownItemCount :: "tile \<Rightarrow> nat" where "getDownItemCount t = unat (downItemCount t)"

definition getThingCount :: "tile \<Rightarrow> nat" where
  "getThingCount t = getCreatureCount t + getItemCount t + (if t_ground t \<noteq> None then 1 else 0)"

definition tile_hasProperty :: "items_table \<Rightarrow> item_store \<Rightarrow> item_property \<Rightarrow> tile \<Rightarrow> bool" where
  "tile_hasProperty T s prop t \<longleftrightarrow>
     (case t_ground t of Some g \<Rightarrow> hasProperty T (s_item s g) prop | None \<Rightarrow> False) \<or>
     list_ex (\<lambda>i. hasProperty T (s_item s i) prop) (t_items t)"

definition tile_hasProperty_without :: "items_table \<Rightarrow> item_store \<Rightarrow> nat \<Rightarrow> item_property \<Rightarrow> tile \<Rightarrow> bool" where
  "tile_hasProperty_without T s exclude prop t \<longleftrightarrow>
     (case t_ground t of Some g \<Rightarrow> exclude \<noteq> g \<and> hasProperty T (s_item s g) prop | None \<Rightarrow> False) \<or>
     list_ex (\<lambda>i. i \<noteq> exclude \<and> hasProperty T (s_item s i) prop) (t_items t)"

fun height_loop :: "items_table \<Rightarrow> item_store \<Rightarrow> nat \<Rightarrow> nat \<Rightarrow> nat list \<Rightarrow> bool" where
  "height_loop T s n height [] = False"
| "height_loop T s n height (i # is) =
     (let height = (if hasProperty T (s_item s i) CONST_PROP_HASHEIGHT then height + 1 else height)
      in if n = height then True else height_loop T s n height is)"

definition hasHeight :: "items_table \<Rightarrow> item_store \<Rightarrow> nat \<Rightarrow> tile \<Rightarrow> bool" where
  "hasHeight T s n t = height_loop T s n 0 ((case t_ground t of Some g \<Rightarrow> [g] | None \<Rightarrow> []) @ t_items t)"

section \<open>What lies on it\<close>

text \<open>The item of a class that the flag promises; for all but the teleport the ground is asked first.\<close>

definition find_class :: "class_map \<Rightarrow> item_class \<Rightarrow> nat list \<Rightarrow> nat option" where
  "find_class cls c is = find (\<lambda>i. cls i = c) (rev is)"

definition find_flagged :: "class_map \<Rightarrow> u32 \<Rightarrow> item_class \<Rightarrow> tile \<Rightarrow> nat option" where
  "find_flagged cls flag c t =
     (if \<not> hasFlag flag t then None
      else case t_ground t of
             Some g \<Rightarrow> if cls g = c then Some g else find_class cls c (t_items t)
           | None \<Rightarrow> find_class cls c (t_items t))"

definition getTeleportItem :: "class_map \<Rightarrow> tile \<Rightarrow> nat option" where
  "getTeleportItem cls t = (if \<not> hasFlag TILESTATE_TELEPORT t then None else find_class cls TeleportItem (t_items t))"
definition getFieldItem :: "class_map \<Rightarrow> tile \<Rightarrow> nat option" where
  "getFieldItem cls = find_flagged cls TILESTATE_MAGICFIELD MagicFieldItem"
definition getTrashHolder :: "class_map \<Rightarrow> tile \<Rightarrow> nat option" where
  "getTrashHolder cls = find_flagged cls TILESTATE_TRASHHOLDER TrashHolderItem"
definition getMailbox :: "class_map \<Rightarrow> tile \<Rightarrow> nat option" where
  "getMailbox cls = find_flagged cls TILESTATE_MAILBOX MailboxItem"
definition getBedItem :: "class_map \<Rightarrow> tile \<Rightarrow> nat option" where
  "getBedItem cls = find_flagged cls TILESTATE_BED BedItem"

definition getTopCreature :: "tile \<Rightarrow> nat option" where
  "getTopCreature t = (case t_creatures t of [] \<Rightarrow> None | c # cs \<Rightarrow> Some c)"
definition getBottomCreature :: "tile \<Rightarrow> nat option" where
  "getBottomCreature t = (if t_creatures t = [] then None else Some (last (t_creatures t)))"

text \<open>\<open>sees\<close>: what the looking creature can see, or without one what is neither invisible nor a ghost.\<close>

definition getTopVisibleCreature :: "(nat \<Rightarrow> bool) \<Rightarrow> tile \<Rightarrow> nat option" where
  "getTopVisibleCreature sees t = find sees (t_creatures t)"
definition getBottomVisibleCreature :: "(nat \<Rightarrow> bool) \<Rightarrow> tile \<Rightarrow> nat option" where
  "getBottomVisibleCreature sees t = find sees (rev (t_creatures t))"

definition getTopDownItem :: "tile \<Rightarrow> nat option" where
  "getTopDownItem t = (if downItemCount t = 0 then None else Some (hd (t_items t)))"
definition getTopTopItem :: "tile \<Rightarrow> nat option" where
  "getTopTopItem t = (if getTopItemCount t = 0 then None else Some (last (t_items t)))"

definition getItemByTopOrder :: "items_table \<Rightarrow> item_store \<Rightarrow> byte \<Rightarrow> tile \<Rightarrow> nat option" where
  "getItemByTopOrder T s topOrder t =
     find (\<lambda>i. it_alwaysOnTopOrder (type_of T (s_item s i)) = topOrder) (rev (top_items t))"

definition getTopVisibleThing :: "items_table \<Rightarrow> item_store \<Rightarrow> (nat \<Rightarrow> bool) \<Rightarrow> tile \<Rightarrow> tile_thing option" where
  "getTopVisibleThing T s sees t =
     (case getTopVisibleCreature sees t of
        Some c \<Rightarrow> Some (TileCreature c)
      | None \<Rightarrow>
          let opaque = (\<lambda>i. \<not> it_lookThrough (type_of T (s_item s i)))
          in (case find opaque (down_items t) of
                Some i \<Rightarrow> Some (TileItem i)
              | None \<Rightarrow> (case find opaque (rev (top_items t)) of
                  Some i \<Rightarrow> Some (TileItem i)
                | None \<Rightarrow> map_option TileItem (t_ground t))))"

definition isMoveableBlocking :: "tile \<Rightarrow> bool" where
  "isMoveableBlocking t \<longleftrightarrow> t_ground t = None \<or> hasFlag TILESTATE_BLOCKSOLID t"

section \<open>The order of things\<close>

abbreviation is_top :: "items_table \<Rightarrow> item_store \<Rightarrow> nat \<Rightarrow> bool" where
  "is_top T s i \<equiv> it_alwaysOnTop (type_of T (s_item s i))"

abbreviation top_order :: "items_table \<Rightarrow> item_store \<Rightarrow> nat \<Rightarrow> byte" where
  "top_order T s i \<equiv> it_alwaysOnTopOrder (type_of T (s_item s i))"

definition tile_getThingIndex :: "items_table \<Rightarrow> item_store \<Rightarrow> tile_thing \<Rightarrow> tile \<Rightarrow> int" where
  "tile_getThingIndex T s x t =
     (if (case (x, t_ground t) of (TileItem i, Some g) \<Rightarrow> i = g | _ \<Rightarrow> False) then 0
      else
        let n = (if t_ground t \<noteq> None then 0 else -1 :: int);
            tops = int (getTopItemCount t);
            crs = int (length (t_creatures t))
        in case x of
             TileItem i \<Rightarrow>
               if is_top T s i then index_from (n + 1) (top_items t) i
               else index_from (n + tops + crs + 1) (down_items t) i
           | TileCreature c \<Rightarrow> index_from (n + tops + 1) (t_creatures t) c)"

definition tile_getThing :: "nat \<Rightarrow> tile \<Rightarrow> tile_thing option" where
  "tile_getThing index t =
     (if t_ground t \<noteq> None \<and> index = 0 then map_option TileItem (t_ground t)
      else
        let index = (if t_ground t \<noteq> None then index - 1 else index);
            topItemSize = getTopItemCount t
        in if index < topItemSize then Some (TileItem (t_items t ! (unat (downItemCount t) + index)))
           else
             let index = index - topItemSize
             in if index < length (t_creatures t) then Some (TileCreature (t_creatures t ! index))
                else
                  let index = index - length (t_creatures t)
                  in if index < unat (downItemCount t) then Some (TileItem (t_items t ! index)) else None)"

definition getUseItem :: "nat \<Rightarrow> tile \<Rightarrow> nat option" where
  "getUseItem index t =
     (if t_items t = [] then t_ground t
      else case tile_getThing index t of Some (TileItem i) \<Rightarrow> Some i | _ \<Rightarrow> None)"

fun seen_before :: "(nat \<Rightarrow> bool) \<Rightarrow> nat \<Rightarrow> int \<Rightarrow> nat list \<Rightarrow> int" where
  "seen_before sees creature n [] = -1"
| "seen_before sees creature n (c # cs) =
     (if c = creature then n else seen_before sees creature (if sees c then n + 1 else n) cs)"

definition getClientIndexOfCreature :: "(nat \<Rightarrow> bool) \<Rightarrow> nat \<Rightarrow> tile \<Rightarrow> int" where
  "getClientIndexOfCreature sees creature t =
     seen_before sees creature ((if t_ground t \<noteq> None then 1 else 0) + int (getTopItemCount t)) (rev (t_creatures t))"

fun stackpos_loop :: "nat \<Rightarrow> nat \<Rightarrow> nat list \<Rightarrow> nat option" where
  "stackpos_loop item n [] = None"
| "stackpos_loop item n (i # is) =
     (if i = item then Some n else if n + 1 \<ge> 10 then None else stackpos_loop item (n + 1) is)"

definition getStackposOfItem :: "items_table \<Rightarrow> item_store \<Rightarrow> (nat \<Rightarrow> bool) \<Rightarrow> nat \<Rightarrow> tile \<Rightarrow> int" where
  "getStackposOfItem T s sees item t =
     (if t_ground t = Some item then 0
      else
        let n = (if t_ground t \<noteq> None then 1 else 0);
            answer = (\<lambda>r. case r of Some p \<Rightarrow> int p | None \<Rightarrow> -1)
        in if is_top T s item then answer (stackpos_loop item n (top_items t))
           else
             let n = n + getTopItemCount t
             in if n \<ge> 10 then -1
                else
                  let m = n + length (filter sees (t_creatures t))
                  in if m \<ge> 10 then -1 else answer (stackpos_loop item m (down_items t)))"

definition tile_getItemTypeCount :: "items_table \<Rightarrow> item_store \<Rightarrow> tile \<Rightarrow> u16 \<Rightarrow> int \<Rightarrow> u32" where
  "tile_getItemTypeCount T s t itemId subType =
     fold (\<lambda>i n. if i_id (s_item s i) = itemId then n + word_of_nat (countByType T (s_item s i) subType) else n)
       ((case t_ground t of Some g \<Rightarrow> [g] | None \<Rightarrow> []) @ t_items t) 0"


section \<open>Flags of items\<close>

definition raise_if :: "bool \<Rightarrow> u32 \<Rightarrow> tile \<Rightarrow> tile" where
  "raise_if c flag t = (if c then setFlag flag t else t)"

definition lower_if :: "bool \<Rightarrow> u32 \<Rightarrow> tile \<Rightarrow> tile" where
  "lower_if c flag t = (if c then resetFlag flag t else t)"

definition setTileFlags :: "items_table \<Rightarrow> class_map \<Rightarrow> item_store \<Rightarrow> nat \<Rightarrow> tile \<Rightarrow> tile" where
  "setTileFlags T cls s i t =
     (let it = type_of T (s_item s i);
          has = hasProperty T (s_item s i);
          t = raise_if (\<not> hasFlag TILESTATE_FLOORCHANGE t \<and> it_floorChange it \<noteq> 0) (ucast (it_floorChange it)) t;
          t = raise_if (has CONST_PROP_IMMOVABLEBLOCKSOLID) TILESTATE_IMMOVABLEBLOCKSOLID t;
          t = raise_if (has CONST_PROP_BLOCKPATH) TILESTATE_BLOCKPATH t;
          t = raise_if (has CONST_PROP_NOFIELDBLOCKPATH) TILESTATE_NOFIELDBLOCKPATH t;
          t = raise_if (has CONST_PROP_IMMOVABLENOFIELDBLOCKPATH) TILESTATE_IMMOVABLENOFIELDBLOCKPATH t;
          t = raise_if (cls i = TeleportItem) TILESTATE_TELEPORT t;
          t = raise_if (cls i = MagicFieldItem) TILESTATE_MAGICFIELD t;
          t = raise_if (cls i = MailboxItem) TILESTATE_MAILBOX t;
          t = raise_if (cls i = TrashHolderItem) TILESTATE_TRASHHOLDER t;
          t = raise_if (has CONST_PROP_BLOCKSOLID) TILESTATE_BLOCKSOLID t;
          t = raise_if (cls i = BedItem) TILESTATE_BED t;
          t = raise_if (cls i = DepotLockerItem) TILESTATE_DEPOT t
      in raise_if (has CONST_PROP_SUPPORTHANGABLE) TILESTATE_SUPPORTS_HANGABLE t)"

definition resetTileFlags :: "items_table \<Rightarrow> class_map \<Rightarrow> item_store \<Rightarrow> nat \<Rightarrow> tile \<Rightarrow> tile" where
  "resetTileFlags T cls s i t =
     (let it = type_of T (s_item s i);
          has = hasProperty T (s_item s i);
          only = (\<lambda>prop t. has prop \<and> \<not> tile_hasProperty_without T s i prop t);
          t = lower_if (it_floorChange it \<noteq> 0) TILESTATE_FLOORCHANGE t;
          t = lower_if (only CONST_PROP_BLOCKSOLID t) TILESTATE_BLOCKSOLID t;
          t = lower_if (only CONST_PROP_IMMOVABLEBLOCKSOLID t) TILESTATE_IMMOVABLEBLOCKSOLID t;
          t = lower_if (only CONST_PROP_BLOCKPATH t) TILESTATE_BLOCKPATH t;
          t = lower_if (only CONST_PROP_NOFIELDBLOCKPATH t) TILESTATE_NOFIELDBLOCKPATH t;
          t = lower_if (only CONST_PROP_IMMOVABLEBLOCKPATH t) TILESTATE_IMMOVABLEBLOCKPATH t;
          t = lower_if (only CONST_PROP_IMMOVABLENOFIELDBLOCKPATH t) TILESTATE_IMMOVABLENOFIELDBLOCKPATH t;
          t = lower_if (cls i = TeleportItem) TILESTATE_TELEPORT t;
          t = lower_if (cls i = MagicFieldItem) TILESTATE_MAGICFIELD t;
          t = lower_if (cls i = MailboxItem) TILESTATE_MAILBOX t;
          t = lower_if (cls i = TrashHolderItem) TILESTATE_TRASHHOLDER t;
          t = lower_if (cls i = BedItem) TILESTATE_BED t;
          t = lower_if (cls i = DepotLockerItem) TILESTATE_DEPOT t
      in lower_if (has CONST_PROP_SUPPORTHANGABLE) TILESTATE_SUPPORTS_HANGABLE t)"

section \<open>Changes\<close>

text \<open>A tile and the store; \<open>k\<close> is the address of the tile.\<close>

type_synonym on_tile = "tile \<times> item_store"

definition set_list :: "nat list \<Rightarrow> tile \<Rightarrow> tile" where "set_list xs t = t\<lparr>t_items := xs\<rparr>"
definition set_ground :: "nat option \<Rightarrow> tile \<Rightarrow> tile" where "set_ground g t = t\<lparr>t_ground := g\<rparr>"

fun insert_before :: "('a \<Rightarrow> bool) \<Rightarrow> 'a \<Rightarrow> 'a list \<Rightarrow> 'a list" where
  "insert_before P x [] = [x]"
| "insert_before P x (y # ys) = (if P y then x # y # ys else y # insert_before P x ys)"

definition tile_removeThing ::
  "items_table \<Rightarrow> class_map \<Rightarrow> tile_thing \<Rightarrow> u32 \<Rightarrow> on_tile \<Rightarrow> on_tile" where
  "tile_removeThing T cls thing count ts =
     (case ts of (t, s) \<Rightarrow> case thing of
        TileCreature c \<Rightarrow> (t\<lparr>t_creatures := remove1 c (t_creatures t)\<rparr>, s)
      | TileItem item \<Rightarrow>
          if tile_getThingIndex T s (TileItem item) t = -1 then (t, s)
          else if t_ground t = Some item then
            (resetTileFlags T cls s item (set_ground None t), setParent None item s)
          else if is_top T s item then
            (if item \<notin> set (top_items t) then (t, s)
             else (resetTileFlags T cls s item (set_list (down_items t @ remove1 item (top_items t)) t),
                   setParent None item s))
          else if item \<notin> set (down_items t) then (t, s)
          else if it_stackable (type_of T (s_item s item)) \<and> count \<noteq> ucast (i_count (s_item s item)) then
            (t, set_item item
                  (setItemCount (word_of_int (max 0 (sint (ucast (i_count (s_item s item)) - count :: u32)))) (s_item s item)) s)
          else
            (resetTileFlags T cls s item
               (addDownItemCount (-1) (set_list (remove1 item (down_items t) @ top_items t) t)),
             setParent None item s))"

text \<open>An old splash, or an old magic field that may be replaced, goes first; \<open>None\<close> for a field that may not.\<close>

definition drop_splash :: "items_table \<Rightarrow> class_map \<Rightarrow> on_tile \<Rightarrow> on_tile" where
  "drop_splash T cls ts =
     (case ts of (t, s) \<Rightarrow>
        case find (\<lambda>i. isSplash (type_of T (s_item s i))) (top_items t) of
          None \<Rightarrow> (t, s)
        | Some old \<Rightarrow> apsnd (setParent None old) (tile_removeThing T cls (TileItem old) 1 (t, s)))"

definition drop_field :: "items_table \<Rightarrow> class_map \<Rightarrow> on_tile \<Rightarrow> on_tile option" where
  "drop_field T cls ts =
     (case ts of (t, s) \<Rightarrow>
        case find (\<lambda>i. cls i = MagicFieldItem) (down_items t) of
          None \<Rightarrow> Some (t, s)
        | Some old \<Rightarrow>
            if it_replaceable (type_of T (s_item s old))
            then Some (apsnd (setParent None old) (tile_removeThing T cls (TileItem old) 1 (t, s))) else None)"

definition tile_addThing :: "items_table \<Rightarrow> class_map \<Rightarrow> nat \<Rightarrow> tile_thing \<Rightarrow> on_tile \<Rightarrow> on_tile" where
  "tile_addThing T cls k thing ts =
     (case ts of (t, s) \<Rightarrow> case thing of
        TileCreature c \<Rightarrow> (t\<lparr>t_creatures := c # t_creatures t\<rparr>, s)
      | TileItem item \<Rightarrow>
          if length (t_items t) \<ge> 0xFFFF then (t, s)
          else
            let s = setParent (Some (Outside k)) item s;
                it = type_of T (s_item s item)
            in if isGroundTile it then
                 (case t_ground t of
                    None \<Rightarrow> (setTileFlags T cls s item (set_ground (Some item) t), s)
                  | Some old \<Rightarrow>
                      let s = setParent None old s
                      in (setTileFlags T cls s item (resetTileFlags T cls s old (set_ground (Some item) t)), s))
               else if it_alwaysOnTop it then
                 (let (t, s) = (if isSplash it then drop_splash T cls (t, s) else (t, s));
                      tops = insert_before (\<lambda>i. it_alwaysOnTopOrder it \<le> top_order T s i) item (top_items t)
                  in (setTileFlags T cls s item (set_list (down_items t @ tops) t), s))
               else
                 (case (if isMagicField it then drop_field T cls (t, s) else Some (t, s)) of
                    None \<Rightarrow> (t, setParent None item s)
                  | Some (t, s) \<Rightarrow>
                      (setTileFlags T cls s item (addDownItemCount 1 (set_list (item # t_items t) t)), s)))"

definition tile_internalAddThing :: "items_table \<Rightarrow> class_map \<Rightarrow> nat \<Rightarrow> tile_thing \<Rightarrow> on_tile \<Rightarrow> on_tile" where
  "tile_internalAddThing T cls k thing ts =
     (case ts of (t, s) \<Rightarrow> case thing of
        TileCreature c \<Rightarrow> (t\<lparr>t_creatures := c # t_creatures t\<rparr>, s)
      | TileItem item \<Rightarrow>
          let s = setParent (Some (Outside k)) item s;
              it = type_of T (s_item s item)
          in if isGroundTile it then
               (if t_ground t = None then (setTileFlags T cls s item (set_ground (Some item) t), s) else (t, s))
             else if length (t_items t) \<ge> 0xFFFF then (t, s)
             else if it_alwaysOnTop it then
               (setTileFlags T cls s item (set_list (down_items t @
                  insert_before (\<lambda>i. top_order T s i > it_alwaysOnTopOrder it) item (top_items t)) t), s)
             else (setTileFlags T cls s item (addDownItemCount 1 (set_list (item # t_items t) t)), s))"

definition tile_updateThing ::
  "items_table \<Rightarrow> class_map \<Rightarrow> tile_thing \<Rightarrow> u16 \<Rightarrow> u16 \<Rightarrow> on_tile \<Rightarrow> on_tile" where
  "tile_updateThing T cls thing itemId count ts =
     (case ts of (t, s) \<Rightarrow> case thing of
        TileCreature c \<Rightarrow> (t, s)
      | TileItem item \<Rightarrow>
          if tile_getThingIndex T s thing t = -1 then (t, s)
          else
            let t = resetTileFlags T cls s item t;
                s = set_item item (setSubType T count (setID T itemId (s_item s item))) s
            in (setTileFlags T cls s item t, s))"

text \<open>The place that \<open>replaceThing\<close> finds: the ground, one of the items by its place in the vector, or none.\<close>

definition replace_place :: "nat \<Rightarrow> tile \<Rightarrow> nat option option" where
  "replace_place index t =
     (let ground = (t_ground t \<noteq> None)
      in if ground \<and> index = 0 then Some None
         else
           let pos = (if ground then index - 1 else index);
               tops = getTopItemCount t
           in if pos < tops then Some (Some (unat (downItemCount t) + pos))
              else
                let pos = pos - tops
                in if pos < length (t_creatures t) then None
                   else
                     let pos = pos - length (t_creatures t)
                     in if pos < unat (downItemCount t) then Some (Some pos) else None)"

definition tile_replaceThing :: "items_table \<Rightarrow> class_map \<Rightarrow> nat \<Rightarrow> nat \<Rightarrow> tile_thing \<Rightarrow> on_tile \<Rightarrow> on_tile" where
  "tile_replaceThing T cls k index thing ts =
     (case ts of (t, s) \<Rightarrow> case thing of
        TileCreature c \<Rightarrow> (t, s)
      | TileItem item \<Rightarrow>
          (case replace_place index t of
             None \<Rightarrow> (t, s)
           | Some place \<Rightarrow>
               let (old, t) = (case place of
                     None \<Rightarrow> (the (t_ground t), set_ground (Some item) t)
                   | Some p \<Rightarrow> (t_items t ! p, set_list ((t_items t)[p := item]) t));
                   s = setParent (Some (Outside k)) item s
               in (setTileFlags T cls s item (resetTileFlags T cls s old t), setParent None old s)))"


section \<open>What the flags say\<close>

definition on_tile_set :: "tile \<Rightarrow> nat set" where
  "on_tile_set t = set_option (t_ground t) \<union> set (t_items t)"

lemma tile_hasProperty_iff:
  "tile_hasProperty T s p t \<longleftrightarrow> (\<exists>i \<in> on_tile_set t. hasProperty T (s_item s i) p)"
  by (auto simp: tile_hasProperty_def on_tile_set_def list_ex_iff split: option.splits)

lemma tile_hasProperty_without_iff:
  "tile_hasProperty_without T s x p t \<longleftrightarrow> (\<exists>i \<in> on_tile_set t. i \<noteq> x \<and> hasProperty T (s_item s i) p)"
  by (auto simp: tile_hasProperty_without_def on_tile_set_def list_ex_iff split: option.splits)

text \<open>The flags that are kept up to date, with the property each stands for.\<close>

definition exact_flags :: "(nat \<times> item_property) list" where
  "exact_flags = [(17, CONST_PROP_BLOCKSOLID), (18, CONST_PROP_BLOCKPATH), (19, CONST_PROP_IMMOVABLEBLOCKSOLID),
     (21, CONST_PROP_IMMOVABLENOFIELDBLOCKPATH), (22, CONST_PROP_NOFIELDBLOCKPATH)]"

lemma exact_flags_cases:
  assumes "(n, p) \<in> set exact_flags"
  obtains "n = 17" "p = CONST_PROP_BLOCKSOLID" | "n = 18" "p = CONST_PROP_BLOCKPATH"
    | "n = 19" "p = CONST_PROP_IMMOVABLEBLOCKSOLID" | "n = 21" "p = CONST_PROP_IMMOVABLENOFIELDBLOCKPATH"
    | "n = 22" "p = CONST_PROP_NOFIELDBLOCKPATH"
  using assms by (auto simp: exact_flags_def)

lemma raise_if_bit: "bit (t_flags (raise_if c flag t)) n \<longleftrightarrow> bit (t_flags t) n \<or> c \<and> bit flag n"
  by (auto simp: raise_if_def setFlag_def bit_simps)

lemma lower_if_bit: "bit (t_flags (lower_if c flag t)) n \<longleftrightarrow> bit (t_flags t) n \<and> \<not> (c \<and> bit flag n)"
  by (auto simp: lower_if_def resetFlag_def bit_simps dest: bit_imp_le_length)

lemma hasFlag_bit: "hasFlag (push_bit n 1) t = bit (t_flags t) n"
  by (simp add: hasFlag_def hasBitSet_def bit_iff_and_push_bit_not_eq_0)

lemma raise_if_simps [simp]:
  "t_ground (raise_if c flag t) = t_ground t" "t_items (raise_if c flag t) = t_items t"
  "downItemCount (raise_if c flag t) = downItemCount t" "t_creatures (raise_if c flag t) = t_creatures t"
  by (simp_all add: raise_if_def setFlag_def)

lemma lower_if_simps [simp]:
  "t_ground (lower_if c flag t) = t_ground t" "t_items (lower_if c flag t) = t_items t"
  "downItemCount (lower_if c flag t) = downItemCount t" "t_creatures (lower_if c flag t) = t_creatures t"
  "tile_hasProperty_without T s x p (lower_if c flag t) = tile_hasProperty_without T s x p t"
  by (simp_all add: lower_if_def resetFlag_def tile_hasProperty_without_def)

lemma setTileFlags_simps [simp]:
  "t_ground (setTileFlags T cls s i t) = t_ground t" "t_items (setTileFlags T cls s i t) = t_items t"
  "downItemCount (setTileFlags T cls s i t) = downItemCount t" "t_creatures (setTileFlags T cls s i t) = t_creatures t"
  by (simp_all add: setTileFlags_def Let_def)

lemma resetTileFlags_simps [simp]:
  "t_ground (resetTileFlags T cls s i t) = t_ground t" "t_items (resetTileFlags T cls s i t) = t_items t"
  "downItemCount (resetTileFlags T cls s i t) = downItemCount t" "t_creatures (resetTileFlags T cls s i t) = t_creatures t"
  by (simp_all add: resetTileFlags_def Let_def)

lemma ucast_byte_bit: "7 < n \<Longrightarrow> \<not> bit (ucast (b :: byte) :: u32) n"
  by (auto simp: bit_simps dest: bit_imp_le_length)

lemma setTileFlags_bit:
  assumes "(n, p) \<in> set exact_flags"
  shows "bit (t_flags (setTileFlags T cls s i t)) n \<longleftrightarrow> bit (t_flags t) n \<or> hasProperty T (s_item s i) p"
  using assms
  by (cases rule: exact_flags_cases)
    (simp_all add: setTileFlags_def Let_def raise_if_bit tilestate_defs ucast_byte_bit bit_push_bit_iff bit_1_iff)

lemma resetTileFlags_bit:
  assumes "(n, p) \<in> set exact_flags"
  shows "bit (t_flags (resetTileFlags T cls s i t)) n \<longleftrightarrow>
    bit (t_flags t) n \<and> (hasProperty T (s_item s i) p \<longrightarrow> tile_hasProperty_without T s i p t)"
  using assms
  by (cases rule: exact_flags_cases)
    (simp_all add: resetTileFlags_def Let_def lower_if_bit tilestate_defs bit_push_bit_iff bit_1_iff bit_or_iff)


definition flags_exact :: "items_table \<Rightarrow> item_store \<Rightarrow> tile \<Rightarrow> bool" where
  "flags_exact T s t \<longleftrightarrow> list_all (\<lambda>(n, p). bit (t_flags t) n \<longleftrightarrow> tile_hasProperty T s p t) exact_flags"

lemma flags_exact_iff:
  "flags_exact T s t \<longleftrightarrow> (\<forall>(n, p) \<in> set exact_flags.
     bit (t_flags t) n \<longleftrightarrow> (\<exists>i \<in> on_tile_set t. hasProperty T (s_item s i) p))"
  by (simp add: flags_exact_def list_all_iff tile_hasProperty_iff)

lemma on_tile_set_flags [simp]:
  "on_tile_set (setTileFlags T cls s i t) = on_tile_set t" "on_tile_set (resetTileFlags T cls s i t) = on_tile_set t"
  by (simp_all add: on_tile_set_def)

lemma flags_set:
  assumes "flags_exact T s t" "t_flags t' = t_flags t" "on_tile_set t' = insert i (on_tile_set t)"
  shows "flags_exact T s (setTileFlags T cls s i t')"
  using assms by (auto simp: flags_exact_iff setTileFlags_bit)

lemma flags_reset:
  assumes "flags_exact T s t" "t_flags t' = t_flags t" "on_tile_set t' = on_tile_set t - {i}" "i \<in> on_tile_set t"
  shows "flags_exact T s (resetTileFlags T cls s i t')"
  using assms by (fastforce simp: flags_exact_iff resetTileFlags_bit tile_hasProperty_without_iff)

lemma flags_exchange:
  assumes "flags_exact T s t" "t_flags t' = t_flags t" "on_tile_set t' = insert new (on_tile_set t - {old})"
    "old \<in> on_tile_set t" "new \<notin> on_tile_set t"
  shows "flags_exact T s (setTileFlags T cls s new (resetTileFlags T cls s old t'))"
  using assms
  by (fastforce simp: flags_exact_iff setTileFlags_bit resetTileFlags_bit tile_hasProperty_without_iff)

lemma flags_alter:
  assumes "flags_exact T s t" "i \<in> on_tile_set t"
  shows "flags_exact T (set_item i x s) (setTileFlags T cls (set_item i x s) i (resetTileFlags T cls s i t))"
  unfolding flags_exact_iff
proof (clarsimp simp: setTileFlags_bit resetTileFlags_bit tile_hasProperty_without_iff)
  fix n p assume np: "(n, p) \<in> set exact_flags"
  then have "bit (t_flags t) n \<longleftrightarrow> (\<exists>j \<in> on_tile_set t. hasProperty T (s_item s j) p)"
    using assms(1) by (auto simp: flags_exact_iff)
  then show "(bit (t_flags t) n \<and> (hasProperty T (s_item s i) p \<longrightarrow>
        (\<exists>j\<in>on_tile_set t. j \<noteq> i \<and> hasProperty T (s_item s j) p)) \<or> hasProperty T x p) =
      (\<exists>j\<in>on_tile_set t. (j = i \<longrightarrow> hasProperty T x p) \<and> (j \<noteq> i \<longrightarrow> hasProperty T (s_item s j) p))"
    using assms(2) by auto
qed

lemma flags_exact_store:
  "(\<And>i. i \<in> on_tile_set t \<Longrightarrow> s_item s' i = s_item s i) \<Longrightarrow> flags_exact T s' t = flags_exact T s t"
  by (simp add: flags_exact_iff cong: bex_cong)

section \<open>The order on a tile\<close>

definition parts :: "tile \<Rightarrow> nat list \<Rightarrow> nat list \<Rightarrow> bool" where
  "parts t d u \<longleftrightarrow> t_items t = d @ u \<and> unat (downItemCount t) = length d"

lemma parts_items: "parts t d u \<Longrightarrow> down_items t = d \<and> top_items t = u"
  by (simp add: parts_def down_items_def top_items_def)

lemma parts_exists: "unat (downItemCount t) \<le> length (t_items t) \<Longrightarrow> parts t (down_items t) (top_items t)"
  by (simp add: parts_def down_items_def top_items_def)

definition tops_sorted :: "items_table \<Rightarrow> item_store \<Rightarrow> nat list \<Rightarrow> bool" where
  "tops_sorted T s u \<longleftrightarrow> sorted (map (top_order T s) u)"

text \<open>\<open>cls\<close> only matters for magic fields, which are never stacked.\<close>

definition stack_ok :: "items_table \<Rightarrow> class_map \<Rightarrow> item_store \<Rightarrow> tile \<Rightarrow> bool" where
  "stack_ok T cls s t \<longleftrightarrow>
     unat (downItemCount t) \<le> length (t_items t) \<and> length (t_items t) \<le> 0xFFFF \<and>
     list_all (\<lambda>i. \<not> is_top T s i) (down_items t) \<and> list_all (is_top T s) (top_items t) \<and>
     tops_sorted T s (top_items t) \<and>
     distinct (t_items t) \<and> set_option (t_ground t) \<inter> set (t_items t) = {} \<and>
     list_all (\<lambda>i. cls i = MagicFieldItem \<longrightarrow> \<not> it_stackable (type_of T (s_item s i))) (t_items t)"

definition held_here :: "item_store \<Rightarrow> nat \<Rightarrow> tile \<Rightarrow> bool" where
  "held_here s k t \<longleftrightarrow> {i. s_parent s i = Some (Outside k)} = on_tile_set t"

definition core_ok :: "items_table \<Rightarrow> class_map \<Rightarrow> item_store \<Rightarrow> tile \<Rightarrow> bool" where
  "core_ok T cls s t \<longleftrightarrow> stack_ok T cls s t \<and> flags_exact T s t"

definition tile_ok :: "items_table \<Rightarrow> class_map \<Rightarrow> nat \<Rightarrow> on_tile \<Rightarrow> bool" where
  "tile_ok T cls k ts \<longleftrightarrow> core_ok T cls (snd ts) (fst ts) \<and> held_here (snd ts) k (fst ts)"

lemma stack_ok_parts:
  assumes "parts t d u"
  shows "stack_ok T cls s t \<longleftrightarrow>
    length (d @ u) \<le> 0xFFFF \<and> list_all (\<lambda>i. \<not> is_top T s i) d \<and> list_all (is_top T s) u \<and> tops_sorted T s u \<and>
    distinct (d @ u) \<and> set_option (t_ground t) \<inter> set (d @ u) = {} \<and>
    list_all (\<lambda>i. cls i = MagicFieldItem \<longrightarrow> \<not> it_stackable (type_of T (s_item s i))) (d @ u)"
proof -
  have "t_items t = d @ u" "unat (downItemCount t) = length d" using assms by (simp_all add: parts_def)
  then show ?thesis
    using parts_items [OF assms] by (simp add: stack_ok_def)
qed

lemma core_ok_obtain:
  assumes "core_ok T cls s t"
  obtains d u where "parts t d u" "down_items t = d" "top_items t = u"
  using parts_exists assms by (auto simp: core_ok_def stack_ok_def)

lemma parts_flags [simp]:
  "parts (setTileFlags T cls s i t) d u = parts t d u" "parts (resetTileFlags T cls s i t) d u = parts t d u"
  by (simp_all add: parts_def)

lemma parts_push:
  assumes "parts t d u" "length (d @ u) < 0xFFFF"
  shows "parts (addDownItemCount 1 (set_list (i # t_items t) t)) (i # d) u"
  using assms unat_add_of_nat [of "downItemCount t" 1]
  by (simp add: parts_def addDownItemCount_def set_list_def)

lemma parts_pop:
  assumes "parts t d u" "i \<in> set d"
  shows "parts (addDownItemCount (-1) (set_list (remove1 i d @ u) t)) (remove1 i d) u"
proof -
  have "downItemCount t \<noteq> 0" using assms by (auto simp: parts_def)
  then have "unat (downItemCount t - 1) = unat (downItemCount t) - 1" by (rule unat_minus_one)
  then show ?thesis
    using assms by (simp add: parts_def addDownItemCount_def set_list_def length_remove1)
qed

lemma parts_set_list: "parts t d u \<Longrightarrow> parts (set_list (d @ v) t) d v"
  by (simp add: parts_def set_list_def)

lemma parts_ground [simp]: "parts (set_ground g t) d u = parts t d u"
  by (simp add: parts_def set_ground_def)

lemma set_list_simps [simp]:
  "t_ground (set_list xs t) = t_ground t" "t_flags (set_list xs t) = t_flags t" "t_items (set_list xs t) = xs"
  "t_creatures (set_list xs t) = t_creatures t"
  by (simp_all add: set_list_def)

lemma set_ground_simps [simp]:
  "t_ground (set_ground g t) = g" "t_flags (set_ground g t) = t_flags t" "t_items (set_ground g t) = t_items t"
  "t_creatures (set_ground g t) = t_creatures t"
  by (simp_all add: set_ground_def)

lemma addDown_simps [simp]:
  "t_ground (addDownItemCount n t) = t_ground t" "t_flags (addDownItemCount n t) = t_flags t"
  "t_items (addDownItemCount n t) = t_items t" "t_creatures (addDownItemCount n t) = t_creatures t"
  by (simp_all add: addDownItemCount_def)

lemma set_insert_before [simp]: "set (insert_before P x ys) = insert x (set ys)"
  by (induction ys) auto

lemma distinct_insert_before [simp]: "distinct (insert_before P x ys) \<longleftrightarrow> x \<notin> set ys \<and> distinct ys"
  by (induction ys) auto

lemma length_insert_before [simp]: "length (insert_before P x ys) = Suc (length ys)"
  by (induction ys) auto

lemma sorted_insert_before:
  assumes "sorted (map f ys)" "\<And>y. P y \<Longrightarrow> f x \<le> (f y :: byte)" "\<And>y. \<not> P y \<Longrightarrow> f y \<le> f x"
  shows "sorted (map f (insert_before P x ys))"
  using assms(1)
proof (induction ys)
  case (Cons y ys)
  then show ?case
    using assms(2,3) by (cases "P y") (auto intro: order_trans)
qed simp

lemma tops_sorted_remove1: "tops_sorted T s u \<Longrightarrow> tops_sorted T s (remove1 i u)"
  unfolding tops_sorted_def by (rule sorted_map_remove1)

section \<open>Every change keeps it\<close>

lemma flags_exact_setParent [simp]: "flags_exact T (setParent p i s) t = flags_exact T s t"
  by (rule flags_exact_store) simp

lemma setParent_same_items [simp]:
  "tops_sorted T (setParent p i s) u = tops_sorted T s u" "stack_ok T cls (setParent p i s) t = stack_ok T cls s t"
  "core_ok T cls (setParent p i s) t = core_ok T cls s t"
  "setTileFlags T cls (setParent p i s) j t = setTileFlags T cls s j t"
  "resetTileFlags T cls (setParent p i s) j t = resetTileFlags T cls s j t"
  by (simp_all add: tops_sorted_def stack_ok_def core_ok_def setTileFlags_def resetTileFlags_def
      tile_hasProperty_without_def cong: option.case_cong)

lemma parts_set: "parts t d u \<Longrightarrow> on_tile_set t = set_option (t_ground t) \<union> set (d @ u)"
  by (simp add: parts_def on_tile_set_def)

lemma core_remove_ground:
  assumes "core_ok T cls s t" "t_ground t = Some i"
  shows "core_ok T cls s (resetTileFlags T cls s i (set_ground None t))"
proof -
  obtain d u where p: "parts t d u" by (rule core_ok_obtain [OF assms(1)])
  have "flags_exact T s (resetTileFlags T cls s i (set_ground None t))"
    using assms p by (intro flags_reset [of T s t]) (auto simp: core_ok_def on_tile_set_def stack_ok_parts [OF p] parts_def)
  then show ?thesis
    using assms p by (auto simp: core_ok_def stack_ok_parts [of _ d u])
qed

lemma core_remove_top:
  assumes "core_ok T cls s t" "parts t d u" "i \<in> set u"
  shows "core_ok T cls s (resetTileFlags T cls s i (set_list (d @ remove1 i u) t))"
proof -
  have st: "stack_ok T cls s t" using assms(1) by (simp add: core_ok_def)
  then have d: "distinct u" "i \<notin> set d" "t_ground t \<noteq> Some i"
    using assms(2,3) by (auto simp: stack_ok_parts [OF assms(2)])
  have "flags_exact T s (resetTileFlags T cls s i (set_list (d @ remove1 i u) t))"
    using assms d by (intro flags_reset [of T s t]) (auto simp: core_ok_def on_tile_set_def parts_def)
  moreover have "parts (set_list (d @ remove1 i u) t) d (remove1 i u)"
    by (rule parts_set_list [OF assms(2)])
  then have "stack_ok T cls s (resetTileFlags T cls s i (set_list (d @ remove1 i u) t))"
    using st d assms(3) tops_sorted_remove1
    by (auto simp: stack_ok_parts [OF assms(2)] stack_ok_parts [of _ d "remove1 i u"] list_all_iff length_remove1)
  ultimately show ?thesis by (simp add: core_ok_def)
qed

lemma core_remove_down:
  assumes "core_ok T cls s t" "parts t d u" "i \<in> set d"
  shows "core_ok T cls s (resetTileFlags T cls s i (addDownItemCount (-1) (set_list (remove1 i d @ u) t)))"
proof -
  let ?t = "addDownItemCount (-1) (set_list (remove1 i d @ u) t)"
  have st: "stack_ok T cls s t" using assms(1) by (simp add: core_ok_def)
  then have d: "distinct d" "i \<notin> set u" "t_ground t \<noteq> Some i"
    using assms(2,3) by (auto simp: stack_ok_parts [OF assms(2)])
  have "flags_exact T s (resetTileFlags T cls s i ?t)"
    using assms d by (intro flags_reset [of T s t]) (auto simp: core_ok_def on_tile_set_def parts_def)
  moreover have "stack_ok T cls s (resetTileFlags T cls s i ?t)"
    using st d assms(3) parts_pop [OF assms(2,3)]
    by (auto simp: stack_ok_parts [OF assms(2)] stack_ok_parts [of _ "remove1 i d" u] list_all_iff length_remove1)
  ultimately show ?thesis by (simp add: core_ok_def)
qed

lemma core_add_top:
  assumes "core_ok T cls s t" "parts t d u" "i \<notin> on_tile_set t" "is_top T s i" "length (d @ u) < 0xFFFF"
    "cls i \<noteq> MagicFieldItem \<or> \<not> it_stackable (type_of T (s_item s i))"
    "\<And>j. P j \<Longrightarrow> top_order T s i \<le> top_order T s j" "\<And>j. \<not> P j \<Longrightarrow> top_order T s j \<le> top_order T s i"
  shows "core_ok T cls s (setTileFlags T cls s i (set_list (d @ insert_before P i u) t))"
proof -
  have st: "stack_ok T cls s t" using assms(1) by (simp add: core_ok_def)
  have "flags_exact T s (setTileFlags T cls s i (set_list (d @ insert_before P i u) t))"
    using assms by (intro flags_set [of T s t]) (auto simp: core_ok_def on_tile_set_def parts_def)
  moreover have "parts (set_list (d @ insert_before P i u) t) d (insert_before P i u)"
    by (rule parts_set_list [OF assms(2)])
  moreover have "tops_sorted T s (insert_before P i u)"
    using st assms(7,8) unfolding tops_sorted_def stack_ok_parts [OF assms(2)] by (intro sorted_insert_before) simp_all
  ultimately show ?thesis
    using st assms(3-6) parts_set [OF assms(2)]
    by (auto simp: core_ok_def stack_ok_parts [OF assms(2)] stack_ok_parts [of _ d "insert_before P i u"] list_all_iff)
qed

lemma core_add_down:
  assumes "core_ok T cls s t" "parts t d u" "i \<notin> on_tile_set t" "\<not> is_top T s i" "length (d @ u) < 0xFFFF"
    "cls i \<noteq> MagicFieldItem \<or> \<not> it_stackable (type_of T (s_item s i))"
  shows "core_ok T cls s (setTileFlags T cls s i (addDownItemCount 1 (set_list (i # t_items t) t)))"
proof -
  have st: "stack_ok T cls s t" using assms(1) by (simp add: core_ok_def)
  have "flags_exact T s (setTileFlags T cls s i (addDownItemCount 1 (set_list (i # t_items t) t)))"
    using assms by (intro flags_set [of T s t]) (auto simp: core_ok_def on_tile_set_def)
  then show ?thesis
    using st assms(3-6) parts_set [OF assms(2)] parts_push [OF assms(2,5), of i]
    by (auto simp: core_ok_def stack_ok_parts [OF assms(2)] stack_ok_parts [of _ "i # d" u])
qed

lemma core_set_ground:
  assumes "core_ok T cls s t" "i \<notin> on_tile_set t"
  shows "t_ground t = None \<Longrightarrow> core_ok T cls s (setTileFlags T cls s i (set_ground (Some i) t))"
    "t_ground t = Some old \<Longrightarrow>
      core_ok T cls s (setTileFlags T cls s i (resetTileFlags T cls s old (set_ground (Some i) t)))"
proof -
  obtain d u where p: "parts t d u" by (rule core_ok_obtain [OF assms(1)])
  have st: "stack_ok T cls s t" "flags_exact T s t" using assms(1) by (simp_all add: core_ok_def)
  { assume "t_ground t = None"
    then have "flags_exact T s (setTileFlags T cls s i (set_ground (Some i) t))"
      using st by (intro flags_set [of T s t]) (auto simp: on_tile_set_def)
    then show "core_ok T cls s (setTileFlags T cls s i (set_ground (Some i) t))"
      using st p assms(2) parts_set [OF p] by (auto simp: core_ok_def stack_ok_parts [of _ d u]) }
  { assume g: "t_ground t = Some old"
    then have "on_tile_set (set_ground (Some i) t) = insert i (on_tile_set t - {old})"
      using st(1) by (auto simp: on_tile_set_def stack_ok_def)
    then have "flags_exact T s (setTileFlags T cls s i (resetTileFlags T cls s old (set_ground (Some i) t)))"
      using st(2) assms(2) g by (intro flags_exchange [of T s t]) (auto simp: on_tile_set_def)
    then show "core_ok T cls s (setTileFlags T cls s i (resetTileFlags T cls s old (set_ground (Some i) t)))"
      using st p assms(2) parts_set [OF p] by (auto simp: core_ok_def stack_ok_parts [of _ d u]) }
qed


lemma setItemCount_id [simp]: "i_id (setItemCount c x) = i_id x"
  by (simp add: setItemCount_def)

lemma setItemCount_hasProperty [simp]: "hasProperty T (setItemCount c x) p = hasProperty T x p"
proof -
  have "item_hasAttribute a (setItemCount c x) = item_hasAttribute a x" for a
    by (simp add: setItemCount_def item_hasAttribute_def)
  then show ?thesis by (simp only: hasProperty_def setItemCount_id)
qed

lemma updated_id [simp]: "i_id (setSubType T n (setID T newid x)) = newid"
proof -
  have attr: "i_id (item_setIntAttr a v y) = i_id y" "i_id (item_removeAttribute a y) = i_id y" for a v y
    by (simp_all add: item_setIntAttr_def with_attributes_def item_removeAttribute_def split: option.split)
  then have "i_id (setSubType T n y) = i_id y" for y
    by (simp add: setSubType_def Let_def setFluidType_def setCharges_def)
  moreover have "i_id (setID T newid x) = newid"
    by (simp add: setID_def Let_def attr setDuration_def setDecaying_def)
  ultimately show ?thesis by simp
qed

lemma core_same_kind:
  assumes "core_ok T cls s t" "i_id x = i_id (s_item s i)" "\<And>p. hasProperty T x p = hasProperty T (s_item s i) p"
  shows "core_ok T cls (set_item i x s) t"
proof -
  have ty: "type_of T (s_item (set_item i x s) j) = type_of T (s_item s j)" for j using assms(2) by simp
  have has: "hasProperty T (s_item (set_item i x s) j) p = hasProperty T (s_item s j) p" for j p using assms(3) by simp
  have "flags_exact T (set_item i x s) t = flags_exact T s t"
    by (simp only: flags_exact_def tile_hasProperty_iff has)
  moreover have "stack_ok T cls (set_item i x s) t = stack_ok T cls s t"
    by (simp only: stack_ok_def tops_sorted_def ty)
  ultimately show ?thesis using assms(1) by (simp add: core_ok_def)
qed

text \<open>An item may become another one in place: the ground anything, the others what keeps their place.\<close>

definition fits_place :: "items_table \<Rightarrow> class_map \<Rightarrow> item_type \<Rightarrow> nat \<Rightarrow> item_type \<Rightarrow> bool" where
  "fits_place T cls old i new \<longleftrightarrow> it_alwaysOnTop new = it_alwaysOnTop old \<and>
     (it_alwaysOnTop new \<longrightarrow> it_alwaysOnTopOrder new = it_alwaysOnTopOrder old) \<and>
     (cls i = MagicFieldItem \<longrightarrow> \<not> it_stackable new)"

lemma core_alter:
  assumes "core_ok T cls s t" "i \<in> on_tile_set t"
    "t_ground t \<noteq> Some i \<Longrightarrow> fits_place T cls (type_of T (s_item s i)) i (type_of T x)"
  shows "core_ok T cls (set_item i x s) (setTileFlags T cls (set_item i x s) i (resetTileFlags T cls s i t))"
proof -
  obtain d u where p: "parts t d u" by (rule core_ok_obtain [OF assms(1)])
  have st: "stack_ok T cls s t" "flags_exact T s t" using assms(1) by (simp_all add: core_ok_def)
  let ?s = "set_item i x s"
  have same: "is_top T ?s j = is_top T s j \<and> (is_top T s j \<longrightarrow> top_order T ?s j = top_order T s j) \<and>
      (cls j = MagicFieldItem \<longrightarrow> \<not> it_stackable (type_of T (s_item s j)) \<longrightarrow> \<not> it_stackable (type_of T (s_item ?s j)))"
    if "j \<in> set (d @ u)" for j
    using that assms(3) st(1) by (auto simp: stack_ok_parts [OF p] fits_place_def)
  have "map (top_order T ?s) u = map (top_order T s) u"
    using same st(1) by (intro map_cong) (auto simp: stack_ok_parts [OF p] list_all_iff)
  then have "tops_sorted T ?s u"
    using st(1) by (simp only: tops_sorted_def stack_ok_parts [OF p])
  then have "stack_ok T cls ?s t"
    using st(1) same unfolding stack_ok_parts [OF p] list_all_iff by auto
  then have "stack_ok T cls ?s (setTileFlags T cls ?s i (resetTileFlags T cls s i t))"
    using p by (simp add: stack_ok_parts [of _ d u])
  then show ?thesis
    using flags_alter [OF st(2) assms(2)] by (simp add: core_ok_def)
qed

lemma list_all_update: "list_all P xs \<Longrightarrow> P x \<Longrightarrow> list_all P (xs[n := x])"
  by (auto simp: list_all_iff dest!: set_update_subset_insert [THEN subsetD])

lemma core_replace:
  assumes "core_ok T cls s t" "n < length (t_items t)" "i \<notin> on_tile_set t"
    "fits_place T cls (type_of T (s_item s (t_items t ! n))) i (type_of T (s_item s i))"
  shows "core_ok T cls s (setTileFlags T cls s i (resetTileFlags T cls s (t_items t ! n) (set_list ((t_items t)[n := i]) t)))"
proof -
  obtain d u where p: "parts t d u" by (rule core_ok_obtain [OF assms(1)])
  have st: "stack_ok T cls s t" "flags_exact T s t" using assms(1) by (simp_all add: core_ok_def)
  let ?o = "t_items t ! n" and ?xs = "(t_items t)[n := i]"
  have xs: "distinct ?xs" "set ?xs = insert i (set (t_items t) - {?o})"
    using set_exchange [of "t_items t" n i] st(1) assms(2,3) by (auto simp: stack_ok_def on_tile_set_def)
  have flags: "flags_exact T s (setTileFlags T cls s i (resetTileFlags T cls s ?o (set_list ?xs t)))"
    using st assms(2,3) xs nth_mem [OF assms(2)]
    by (intro flags_exchange [of T s t]) (auto simp: on_tile_set_def stack_ok_def)
  have stack: "stack_ok T cls s (set_list ?xs t)"
  proof (cases "n < length d")
    case True
    then have "?xs = d[n := i] @ u" "?o = d ! n"
      using p by (simp_all add: parts_def list_update_append nth_append)
    moreover have "parts (set_list (d[n := i] @ u) t) (d[n := i]) u"
      using p by (simp add: parts_def set_list_def)
    moreover have "\<not> is_top T s i" "cls i = MagicFieldItem \<longrightarrow> \<not> it_stackable (type_of T (s_item s i))"
      using st(1) assms(4) True calculation(2) by (auto simp: stack_ok_parts [OF p] list_all_iff fits_place_def)
    ultimately show ?thesis
      using st(1) xs assms(3) parts_set [OF p] p
      by (simp add: stack_ok_parts [OF p] stack_ok_parts [of _ "d[n := i]" u] list_all_update) (auto simp: parts_def)
  next
    case False
    let ?m = "n - length d"
    have m: "?m < length u" using p assms(2) False by (simp add: parts_def)
    have eq: "?xs = d @ u[?m := i]" "?o = u ! ?m"
      using p False by (simp_all add: parts_def list_update_append nth_append)
    moreover have "parts (set_list (d @ u[?m := i]) t) d (u[?m := i])"
      using p by (simp add: parts_def set_list_def)
    moreover have o: "u ! ?m \<in> set u" using m by simp
    moreover have "map (top_order T s) (u[?m := i]) = map (top_order T s) u"
    proof -
      have "top_order T s i = top_order T s (u ! ?m)"
        using st(1) assms(4) o eq by (auto simp: stack_ok_parts [OF p] list_all_iff fits_place_def)
      then show ?thesis by (simp add: map_update list_update_same_conv m)
    qed
    moreover have "is_top T s i" "cls i = MagicFieldItem \<longrightarrow> \<not> it_stackable (type_of T (s_item s i))"
      using st(1) assms(4) o eq by (auto simp: stack_ok_parts [OF p] list_all_iff fits_place_def)
    ultimately show ?thesis
      using st(1) xs assms(3) parts_set [OF p] p
      by (simp add: stack_ok_parts [OF p] stack_ok_parts [of _ d "u[?m := i]"] list_all_update tops_sorted_def)
        (auto simp: parts_def)
  qed
  then have "stack_ok T cls s (setTileFlags T cls s i (resetTileFlags T cls s ?o (set_list ?xs t)))"
    by (simp add: stack_ok_def down_items_def top_items_def)
  then show ?thesis using flags by (simp add: core_ok_def)
qed


lemma tile_index_absent:
  assumes "core_ok T cls s t"
  shows "tile_getThingIndex T s (TileItem i) t = -1 \<longleftrightarrow> i \<notin> on_tile_set t"
proof -
  obtain d u where p: "parts t d u" "down_items t = d" "top_items t = u" by (rule core_ok_obtain [OF assms])
  have "i \<in> set u \<Longrightarrow> is_top T s i" "i \<in> set d \<Longrightarrow> \<not> is_top T s i"
    using assms by (auto simp: core_ok_def stack_ok_parts [OF p(1)] list_all_iff)
  then show ?thesis
    unfolding tile_getThingIndex_def p(2,3) parts_set [OF p(1)]
    by (auto simp: index_from_found Let_def split: option.split)
qed

lemma removeThing_gone:
  assumes "core_ok T cls s t" "i \<in> set (t_items t)" "is_top T s i \<or> \<not> it_stackable (type_of T (s_item s i))"
  shows "\<exists>t'. tile_removeThing T cls (TileItem i) n (t, s) = (t', setParent None i s) \<and> core_ok T cls s t' \<and>
    on_tile_set t' = on_tile_set t - {i} \<and> length (t_items t') < length (t_items t) \<and> t_ground t' = t_ground t"
proof -
  obtain d u where p: "parts t d u" "down_items t = d" "top_items t = u" by (rule core_ok_obtain [OF assms(1)])
  have st: "stack_ok T cls s t" using assms(1) by (simp add: core_ok_def)
  have i: "i \<in> on_tile_set t" "t_ground t \<noteq> Some i" "i \<in> set d \<or> i \<in> set u"
    using assms(2) st p(1) by (auto simp: on_tile_set_def stack_ok_def parts_def)
  have index: "tile_getThingIndex T s (TileItem i) t \<noteq> -1"
    using tile_index_absent [OF assms(1)] i(1) by simp
  show ?thesis
  proof (cases "is_top T s i")
    case True
    then have u: "i \<in> set u" using i(3) st by (auto simp: stack_ok_parts [OF p(1)] list_all_iff)
    then show ?thesis
      using True i(2) index core_remove_top [OF assms(1) p(1) u] p st length_pos_if_in_set [OF u]
      by (auto simp: tile_removeThing_def stack_ok_parts [OF p(1)] on_tile_set_def length_remove1 parts_def)
  next
    case False
    then have d: "i \<in> set d" using i(3) st by (auto simp: stack_ok_parts [OF p(1)] list_all_iff)
    then show ?thesis
      using False i(2) index core_remove_down [OF assms(1) p(1) d] p st assms(3) length_pos_if_in_set [OF d]
      by (auto simp: tile_removeThing_def stack_ok_parts [OF p(1)] on_tile_set_def length_remove1 parts_def)
  qed
qed

lemma tile_ok_creatures [simp]:
  "core_ok T cls s (t\<lparr>t_creatures := cs\<rparr>) = core_ok T cls s t"
  "held_here s k (t\<lparr>t_creatures := cs\<rparr>) = held_here s k t"
proof -
  have "on_tile_set (t\<lparr>t_creatures := cs\<rparr>) = on_tile_set t" by (simp add: on_tile_set_def)
  then show "core_ok T cls s (t\<lparr>t_creatures := cs\<rparr>) = core_ok T cls s t"
    "held_here s k (t\<lparr>t_creatures := cs\<rparr>) = held_here s k t"
    by (simp_all add: core_ok_def stack_ok_def flags_exact_iff held_here_def down_items_def top_items_def)
qed

lemma held_here_simps [simp]:
  "held_here s k (setTileFlags T cls s' i t) = held_here s k t" "held_here s k (resetTileFlags T cls s' i t) = held_here s k t"
  "held_here (set_item i x s) k t = held_here s k t"
  by (simp_all add: held_here_def)

lemma held_gone: "held_here s k t \<Longrightarrow> on_tile_set t' = on_tile_set t - {i} \<Longrightarrow> held_here (setParent None i s) k t'"
  by (auto simp: held_here_def)

lemma held_put: "held_here s k t \<Longrightarrow> on_tile_set t' = insert i (on_tile_set t) \<Longrightarrow>
    held_here (setParent (Some (Outside k)) i s) k t'"
  by (auto simp: held_here_def)

lemma removeThing_ok:
  assumes "tile_ok T cls k (t, s)"
  shows "tile_ok T cls k (tile_removeThing T cls x n (t, s))"
proof (cases x)
  case (TileCreature c)
  then show ?thesis using assms by (simp add: tile_removeThing_def tile_ok_def)
next
  case (TileItem i)
  have core: "core_ok T cls s t" and held: "held_here s k t" using assms by (simp_all add: tile_ok_def)
  then have st: "stack_ok T cls s t" by (simp add: core_ok_def)
  obtain d u where p: "parts t d u" "down_items t = d" "top_items t = u" by (rule core_ok_obtain [OF core])
  have "held_here (setParent None i s) k (set_list (d @ remove1 i u) t)" if "i \<in> set u"
    using that st p(1) by (intro held_gone [OF held]) (auto simp: stack_ok_parts [OF p(1)] parts_def on_tile_set_def)
  moreover have "held_here (setParent None i s) k (addDownItemCount (-1) (set_list (remove1 i d @ u) t))" if "i \<in> set d"
    using that st p(1) by (intro held_gone [OF held]) (auto simp: stack_ok_parts [OF p(1)] parts_def on_tile_set_def)
  moreover have "held_here (setParent None i s) k (set_ground None t)" if "t_ground t = Some i"
    using that st by (intro held_gone [OF held]) (auto simp: on_tile_set_def stack_ok_def)
  ultimately show ?thesis
    using core held core_remove_ground [OF core] core_remove_top [OF core p(1)] core_remove_down [OF core p(1)]
      core_same_kind [OF core, of "setItemCount _ _"]
    by (simp add: TileItem tile_removeThing_def p(2,3) tile_ok_def)
qed

section \<open>All changes\<close>

datatype tile_op =
  TileAdd tile_thing | TileInternalAdd tile_thing | TileUpdate tile_thing u16 u16
  | TileReplace nat tile_thing | TileRemove tile_thing u32

fun apply_tile_op :: "items_table \<Rightarrow> class_map \<Rightarrow> nat \<Rightarrow> tile_op \<Rightarrow> on_tile \<Rightarrow> on_tile" where
  "apply_tile_op T cls k (TileAdd x) ts = tile_addThing T cls k x ts"
| "apply_tile_op T cls k (TileInternalAdd x) ts = tile_internalAddThing T cls k x ts"
| "apply_tile_op T cls k (TileUpdate x newid n) ts = tile_updateThing T cls x newid n ts"
| "apply_tile_op T cls k (TileReplace index x) ts = tile_replaceThing T cls k index x ts"
| "apply_tile_op T cls k (TileRemove x n) ts = tile_removeThing T cls x n ts"

text \<open>
  What the callers keep to: an item is put on the tile when it is not there yet; a change of its type
  or a replacement keeps to its place in the order, except for the ground; and what is loaded goes
  onto a tile that has room for it.
\<close>

definition field_single :: "items_table \<Rightarrow> class_map \<Rightarrow> item_store \<Rightarrow> nat \<Rightarrow> bool" where
  "field_single T cls s i \<longleftrightarrow> cls i = MagicFieldItem \<longrightarrow> \<not> it_stackable (type_of T (s_item s i))"

fun tile_permitted :: "items_table \<Rightarrow> class_map \<Rightarrow> nat \<Rightarrow> on_tile \<Rightarrow> tile_op \<Rightarrow> bool" where
  "tile_permitted T cls k (t, s) (TileAdd (TileItem i)) \<longleftrightarrow> s_parent s i \<noteq> Some (Outside k) \<and> field_single T cls s i"
| "tile_permitted T cls k (t, s) (TileInternalAdd (TileItem i)) \<longleftrightarrow>
     s_parent s i \<noteq> Some (Outside k) \<and> field_single T cls s i \<and>
     (if isGroundTile (type_of T (s_item s i)) then t_ground t = None else length (t_items t) < 0xFFFF)"
| "tile_permitted T cls k (t, s) (TileUpdate (TileItem i) newid n) \<longleftrightarrow>
     t_ground t = Some i \<or> fits_place T cls (type_of T (s_item s i)) i (items_at T newid)"
| "tile_permitted T cls k (t, s) (TileReplace index (TileItem i)) \<longleftrightarrow>
     s_parent s i \<noteq> Some (Outside k) \<and>
     (case replace_place index t of
        Some (Some n) \<Rightarrow> fits_place T cls (type_of T (s_item s (t_items t ! n))) i (type_of T (s_item s i))
      | _ \<Rightarrow> True)"
| "tile_permitted T cls k ts _ \<longleftrightarrow> True"

text \<open>While an item is put on the tile it has the tile as its parent already.\<close>

definition adding :: "items_table \<Rightarrow> class_map \<Rightarrow> nat \<Rightarrow> nat \<Rightarrow> on_tile \<Rightarrow> bool" where
  "adding T cls k i ts \<longleftrightarrow> core_ok T cls (snd ts) (fst ts) \<and> i \<notin> on_tile_set (fst ts) \<and>
     {j. s_parent (snd ts) j = Some (Outside k)} = insert i (on_tile_set (fst ts))"

lemma adding_start:
  assumes "tile_ok T cls k (t, s)" "s_parent s i \<noteq> Some (Outside k)"
  shows "adding T cls k i (t, setParent (Some (Outside k)) i s)"
  using assms by (auto simp: adding_def tile_ok_def held_here_def)

lemma adding_done:
  assumes "adding T cls k i (t, s)" "core_ok T cls s t'" "on_tile_set t' = insert i (on_tile_set t)"
  shows "tile_ok T cls k (t', s)"
  using assms by (auto simp: adding_def tile_ok_def held_here_def)

lemma adding_refused:
  assumes "adding T cls k i (t, s)"
  shows "tile_ok T cls k (t, setParent None i s)"
  using assms by (auto simp: adding_def tile_ok_def held_here_def)

lemma adding_drop:
  assumes "adding T cls k i (t, s)" "old \<in> set (t_items t)" "is_top T s old \<or> \<not> it_stackable (type_of T (s_item s old))"
    "tile_removeThing T cls (TileItem old) n (t, s) = (t', s')"
  shows "adding T cls k i (t', setParent None old s') \<and> s_item s' = s_item s \<and>
    length (t_items t') < length (t_items t) \<and> t_ground t' = t_ground t"
proof -
  have core: "core_ok T cls s t" using assms(1) by (simp add: adding_def)
  have gone: "s' = setParent None old s" "core_ok T cls s t'" "on_tile_set t' = on_tile_set t - {old}"
    "length (t_items t') < length (t_items t)" "t_ground t' = t_ground t"
    using removeThing_gone [OF core assms(2,3), of n] assms(4) by auto
  moreover have "old \<noteq> i" using assms(1,2) by (auto simp: adding_def on_tile_set_def)
  ultimately show ?thesis
    using assms(1) by (auto simp: adding_def)
qed

lemma drop_splash_ok:
  assumes "adding T cls k i (t, s)" "drop_splash T cls (t, s) = (t', s')"
  shows "adding T cls k i (t', s') \<and> s_item s' = s_item s \<and> length (t_items t') \<le> length (t_items t)"
proof (cases "find (\<lambda>i. isSplash (type_of T (s_item s i))) (top_items t)")
  case None
  then show ?thesis using assms by (simp add: drop_splash_def)
next
  case (Some old)
  then have old: "old \<in> set (top_items t)" by (auto simp: find_Some_iff)
  then have "old \<in> set (t_items t)" "is_top T s old"
    using assms(1) by (auto simp: adding_def core_ok_def stack_ok_def list_all_iff top_items_def dest: in_set_dropD)
  moreover obtain t1 s1 where r: "tile_removeThing T cls (TileItem old) 1 (t, s) = (t1, s1)" by fastforce
  ultimately show ?thesis
    using adding_drop [OF assms(1) _ _ r] assms(2) Some by (auto simp: drop_splash_def)
qed

lemma drop_field_ok:
  assumes "adding T cls k i (t, s)" "drop_field T cls (t, s) = Some (t', s')"
  shows "adding T cls k i (t', s') \<and> s_item s' = s_item s \<and> length (t_items t') \<le> length (t_items t)"
proof (cases "find (\<lambda>i. cls i = MagicFieldItem) (down_items t)")
  case None
  then show ?thesis using assms by (simp add: drop_field_def)
next
  case (Some old)
  then have old: "old \<in> set (down_items t)" "cls old = MagicFieldItem" by (auto simp: find_Some_iff)
  then have mem: "old \<in> set (t_items t)" by (auto simp: down_items_def dest: in_set_takeD)
  then have "\<not> it_stackable (type_of T (s_item s old))"
    using assms(1) old(2) by (simp add: adding_def core_ok_def stack_ok_def list_all_iff)
  moreover obtain t1 s1 where r: "tile_removeThing T cls (TileItem old) 1 (t, s) = (t1, s1)" by fastforce
  ultimately show ?thesis
    using adding_drop [OF assms(1) mem _ r] assms(2) Some by (auto simp: drop_field_def split: if_splits)
qed

lemma ground_put_ok:
  assumes "adding T cls k i (t, s)"
  shows "t_ground t = None \<Longrightarrow> tile_ok T cls k (setTileFlags T cls s i (set_ground (Some i) t), s)"
    "t_ground t = Some old \<Longrightarrow> tile_ok T cls k
       (setTileFlags T cls s i (resetTileFlags T cls s old (set_ground (Some i) t)), setParent None old s)"
proof -
  have core: "core_ok T cls s t" and new: "i \<notin> on_tile_set t" using assms by (simp_all add: adding_def)
  { assume g: "t_ground t = None"
    then have "on_tile_set (setTileFlags T cls s i (set_ground (Some i) t)) = insert i (on_tile_set t)"
      by (auto simp: on_tile_set_def)
    then show "tile_ok T cls k (setTileFlags T cls s i (set_ground (Some i) t), s)"
      using adding_done [OF assms core_set_ground(1) [OF core new g]] by simp }
  { assume g: "t_ground t = Some old"
    then have "old \<notin> set (t_items t)" using core by (simp add: core_ok_def stack_ok_def)
    then have "on_tile_set (set_ground (Some i) t) = insert i (on_tile_set t - {old})"
      using g by (auto simp: on_tile_set_def)
    then have "held_here (setParent None old s) k (set_ground (Some i) t)"
      using assms g by (auto simp: held_here_def adding_def on_tile_set_def)
    then show "tile_ok T cls k
       (setTileFlags T cls s i (resetTileFlags T cls s old (set_ground (Some i) t)), setParent None old s)"
      using core_set_ground(2) [OF core new g] by (simp add: tile_ok_def) }
qed

lemma top_put_ok:
  assumes "adding T cls k i (t, s)" "is_top T s i" "field_single T cls s i" "length (t_items t) < 0xFFFF"
    "\<And>j. P j \<Longrightarrow> top_order T s i \<le> top_order T s j" "\<And>j. \<not> P j \<Longrightarrow> top_order T s j \<le> top_order T s i"
  shows "tile_ok T cls k (setTileFlags T cls s i (set_list (down_items t @ insert_before P i (top_items t)) t), s)"
proof -
  have core: "core_ok T cls s t" and new: "i \<notin> on_tile_set t" using assms(1) by (simp_all add: adding_def)
  obtain d u where p: "parts t d u" "down_items t = d" "top_items t = u" by (rule core_ok_obtain [OF core])
  have "length (d @ u) < 0xFFFF" using p(1) assms(4) by (simp add: parts_def)
  then have "core_ok T cls s (setTileFlags T cls s i (set_list (d @ insert_before P i u) t))"
    using assms(3) by (intro core_add_top [OF core p(1) new assms(2) _ _ assms(5,6)]) (auto simp: field_single_def)
  then show ?thesis
    using p by (intro adding_done [OF assms(1)]) (auto simp: on_tile_set_def parts_def)
qed

lemma down_put_ok:
  assumes "adding T cls k i (t, s)" "\<not> is_top T s i" "field_single T cls s i" "length (t_items t) < 0xFFFF"
  shows "tile_ok T cls k (setTileFlags T cls s i (addDownItemCount 1 (set_list (i # t_items t) t)), s)"
proof -
  have core: "core_ok T cls s t" and new: "i \<notin> on_tile_set t" using assms(1) by (simp_all add: adding_def)
  obtain d u where p: "parts t d u" by (rule core_ok_obtain [OF core])
  have "length (d @ u) < 0xFFFF" using p assms(4) by (simp add: parts_def)
  then have "core_ok T cls s (setTileFlags T cls s i (addDownItemCount 1 (set_list (i # t_items t) t)))"
    using assms(3) by (intro core_add_down [OF core p new assms(2)]) (auto simp: field_single_def)
  then show ?thesis
    by (intro adding_done [OF assms(1)]) (auto simp: on_tile_set_def)
qed

lemma addThing_ok:
  assumes "tile_ok T cls k (t, s)" "tile_permitted T cls k (t, s) (TileAdd x)"
  shows "tile_ok T cls k (tile_addThing T cls k x (t, s))"
proof (cases x)
  case (TileCreature c)
  then show ?thesis using assms(1) by (simp add: tile_addThing_def tile_ok_def)
next
  case (TileItem i)
  let ?s = "setParent (Some (Outside k)) i s" and ?it = "type_of T (s_item s i)"
  have new: "adding T cls k i (t, ?s)" and single: "field_single T cls s i"
    using adding_start [OF assms(1)] assms(2) by (simp_all add: TileItem)
  show ?thesis
  proof (cases "length (t_items t) < 0xFFFF")
    case False
    then show ?thesis using assms(1) by (simp add: TileItem tile_addThing_def)
  next
    case room: True
    consider (ground) "isGroundTile ?it" | (top) "\<not> isGroundTile ?it" "it_alwaysOnTop ?it"
      | (down) "\<not> isGroundTile ?it" "\<not> it_alwaysOnTop ?it" by blast
    then show ?thesis
    proof cases
      case ground
      then show ?thesis
        using ground_put_ok [OF new] room by (simp add: TileItem tile_addThing_def Let_def split: option.split)
    next
      case top
      obtain t' s' where r: "(if isSplash ?it then drop_splash T cls (t, ?s) else (t, ?s)) = (t', s')" by fastforce
      then have m: "adding T cls k i (t', s')" "s_item s' = s_item s" "length (t_items t') \<le> length (t_items t)"
        using new drop_splash_ok [OF new, of t' s'] by (auto simp: setParent_def split: if_splits)
      then have "tile_ok T cls k (setTileFlags T cls s' i (set_list (down_items t' @
          insert_before (\<lambda>j. top_order T s' i \<le> top_order T s' j) i (top_items t')) t'), s')"
        using top single room by (intro top_put_ok) (auto simp: field_single_def)
      then show ?thesis
        using top room r m(2) by (simp add: TileItem tile_addThing_def Let_def)
    next
      case down
      show ?thesis
      proof (cases "if isMagicField ?it then drop_field T cls (t, ?s) else Some (t, ?s)")
        case None
        then show ?thesis
          using down room adding_refused [OF new] by (simp add: TileItem tile_addThing_def Let_def split: if_splits)
      next
        case (Some ts)
        obtain t' s' where ts: "ts = (t', s')" by fastforce
        then have m: "adding T cls k i (t', s')" "s_item s' = s_item s" "length (t_items t') \<le> length (t_items t)"
          using new Some drop_field_ok [OF new, of t' s'] by (auto simp: setParent_def split: if_splits)
        then have "tile_ok T cls k (setTileFlags T cls s' i (addDownItemCount 1 (set_list (i # t_items t') t')), s')"
          using down single room by (intro down_put_ok) (auto simp: field_single_def)
        then show ?thesis
          using down room Some ts by (simp add: TileItem tile_addThing_def Let_def del: split_paired_Ex)
      qed
    qed
  qed
qed

lemma internalAddThing_ok:
  assumes "tile_ok T cls k (t, s)" "tile_permitted T cls k (t, s) (TileInternalAdd x)"
  shows "tile_ok T cls k (tile_internalAddThing T cls k x (t, s))"
proof (cases x)
  case (TileCreature c)
  then show ?thesis using assms(1) by (simp add: tile_internalAddThing_def tile_ok_def)
next
  case (TileItem i)
  let ?s = "setParent (Some (Outside k)) i s" and ?it = "type_of T (s_item s i)"
  have new: "adding T cls k i (t, ?s)" and single: "field_single T cls ?s i"
    and fits: "if isGroundTile ?it then t_ground t = None else length (t_items t) < 0xFFFF"
    using adding_start [OF assms(1)] assms(2) by (simp_all add: TileItem field_single_def)
  consider (ground) "isGroundTile ?it" | (top) "\<not> isGroundTile ?it" "it_alwaysOnTop ?it"
    | (down) "\<not> isGroundTile ?it" "\<not> it_alwaysOnTop ?it" by blast
  then show ?thesis
  proof cases
    case ground
    then show ?thesis using ground_put_ok(1) [OF new] fits by (simp add: TileItem tile_internalAddThing_def Let_def)
  next
    case top
    have "tile_ok T cls k (setTileFlags T cls ?s i (set_list (down_items t @
        insert_before (\<lambda>j. top_order T ?s j > top_order T ?s i) i (top_items t)) t), ?s)"
      using top fits by (intro top_put_ok [OF new _ single]) auto
    then show ?thesis using top fits by (simp add: TileItem tile_internalAddThing_def Let_def)
  next
    case down
    then show ?thesis
      using down_put_ok [OF new _ single] fits by (simp add: TileItem tile_internalAddThing_def Let_def)
  qed
qed

lemma updateThing_ok:
  assumes "tile_ok T cls k (t, s)" "tile_permitted T cls k (t, s) (TileUpdate x newid n)"
  shows "tile_ok T cls k (tile_updateThing T cls x newid n (t, s))"
proof (cases x)
  case (TileCreature c)
  then show ?thesis using assms(1) by (simp add: tile_updateThing_def)
next
  case (TileItem i)
  have core: "core_ok T cls s t" and held: "held_here s k t" using assms(1) by (simp_all add: tile_ok_def)
  have "core_ok T cls (set_item i y s) (setTileFlags T cls (set_item i y s) i (resetTileFlags T cls s i t))"
    if "i \<in> on_tile_set t" "i_id y = newid" for y
    using that assms(2) by (intro core_alter [OF core]) (auto simp: TileItem)
  then show ?thesis
    using assms(1) held tile_index_absent [OF core]
    by (simp add: TileItem tile_updateThing_def Let_def tile_ok_def)
qed

lemma replace_place_bound:
  "core_ok T cls s t \<Longrightarrow> replace_place index t = Some (Some n) \<Longrightarrow> n < length (t_items t)"
  "replace_place index t = Some None \<Longrightarrow> t_ground t \<noteq> None"
  by (auto simp: replace_place_def Let_def getTopItemCount_def core_ok_def stack_ok_def split: if_splits)

lemma replaceThing_ok:
  assumes "tile_ok T cls k (t, s)" "tile_permitted T cls k (t, s) (TileReplace index x)"
  shows "tile_ok T cls k (tile_replaceThing T cls k index x (t, s))"
proof (cases x)
  case (TileCreature c)
  then show ?thesis using assms(1) by (simp add: tile_replaceThing_def)
next
  case (TileItem i)
  let ?s = "setParent (Some (Outside k)) i s"
  have new: "adding T cls k i (t, ?s)" using adding_start [OF assms(1)] assms(2) by (simp add: TileItem)
  then have core: "core_ok T cls ?s t" "i \<notin> on_tile_set t" by (simp_all add: adding_def)
  consider "replace_place index t = None" | "replace_place index t = Some None"
    | n where "replace_place index t = Some (Some n)" by (cases "replace_place index t") auto
  then show ?thesis
  proof cases
    case 1
    then show ?thesis using assms(1) by (simp add: TileItem tile_replaceThing_def)
  next
    case 2
    then obtain old where "t_ground t = Some old" using replace_place_bound(2) by blast
    then show ?thesis
      using 2 ground_put_ok(2) [OF new] by (simp add: TileItem tile_replaceThing_def)
  next
    case (3 n)
    let ?o = "t_items t ! n"
    have n: "n < length (t_items t)" using replace_place_bound(1) core(1) 3 by blast
    have "distinct (t_items t)" "set_option (t_ground t) \<inter> set (t_items t) = {}"
      using core(1) by (simp_all add: core_ok_def stack_ok_def)
    then have "held_here (setParent None ?o ?s) k (set_list ((t_items t)[n := i]) t)"
      using set_exchange [of "t_items t" n i] n core(2) nth_mem [OF n] new
      by (auto simp: held_here_def adding_def on_tile_set_def)
    moreover have "core_ok T cls ?s (setTileFlags T cls ?s i (resetTileFlags T cls ?s ?o (set_list ((t_items t)[n := i]) t)))"
      using assms(2) 3 by (intro core_replace [OF core(1) n core(2)]) (simp add: TileItem)
    ultimately show ?thesis
      using 3 by (simp add: TileItem tile_replaceThing_def tile_ok_def)
  qed
qed

lemma tile_op_ok:
  assumes "tile_ok T cls k ts" "tile_permitted T cls k ts op"
  shows "tile_ok T cls k (apply_tile_op T cls k op ts)"
proof -
  obtain t s where ts: "ts = (t, s)" by fastforce
  show ?thesis
    using assms addThing_ok internalAddThing_ok updateThing_ok replaceThing_ok removeThing_ok
    by (cases op) (simp_all add: ts)
qed

section \<open>Places and things\<close>

text \<open>The place of a thing on the tile: the ground, then the items on top, the creatures, the other items.\<close>

definition at_place :: "nat list \<Rightarrow> nat list \<Rightarrow> tile \<Rightarrow> nat \<Rightarrow> tile_thing \<Rightarrow> bool" where
  "at_place d u t n x \<longleftrightarrow>
     (let g = (if t_ground t \<noteq> None then 1 else 0); v = length u; c = length (t_creatures t)
      in (case x of
            TileItem i \<Rightarrow> t_ground t = Some i \<and> n = 0 \<or> (\<exists>j < v. u ! j = i \<and> n = g + j) \<or>
              (\<exists>j < length d. d ! j = i \<and> n = g + v + c + j)
          | TileCreature i \<Rightarrow> \<exists>j < c. t_creatures t ! j = i \<and> n = g + v + j))"

lemma index_from_nth:
  "distinct xs \<Longrightarrow> 0 \<le> n \<Longrightarrow> index_from n xs i = int m \<longleftrightarrow> (\<exists>j < length xs. xs ! j = i \<and> int m = n + int j)"
proof (induction xs arbitrary: n)
  case (Cons x xs)
  show ?case
  proof (cases "x = i")
    case True
    then have "xs ! j \<noteq> i" if "j < length xs" for j using that Cons.prems(1) by (auto simp: in_set_conv_nth)
    then show ?thesis using True by (auto simp: less_Suc_eq_0_disj)
  next
    case False
    then show ?thesis using Cons.IH [of "n + 1"] Cons.prems by (auto simp: less_Suc_eq_0_disj)
  qed
qed simp

lemma getTopItemCount_parts: "parts t d u \<Longrightarrow> getTopItemCount t = length u"
  by (simp add: getTopItemCount_def parts_def)

lemma tile_getThing_place:
  assumes "parts t d u"
  shows "tile_getThing n t = Some x \<longleftrightarrow> at_place d u t n x"
proof -
  let ?g = "if t_ground t \<noteq> None then 1 else 0" and ?v = "length u" and ?c = "length (t_creatures t)"
  have t: "t_items t = d @ u" "unat (downItemCount t) = length d" using assms by (simp_all add: parts_def)
  consider (ground) "t_ground t \<noteq> None" "n = 0" | (top) j where "n = ?g + j" "j < ?v"
    | (creature) j where "n = ?g + ?v + j" "j < ?c" | (down) j where "n = ?g + ?v + ?c + j"
  proof -
    have "(t_ground t \<noteq> None \<and> n = 0) \<or> n \<ge> ?g" by (cases n) auto
    then have "(t_ground t \<noteq> None \<and> n = 0) \<or> (n \<ge> ?g \<and> n < ?g + ?v) \<or> (n \<ge> ?g + ?v \<and> n < ?g + ?v + ?c) \<or> n \<ge> ?g + ?v + ?c"
      by arith
    then show thesis
      using ground top [of "n - ?g"] creature [of "n - ?g - ?v"] down [of "n - ?g - ?v - ?c"] by force
  qed
  then show ?thesis
  proof cases
    case ground
    then show ?thesis by (cases x) (auto simp: tile_getThing_def at_place_def)
  next
    case top
    then show ?thesis
      by (cases "t_ground t = None"; cases x) (auto simp: tile_getThing_def at_place_def t getTopItemCount_parts [OF assms]
          Let_def nth_append)
  next
    case creature
    then show ?thesis
      by (cases "t_ground t = None"; cases x) (auto simp: tile_getThing_def at_place_def t getTopItemCount_parts [OF assms]
          Let_def)
  next
    case down
    then show ?thesis
      by (cases "t_ground t = None"; cases x) (auto simp: tile_getThing_def at_place_def t getTopItemCount_parts [OF assms]
          Let_def nth_append)
  qed
qed

lemma tile_index_place:
  assumes "core_ok T cls s t" "parts t d u" "distinct (t_creatures t)"
  shows "tile_getThingIndex T s x t = int n \<longleftrightarrow> at_place d u t n x"
proof -
  have st: "stack_ok T cls s t" using assms(1) by (simp add: core_ok_def)
  have v: "getTopItemCount t = length u" "down_items t = d" "top_items t = u"
    using getTopItemCount_parts [OF assms(2)] parts_items [OF assms(2)] by simp_all
  have dist: "distinct d" "distinct u" using st by (simp_all add: stack_ok_parts [OF assms(2)])
  have nth: "d ! j \<in> set d" if "j < length d" for j using that by simp
  have nth': "u ! j \<in> set u" if "j < length u" for j using that by simp
  have tops: "u ! j = i \<Longrightarrow> j < length u \<Longrightarrow> is_top T s i" and downs: "d ! j = i \<Longrightarrow> j < length d \<Longrightarrow> \<not> is_top T s i"
    for i j using st nth nth' by (auto simp: stack_ok_parts [OF assms(2)] list_all_iff)
  have ground: "u ! j = i \<Longrightarrow> j < length u \<Longrightarrow> t_ground t \<noteq> Some i" "d ! j = i \<Longrightarrow> j < length d \<Longrightarrow> t_ground t \<noteq> Some i"
    for i j using st nth nth' by (auto simp: stack_ok_parts [OF assms(2)])
  show ?thesis
  proof (cases x)
    case (TileCreature c)
    then show ?thesis
      by (cases "t_ground t = None")
        (auto simp: tile_getThingIndex_def at_place_def v Let_def index_from_nth [OF assms(3)])
  next
    case (TileItem i)
    show ?thesis
    proof (cases "t_ground t = Some i")
      case True
      then show ?thesis using ground by (fastforce simp: tile_getThingIndex_def at_place_def TileItem Let_def)
    next
      case False
      then show ?thesis
        using tops downs
        by (cases "t_ground t = None")
          (auto simp: tile_getThingIndex_def at_place_def v Let_def index_from_nth [OF dist(1)] index_from_nth [OF dist(2)]
            TileItem)
    qed
  qed
qed

lemma tile_getThing_bound:
  assumes "unat (downItemCount t) \<le> length (t_items t)"
  shows "tile_getThing n t = None \<longleftrightarrow> getThingCount t \<le> n"
  using assms by (auto simp: tile_getThing_def getThingCount_def getTopItemCount_def getCreatureCount_def getItemCount_def
      Let_def split: if_splits)

text \<open>
  C35: On a well-formed tile a number and a thing belong together in one way: the thing that \<open>getThing\<close> finds at
  a number is the one whose \<open>getThingIndex\<close> is that number, \<open>getThing\<close> finds something at every number below
  \<open>getThingCount\<close> and at no other, and what is not on the tile has no index.
\<close>

theorem tile_index_roundtrip:
  assumes "core_ok T cls s t" "distinct (t_creatures t)"
  shows "(tile_getThing n t = Some x \<longleftrightarrow> tile_getThingIndex T s x t = int n) \<and>
    (tile_getThing n t = None \<longleftrightarrow> getThingCount t \<le> n) \<and>
    (tile_getThingIndex T s x t = -1 \<longleftrightarrow>
      x \<notin> TileItem ` on_tile_set t \<union> TileCreature ` set (t_creatures t))"
proof (intro conjI)
  obtain d u where p: "parts t d u" by (rule core_ok_obtain [OF assms(1)])
  show "tile_getThing n t = Some x \<longleftrightarrow> tile_getThingIndex T s x t = int n"
    by (simp only: tile_getThing_place [OF p] tile_index_place [OF assms(1) p assms(2)])
  show "tile_getThing n t = None \<longleftrightarrow> getThingCount t \<le> n"
    using assms(1) by (intro tile_getThing_bound) (simp add: core_ok_def stack_ok_def)
  show "tile_getThingIndex T s x t = -1 \<longleftrightarrow> x \<notin> TileItem ` on_tile_set t \<union> TileCreature ` set (t_creatures t)"
  proof (cases x)
    case (TileItem i)
    then show ?thesis using tile_index_absent [OF assms(1)] by auto
  next
    case (TileCreature c)
    then show ?thesis by (auto simp: tile_getThingIndex_def Let_def index_from_found)
  qed
qed

section \<open>Sequences of changes\<close>

fun tile_ops_permitted :: "items_table \<Rightarrow> class_map \<Rightarrow> nat \<Rightarrow> tile_op list \<Rightarrow> on_tile \<Rightarrow> bool" where
  "tile_ops_permitted T cls k [] ts \<longleftrightarrow> True"
| "tile_ops_permitted T cls k (op # ops) ts \<longleftrightarrow>
     tile_permitted T cls k ts op \<and> tile_ops_permitted T cls k ops (apply_tile_op T cls k op ts)"

definition apply_tile_ops :: "items_table \<Rightarrow> class_map \<Rightarrow> nat \<Rightarrow> tile_op list \<Rightarrow> on_tile \<Rightarrow> on_tile" where
  "apply_tile_ops T cls k ops ts = fold (apply_tile_op T cls k) ops ts"

text \<open>
  C34: Whatever is put on a tile, taken from it, replaced or turned into another item there, in any order: the
  count of lower items splits the vector into those that are not always on top and those that are, the latter in
  the order of their top order, no item stands there twice, the items whose parent is the tile are
  exactly those on it, and the flags for blocking items and paths are set exactly when an item that does so is there.
\<close>

theorem tile_stays_ordered:
  assumes "tile_ok T cls k ts" "tile_ops_permitted T cls k ops ts"
  shows "tile_ok T cls k (apply_tile_ops T cls k ops ts)"
  using assms
proof (induction ops arbitrary: ts)
  case (Cons op ops)
  then show ?case using tile_op_ok [of T cls k ts op] by (simp add: apply_tile_ops_def)
qed (simp add: apply_tile_ops_def)

definition meadow :: items_table where
  "meadow = \<lparr>items = [new_item_type\<lparr>it_group := ITEM_GROUP_GROUND\<rparr>, new_item_type\<lparr>it_stackable := True\<rparr>,
       new_item_type\<lparr>it_group := ITEM_GROUP_SPLASH, it_alwaysOnTop := True, it_alwaysOnTopOrder := 2\<rparr>,
       new_item_type\<lparr>it_alwaysOnTop := True, it_alwaysOnTopOrder := 1, it_blockSolid := True\<rparr>],
     clientIdToServerIdMap = [], majorVersion = 0, minorVersion = 0, buildNumber = 0\<rparr>"

definition loose_items :: item_store where
  "loose_items = \<lparr>s_item = (\<lambda>i. \<lparr>i_id = of_nat (i mod 4), i_count = 1, i_attributes = None, i_loadedFromMap = False\<rparr>),
     s_parent = (\<lambda>_. None), s_outer = (\<lambda>_. None), s_box = (\<lambda>i. None)\<rparr>"

definition bare_tile :: tile where
  "bare_tile = \<lparr>t_ground = None, t_items = [], downItemCount = 0, t_creatures = [], t_flags = 0, tilePos = (0, 0, 7)\<rparr>"

lemma bare_tile_ok: "tile_ok T cls k (bare_tile, loose_items)"
  by (simp add: tile_ok_def core_ok_def stack_ok_def flags_exact_iff held_here_def on_tile_set_def bare_tile_def
      loose_items_def down_items_def top_items_def tops_sorted_def)

lemma meadow_types [simp]:
  "items_at meadow 0 = new_item_type\<lparr>it_group := ITEM_GROUP_GROUND\<rparr>"
  "items_at meadow 1 = new_item_type\<lparr>it_stackable := True\<rparr>"
  "items_at meadow 2 = new_item_type\<lparr>it_group := ITEM_GROUP_SPLASH, it_alwaysOnTop := True, it_alwaysOnTopOrder := 2\<rparr>"
  "items_at meadow 3 = new_item_type\<lparr>it_alwaysOnTop := True, it_alwaysOnTopOrder := 1, it_blockSolid := True\<rparr>"
  by (simp_all add: items_at_def getItemType_def meadow_def)

lemma new_item_type_fields [simp]:
  "it_group new_item_type = ITEM_GROUP_NONE" "it_type new_item_type = ITEM_TYPE_NONE" "\<not> it_stackable new_item_type"
  "\<not> it_alwaysOnTop new_item_type" "it_alwaysOnTopOrder new_item_type = 0" "\<not> it_blockSolid new_item_type"
  "\<not> it_hasHeight new_item_type" "\<not> it_blockPathFind new_item_type" "\<not> it_moveable new_item_type"
  by (simp_all add: new_item_type_def)

lemma loose_items_fields [simp]:
  "s_item loose_items i = \<lparr>i_id = of_nat (i mod 4), i_count = 1, i_attributes = None, i_loadedFromMap = False\<rparr>"
  "s_parent loose_items i = None"
  by (simp_all add: loose_items_def)

lemmas tile_run = tile_internalAddThing_def tile_addThing_def tile_removeThing_def drop_splash_def tile_getThingIndex_def
  set_list_def set_ground_def addDownItemCount_def down_items_def top_items_def isGroundTile_def isSplash_def
  isMagicField_def field_single_def getTopItemCount_def bare_tile_def

theorem tile_stays_ordered_witness:
  "tile_ok meadow (\<lambda>_. PlainItem) 9 (apply_tile_ops meadow (\<lambda>_. PlainItem) 9
     [TileInternalAdd (TileItem 0), TileAdd (TileItem 2), TileAdd (TileItem 6), TileAdd (TileItem 1),
      TileRemove (TileItem 1) 1, TileAdd (TileCreature 5)] (bare_tile, loose_items))"
proof (rule tile_stays_ordered [OF bare_tile_ok])
  show "tile_ops_permitted meadow (\<lambda>_. PlainItem) 9
     [TileInternalAdd (TileItem 0), TileAdd (TileItem 2), TileAdd (TileItem 6), TileAdd (TileItem 1),
      TileRemove (TileItem 1) 1, TileAdd (TileCreature 5)] (bare_tile, loose_items)"
    by (simp add: tile_run)
qed

theorem tile_index_roundtrip_witness:
  "tile_getThing 1 (bare_tile\<lparr>t_creatures := [5, 7]\<rparr>) = Some (TileCreature 7) \<and>
   tile_getThingIndex meadow loose_items (TileCreature 7) (bare_tile\<lparr>t_creatures := [5, 7]\<rparr>) = 1"
proof -
  let ?t = "bare_tile\<lparr>t_creatures := [5, 7]\<rparr>"
  have "core_ok meadow (\<lambda>_. PlainItem) loose_items ?t" "distinct (t_creatures ?t)"
    using bare_tile_ok [of meadow "\<lambda>_. PlainItem" 9] by (simp_all add: tile_ok_def)
  note r = tile_index_roundtrip [OF this, of 1 "TileCreature 7"]
  have "tile_getThing 1 ?t = Some (TileCreature 7)"
    by (simp add: tile_getThing_def bare_tile_def getTopItemCount_def)
  then show ?thesis using r by simp
qed

section \<open>What the flags miss\<close>

text \<open>No item ever sets the flag \<open>TILESTATE_IMMOVABLEBLOCKPATH\<close>, which \<open>resetTileFlags\<close> takes back.\<close>

theorem immovable_block_path_never_set:
  "hasFlag TILESTATE_IMMOVABLEBLOCKPATH (setTileFlags T cls s i t) = hasFlag TILESTATE_IMMOVABLEBLOCKPATH t"
proof -
  have one: "hasFlag TILESTATE_IMMOVABLEBLOCKPATH t = bit (t_flags t) 20" for t
    by (simp only: TILESTATE_IMMOVABLEBLOCKPATH_def hasFlag_bit)
  show ?thesis
    unfolding one
    by (simp add: setTileFlags_def Let_def raise_if_bit tilestate_defs ucast_byte_bit bit_push_bit_iff bit_1_iff)
qed

text \<open>When one of two trash holders goes, the tile no longer finds the other.\<close>

theorem second_trash_holder_lost:
  assumes "cls i = TrashHolderItem"
  shows "getTrashHolder cls (resetTileFlags T cls s i t) = None"
proof -
  have "\<not> bit (t_flags (resetTileFlags T cls s i t)) 14"
    using assms by (simp add: resetTileFlags_def Let_def lower_if_bit tilestate_defs bit_push_bit_iff bit_1_iff)
  then show ?thesis
    by (simp only: getTrashHolder_def find_flagged_def TILESTATE_TRASHHOLDER_def hasFlag_bit) simp
qed

text \<open>A second ground that is loaded is not put on the tile but has it as its parent.\<close>

theorem second_ground_has_parent:
  assumes "isGroundTile (type_of T (s_item s i))" "t_ground t = Some g" "i \<notin> on_tile_set t"
  shows "fst (tile_internalAddThing T cls k (TileItem i) (t, s)) = t \<and>
    s_parent (snd (tile_internalAddThing T cls k (TileItem i) (t, s))) i = Some (Outside k)"
  using assms by (simp add: tile_internalAddThing_def Let_def)

end
