(* ===== verification/Tile_Query.thy ===== *)
theory Tile_Query
  imports Tiles Map_World "HOL-Library.Signed_Division"
begin

text \<open>
  What a tile answers before something is put on it or taken from it: \<open>Tile::queryAdd\<close>,
  \<open>queryRemove\<close>, \<open>queryMaxCount\<close> and \<open>queryDestination\<close> of \<open>src/src/tile.cpp\<close>, with what they ask of
  creatures (\<open>creature.h\<close>, \<open>monster.cpp\<close>, \<open>player.cpp\<close>) and of magic fields (\<open>combat.h\<close>,
  \<open>ConditionDamage::getTotalDamage\<close> of \<open>condition.cpp\<close>). Creatures and tiles have addresses; the
  damage of a field type is given by its identifier.
\<close>

section \<open>Creatures\<close>

datatype creature_kind = PlayerKind | MonsterKind | NpcKind

record monster_info =
  mt_pushable :: bool
  mt_canPushItems :: bool
  mt_canPushCreatures :: bool
  mt_canWalkOnEnergy :: bool
  mt_canWalkOnFire :: bool
  mt_canWalkOnPoison :: bool
  mt_damageImmunities :: u32

record creature =
  cr_kind :: creature_kind
  cr_master :: "nat option"
  cr_tile :: "nat option"
  cr_position :: "u16 \<times> u16 \<times> byte"
  mType :: monster_info
  baseSpeed :: u32
  ignoreFieldDamage :: bool
  ghostMode :: bool
  group_access :: bool
  cr_level :: u32
  pzLocked :: bool
  cr_parent :: bool
  lastWalkthroughAttempt :: int
  lastWalkthroughPosition :: "u16 \<times> u16 \<times> byte"

type_synonym creatures = "nat \<Rightarrow> creature"

definition isInGhostMode :: "creature \<Rightarrow> bool" where
  "isInGhostMode c \<longleftrightarrow> cr_kind c = PlayerKind \<and> ghostMode c"

definition isSummon :: "creature \<Rightarrow> bool" where "isSummon c \<longleftrightarrow> cr_master c \<noteq> None"

definition monster_isPushable :: "creature \<Rightarrow> bool" where
  "monster_isPushable c \<longleftrightarrow> mt_pushable (mType c) \<and> baseSpeed c \<noteq> 0"

definition canPushItems :: "creatures \<Rightarrow> creature \<Rightarrow> bool" where
  "canPushItems cs c =
     (case cr_master c of
        Some m \<Rightarrow> if cr_kind (cs m) = MonsterKind then mt_canPushItems (mType (cs m)) else mt_canPushItems (mType c)
      | None \<Rightarrow> mt_canPushItems (mType c))"

definition COMBAT_ENERGYDAMAGE :: u16 where "COMBAT_ENERGYDAMAGE = 2"
definition COMBAT_EARTHDAMAGE :: u16 where "COMBAT_EARTHDAMAGE = 4"
definition COMBAT_FIREDAMAGE :: u16 where "COMBAT_FIREDAMAGE = 8"

definition canWalkOnFieldType :: "u16 \<Rightarrow> creature \<Rightarrow> bool" where
  "canWalkOnFieldType combatType c =
     (if combatType = COMBAT_ENERGYDAMAGE then mt_canWalkOnEnergy (mType c)
      else if combatType = COMBAT_FIREDAMAGE then mt_canWalkOnFire (mType c)
      else if combatType = COMBAT_EARTHDAMAGE then mt_canWalkOnPoison (mType c) else True)"

definition isImmune :: "u16 \<Rightarrow> creature \<Rightarrow> bool" where
  "isImmune combatType c = hasBitSet (ucast combatType) (mt_damageImmunities (mType c))"

text \<open>\<open>Player::canWalkthrough\<close> remembers the last try and the last place; the settings are \<open>allow\<close> and \<open>protection\<close>.\<close>

definition canWalkthrough ::
  "items_table \<Rightarrow> item_store \<Rightarrow> (nat \<Rightarrow> tile) \<Rightarrow> bool \<Rightarrow> u32 \<Rightarrow> int \<Rightarrow> nat \<Rightarrow> nat \<Rightarrow> creatures \<Rightarrow> bool \<times> creatures" where
  "canWalkthrough T s tiles allow protection now me other cs =
     (if group_access (cs me) \<or> isInGhostMode (cs other) then (True, cs)
      else if cr_kind (cs other) \<noteq> PlayerKind \<or> \<not> allow then (False, cs)
      else case cr_tile (cs other) of
             None \<Rightarrow> (False, cs)
           | Some k \<Rightarrow>
               if \<not> hasFlag TILESTATE_PROTECTIONZONE (tiles k) \<and> cr_level (cs other) > protection then (False, cs)
               else case t_ground (tiles k) of
                      None \<Rightarrow> (False, cs)
                    | Some g \<Rightarrow>
                        let place = cr_position (cs other)
                        in if \<not> it_walkStack (type_of T (s_item s g)) then (False, cs)
                           else if now - lastWalkthroughAttempt (cs me) > 2000
                             then (False, cs(me := (cs me)\<lparr>lastWalkthroughAttempt := now\<rparr>))
                           else if place \<noteq> lastWalkthroughPosition (cs me)
                             then (False, cs(me := (cs me)\<lparr>lastWalkthroughPosition := place\<rparr>))
                           else (True, cs(me := (cs me)\<lparr>lastWalkthroughPosition := place\<rparr>)))"

fun walk_through_all :: "(nat \<Rightarrow> creatures \<Rightarrow> bool \<times> creatures) \<Rightarrow> nat list \<Rightarrow> creatures \<Rightarrow> bool \<times> creatures" where
  "walk_through_all ask [] cs = (True, cs)"
| "walk_through_all ask (c # rest) cs =
     (case ask c cs of (False, cs) \<Rightarrow> (False, cs) | (True, cs) \<Rightarrow> walk_through_all ask rest cs)"

section \<open>Magic fields\<close>

record condition_damage =
  damageList :: "int list"
  minDamage :: int
  maxDamage :: int

definition getTotalDamage :: "condition_damage \<Rightarrow> int" where
  "getTotalDamage d =
     \<bar>if damageList d \<noteq> [] then sum_list (damageList d) else minDamage d + (maxDamage d - minDamage d) sdiv 2\<bar>"

definition field_getDamage :: "(u16 \<Rightarrow> condition_damage option) \<Rightarrow> item_store \<Rightarrow> nat \<Rightarrow> int" where
  "field_getDamage damage s i = (case damage (i_id (s_item s i)) of Some d \<Rightarrow> getTotalDamage d | None \<Rightarrow> 0)"

section \<open>Putting something on a tile\<close>

definition FLAG_IGNOREBLOCKITEM :: u32 where "FLAG_IGNOREBLOCKITEM = 2"
definition FLAG_IGNOREBLOCKCREATURE :: u32 where "FLAG_IGNOREBLOCKCREATURE = 4"
definition FLAG_PATHFINDING :: u32 where "FLAG_PATHFINDING = 16"
definition FLAG_IGNOREFIELDDAMAGE :: u32 where "FLAG_IGNOREFIELDDAMAGE = 32"

text \<open>What a monster that pushes creatures cannot push: what is no monster, is fixed, or is a player's summon.\<close>

definition stands_firm :: "creatures \<Rightarrow> nat \<Rightarrow> bool" where
  "stands_firm cs c \<longleftrightarrow>
     \<not> isInGhostMode (cs c) \<and>
     (cr_kind (cs c) \<noteq> MonsterKind \<or> \<not> monster_isPushable (cs c) \<or>
      (case cr_master (cs c) of None \<Rightarrow> False | Some m \<Rightarrow> cr_kind (cs m) = PlayerKind))"

definition monster_enters ::
  "items_table \<Rightarrow> class_map \<Rightarrow> (u16 \<Rightarrow> condition_damage option) \<Rightarrow> item_store \<Rightarrow> creatures \<Rightarrow> nat \<Rightarrow> u32 \<Rightarrow> tile
     \<Rightarrow> return_value" where
  "monster_enters T cls damage s cs c flags t =
     (let monster = cs c in
      if hasFlag (TILESTATE_PROTECTIONZONE OR TILESTATE_FLOORCHANGE OR TILESTATE_TELEPORT) t then RETURNVALUE_NOTPOSSIBLE
      else if mt_canPushCreatures (mType monster) \<and> \<not> isSummon monster \<and> list_ex (stands_firm cs) (t_creatures t)
        then RETURNVALUE_NOTPOSSIBLE
      else if \<not> (mt_canPushCreatures (mType monster) \<and> \<not> isSummon monster) \<and>
              list_ex (\<lambda>o'. \<not> isInGhostMode (cs o')) (t_creatures t)
        then RETURNVALUE_NOTENOUGHROOM
      else if hasFlag TILESTATE_IMMOVABLEBLOCKSOLID t then RETURNVALUE_NOTPOSSIBLE
      else if hasBitSet FLAG_PATHFINDING flags \<and> hasFlag TILESTATE_IMMOVABLENOFIELDBLOCKPATH t
        then RETURNVALUE_NOTPOSSIBLE
      else if (hasFlag TILESTATE_BLOCKSOLID t \<or>
               hasBitSet FLAG_PATHFINDING flags \<and> hasFlag TILESTATE_NOFIELDBLOCKPATH t) \<and>
              \<not> (canPushItems cs monster \<or> hasBitSet FLAG_IGNOREBLOCKITEM flags)
        then RETURNVALUE_NOTPOSSIBLE
      else case getFieldItem cls t of
             None \<Rightarrow> RETURNVALUE_NOERROR
           | Some f \<Rightarrow>
               let combatType = it_combatType (type_of T (s_item s f))
               in if it_blockSolid (type_of T (s_item s f)) \<or> field_getDamage damage s f = 0 then RETURNVALUE_NOERROR
                  else if \<not> isImmune combatType monster \<and>
                     \<not> (hasBitSet FLAG_IGNOREFIELDDAMAGE flags \<and>
                        (canWalkOnFieldType combatType monster \<or> ignoreFieldDamage monster))
                    then RETURNVALUE_NOTPOSSIBLE
                  else RETURNVALUE_NOERROR)"

definition solid_fixed :: "items_table \<Rightarrow> item_store \<Rightarrow> nat \<Rightarrow> bool" where
  "solid_fixed T s i \<longleftrightarrow> it_blockSolid (type_of T (s_item s i)) \<and>
     (\<not> it_moveable (type_of T (s_item s i)) \<or> item_hasAttribute ITEM_ATTRIBUTE_UNIQUEID (s_item s i))"

definition items_let_in :: "items_table \<Rightarrow> item_store \<Rightarrow> u32 \<Rightarrow> tile \<Rightarrow> return_value" where
  "items_let_in T s flags t =
     (if \<not> hasBitSet FLAG_IGNOREBLOCKITEM flags then
        (if hasFlag TILESTATE_BLOCKSOLID t then RETURNVALUE_NOTENOUGHROOM else RETURNVALUE_NOERROR)
      else if (case t_ground t of Some g \<Rightarrow> solid_fixed T s g | None \<Rightarrow> False) then RETURNVALUE_NOTPOSSIBLE
      else if list_ex (solid_fixed T s) (t_items t) then RETURNVALUE_NOTPOSSIBLE else RETURNVALUE_NOERROR)"

text \<open>A player who may not enter a protection zone for a while; \<open>from\<close> is the tile he is on.\<close>

definition pz_locked_verdict :: "tile \<Rightarrow> tile \<Rightarrow> return_value option" where
  "pz_locked_verdict from t =
     (if \<not> hasFlag TILESTATE_PVPZONE from \<and> hasFlag TILESTATE_PVPZONE t
        then Some RETURNVALUE_PLAYERISPZLOCKEDENTERPVPZONE
      else if hasFlag TILESTATE_PVPZONE from \<and> \<not> hasFlag TILESTATE_PVPZONE t
        then Some RETURNVALUE_PLAYERISPZLOCKEDLEAVEPVPZONE
      else if \<not> hasFlag TILESTATE_NOPVPZONE from \<and> hasFlag TILESTATE_NOPVPZONE t \<or>
              \<not> hasFlag TILESTATE_PROTECTIONZONE from \<and> hasFlag TILESTATE_PROTECTIONZONE t
        then Some RETURNVALUE_PLAYERISPZLOCKED else None)"

definition creature_queryAdd ::
  "items_table \<Rightarrow> class_map \<Rightarrow> (u16 \<Rightarrow> condition_damage option) \<Rightarrow> (nat \<Rightarrow> tile) \<Rightarrow> bool \<Rightarrow> u32 \<Rightarrow> int \<Rightarrow>
     item_store \<Rightarrow> nat \<Rightarrow> u32 \<Rightarrow> tile \<Rightarrow> creatures \<Rightarrow> return_value \<times> creatures" where
  "creature_queryAdd T cls damage tiles allow protection now s c flags t cs =
     (if hasBitSet FLAG_NOLIMIT flags then (RETURNVALUE_NOERROR, cs)
      else if hasBitSet FLAG_PATHFINDING flags \<and> hasFlag (TILESTATE_FLOORCHANGE OR TILESTATE_TELEPORT) t
        then (RETURNVALUE_NOTPOSSIBLE, cs)
      else if t_ground t = None then (RETURNVALUE_NOTPOSSIBLE, cs)
      else case cr_kind (cs c) of
          MonsterKind \<Rightarrow> (monster_enters T cls damage s cs c flags t, cs)
        | PlayerKind \<Rightarrow>
            (case (if \<not> hasBitSet FLAG_IGNOREBLOCKCREATURE flags \<and> \<not> group_access (cs c)
                   then walk_through_all (canWalkthrough T s tiles allow protection now c) (t_creatures t) cs
                   else (True, cs)) of
               (False, cs) \<Rightarrow> (RETURNVALUE_NOTPOSSIBLE, cs)
             | (True, cs) \<Rightarrow>
                 if \<not> cr_parent (cs c) \<and> hasFlag TILESTATE_NOLOGOUT t then (RETURNVALUE_NOTPOSSIBLE, cs)
                 else case (case cr_tile (cs c) of
                              Some k \<Rightarrow> if pzLocked (cs c) then pz_locked_verdict (tiles k) t else None
                            | None \<Rightarrow> None) of
                        Some r \<Rightarrow> (r, cs)
                      | None \<Rightarrow> (items_let_in T s flags t, cs))
        | NpcKind \<Rightarrow>
            if \<not> hasBitSet FLAG_IGNOREBLOCKCREATURE flags \<and> list_ex (\<lambda>o'. \<not> isInGhostMode (cs o')) (t_creatures t)
            then (RETURNVALUE_NOTENOUGHROOM, cs)
            else (items_let_in T s flags t, cs))"

text \<open>Whether the item \<open>i\<close> that lies on the tile leaves no room for \<open>item\<close>; the ground is asked first.\<close>

definition leaves_no_room :: "items_table \<Rightarrow> item_store \<Rightarrow> nat \<Rightarrow> nat \<Rightarrow> bool" where
  "leaves_no_room T s item i \<longleftrightarrow>
     (let it = type_of T (s_item s item); iiType = type_of T (s_item s i)
      in it_blockSolid iiType \<and> \<not> (it_ignoreBlocking iiType \<and> \<not> isMagicField it \<and> \<not> it_blockSolid it) \<and>
         (\<not> it_pickupable it \<or> \<not> it_hasHeight iiType \<or> it_pickupable iiType \<or> it_type iiType = ITEM_TYPE_BED))"

definition item_queryAdd ::
  "items_table \<Rightarrow> item_store \<Rightarrow> creatures \<Rightarrow> nat \<Rightarrow> u32 \<Rightarrow> tile \<Rightarrow> return_value" where
  "item_queryAdd T s cs item flags t =
     (let it = type_of T (s_item s item) in
      if length (t_items t) \<ge> 0xFFFF then RETURNVALUE_NOTPOSSIBLE
      else if hasBitSet FLAG_NOLIMIT flags then RETURNVALUE_NOERROR
      else if t_ground t = None \<and> \<not> it_isHangable it then RETURNVALUE_NOTPOSSIBLE
      else if it_blockSolid it \<and> \<not> hasBitSet FLAG_IGNOREBLOCKCREATURE flags \<and>
              list_ex (\<lambda>o'. \<not> isInGhostMode (cs o')) (t_creatures t)
        then RETURNVALUE_NOTENOUGHROOM
      else if it_isHangable it \<and> hasFlag TILESTATE_SUPPORTS_HANGABLE t then
        (if list_ex (\<lambda>i. it_isHangable (type_of T (s_item s i))) (t_items t)
         then RETURNVALUE_NEEDEXCHANGE else RETURNVALUE_NOERROR)
      else if (case t_ground t of Some g \<Rightarrow> leaves_no_room T s item g | None \<Rightarrow> False) then RETURNVALUE_NOTENOUGHROOM
      else if list_ex (leaves_no_room T s item) (t_items t) then RETURNVALUE_NOTENOUGHROOM
      else RETURNVALUE_NOERROR)"

definition tile_queryMaxCount :: "u32 \<Rightarrow> return_value \<times> u32" where
  "tile_queryMaxCount count = (RETURNVALUE_NOERROR, max 1 count)"

definition tile_queryRemove :: "items_table \<Rightarrow> item_store \<Rightarrow> tile_thing \<Rightarrow> u32 \<Rightarrow> u32 \<Rightarrow> tile \<Rightarrow> return_value" where
  "tile_queryRemove T s thing count flags t =
     (if tile_getThingIndex T s thing t = -1 then RETURNVALUE_NOTPOSSIBLE
      else case thing of
             TileCreature c \<Rightarrow> RETURNVALUE_NOTPOSSIBLE
           | TileItem i \<Rightarrow>
               let it = type_of T (s_item s i)
               in if count = 0 \<or> it_stackable it \<and> count > ucast (i_count (s_item s i)) then RETURNVALUE_NOTPOSSIBLE
                  else if \<not> it_moveable it \<and> \<not> hasBitSet FLAG_IGNORENOTMOVEABLE flags then RETURNVALUE_NOTMOVEABLE
                  else RETURNVALUE_NOERROR)"

section \<open>Stairs\<close>

text \<open>The place a floor change leads to from \<open>(x, y, z)\<close>, before it is looked up in the map.\<close>

definition add_if :: "bool \<Rightarrow> u16 \<Rightarrow> u16 \<Rightarrow> u16" where "add_if c d n = (if c then n + d else n)"

definition down_place :: "(nat \<Rightarrow> tile) \<Rightarrow> nat world \<Rightarrow> u16 \<Rightarrow> u16 \<Rightarrow> byte \<Rightarrow> (u16 \<times> u16 \<times> byte) option" where
  "down_place tiles m x y dz =
     (if (case getTile m x (y - 1) dz of Some d \<Rightarrow> hasFlag TILESTATE_FLOORCHANGE_SOUTH_ALT (tiles d) | None \<Rightarrow> False)
        then Some (x, y - 2, dz)
      else if (case getTile m (x - 1) y dz of Some d \<Rightarrow> hasFlag TILESTATE_FLOORCHANGE_EAST_ALT (tiles d) | None \<Rightarrow> False)
        then Some (x - 2, y, dz)
      else case getTile m x y dz of
             None \<Rightarrow> None
           | Some d \<Rightarrow>
               let has = (\<lambda>flag. hasFlag flag (tiles d));
                   dy = add_if (has TILESTATE_FLOORCHANGE_SOUTH_ALT) (-2)
                     (add_if (has TILESTATE_FLOORCHANGE_SOUTH) (-1) (add_if (has TILESTATE_FLOORCHANGE_NORTH) 1 y));
                   dx = add_if (has TILESTATE_FLOORCHANGE_WEST) 1
                     (add_if (has TILESTATE_FLOORCHANGE_EAST_ALT) (-2) (add_if (has TILESTATE_FLOORCHANGE_EAST) (-1) x))
               in Some (dx, dy, dz))"

definition up_place :: "tile \<Rightarrow> u16 \<Rightarrow> u16 \<Rightarrow> byte \<Rightarrow> u16 \<times> u16 \<times> byte" where
  "up_place t x y dz =
     (let dy = add_if (hasFlag TILESTATE_FLOORCHANGE_SOUTH_ALT t) 2
            (add_if (hasFlag TILESTATE_FLOORCHANGE_SOUTH t) 1 (add_if (hasFlag TILESTATE_FLOORCHANGE_NORTH t) (-1) y));
          dx = add_if (hasFlag TILESTATE_FLOORCHANGE_EAST_ALT t) 2
            (add_if (hasFlag TILESTATE_FLOORCHANGE_WEST t) (-1) (add_if (hasFlag TILESTATE_FLOORCHANGE_EAST t) 1 x))
      in (dx, dy, dz))"

definition floor_place :: "(nat \<Rightarrow> tile) \<Rightarrow> nat world \<Rightarrow> tile \<Rightarrow> (u16 \<times> u16 \<times> byte) option" where
  "floor_place tiles m t =
     (case tilePos t of (x, y, z) \<Rightarrow>
        if hasFlag TILESTATE_FLOORCHANGE_DOWN t then down_place tiles m x y (z + 1)
        else if hasFlag TILESTATE_FLOORCHANGE t then Some (up_place t x y (z - 1)) else None)"

text \<open>The map holds addresses of tiles. The tile led to, the item that lies topmost there, and the flags.\<close>

definition tile_queryDestination :: "(nat \<Rightarrow> tile) \<Rightarrow> nat world \<Rightarrow> u32 \<Rightarrow> nat \<Rightarrow> nat \<times> nat option \<times> u32" where
  "tile_queryDestination tiles m flags k =
     (case Option.bind (floor_place tiles m (tiles k)) (\<lambda>(x, y, z). getTile m x y z) of
        None \<Rightarrow> (k, getTopDownItem (tiles k), flags)
      | Some d \<Rightarrow> (d, getTopDownItem (tiles d), flags OR FLAG_NOLIMIT))"

section \<open>What an answer is worth\<close>

lemma exact_flag:
  assumes "core_ok T cls s t" "(n, p) \<in> set exact_flags"
  shows "hasFlag (push_bit n 1) t \<longleftrightarrow> (\<exists>i \<in> on_tile_set t. hasProperty T (s_item s i) p)"
  using assms unfolding hasFlag_bit by (auto simp: core_ok_def flags_exact_iff)

lemma blocksolid_flag:
  "core_ok T cls s t \<Longrightarrow> hasFlag TILESTATE_BLOCKSOLID t \<longleftrightarrow> (\<exists>i \<in> on_tile_set t. it_blockSolid (type_of T (s_item s i)))"
  unfolding TILESTATE_BLOCKSOLID_def
  by (subst exact_flag [of _ _ _ _ _ CONST_PROP_BLOCKSOLID]) (simp_all add: exact_flags_def hasProperty_def Let_def)

lemma solid_fixed_iff: "solid_fixed T s i = hasProperty T (s_item s i) CONST_PROP_IMMOVABLEBLOCKSOLID"
  by (simp add: solid_fixed_def hasProperty_def Let_def)

lemma immovable_flag:
  "core_ok T cls s t \<Longrightarrow> hasFlag TILESTATE_IMMOVABLEBLOCKSOLID t \<longleftrightarrow> (\<exists>i \<in> on_tile_set t. solid_fixed T s i)"
  unfolding TILESTATE_IMMOVABLEBLOCKSOLID_def solid_fixed_iff
  by (rule exact_flag) (simp_all add: exact_flags_def)

lemma solid_fixed_solid: "solid_fixed T s i \<Longrightarrow> it_blockSolid (type_of T (s_item s i))"
  by (simp add: solid_fixed_def)

lemma items_let_in_iff:
  assumes "core_ok T cls s t"
  shows "items_let_in T s flags t = RETURNVALUE_NOERROR \<longleftrightarrow>
    (if hasBitSet FLAG_IGNOREBLOCKITEM flags then \<forall>i \<in> on_tile_set t. \<not> solid_fixed T s i
     else \<forall>i \<in> on_tile_set t. \<not> it_blockSolid (type_of T (s_item s i)))"
  using blocksolid_flag [OF assms]
  by (auto simp: items_let_in_def on_tile_set_def list_ex_iff split: option.splits)

text \<open>What may be on the tile for the creature \<open>c\<close> to enter.\<close>

definition clear_for :: "items_table \<Rightarrow> item_store \<Rightarrow> creatures \<Rightarrow> nat \<Rightarrow> u32 \<Rightarrow> tile \<Rightarrow> bool" where
  "clear_for T s cs c flags t \<longleftrightarrow>
     t_ground t \<noteq> None \<and> (\<forall>i \<in> on_tile_set t. \<not> solid_fixed T s i) \<and>
     (hasBitSet FLAG_IGNOREBLOCKITEM flags \<or> cr_kind (cs c) = MonsterKind \<and> canPushItems cs (cs c) \<or>
      (\<forall>i \<in> on_tile_set t. \<not> it_blockSolid (type_of T (s_item s i))))"

definition room_among :: "creatures \<Rightarrow> nat \<Rightarrow> u32 \<Rightarrow> tile \<Rightarrow> bool" where
  "room_among cs c flags t \<longleftrightarrow>
     (case cr_kind (cs c) of
        MonsterKind \<Rightarrow> \<forall>o' \<in> set (t_creatures t). isInGhostMode (cs o') \<or>
          mt_canPushCreatures (mType (cs c)) \<and> \<not> isSummon (cs c) \<and> \<not> stands_firm cs o'
      | NpcKind \<Rightarrow> hasBitSet FLAG_IGNOREBLOCKCREATURE flags \<or> (\<forall>o' \<in> set (t_creatures t). isInGhostMode (cs o'))
      | PlayerKind \<Rightarrow> True)"

lemma monster_enters_clear:
  assumes "core_ok T cls s t" "t_ground t \<noteq> None" "cr_kind (cs c) = MonsterKind"
    "monster_enters T cls damage s cs c flags t = RETURNVALUE_NOERROR"
  shows "clear_for T s cs c flags t \<and> room_among cs c flags t"
proof -
  have "\<not> hasFlag TILESTATE_IMMOVABLEBLOCKSOLID t" "hasFlag TILESTATE_BLOCKSOLID t \<Longrightarrow>
      canPushItems cs (cs c) \<or> hasBitSet FLAG_IGNOREBLOCKITEM flags"
    "mt_canPushCreatures (mType (cs c)) \<and> \<not> isSummon (cs c) \<Longrightarrow> \<not> list_ex (stands_firm cs) (t_creatures t)"
    "\<not> (mt_canPushCreatures (mType (cs c)) \<and> \<not> isSummon (cs c)) \<Longrightarrow>
      \<not> list_ex (\<lambda>o'. \<not> isInGhostMode (cs o')) (t_creatures t)"
    using assms(4) by (simp_all add: monster_enters_def Let_def split: if_splits)
  then show ?thesis
    using assms(2,3) by (auto simp: clear_for_def room_among_def immovable_flag [OF assms(1)]
        blocksolid_flag [OF assms(1)] list_ex_iff)
qed


section \<open>Up and down again\<close>


section \<open>An accepted item lies there\<close>

text \<open>A magic field on the tile that may not be replaced.\<close>

definition field_stays :: "items_table \<Rightarrow> class_map \<Rightarrow> item_store \<Rightarrow> tile \<Rightarrow> bool" where
  "field_stays T cls s t \<longleftrightarrow>
     (case find (\<lambda>i. cls i = MagicFieldItem) (down_items t) of
        Some old \<Rightarrow> \<not> it_replaceable (type_of T (s_item s old)) | None \<Rightarrow> False)"

lemma addThing_lands:
  assumes "length (t_items t) < 0xFFFF" "isMagicField (type_of T (s_item s i)) \<Longrightarrow> \<not> field_stays T cls s t"
  shows "i \<in> on_tile_set (fst (tile_addThing T cls k (TileItem i) (t, s)))"
proof -
  let ?s = "setParent (Some (Outside k)) i s"
  have "drop_field T cls (t, ?s) \<noteq> None" if "isMagicField (type_of T (s_item s i))"
    using assms(2) that by (auto simp: drop_field_def field_stays_def split: option.splits)
  then obtain ts where "isMagicField (type_of T (s_item s i)) \<Longrightarrow> drop_field T cls (t, ?s) = Some ts" by fastforce
  then show ?thesis
    using assms(1) by (auto simp: tile_addThing_def Let_def on_tile_set_def split: prod.split option.split)
qed

text \<open>
  C38: What \<open>queryAdd\<close> accepts \<open>addThing\<close> puts on the tile, and the tile is well formed again and the parent of the
  item; the one exception is a magic field on a tile with one that may not be replaced: it is accepted, and
  \<open>addThing\<close> leaves the tile alone and the item without a parent.
\<close>

theorem accepted_item_lands:
  assumes "tile_ok T cls k (t, s)" "s_parent s i \<noteq> Some (Outside k)" "field_single T cls s i"
    "item_queryAdd T s cs i flags t = RETURNVALUE_NOERROR"
    "isMagicField (type_of T (s_item s i)) \<Longrightarrow> \<not> is_top T s i \<and> \<not> isGroundTile (type_of T (s_item s i))"
  shows "if isMagicField (type_of T (s_item s i)) \<and> field_stays T cls s t
    then tile_addThing T cls k (TileItem i) (t, s) = (t, setParent None i (setParent (Some (Outside k)) i s))
    else tile_ok T cls k (tile_addThing T cls k (TileItem i) (t, s)) \<and>
      i \<in> on_tile_set (fst (tile_addThing T cls k (TileItem i) (t, s))) \<and>
      s_parent (snd (tile_addThing T cls k (TileItem i) (t, s))) i = Some (Outside k)"
proof -
  let ?r = "tile_addThing T cls k (TileItem i) (t, s)"
  have room: "length (t_items t) < 0xFFFF"
    using assms(4) by (auto simp: item_queryAdd_def Let_def split: if_splits)
  show ?thesis
  proof (cases "isMagicField (type_of T (s_item s i)) \<and> field_stays T cls s t")
    case True
    then have "drop_field T cls (t, setParent (Some (Outside k)) i s) = None"
      by (auto simp: drop_field_def field_stays_def split: option.splits)
    then show ?thesis
      using True room assms(5) by (simp add: tile_addThing_def Let_def)
  next
    case False
    then have "i \<in> on_tile_set (fst ?r)" using addThing_lands [OF room] by blast
    moreover have "tile_ok T cls k ?r" using addThing_ok [OF assms(1)] assms(2,3) by simp
    ultimately show ?thesis using False by (auto simp: tile_ok_def held_here_def)
  qed
qed

section \<open>Witnesses\<close>

definition grass :: on_tile where
  "grass = tile_internalAddThing meadow (\<lambda>_. PlainItem) 9 (TileItem 0) (bare_tile, loose_items)"

lemma grass_ok: "tile_ok meadow (\<lambda>_. PlainItem) 9 grass"
  unfolding grass_def
  by (rule internalAddThing_ok [OF bare_tile_ok]) (simp add: tile_run)

lemma grass_fields:
  "t_ground (fst grass) = Some 0" "t_items (fst grass) = []" "t_creatures (fst grass) = []"
  "s_item (snd grass) = s_item loose_items" "s_parent (snd grass) = (\<lambda>_. None)(0 := Some (Outside 9))"
  by (simp_all add: grass_def tile_run fun_eq_iff)

definition visitor :: creature where
  "visitor = \<lparr>cr_kind = PlayerKind, cr_master = None, cr_tile = None, cr_position = (0, 0, 0),
     mType = \<lparr>mt_pushable = False, mt_canPushItems = False, mt_canPushCreatures = False, mt_canWalkOnEnergy = False,
       mt_canWalkOnFire = False, mt_canWalkOnPoison = False, mt_damageImmunities = 0\<rparr>,
     baseSpeed = 220, ignoreFieldDamage = False, ghostMode = False, group_access = False, cr_level = 8, pzLocked = False,
     cr_parent = True, lastWalkthroughAttempt = 0, lastWalkthroughPosition = (0, 0, 0)\<rparr>"


theorem accepted_item_lands_witness:
  "tile_ok meadow (\<lambda>_. PlainItem) 9 (tile_addThing meadow (\<lambda>_. PlainItem) 9 (TileItem 1) (fst grass, snd grass)) \<and>
   1 \<in> on_tile_set (fst (tile_addThing meadow (\<lambda>_. PlainItem) 9 (TileItem 1) (fst grass, snd grass)))"
proof -
  have "tile_ok meadow (\<lambda>_. PlainItem) 9 (fst grass, snd grass)" using grass_ok by simp
  from accepted_item_lands [OF this, of 1 "\<lambda>_. visitor" 0] show ?thesis
    by (simp add: grass_fields field_single_def item_queryAdd_def hasBitSet_def leaves_no_room_def isMagicField_def)
qed

definition stair :: tile where "stair = bare_tile\<lparr>t_flags := 2, tilePos := (100, 200, 7)\<rparr>"
definition hole :: tile where "hole = bare_tile\<lparr>t_flags := 1, tilePos := (100, 200, 6)\<rparr>"


end
