(* ===== verification/Game_Moves.thy ===== *)
theory Game_Moves
  imports Tile_Query
begin

text \<open>
  Moving items about, \<open>src/src/game.cpp\<close>: \<open>internalMoveItem\<close> and
  \<open>internalRemoveItem\<close>, over the containers of \<open>Containers\<close> and the tiles of \<open>Tiles\<close>. A cylinder
  \<open>Box c\<close> is a container and \<open>Outside k\<close> the tile at the address \<open>k\<close>, when nothing holds it; the inventory of
  a player is no cylinder here, and an operation on it, like one on a null pointer or a clone that cannot
  be made, has no result. The answers of scripts are a parameter; notifications after a move,
  house tiles and the lists of items to decay and to release are left out.
\<close>

section \<open>Cylinders\<close>

record rules =
  r_types :: items_table
  r_class :: class_map
  r_creatures :: creatures
  r_ask :: outer_query
  r_house :: "cylinder \<Rightarrow> return_value option"
  r_map :: "nat world"

record game =
  g_tiles :: "nat \<Rightarrow> tile"
  g_store :: item_store

definition is_tile :: "game \<Rightarrow> nat \<Rightarrow> bool" where
  "is_tile g k \<longleftrightarrow> s_outer (g_store g) k = None"

abbreviation item_of :: "game \<Rightarrow> nat \<Rightarrow> item" where "item_of g i \<equiv> s_item (g_store g) i"

definition on_store :: "game \<Rightarrow> item_store option \<Rightarrow> game option" where
  "on_store g r = map_option (\<lambda>s. g\<lparr>g_store := s\<rparr>) r"

definition on_tile :: "nat \<Rightarrow> (on_tile \<Rightarrow> on_tile) \<Rightarrow> game \<Rightarrow> game option" where
  "on_tile k f g =
     (if is_tile g k
      then (case f (g_tiles g k, g_store g) of (t, s) \<Rightarrow> Some (g\<lparr>g_tiles := (g_tiles g)(k := t), g_store := s\<rparr>))
      else None)"

definition cyl_getThingIndex :: "rules \<Rightarrow> cylinder \<Rightarrow> nat \<Rightarrow> game \<Rightarrow> int" where
  "cyl_getThingIndex R cyl i g =
     (case cyl of Box c \<Rightarrow> getThingIndex (g_store g) c i
      | Outside k \<Rightarrow> tile_getThingIndex (r_types R) (g_store g) (TileItem i) (g_tiles g k))"

definition cyl_queryDestination ::
  "rules \<Rightarrow> cylinder \<Rightarrow> int \<Rightarrow> nat \<Rightarrow> nat option \<Rightarrow> u32 \<Rightarrow> game \<Rightarrow> cylinder \<times> int \<times> nat option \<times> u32" where
  "cyl_queryDestination R cyl index i toItem flags g =
     (case cyl of
        Box c \<Rightarrow> (case queryDestination (r_types R) (g_store g) c index (ItemThing i) toItem flags of
                    (d, index, toItem) \<Rightarrow> (Box d, index, toItem, flags))
      | Outside k \<Rightarrow> (case tile_queryDestination (g_tiles g) (r_map R) flags k of
                    (d, toItem, flags) \<Rightarrow> (Outside d, index, toItem, flags)))"

definition cyl_queryAdd :: "rules \<Rightarrow> cylinder \<Rightarrow> int \<Rightarrow> nat \<Rightarrow> u32 \<Rightarrow> u32 \<Rightarrow> game \<Rightarrow> return_value option" where
  "cyl_queryAdd R cyl index i count flags g =
     (case cyl of
        Box c \<Rightarrow> queryAdd (r_types R) (r_ask R) (g_store g) c index (ItemThing i) count flags
      | Outside k \<Rightarrow> (if is_tile g k
                      then Some (item_queryAdd (r_types R) (g_store g) (r_creatures R) i flags (g_tiles g k)) else None))"

definition cyl_queryMaxCount :: "rules \<Rightarrow> cylinder \<Rightarrow> int \<Rightarrow> nat \<Rightarrow> u32 \<Rightarrow> u32 \<Rightarrow> game \<Rightarrow> (return_value \<times> u32) option" where
  "cyl_queryMaxCount R cyl index i count flags g =
     (case cyl of
        Box c \<Rightarrow> queryMaxCount (r_types R) (r_ask R) (g_store g) c index (ItemThing i) count flags
      | Outside k \<Rightarrow> (if is_tile g k then Some (tile_queryMaxCount count) else None))"

definition cyl_queryRemove :: "rules \<Rightarrow> cylinder \<Rightarrow> nat \<Rightarrow> u32 \<Rightarrow> u32 \<Rightarrow> game \<Rightarrow> return_value option" where
  "cyl_queryRemove R cyl i count flags g =
     (case cyl of
        Box c \<Rightarrow> queryRemove (r_types R) (r_house R) (g_store g) c (ItemThing i) count flags
      | Outside k \<Rightarrow> (if is_tile g k
                      then Some (tile_queryRemove (r_types R) (g_store g) (TileItem i) count flags (g_tiles g k)) else None))"

definition cyl_addThing :: "rules \<Rightarrow> cylinder \<Rightarrow> int \<Rightarrow> nat \<Rightarrow> game \<Rightarrow> game option" where
  "cyl_addThing R cyl index i g =
     (case cyl of
        Box c \<Rightarrow> on_store g (addThing (r_types R) c index (ItemThing i) (g_store g))
      | Outside k \<Rightarrow> on_tile k (tile_addThing (r_types R) (r_class R) k (TileItem i)) g)"

definition cyl_updateThing :: "rules \<Rightarrow> cylinder \<Rightarrow> nat \<Rightarrow> u16 \<Rightarrow> u32 \<Rightarrow> game \<Rightarrow> game option" where
  "cyl_updateThing R cyl i itemId count g =
     (case cyl of
        Box c \<Rightarrow> on_store g (updateThing (r_types R) c (ItemThing i) itemId (ucast count) (g_store g))
      | Outside k \<Rightarrow> on_tile k (tile_updateThing (r_types R) (r_class R) (TileItem i) itemId (ucast count)) g)"

definition cyl_removeThing :: "rules \<Rightarrow> cylinder \<Rightarrow> nat \<Rightarrow> u32 \<Rightarrow> game \<Rightarrow> game option" where
  "cyl_removeThing R cyl i count g =
     (case cyl of
        Box c \<Rightarrow> on_store g (removeThing (r_types R) c (ItemThing i) count (g_store g))
      | Outside k \<Rightarrow> on_tile k (tile_removeThing (r_types R) (r_class R) (TileItem i) count) g)"

section \<open>Moving an item\<close>

definition item_count :: "game \<Rightarrow> nat \<Rightarrow> u32" where "item_count g i = ucast (i_count (item_of g i))"

definition isStackable :: "rules \<Rightarrow> game \<Rightarrow> nat \<Rightarrow> bool" where
  "isStackable R g i \<longleftrightarrow> it_stackable (type_of (r_types R) (item_of g i))"

definition clone_item :: "items_table \<Rightarrow> item \<Rightarrow> item option" where
  "clone_item T x =
     map_option (\<lambda>(c, y).
         case i_attributes x of
           None \<Rightarrow> y
         | Some a \<Rightarrow>
             let y = y\<lparr>i_attributes := Some a\<rparr> in if getDuration y > 0 then setDecaying DECAYING_TRUE y else y)
       (CreateItem T (i_id x) (ucast (i_count x)))"

text \<open>The way to the cylinder that takes the item, over containers and floor changes.\<close>

function destination_loop :: "rules \<Rightarrow> nat \<Rightarrow> cylinder \<Rightarrow> int \<Rightarrow> nat \<Rightarrow> nat option \<Rightarrow> u32 \<Rightarrow> game
    \<Rightarrow> cylinder \<times> int \<times> nat option \<times> u32" where
  "destination_loop R floorN cyl index i toItem flags g =
     (case cyl_queryDestination R cyl index i toItem flags g of
        (sub, index, toItem, flags) \<Rightarrow>
          if sub = cyl then (cyl, index, toItem, flags)
          else if floorN + 1 \<ge> MAP_MAX_LAYERS then (sub, index, toItem, 0)
          else destination_loop R (floorN + 1) sub index i toItem 0 g)"
  by pat_completeness auto
termination by (relation "measure (\<lambda>(R, n, _). MAP_MAX_LAYERS - n)") auto

text \<open>\<open>item->equals(toItem)\<close>, which is false of a null pointer.\<close>

definition merges_with :: "game \<Rightarrow> nat \<Rightarrow> nat option \<Rightarrow> bool" where
  "merges_with g i toItem = (case toItem of None \<Rightarrow> False | Some j \<Rightarrow> item_equals (item_of g i) (item_of g j))"

text \<open>
  The exchange: what is there goes back to where the item comes from. The result is the answer to the
  question for room, the item that is left at the destination, and whether to stop at once.
\<close>

definition exchange_item :: "rules \<Rightarrow> (nat \<Rightarrow> bool) \<Rightarrow> cylinder \<Rightarrow> cylinder \<Rightarrow> int \<Rightarrow> nat \<Rightarrow> u32 \<Rightarrow> nat option \<Rightarrow> u32 \<Rightarrow> game
    \<Rightarrow> (bool \<times> return_value \<times> nat option \<times> game) option" where
  "exchange_item R script from to index i count toItem flags g =
     Option.bind toItem (\<lambda>j. let c = item_count g j in
     Option.bind (cyl_queryAdd R from (cyl_getThingIndex R from i g) j c 0 g) (\<lambda>ret.
       if ret \<noteq> RETURNVALUE_NOERROR then Some (False, ret, toItem, g)
       else if \<not> script j then Some (True, RETURNVALUE_NOTPOSSIBLE, toItem, g)
       else Option.bind (cyl_queryMaxCount R from INDEX_WHEREEVER j c 0 g) (\<lambda>(retMax, maxCount).
         if retMax \<noteq> RETURNVALUE_NOERROR \<and> maxCount = 0 then Some (True, retMax, toItem, g)
         else Option.bind (cyl_queryRemove R to j c flags g) (\<lambda>retRemove.
           if retRemove \<noteq> RETURNVALUE_NOERROR then Some (False, ret, toItem, g)
           else Option.bind (cyl_removeThing R to j c g) (\<lambda>g.
             Option.bind (cyl_addThing R from 0 j g) (\<lambda>g.
               map_option (\<lambda>ret. (False, ret, None, g)) (cyl_queryAdd R to index i count flags g)))))))"

text \<open>The item, or a part of a stack, is taken out, put onto an equal stack, and the rest added; \<open>new\<close> is a fresh address.\<close>

definition merge_stack :: "rules \<Rightarrow> cylinder \<Rightarrow> nat \<Rightarrow> nat option \<Rightarrow> u32 \<Rightarrow> game \<Rightarrow> (u32 \<times> game) option" where
  "merge_stack R to i toItem m g =
     (case toItem of
        Some j \<Rightarrow>
          if merges_with g i toItem then
            (let n = min (100 - item_count g j) m
             in map_option (\<lambda>g'. (n, g')) (cyl_updateThing R to j (i_id (item_of g j)) (item_count g j + n) g))
          else Some (0, g)
      | None \<Rightarrow> Some (0, g))"

definition perform_move :: "rules \<Rightarrow> cylinder \<Rightarrow> cylinder \<Rightarrow> int \<Rightarrow> nat \<Rightarrow> nat option \<Rightarrow> u32 \<Rightarrow> nat \<Rightarrow> game
    \<Rightarrow> (nat option \<times> game) option" where
  "perform_move R from to index i toItem m new g =
     Option.bind (cyl_removeThing R from i m g) (\<lambda>g.
       if isStackable R g i then
         Option.bind (merge_stack R to i toItem m g) (\<lambda>(n, g).
           let newCount = m - n
           in if 0 <s newCount then
                Option.bind (clone_item (r_types R) (item_of g i)) (\<lambda>x.
                  let g = g\<lparr>g_store := set_item new (setItemCount (ucast newCount) x) (g_store g)\<rparr>
                  in map_option (\<lambda>g. (Some new, g)) (cyl_addThing R to index new g))
              else Some (None, g))
       else map_option (\<lambda>g. (Some i, g)) (cyl_addThing R to index i g))"

definition begin_decay :: "nat \<Rightarrow> game \<Rightarrow> game" where
  "begin_decay i g =
     (if getDuration (item_of g i) > 0 \<and> getDecaying (item_of g i) \<noteq> DECAYING_TRUE
      then g\<lparr>g_store := set_item i (setDecaying DECAYING_TRUE (item_of g i)) (g_store g)\<rparr> else g)"

definition moved_part :: "rules \<Rightarrow> cylinder \<Rightarrow> cylinder \<Rightarrow> int \<Rightarrow> nat \<Rightarrow> u32 \<Rightarrow> nat option \<Rightarrow> u32 \<Rightarrow> nat option \<Rightarrow> nat \<Rightarrow> game
    \<Rightarrow> (return_value \<times> game) option" where
  "moved_part R from to index i count toItem flags tradeItem new g =
     Option.bind (cyl_queryMaxCount R to index i count flags g) (\<lambda>(retMax, maxCount).
       if retMax \<noteq> RETURNVALUE_NOERROR \<and> maxCount = 0 then Some (retMax, g)
       else
         let m = (if isStackable R g i then min count maxCount else maxCount)
         in Option.bind (cyl_queryRemove R from i m flags g) (\<lambda>ret.
              if ret \<noteq> RETURNVALUE_NOERROR then Some (ret, g)
              else Option.bind (case tradeItem of None \<Rightarrow> Some False | Some ti \<Rightarrow> holds_above (g_store g) ti (Some to)) (\<lambda>inTrade.
                if inTrade then Some (RETURNVALUE_NOTENOUGHROOM, g)
                else map_option (\<lambda>(moveItem, g).
                    if isStackable R g i \<and> maxCount < count then (retMax, g)
                    else (ret, case moveItem of Some j \<Rightarrow> begin_decay j g | None \<Rightarrow> g))
                  (perform_move R from to index i toItem m new g))))"

definition internalMoveItem :: "rules \<Rightarrow> (nat \<Rightarrow> bool) \<Rightarrow> cylinder \<Rightarrow> cylinder \<Rightarrow> int \<Rightarrow> nat \<Rightarrow> u32 \<Rightarrow> u32 \<Rightarrow> nat option \<Rightarrow> nat \<Rightarrow> game
    \<Rightarrow> (return_value \<times> game) option" where
  "internalMoveItem R script from to index i count flags tradeItem new g =
     (if \<not> script i then Some (RETURNVALUE_NOTPOSSIBLE, g)
      else case destination_loop R 0 to index i None flags g of
        (to, index, toItem, flags) \<Rightarrow>
          if toItem = Some i then Some (RETURNVALUE_NOERROR, g)
          else Option.bind (cyl_queryAdd R to index i count flags g) (\<lambda>ret.
            Option.bind (if ret = RETURNVALUE_NEEDEXCHANGE then exchange_item R script from to index i count toItem flags g
                         else Some (False, ret, toItem, g)) (\<lambda>(stop, ret, toItem, g).
              if stop \<or> ret \<noteq> RETURNVALUE_NOERROR then Some (ret, g)
              else moved_part R from to index i count toItem flags tradeItem new g)))"

section \<open>Taking an item away\<close>

definition internalRemoveItem :: "rules \<Rightarrow> (nat \<Rightarrow> bool) \<Rightarrow> nat \<Rightarrow> int \<Rightarrow> bool \<Rightarrow> u32 \<Rightarrow> game \<Rightarrow> (return_value \<times> game) option" where
  "internalRemoveItem R canRemove i count test flags g =
     (case s_parent (g_store g) i of
        None \<Rightarrow> Some (RETURNVALUE_NOTPOSSIBLE, g)
      | Some cyl \<Rightarrow>
          let count = (if count = -1 then item_count g i else word_of_int count)
          in Option.bind (cyl_queryRemove R cyl i count (flags OR FLAG_IGNORENOTMOVEABLE) g) (\<lambda>ret.
               if ret \<noteq> RETURNVALUE_NOERROR then Some (ret, g)
               else if \<not> canRemove i then Some (RETURNVALUE_NOTPOSSIBLE, g)
               else if test then Some (RETURNVALUE_NOERROR, g)
               else map_option (Pair RETURNVALUE_NOERROR) (cyl_removeThing R cyl i count g)))"

section \<open>What is where\<close>

text \<open>How much there is of the items of one identifier, in all that holds items.\<close>

definition share :: "u16 \<Rightarrow> item \<Rightarrow> nat" where
  "share ty x = (if i_id x = ty then unat (i_count x) else 0)"

definition amount :: "(nat \<Rightarrow> cylinder option) \<Rightarrow> (nat \<Rightarrow> item) \<Rightarrow> u16 \<Rightarrow> nat" where
  "amount h l ty = (\<Sum>i | h i \<noteq> None. share ty (l i))"

lemma amount_drop:
  assumes "finite {i. h i \<noteq> None}" "h i \<noteq> None"
  shows "amount (h(i := None)) l ty + share ty (l i) = amount h l ty"
proof -
  have "{j. (h(i := None)) j \<noteq> None} = {j. h j \<noteq> None} - {i}" by auto
  then show ?thesis using assms by (simp add: amount_def sum.remove [of _ i])
qed

lemma amount_put:
  assumes "finite {i. h i \<noteq> None}" "h i = None"
  shows "amount (h(i := Some c)) l ty = amount h l ty + share ty (l i)"
proof -
  have "{j. (h(i := Some c)) j \<noteq> None} = insert i {j. h j \<noteq> None}" by auto
  then show ?thesis using assms by (simp add: amount_def)
qed

lemma amount_change:
  assumes "finite {i. h i \<noteq> None}" "h i \<noteq> None" "\<And>k. k \<noteq> i \<Longrightarrow> l' k = l k"
  shows "amount h l' ty + share ty (l i) = amount h l ty + share ty (l' i)"
proof -
  have "sum (\<lambda>j. share ty (l' j)) ({j. h j \<noteq> None} - {i}) = sum (\<lambda>j. share ty (l j)) ({j. h j \<noteq> None} - {i})"
    using assms(3) by (intro sum.cong) auto
  then show ?thesis using assms(1,2) by (simp add: amount_def sum.remove [of _ i])
qed

lemma amount_elsewhere: "h i = None \<Longrightarrow> amount h (l(i := x)) ty = amount h l ty"
  unfolding amount_def by (rule sum.cong) auto

lemma amount_same_share: "(\<And>i ty. share ty (l' i) = share ty (l i)) \<Longrightarrow> amount h l' ty = amount h l ty"
  by (simp add: amount_def)

lemma byte_bound: "unat (c :: byte) < 256"
proof -
  have "unat c < 2 ^ LENGTH(8)" by (rule unsigned_less)
  then show ?thesis by simp
qed

lemma byte_up: "unat (ucast (c :: byte) :: u32) = unat c"
  by (simp add: unsigned_ucast_eq take_bit_nat_eq_self_iff) (use byte_bound [of c] in simp)

lemma byte_down: "unat (n :: u32) < 256 \<Longrightarrow> unat (ucast n :: byte) = unat n"
  by (simp add: unsigned_ucast_eq take_bit_nat_eq_self_iff)

section \<open>The contract of what holds items\<close>

text \<open>
  \<open>room\<close> says that an item may be added, \<open>fresh\<close> that an address is free for a clone; a change keeps both;
  \<open>served\<close> is what the operations can be asked of.
\<close>

locale item_holders =
  fixes ok :: "'w \<Rightarrow> bool" and holder :: "'w \<Rightarrow> nat \<Rightarrow> cylinder option" and look :: "'w \<Rightarrow> nat \<Rightarrow> item"
    and stacks :: "item \<Rightarrow> bool" and room :: "cylinder \<Rightarrow> int \<Rightarrow> nat \<Rightarrow> 'w \<Rightarrow> bool" and fresh :: "nat \<Rightarrow> 'w \<Rightarrow> bool"
    and served :: "cylinder \<Rightarrow> 'w \<Rightarrow> bool"
    and keeps :: "'w \<Rightarrow> 'w \<Rightarrow> bool"
    and remove :: "cylinder \<Rightarrow> nat \<Rightarrow> u32 \<Rightarrow> 'w \<Rightarrow> 'w option"
    and update :: "cylinder \<Rightarrow> nat \<Rightarrow> u32 \<Rightarrow> 'w \<Rightarrow> 'w option"
    and add :: "cylinder \<Rightarrow> int \<Rightarrow> nat \<Rightarrow> 'w \<Rightarrow> 'w option"
    and put_back :: "nat \<Rightarrow> item \<Rightarrow> 'w \<Rightarrow> 'w"
  assumes placed_finite: "ok w \<Longrightarrow> finite {i. holder w i \<noteq> None}"
    and keeps_room: "keeps w w' \<Longrightarrow> room c x i w \<Longrightarrow> room c x i w'"
    and keeps_fresh: "keeps w w' \<Longrightarrow> fresh j w \<Longrightarrow> fresh j w'"
    and keeps_served: "keeps w w' \<Longrightarrow> served c w \<Longrightarrow> served c w'"
    and remove_whole: "\<lbrakk>ok w; served c w; holder w i = Some c; \<not> stacks (look w i) \<or> n = ucast (i_count (look w i))\<rbrakk> \<Longrightarrow>
      \<exists>w'. remove c i n w = Some w' \<and> ok w' \<and> look w' = look w \<and> holder w' = (holder w)(i := None) \<and>
        keeps w w'"
    and remove_part: "\<lbrakk>ok w; served c w; holder w i = Some c; stacks (look w i); n < ucast (i_count (look w i))\<rbrakk> \<Longrightarrow>
      \<exists>w'. remove c i n w = Some w' \<and> ok w' \<and>
        look w' = (look w)(i := setItemCount (i_count (look w i) - ucast n) (look w i)) \<and> holder w' = holder w \<and>
        keeps w w'"
    and update_count: "\<lbrakk>ok w; served c w; holder w j = Some c; stacks (look w j); n \<le> 100\<rbrakk> \<Longrightarrow>
      \<exists>w'. update c j n w = Some w' \<and> ok w' \<and> holder w' = holder w \<and> i_id (look w' j) = i_id (look w j) \<and>
        i_count (look w' j) = ucast n \<and> (\<forall>k. k \<noteq> j \<longrightarrow> look w' k = look w k) \<and>
        keeps w w'"
    and add_loose: "\<lbrakk>ok w; holder w i = None; room c x i w\<rbrakk> \<Longrightarrow>
      \<exists>w'. add c x i w = Some w' \<and> ok w' \<and> look w' = look w \<and> holder w' = (holder w)(i := Some c)"
    and put_fresh: "\<lbrakk>ok w; holder w j = None; fresh j w; room c x i w; i \<noteq> j; i_id y = i_id (look w i); stacks y\<rbrakk> \<Longrightarrow>
      ok (put_back j y w) \<and> look (put_back j y w) = (look w)(j := y) \<and> holder (put_back j y w) = holder w \<and>
      room c x j (put_back j y w)"
begin

definition total :: "'w \<Rightarrow> u16 \<Rightarrow> nat" where "total w = amount (holder w) (look w)"

lemma take_out:
  assumes "ok w" "served c w" "holder w i = Some c" "if stacks (look w i) then n \<le> ucast (i_count (look w i)) else True"
  shows "\<exists>w'. remove c i n w = Some w' \<and> ok w' \<and> (\<forall>j. j \<noteq> i \<longrightarrow> holder w' j = holder w j \<and> look w' j = look w j) \<and>
    i_id (look w' i) = i_id (look w i) \<and> (stacks (look w i) \<and> n < ucast (i_count (look w i)) \<or> holder w' i = None \<and> look w' = look w) \<and>
    (i_count (look w i) \<noteq> 0 \<longrightarrow> i_count (look w' i) \<noteq> 0) \<and>
    (\<forall>ty. total w' ty + (if i_id (look w i) = ty then if stacks (look w i) then unat n else unat (i_count (look w i)) else 0)
       = total w ty) \<and>
    keeps w w'"
proof (cases "stacks (look w i) \<and> n < ucast (i_count (look w i))")
  case True
  let ?c = "i_count (look w i)"
  have n: "unat n < unat ?c" "unat (ucast n :: byte) = unat n"
  proof -
    show n: "unat n < unat ?c" using True byte_up [of ?c] by (simp only: word_less_nat_alt)
    have "unat ?c < 256" by (rule byte_bound)
    then show "unat (ucast n :: byte) = unat n" using n by (intro byte_down) simp
  qed
  obtain w' where w': "remove c i n w = Some w'" "ok w'" "holder w' = holder w"
    "look w' = (look w)(i := setItemCount (?c - ucast n) (look w i))"
    "keeps w w'"
    using remove_part [OF assms(1-3)] True by blast
  have left: "unat (?c - ucast n) = unat ?c - unat n" using n by (subst unat_sub) (simp_all add: word_le_nat_alt)
  then have "?c - ucast n \<noteq> 0" using n(1) by (metis unat_0 zero_less_diff less_irrefl)
  moreover have "total w' ty + (if i_id (look w i) = ty then unat n else 0) = total w ty" for ty
    using amount_change [OF placed_finite [OF assms(1)], of i "look w'" "look w" ty] assms(3) w'(3,4) n left
    by (auto simp: total_def share_def setItemCount_def)
  ultimately show ?thesis
    using w' True by (auto simp: setItemCount_def)
next
  case False
  then have "\<not> stacks (look w i) \<or> n = ucast (i_count (look w i))" using assms(4) by (auto split: if_splits)
  then obtain w' where w': "remove c i n w = Some w'" "ok w'" "look w' = look w" "holder w' = (holder w)(i := None)"
    "keeps w w'"
    using remove_whole [OF assms(1-3)] by blast
  have t: "total w' ty + share ty (look w i) = total w ty" for ty
    using amount_drop [OF placed_finite [OF assms(1)], of i "look w" ty] assms(3) w'(3,4) by (simp add: total_def)
  have m: "(if stacks (look w i) then unat n else unat (i_count (look w i))) = unat (i_count (look w i))"
    using \<open>\<not> stacks (look w i) \<or> n = ucast (i_count (look w i))\<close> by (auto simp: byte_up)
  have "total w' ty + (if i_id (look w i) = ty then if stacks (look w i) then unat n else unat (i_count (look w i))
      else 0) = total w ty" for ty unfolding m using t [of ty] by (auto simp: share_def)
  then show ?thesis
    using w' False by simp
qed

lemma put_in:
  assumes "ok w" "holder w i = None" "room c x i w"
  shows "\<exists>w'. add c x i w = Some w' \<and> ok w' \<and> look w' = look w \<and> holder w' i = Some c \<and>
    (\<forall>ty. total w' ty = total w ty + share ty (look w i))"
  using add_loose [OF assms] amount_put [OF placed_finite [OF assms(1)] assms(2)] by (auto simp: total_def)

lemma grow:
  assumes "ok w" "served c w" "holder w j = Some c" "stacks (look w j)" "ucast (i_count (look w j)) + n \<le> (100 :: u32)" "n \<le> 100"
  shows "\<exists>w'. update c j (ucast (i_count (look w j)) + n) w = Some w' \<and> ok w' \<and> holder w' = holder w \<and>
    i_id (look w' j) = i_id (look w j) \<and> (\<forall>k. k \<noteq> j \<longrightarrow> look w' k = look w k) \<and>
    (\<forall>ty. total w' ty = total w ty + (if i_id (look w j) = ty then unat n else 0)) \<and>
    keeps w w'"
proof -
  let ?c = "i_count (look w j)" and ?n = "ucast (i_count (look w j)) + n"
  have c: "unat (ucast ?c :: u32) = unat ?c" "unat ?c < 256" by (rule byte_up, rule byte_bound)
  have n: "unat n \<le> 100" using assms(6) by (simp add: word_le_nat_alt)
  have sum: "unat ?n = unat ?c + unat n" using c n by (subst unat_add_lem [THEN iffD1]) simp_all
  moreover have "unat ?n \<le> 100" using assms(5) by (simp add: word_le_nat_alt)
  ultimately have small: "unat (ucast ?n :: byte) = unat ?c + unat n" by (subst byte_down) simp_all
  obtain w' where w': "update c j ?n w = Some w'" "ok w'" "holder w' = holder w" "i_id (look w' j) = i_id (look w j)"
    "i_count (look w' j) = ucast ?n" "\<forall>k. k \<noteq> j \<longrightarrow> look w' k = look w k"
    "keeps w w'"
    using update_count [OF assms(1-5)] by blast
  have "total w' ty = total w ty + (if i_id (look w j) = ty then unat n else 0)" for ty
    using amount_change [OF placed_finite [OF assms(1)], of j "look w'" "look w" ty] assms(3) w'(3-6) small
    by (auto simp: total_def share_def)
  then show ?thesis using w' by blast
qed

lemma put_copy:
  assumes "ok w" "holder w j = None" "fresh j w" "room c x i w" "i \<noteq> j" "i_id y = i_id (look w i)" "stacks y"
  shows "\<exists>w'. add c x j (put_back j y w) = Some w' \<and> ok w' \<and> look w' = (look w)(j := y) \<and>
    (\<forall>ty. total w' ty = total w ty + share ty y)"
proof -
  have p: "ok (put_back j y w)" "look (put_back j y w) = (look w)(j := y)" "holder (put_back j y w) = holder w"
    "room c x j (put_back j y w)"
    using put_fresh [OF assms] by simp_all
  then show ?thesis
    using put_in [of "put_back j y w" j c x] assms(2) amount_elsewhere [of "holder w" j] by (auto simp: total_def)
qed

end

section \<open>Containers keep it\<close>

definition same_boxes :: "item_store \<Rightarrow> item_store \<Rightarrow> bool" where
  "same_boxes s s' \<longleftrightarrow> s_outer s' = s_outer s \<and> (\<forall>x. capacity s' x = capacity s x \<and> (s_box s' x = None \<longleftrightarrow> s_box s x = None))"

lemma capacity_simps [simp]:
  "capacity (set_items c xs s) x = capacity s x" "capacity (setParent p i s) x = capacity s x"
  "capacity (set_item i y s) x = capacity s x" "capacity (add_weight d c s) x = capacity s x"
  by (auto simp: capacity_def set_items_def setParent_def set_item_def add_weight_def split: option.splits)

lemma updateItemWeight_capacity:
  assumes "updateItemWeight s c d = Some s'"
  shows "capacity s' x = capacity s x"
proof (rule updateItemWeight.raw_induct [where P = "\<lambda>s c d s'. capacity s' x = capacity s x", OF _ assms])
  fix rec :: "item_store \<Rightarrow> nat \<Rightarrow> u32 \<Rightarrow> item_store option" and s c d s'
  assume "\<And>c d b y. rec c d b = Some y \<Longrightarrow> capacity y x = capacity c x"
    "(let s = add_weight d c s in case getParentContainer s c of None \<Rightarrow> Some s | Some p \<Rightarrow> rec s p d) = Some s'"
  then show "capacity s' x = capacity s x" by (auto simp: Let_def split: option.splits)
qed

lemma settled:
  assumes "updateItemWeight s c d = Some s'" "linked_above s c"
  shows "s_item s' = s_item s" "s_parent s' = s_parent s" "same_boxes s s'" "items_of s' = items_of s"
proof -
  obtain r where "updateItemWeight s c d = Some r" "reweighed s r"
    by (rule updateItemWeight_spec [OF assms(2)]) blast
  then have r: "reweighed s s'" using assms(1) by simp
  then show "s_item s' = s_item s" "s_parent s' = s_parent s" "items_of s' = items_of s"
    by (simp_all add: reweighed_def fun_eq_iff)
  show "same_boxes s s'"
    using r updateItemWeight_capacity [OF assms(1)] by (simp add: same_boxes_def reweighed_def)
qed

lemma linked_above_set_item [simp]: "linked_above (set_item i x s) c = linked_above s c"
  by (simp add: linked_above_def inside_def)

lemma same_boxes_simps [simp]:
  "same_boxes s (set_items c xs s') = same_boxes s s'" "same_boxes s (setParent p i s') = same_boxes s s'"
  "same_boxes s (set_item i x s') = same_boxes s s'" "same_boxes (set_item i x s) s' = same_boxes s s'"
  "same_boxes (setParent p i s) s' = same_boxes s s'" "same_boxes (set_items c xs s) s' = same_boxes s s'"
  by (simp_all add: same_boxes_def)

lemma box_remove:
  assumes "store_ok T s" "s_parent s i = Some (Box c)"
  shows "\<exists>s'. removeThing T c (ItemThing i) n s = Some s' \<and> store_ok T s' \<and> same_boxes s s' \<and> inside s' \<subseteq> inside s \<and>
    (if it_stackable (type_of T (s_item s i)) \<and> n \<noteq> ucast (i_count (s_item s i))
     then s_parent s' = s_parent s \<and> s_item s' = (s_item s)(i :=
       setItemCount (word_of_int (max 0 (sint (ucast (i_count (s_item s i)) - n :: u32)))) (s_item s i))
     else s_item s' = s_item s \<and> s_parent s' = (s_parent s)(i := None))"
proof -
  have wf: "store_wf s" using assms(1) by (simp add: store_ok_def)
  have mem: "i \<in> set (items_of s c)" using wf assms(2) by (simp add: store_wf_def)
  have link: "linked_above s c" using store_wf_linked [OF wf box_of_inside [OF wf assms(2)]] .
  obtain s' where s': "removeThing T c (ItemThing i) n s = Some s'" "store_ok T s'"
    using apply_op_ok [OF assms(1), of "RemoveThing c i n"] by auto
  show ?thesis
  proof (cases "it_stackable (type_of T (s_item s i)) \<and> n \<noteq> ucast (i_count (s_item s i))")
    case True
    let ?x = "setItemCount (word_of_int (max 0 (sint (ucast (i_count (s_item s i)) - n :: u32)))) (s_item s i)"
    obtain d where "updateItemWeight (set_item i ?x s) c d = Some s'"
      using s'(1) True mem by (auto simp: removeThing_def getThingIndex_absent Let_def)
    from settled [OF this] link have "s_item s' = (s_item s)(i := ?x)" "s_parent s' = s_parent s" "same_boxes s s'" by simp_all
    then show ?thesis using s' True by (simp add: inside_def)
  next
    case False
    obtain r where r: "updateItemWeight s c (- item_weight T s i) = Some r"
      "s' = set_items c (take (nat (getThingIndex s c i)) (items_of r c) @ drop (Suc (nat (getThingIndex s c i))) (items_of r c))
              (setParent None i r)"
      using s'(1) False mem by (auto simp: removeThing_def getThingIndex_absent Let_def)
    have "s_item s' = s_item s" "s_parent s' = (s_parent s)(i := None)" "same_boxes s s'"
      using settled [OF r(1) link] by (simp_all add: r(2))
    then show ?thesis using s' False by (auto simp: inside_def split: if_splits)
  qed
qed

lemma box_update:
  assumes "store_ok T s" "s_parent s i = Some (Box c)"
  shows "\<exists>s'. updateThing T c (ItemThing i) newid n s = Some s' \<and> store_ok T s' \<and> same_boxes s s' \<and>
    s_parent s' = s_parent s \<and> s_item s' = (s_item s)(i := setSubType T n (setID T newid (s_item s i)))"
proof -
  have wf: "store_wf s" using assms(1) by (simp add: store_ok_def)
  have mem: "i \<in> set (items_of s c)" using wf assms(2) by (simp add: store_wf_def)
  have link: "linked_above s c" using store_wf_linked [OF wf box_of_inside [OF wf assms(2)]] .
  obtain s' where s': "updateThing T c (ItemThing i) newid n s = Some s'" "store_ok T s'"
    using apply_op_ok [OF assms(1), of "UpdateThing c i newid n"] by auto
  then obtain d where "updateItemWeight (set_item i (setSubType T n (setID T newid (s_item s i))) s) c d = Some s'"
    using mem by (auto simp: updateThing_def getThingIndex_absent Let_def)
  from settled [OF this] link s' show ?thesis by simp
qed

lemma box_add:
  assumes "store_ok T s" "s_box s c \<noteq> None" "s_parent s i = None" "(c, i) \<notin> (inside s)\<^sup>*" "index < sint (capacity s c)"
  shows "\<exists>s'. addThing T c index (ItemThing i) s = Some s' \<and> store_ok T s' \<and> same_boxes s s' \<and>
    s_item s' = s_item s \<and> s_parent s' = (s_parent s)(i := Some (Box c))"
proof -
  have l: "loose s i" using assms(3) by (simp add: loose_def)
  let ?s = "put_in c i (i # items_of s c) s"
  obtain s' where s': "updateItemWeight ?s c (item_weight T s i) = Some s'" "store_ok T s'"
    using put_in_ok [OF assms(1,2) l assms(4), of "i # items_of s c"] by blast
  have "i \<notin> set (items_of s c)" "distinct (items_of s c)"
    using assms(1,3) by (auto simp: store_ok_def store_wf_def)
  then have "store_wf ?s"
    using assms(1) by (intro put_in_wf [OF _ assms(2) l assms(4)]) (simp_all add: store_ok_def)
  then have "linked_above ?s c" using assms(2) by (intro store_wf_linked) (simp_all del: not_None_eq)
  from settled [OF s'(1) this] s' show ?thesis
    using assms(5) by (simp add: addThing_def Let_def put_in_def)
qed

section \<open>Tiles keep it\<close>

lemma tile_ok_frame:
  assumes "tile_ok T cls k (t, s)" "\<And>i. s_parent s' i = Some (Outside k) \<longleftrightarrow> s_parent s i = Some (Outside k)"
    "\<And>i. s_parent s i = Some (Outside k) \<Longrightarrow> s_item s' i = s_item s i"
  shows "tile_ok T cls k (t, s')"
proof -
  have on: "{i. s_parent s i = Some (Outside k)} = on_tile_set t" using assms(1) by (simp add: tile_ok_def held_here_def)
  have same: "s_item s' i = s_item s i" if "i \<in> on_tile_set t" for i using assms(3) that on by blast
  have "flags_exact T s' t = flags_exact T s t" by (rule flags_exact_store) (rule same)
  moreover have "set (down_items t) \<subseteq> on_tile_set t" "set (top_items t) \<subseteq> on_tile_set t" "set (t_items t) \<subseteq> on_tile_set t"
    by (auto simp: down_items_def top_items_def on_tile_set_def dest: in_set_takeD in_set_dropD)
  moreover from this have "stack_ok T cls s' t = stack_ok T cls s t"
    by (auto simp: stack_ok_def tops_sorted_def same subset_eq list_all_iff cong: map_cong conj_cong)
  ultimately show ?thesis using assms(1,2) on by (simp add: tile_ok_def core_ok_def held_here_def)
qed

lemma store_ok_setParent: "store_ok T s \<Longrightarrow> loose s i \<Longrightarrow> \<forall>c. p \<noteq> Some (Box c) \<Longrightarrow> store_ok T (setParent p i s)"
proof -
  assume a: "store_ok T s" "loose s i" "\<forall>c. p \<noteq> Some (Box c)"
  have "inside (setParent p i s) = inside s" using a(2,3) by (auto simp: inside_def loose_iff split: if_splits)
  then show ?thesis using a by (auto simp: store_ok_missing store_wf_def loose_iff)
qed

lemma store_ok_set_item: "store_ok T s \<Longrightarrow> loose s i \<Longrightarrow> store_ok T (set_item i x s)"
proof -
  assume a: "store_ok T s" "loose s i"
  then have "i \<notin> set (items_of s c)" "distinct (items_of s c)" for c by (simp_all add: store_ok_def store_wf_def loose_iff)
  then have "held_weight T (set_item i x s) c = held_weight T s c" for c by (simp add: held_weight_set_item)
  then have "missing T (set_item i x s) c = missing T s c" for c by (simp only: missing_def set_item_simps)
  then show ?thesis using a(1) by (simp add: store_ok_missing store_wf_def inside_def)
qed

lemma tile_remove_whole:
  assumes "tile_ok T cls k (t, s)" "s_parent s i = Some (Outside k)"
    "\<not> it_stackable (type_of T (s_item s i)) \<or> n = ucast (i_count (s_item s i))"
  shows "\<exists>t'. tile_removeThing T cls (TileItem i) n (t, s) = (t', setParent None i s) \<and>
    length (t_items t') \<le> length (t_items t) \<and> set_option (t_ground t') \<subseteq> set_option (t_ground t)"
proof -
  have core: "core_ok T cls s t" and on: "i \<in> on_tile_set t"
    using assms(1,2) by (auto simp: tile_ok_def held_here_def)
  obtain d u where p: "parts t d u" "down_items t = d" "top_items t = u" by (rule core_ok_obtain [OF core])
  have st: "stack_ok T cls s t" using core by (simp add: core_ok_def)
  have index: "tile_getThingIndex T s (TileItem i) t \<noteq> -1" using tile_index_absent [OF core] on by simp
  have "i \<in> set d \<or> i \<in> set u \<or> t_ground t = Some i" using on p(1) by (auto simp: on_tile_set_def parts_def)
  moreover have "i \<in> set u \<Longrightarrow> is_top T s i" "i \<in> set d \<Longrightarrow> \<not> is_top T s i"
    using st by (auto simp: stack_ok_parts [OF p(1)] list_all_iff)
  ultimately show ?thesis
    using index assms(3) p by (auto simp: tile_removeThing_def length_remove1 parts_def)
qed

lemma tile_remove_part:
  assumes "tile_ok T cls k (t, s)" "s_parent s i = Some (Outside k)" "t_ground t \<noteq> Some i" "\<not> is_top T s i"
    "it_stackable (type_of T (s_item s i))" "n \<noteq> ucast (i_count (s_item s i))"
  shows "tile_removeThing T cls (TileItem i) n (t, s) = (t, set_item i
    (setItemCount (word_of_int (max 0 (sint (ucast (i_count (s_item s i)) - n :: u32)))) (s_item s i)) s)"
proof -
  have core: "core_ok T cls s t" and on: "i \<in> on_tile_set t"
    using assms(1,2) by (auto simp: tile_ok_def held_here_def)
  obtain d u where p: "parts t d u" "down_items t = d" "top_items t = u" by (rule core_ok_obtain [OF core])
  have "i \<in> set u \<Longrightarrow> is_top T s i" using core by (auto simp: core_ok_def stack_ok_parts [OF p(1)] list_all_iff)
  then have "i \<in> set d" using on p(1) assms(3,4) by (auto simp: on_tile_set_def parts_def)
  then show ?thesis
    using tile_index_absent [OF core] on p assms by (simp add: tile_removeThing_def)
qed

lemma tile_update_effect:
  assumes "tile_ok T cls k (t, s)" "s_parent s i = Some (Outside k)"
  shows "\<exists>t'. tile_updateThing T cls (TileItem i) newid n (t, s) =
      (t', set_item i (setSubType T n (setID T newid (s_item s i))) s) \<and> t_items t' = t_items t \<and> t_ground t' = t_ground t"
proof -
  have "core_ok T cls s t" "i \<in> on_tile_set t" using assms by (auto simp: tile_ok_def held_here_def)
  then show ?thesis using tile_index_absent by (simp add: tile_updateThing_def Let_def)
qed

text \<open>Items that lie on a tile beside all others: no ground, no splash, no magic field.\<close>

definition lies_plainly :: "items_table \<Rightarrow> class_map \<Rightarrow> item_store \<Rightarrow> nat \<Rightarrow> bool" where
  "lies_plainly T cls s i \<longleftrightarrow>
     \<not> isGroundTile (type_of T (s_item s i)) \<and> \<not> isSplash (type_of T (s_item s i)) \<and>
     \<not> isMagicField (type_of T (s_item s i)) \<and> field_single T cls s i"

lemma tile_add_effect:
  assumes "length (t_items t) < 0xFFFF" "lies_plainly T cls s i"
  shows "\<exists>t'. tile_addThing T cls k (TileItem i) (t, s) = (t', setParent (Some (Outside k)) i s) \<and> t_ground t' = t_ground t"
  using assms by (auto simp: tile_addThing_def Let_def lies_plainly_def)

section \<open>Containers and tiles together\<close>

text \<open>What the item types promise of things that stack.\<close>

definition sound_stacks :: "items_table \<Rightarrow> bool" where
  "sound_stacks T \<longleftrightarrow> (\<forall>ty. let it = items_at T ty in it_stackable it \<longrightarrow>
     \<not> it_alwaysOnTop it \<and> \<not> isFluidContainer it \<and> \<not> isSplash it \<and>
     (\<forall>n. n \<noteq> 0 \<longrightarrow> CreateItem T ty n = Some (PlainItem, new_item T ty n)))"

definition world_ok :: "rules \<Rightarrow> game \<Rightarrow> bool" where
  "world_ok R g \<longleftrightarrow>
     sound_stacks (r_types R) \<and> store_ok (r_types R) (g_store g) \<and> finite {i. s_parent (g_store g) i \<noteq> None} \<and>
     (\<forall>k. is_tile g k \<longrightarrow> tile_ok (r_types R) (r_class R) k (g_tiles g k, g_store g) \<and>
        (\<forall>i. t_ground (g_tiles g k) = Some i \<longrightarrow> \<not> it_stackable (type_of (r_types R) (item_of g i))))"

definition has_room :: "rules \<Rightarrow> cylinder \<Rightarrow> int \<Rightarrow> nat \<Rightarrow> game \<Rightarrow> bool" where
  "has_room R cyl index i g \<longleftrightarrow>
     (case cyl of
        Box c \<Rightarrow> s_box (g_store g) c \<noteq> None \<and> index < sint (capacity (g_store g) c) \<and> (c, i) \<notin> (inside (g_store g))\<^sup>*
      | Outside k \<Rightarrow> is_tile g k \<and> length (t_items (g_tiles g k)) < 0xFFFF \<and>
          lies_plainly (r_types R) (r_class R) (g_store g) i)"

definition free_address :: "rules \<Rightarrow> nat \<Rightarrow> game \<Rightarrow> bool" where
  "free_address R j g \<longleftrightarrow> s_box (g_store g) j = None \<and> r_class R j = PlainItem"

lemma world_ok_tileD:
  assumes "world_ok R g" "is_tile g k"
  shows "tile_ok (r_types R) (r_class R) k (g_tiles g k, g_store g)"
    "t_ground (g_tiles g k) = Some i \<Longrightarrow> \<not> it_stackable (type_of (r_types R) (item_of g i))"
  using assms by (simp_all add: world_ok_def)

lemma world_ok_store:
  assumes "world_ok R g" "store_ok (r_types R) s'" "s_outer s' = s_outer (g_store g)"
    "\<And>i k. s_parent s' i = Some (Outside k) \<longleftrightarrow> s_parent (g_store g) i = Some (Outside k)"
    "\<And>i k. s_parent (g_store g) i = Some (Outside k) \<Longrightarrow> s_item s' i = item_of g i"
    "{i. s_parent s' i \<noteq> None} \<subseteq> insert j {i. s_parent (g_store g) i \<noteq> None}"
  shows "world_ok R (g\<lparr>g_store := s'\<rparr>)"
proof -
  have "finite {i. s_parent s' i \<noteq> None}"
    using assms(1) by (intro finite_subset [OF assms(6)]) (simp add: world_ok_def)
  moreover have "tile_ok (r_types R) (r_class R) k (g_tiles g k, s')" if "is_tile g k" for k
    by (rule tile_ok_frame [OF world_ok_tileD(1) [OF assms(1) that]]) (rule assms(4), rule assms(5))
  moreover have "item_of g i = s_item s' i" if "is_tile g k" "t_ground (g_tiles g k) = Some i" for k i
  proof -
    have "s_parent (g_store g) i = Some (Outside k)"
      using world_ok_tileD(1) [OF assms(1) that(1)] that(2) by (auto simp: tile_ok_def held_here_def on_tile_set_def)
    then show ?thesis using assms(5) by simp
  qed
  moreover have "is_tile (g\<lparr>g_store := s'\<rparr>) = is_tile g" using assms(3) by (simp add: is_tile_def fun_eq_iff)
  ultimately show ?thesis using assms(1,2) unfolding world_ok_def by simp
qed

lemma world_ok_tile:
  assumes "world_ok R g" "is_tile g k" "tile_ok (r_types R) (r_class R) k (t', s')" "store_ok (r_types R) s'"
    "s_outer s' = s_outer (g_store g)"
    "\<And>i l. l \<noteq> k \<Longrightarrow> s_parent s' i = Some (Outside l) \<longleftrightarrow> s_parent (g_store g) i = Some (Outside l)"
    "\<And>i l. l \<noteq> k \<Longrightarrow> s_parent (g_store g) i = Some (Outside l) \<Longrightarrow> s_item s' i = item_of g i"
    "{i. s_parent s' i \<noteq> None} \<subseteq> insert j {i. s_parent (g_store g) i \<noteq> None}"
    "\<And>i. t_ground t' = Some i \<Longrightarrow> t_ground (g_tiles g k) = Some i" "\<And>i. i_id (s_item s' i) = i_id (item_of g i)"
  shows "world_ok R (g\<lparr>g_tiles := (g_tiles g)(k := t'), g_store := s'\<rparr>)"
proof -
  have "finite {i. s_parent s' i \<noteq> None}"
    using assms(1) by (intro finite_subset [OF assms(8)]) (simp add: world_ok_def)
  moreover have "tile_ok (r_types R) (r_class R) l (g_tiles g l, s')" if "is_tile g l" "l \<noteq> k" for l
    by (rule tile_ok_frame [OF world_ok_tileD(1) [OF assms(1) that(1)]]) (rule assms(6) [OF that(2)], rule assms(7) [OF that(2)])
  moreover have "is_tile (g\<lparr>g_tiles := (g_tiles g)(k := t'), g_store := s'\<rparr>) = is_tile g"
    using assms(5) by (simp add: is_tile_def fun_eq_iff)
  ultimately show ?thesis using assms(1,2,3,4,9,10) unfolding world_ok_def by simp
qed

lemma has_room_mono:
  assumes "has_room R cyl index j g" "same_boxes (g_store g) (g_store g')" "inside (g_store g') \<subseteq> inside (g_store g)"
    "\<And>k. length (t_items (g_tiles g' k)) \<le> length (t_items (g_tiles g k))" "i_id (item_of g' j) = i_id (item_of g j)"
  shows "has_room R cyl index j g'"
proof -
  have "(x, y) \<in> (inside (g_store g'))\<^sup>* \<Longrightarrow> (x, y) \<in> (inside (g_store g))\<^sup>*" for x y
    using rtrancl_mono [OF assms(3)] by blast
  moreover have "length (t_items (g_tiles g' k)) < 0xFFFF" if "length (t_items (g_tiles g k)) < 0xFFFF" for k
    using assms(4) [of k] that by simp
  ultimately show ?thesis
    using assms(1,2,5) by (auto simp: has_room_def same_boxes_def is_tile_def lies_plainly_def field_single_def split: cylinder.splits)
qed

lemma free_address_mono: "free_address R j g \<Longrightarrow> same_boxes (g_store g) (g_store g') \<Longrightarrow> free_address R j g'"
  by (simp add: free_address_def same_boxes_def)

lemma less_count:
  assumes "n < ucast (c :: byte)"
  shows "word_of_int (max 0 (sint (ucast c - n :: u32))) = c - ucast n"
proof -
  have n: "unat n < unat c" using assms by (simp add: word_less_nat_alt byte_up)
  have d: "unat (ucast c - n) = unat c - unat n" using n by (subst unat_sub) (simp_all add: word_le_nat_alt byte_up)
  then have "sint (ucast c - n) = int (unat c - unat n)"
    using byte_bound [of c] by (simp add: sint_uint uint_nat signed_take_bit_int_eq_self)
  then have "word_of_int (max 0 (sint (ucast c - n :: u32))) = (word_of_nat (unat c - unat n) :: byte)" by simp
  also have "\<dots> = c - word_of_nat (unat n)" using n by (simp add: of_nat_diff)
  finally show ?thesis by simp
qed

definition is_served :: "cylinder \<Rightarrow> game \<Rightarrow> bool" where
  "is_served cyl g \<longleftrightarrow> (case cyl of Box c \<Rightarrow> True | Outside k \<Rightarrow> is_tile g k)"

definition kept :: "rules \<Rightarrow> game \<Rightarrow> game \<Rightarrow> bool" where
  "kept R g g' \<longleftrightarrow> (\<forall>d x j. has_room R d x j g \<longrightarrow> has_room R d x j g') \<and>
     (\<forall>j. free_address R j g \<longrightarrow> free_address R j g') \<and> (\<forall>d. is_served d g \<longrightarrow> is_served d g')"

lemma keptI:
  assumes "same_boxes (g_store g) (g_store g')" "inside (g_store g') \<subseteq> inside (g_store g)"
    "\<And>k. length (t_items (g_tiles g' k)) \<le> length (t_items (g_tiles g k))" "\<And>j. i_id (item_of g' j) = i_id (item_of g j)"
  shows "kept R g g'"
  using has_room_mono [OF _ assms] free_address_mono [OF _ assms(1)] assms(1)
  by (auto simp: kept_def is_served_def is_tile_def same_boxes_def split: cylinder.splits)

lemma inside_set_item [simp]: "inside (set_item i x s) = inside s" by (simp add: inside_def)

lemma sound_stacksD:
  assumes "sound_stacks T" "it_stackable (items_at T ty)"
  shows "\<not> it_alwaysOnTop (items_at T ty)" "setSubType T n x = setItemCount (ucast n) x \<or> i_id x \<noteq> ty"
    "m \<noteq> 0 \<Longrightarrow> CreateItem T ty m = Some (PlainItem, new_item T ty m)"
  using assms by (auto simp: sound_stacks_def Let_def setSubType_def)

lemma remove_whole_law:
  assumes "world_ok R g" "is_served c g" "s_parent (g_store g) i = Some c"
    "\<not> it_stackable (type_of (r_types R) (item_of g i)) \<or> n = ucast (i_count (item_of g i))"
  shows "\<exists>g'. cyl_removeThing R c i n g = Some g' \<and> world_ok R g' \<and> item_of g' = item_of g \<and>
    s_parent (g_store g') = (s_parent (g_store g))(i := None) \<and> kept R g g' \<and> same_boxes (g_store g) (g_store g')"
proof (cases c)
  case (Box b)
  have ok: "store_ok (r_types R) (g_store g)" using assms(1) by (simp add: world_ok_def)
  obtain s' where s': "removeThing (r_types R) b (ItemThing i) n (g_store g) = Some s'" "store_ok (r_types R) s'"
    "same_boxes (g_store g) s'" "inside s' \<subseteq> inside (g_store g)" "s_item s' = item_of g"
    "s_parent s' = (s_parent (g_store g))(i := None)"
    using box_remove [OF ok, of i b n] assms(3,4) Box by auto
  have "world_ok R (g\<lparr>g_store := s'\<rparr>)"
    using assms(3) s' Box by (intro world_ok_store [OF assms(1), where j = i]) (auto simp: same_boxes_def)
  moreover have "kept R g (g\<lparr>g_store := s'\<rparr>)" using s' by (intro keptI) auto
  ultimately show ?thesis using s' Box by (simp add: cyl_removeThing_def on_store_def)
next
  case (Outside k)
  let ?s = "setParent None i (g_store g)"
  have k: "is_tile g k" using assms(2) Outside by (simp add: is_served_def)
  obtain t' where t': "tile_removeThing (r_types R) (r_class R) (TileItem i) n (g_tiles g k, g_store g) = (t', ?s)"
    "length (t_items t') \<le> length (t_items (g_tiles g k))" "set_option (t_ground t') \<subseteq> set_option (t_ground (g_tiles g k))"
    using tile_remove_whole [OF world_ok_tileD(1) [OF assms(1) k], of i n] assms(3,4) Outside by auto
  have "tile_ok (r_types R) (r_class R) k (t', ?s)"
    using removeThing_ok [OF world_ok_tileD(1) [OF assms(1) k], of "TileItem i" n] t'(1) by simp
  moreover have "store_ok (r_types R) ?s"
    using assms(1,3) Outside by (intro store_ok_setParent) (auto simp: world_ok_def loose_def)
  ultimately have "world_ok R (g\<lparr>g_tiles := (g_tiles g)(k := t'), g_store := ?s\<rparr>)"
    using assms(3) t'(3) Outside by (intro world_ok_tile [OF assms(1) k, where j = i]) auto
  moreover have "kept R g (g\<lparr>g_tiles := (g_tiles g)(k := t'), g_store := ?s\<rparr>)"
    using t'(2) by (intro keptI) (auto simp: same_boxes_def inside_def split: if_splits)
  ultimately show ?thesis using t'(1) k Outside by (simp add: cyl_removeThing_def on_tile_def same_boxes_def)
qed

lemma remove_part_law:
  assumes "world_ok R g" "is_served c g" "s_parent (g_store g) i = Some c" "it_stackable (type_of (r_types R) (item_of g i))"
    "n < ucast (i_count (item_of g i))"
  shows "\<exists>g'. cyl_removeThing R c i n g = Some g' \<and> world_ok R g' \<and>
    item_of g' = (item_of g)(i := setItemCount (i_count (item_of g i) - ucast n) (item_of g i)) \<and>
    s_parent (g_store g') = s_parent (g_store g) \<and> kept R g g'"
proof (cases c)
  case (Box b)
  have ok: "store_ok (r_types R) (g_store g)" using assms(1) by (simp add: world_ok_def)
  obtain s' where s': "removeThing (r_types R) b (ItemThing i) n (g_store g) = Some s'" "store_ok (r_types R) s'"
    "same_boxes (g_store g) s'" "inside s' \<subseteq> inside (g_store g)"
    "s_item s' = (item_of g)(i := setItemCount (i_count (item_of g i) - ucast n) (item_of g i))"
    "s_parent s' = s_parent (g_store g)"
    using box_remove [OF ok, of i b n] assms(3-5) Box less_count [OF assms(5)] by auto
  have "world_ok R (g\<lparr>g_store := s'\<rparr>)"
    using assms(3) s' Box by (intro world_ok_store [OF assms(1), where j = i]) (auto simp: same_boxes_def)
  moreover have "kept R g (g\<lparr>g_store := s'\<rparr>)" using s' by (intro keptI) auto
  ultimately show ?thesis using s' Box by (simp add: cyl_removeThing_def on_store_def)
next
  case (Outside k)
  let ?x = "setItemCount (i_count (item_of g i) - ucast n) (item_of g i)"
  let ?s = "set_item i ?x (g_store g)" and ?t = "g_tiles g k"
  have k: "is_tile g k" using assms(2) Outside by (simp add: is_served_def)
  have "\<not> is_top (r_types R) (g_store g) i" "t_ground ?t \<noteq> Some i" "n \<noteq> ucast (i_count (item_of g i))"
    using assms(1,4,5) sound_stacksD(1) world_ok_tileD(2) [OF assms(1) k] by (auto simp: world_ok_def)
  then have t': "tile_removeThing (r_types R) (r_class R) (TileItem i) n (?t, g_store g) = (?t, ?s)"
    using tile_remove_part [OF world_ok_tileD(1) [OF assms(1) k], of i n] assms(3,4) Outside less_count [OF assms(5)] by simp
  have "tile_ok (r_types R) (r_class R) k (?t, ?s)"
    using removeThing_ok [OF world_ok_tileD(1) [OF assms(1) k], of "TileItem i" n] t' by simp
  moreover have "store_ok (r_types R) ?s"
    using assms(1,3) Outside by (intro store_ok_set_item) (auto simp: world_ok_def loose_def)
  ultimately have "world_ok R (g\<lparr>g_tiles := (g_tiles g)(k := ?t), g_store := ?s\<rparr>)"
    using assms(3) Outside by (intro world_ok_tile [OF assms(1) k, where j = i]) auto
  moreover have "kept R g (g\<lparr>g_tiles := (g_tiles g)(k := ?t), g_store := ?s\<rparr>)"
    by (intro keptI) (auto simp: same_boxes_def)
  ultimately show ?thesis using t' k Outside by (simp add: cyl_removeThing_def on_tile_def)
qed

lemma setID_id: "i_id (setID T newid x) = newid"
proof -
  have "i_id (item_setIntAttr a v y) = i_id y" "i_id (item_removeAttribute a y) = i_id y" for a v y
    by (simp_all add: item_setIntAttr_def with_attributes_def item_removeAttribute_def split: option.split)
  then show ?thesis by (simp add: setID_def Let_def setDuration_def setDecaying_def)
qed

lemma setSubType_count:
  assumes "sound_stacks T" "it_stackable (type_of T x)"
  shows "i_id (setSubType T n (setID T (i_id x) x)) = i_id x \<and> i_count (setSubType T n (setID T (i_id x) x)) = ucast n"
proof -
  have id: "i_id (setID T (i_id x) x) = i_id x" by (rule setID_id)
  then have "setSubType T n (setID T (i_id x) x) = setItemCount (ucast n) (setID T (i_id x) x)"
    using assms by (simp add: setSubType_def sound_stacks_def Let_def)
  then show ?thesis using id by (simp add: setItemCount_def)
qed

lemma update_law:
  assumes "world_ok R g" "is_served c g" "s_parent (g_store g) j = Some c" "it_stackable (type_of (r_types R) (item_of g j))"
    "n \<le> 100"
  shows "\<exists>g'. cyl_updateThing R c j (i_id (item_of g j)) n g = Some g' \<and> world_ok R g' \<and>
    s_parent (g_store g') = s_parent (g_store g) \<and> i_id (item_of g' j) = i_id (item_of g j) \<and>
    i_count (item_of g' j) = ucast n \<and> (\<forall>k. k \<noteq> j \<longrightarrow> item_of g' k = item_of g k) \<and> kept R g g'"
proof -
  let ?T = "r_types R" and ?x = "item_of g j"
  let ?y = "setSubType ?T (ucast n) (setID ?T (i_id ?x) ?x)"
  have y: "i_id ?y = i_id ?x" "i_count ?y = ucast n"
  proof -
    have "(ucast (ucast n :: u16) :: byte) = ucast n" by (rule bit_word_eqI) (simp add: bit_simps)
    then show "i_id ?y = i_id ?x" "i_count ?y = ucast n"
      using setSubType_count [of ?T ?x "ucast n"] assms(1,4) by (simp_all add: world_ok_def)
  qed
  show ?thesis
  proof (cases c)
    case (Box b)
    have ok: "store_ok ?T (g_store g)" using assms(1) by (simp add: world_ok_def)
    obtain s' where s': "updateThing ?T b (ItemThing j) (i_id ?x) (ucast n) (g_store g) = Some s'" "store_ok ?T s'"
      "same_boxes (g_store g) s'" "s_parent s' = s_parent (g_store g)" "s_item s' = (item_of g)(j := ?y)"
      using box_update [OF ok, of j b] assms(3) Box by blast
    have "world_ok R (g\<lparr>g_store := s'\<rparr>)"
      using assms(3) s' Box by (intro world_ok_store [OF assms(1), where j = j]) (auto simp: same_boxes_def)
    moreover have "kept R g (g\<lparr>g_store := s'\<rparr>)" using s' y by (intro keptI) (auto simp: inside_def)
    ultimately show ?thesis using s' Box y by (simp add: cyl_updateThing_def on_store_def)
  next
    case (Outside k)
    let ?s = "set_item j ?y (g_store g)"
    have k: "is_tile g k" using assms(2) Outside by (simp add: is_served_def)
    obtain t' where t': "tile_updateThing ?T (r_class R) (TileItem j) (i_id ?x) (ucast n) (g_tiles g k, g_store g) = (t', ?s)"
      "t_items t' = t_items (g_tiles g k)" "t_ground t' = t_ground (g_tiles g k)"
      using tile_update_effect [OF world_ok_tileD(1) [OF assms(1) k], of j] assms(3) Outside by blast
    have single: "r_class R j = MagicFieldItem \<longrightarrow> \<not> it_stackable (type_of ?T ?x)" if "t_ground (g_tiles g k) \<noteq> Some j"
    proof -
      have "j \<in> set (t_items (g_tiles g k))"
        using that assms(3) Outside world_ok_tileD(1) [OF assms(1) k] by (auto simp: tile_ok_def held_here_def on_tile_set_def)
      then show ?thesis
        using world_ok_tileD(1) [OF assms(1) k] by (auto simp: tile_ok_def core_ok_def stack_ok_def list_all_iff)
    qed
    have "tile_ok ?T (r_class R) k (t', ?s)"
      using updateThing_ok [OF world_ok_tileD(1) [OF assms(1) k], of "TileItem j" "i_id ?x" "ucast n"] t'(1) single
      by (auto simp: fits_place_def)
    moreover have "store_ok ?T ?s"
      using assms(1,3) Outside by (intro store_ok_set_item) (auto simp: world_ok_def loose_def)
    ultimately have "world_ok R (g\<lparr>g_tiles := (g_tiles g)(k := t'), g_store := ?s\<rparr>)"
      using assms(3) t'(3) y Outside by (intro world_ok_tile [OF assms(1) k, where j = j]) auto
    moreover have "kept R g (g\<lparr>g_tiles := (g_tiles g)(k := t'), g_store := ?s\<rparr>)"
      using t'(2) y by (intro keptI) (auto simp: same_boxes_def)
    ultimately show ?thesis using t'(1) k Outside y by (simp add: cyl_updateThing_def on_tile_def)
  qed
qed

lemma add_law:
  assumes "world_ok R g" "s_parent (g_store g) i = None" "has_room R c x i g"
  shows "\<exists>g'. cyl_addThing R c x i g = Some g' \<and> world_ok R g' \<and> item_of g' = item_of g \<and>
    s_parent (g_store g') = (s_parent (g_store g))(i := Some c) \<and> same_boxes (g_store g) (g_store g')"
proof (cases c)
  case (Box b)
  have ok: "store_ok (r_types R) (g_store g)" using assms(1) by (simp add: world_ok_def)
  have room: "s_box (g_store g) b \<noteq> None" "(b, i) \<notin> (inside (g_store g))\<^sup>*" "x < sint (capacity (g_store g) b)"
    using assms(3) Box by (simp_all add: has_room_def)
  obtain s' where s': "addThing (r_types R) b x (ItemThing i) (g_store g) = Some s'" "store_ok (r_types R) s'"
    "same_boxes (g_store g) s'" "s_item s' = item_of g" "s_parent s' = (s_parent (g_store g))(i := Some (Box b))"
    using box_add [OF ok room(1) assms(2) room(2,3)] by blast
  have "world_ok R (g\<lparr>g_store := s'\<rparr>)"
    using assms(2) s' by (intro world_ok_store [OF assms(1), where j = i]) (auto simp: same_boxes_def)
  then show ?thesis using s' Box by (simp add: cyl_addThing_def on_store_def)
next
  case (Outside k)
  let ?s = "setParent (Some (Outside k)) i (g_store g)"
  have k: "is_tile g k" "length (t_items (g_tiles g k)) < 0xFFFF" "lies_plainly (r_types R) (r_class R) (g_store g) i"
    using assms(3) Outside by (simp_all add: has_room_def)
  obtain t' where t': "tile_addThing (r_types R) (r_class R) k (TileItem i) (g_tiles g k, g_store g) = (t', ?s)"
    "t_ground t' = t_ground (g_tiles g k)"
    using tile_add_effect [OF k(2,3), of k] by blast
  have "tile_ok (r_types R) (r_class R) k (t', ?s)"
    using addThing_ok [OF world_ok_tileD(1) [OF assms(1) k(1)], of "TileItem i"] t'(1) assms(2) k(3) by (simp add: lies_plainly_def)
  moreover have "store_ok (r_types R) ?s"
    using assms(1,2) by (intro store_ok_setParent) (auto simp: world_ok_def loose_def)
  ultimately have "world_ok R (g\<lparr>g_tiles := (g_tiles g)(k := t'), g_store := ?s\<rparr>)"
    using assms(2) t'(2) by (intro world_ok_tile [OF assms(1) k(1), where j = i]) auto
  then show ?thesis using t'(1) k(1) Outside by (simp add: cyl_addThing_def on_tile_def same_boxes_def)
qed

lemma put_fresh_law:
  assumes "world_ok R g" "s_parent (g_store g) j = None" "free_address R j g" "has_room R c x i g" "i \<noteq> j"
    "i_id y = i_id (item_of g i)" "it_stackable (type_of (r_types R) y)"
  shows "world_ok R (g\<lparr>g_store := set_item j y (g_store g)\<rparr>) \<and> has_room R c x j (g\<lparr>g_store := set_item j y (g_store g)\<rparr>)"
proof
  let ?s = "set_item j y (g_store g)"
  have wf: "store_wf (g_store g)" using assms(1) by (simp add: world_ok_def store_ok_def)
  have "store_ok (r_types R) ?s" using assms(1,2) by (intro store_ok_set_item) (auto simp: world_ok_def loose_def)
  then show "world_ok R (g\<lparr>g_store := ?s\<rparr>)"
    using assms(2) by (intro world_ok_store [OF assms(1), where j = j]) auto
  have "(b, j) \<notin> (inside (g_store g))\<^sup>*" if "s_box (g_store g) b \<noteq> None" for b
    using that assms(3) empty_not_above [OF wf, of j b] by (cases "j = b") (simp_all add: free_address_def del: not_None_eq)
  then show "has_room R c x j (g\<lparr>g_store := ?s\<rparr>)"
    using assms(3-7) by (auto simp: has_room_def is_tile_def lies_plainly_def field_single_def free_address_def split: cylinder.splits)
qed

interpretation games: item_holders "world_ok R" "\<lambda>g. s_parent (g_store g)" item_of "\<lambda>x. it_stackable (type_of (r_types R) x)"
  "has_room R" "free_address R" is_served "kept R" "cyl_removeThing R"
  "\<lambda>c j n g. cyl_updateThing R c j (i_id (item_of g j)) n g" "cyl_addThing R"
  "\<lambda>j y g. g\<lparr>g_store := set_item j y (g_store g)\<rparr>" for R
proof (unfold_locales, goal_cases)
  case (1 g) then show ?case by (simp add: world_ok_def)
next
  case (5 g c i n) then show ?case using remove_whole_law by blast
next
  case (6 g c i n) then show ?case by (rule remove_part_law)
next
  case (7 g c j n) then show ?case by (rule update_law)
next
  case (8 g i c x) then show ?case using add_law by blast
next
  case (9 g j c x i y) then show ?case using put_fresh_law by (simp add: fun_upd_def)
qed (simp_all add: kept_def)

section \<open>A move loses and makes nothing\<close>

lemma item_equals_id: "item_equals x y \<Longrightarrow> i_id x = i_id y"
  by (auto simp: item_equals_def split: if_splits)

lemma set_attr_id [simp]: "i_id (item_setIntAttr a v x) = i_id x"
  by (simp add: item_setIntAttr_def with_attributes_def split: option.split)

lemma new_item_id: "i_id (new_item T ty n) = ty"
  by (simp add: new_item_def Let_def setDefaultDuration_def setDuration_def setFluidType_def setCharges_def setItemCount_def)

lemma clone_some:
  assumes "sound_stacks T" "it_stackable (type_of T x)" "i_count x \<noteq> 0"
  shows "\<exists>y. clone_item T x = Some y \<and> i_id y = i_id x"
proof -
  have "unat (ucast (i_count x) :: u16) = unat (i_count x)"
    using byte_bound [of "i_count x"] by (simp add: unsigned_ucast_eq take_bit_nat_eq_self_iff)
  then have "(ucast (i_count x) :: u16) \<noteq> 0" using assms(3) by (metis unsigned_eq_0_iff)
  then have "CreateItem T (i_id x) (ucast (i_count x)) = Some (PlainItem, new_item T (i_id x) (ucast (i_count x)))"
    using sound_stacksD(3) [OF assms(1,2)] by simp
  then show ?thesis by (simp add: clone_item_def Let_def new_item_id setDecaying_def split: option.split)
qed

abbreviation in_all :: "game \<Rightarrow> u16 \<Rightarrow> nat" where
  "in_all g \<equiv> amount (s_parent (g_store g)) (item_of g)"

lemma stack_sum:
  fixes a n :: u32
  assumes "a \<le> 100" "n \<le> 100 - a"
  shows "a + n \<le> 100" "n \<le> 100"
proof -
  have n: "unat n \<le> 100 - unat a" "unat a \<le> 100"
    using assms by (simp_all add: word_le_nat_alt unat_sub)
  then have "unat (a + n) = unat a + unat n" by (subst unat_add_lem [THEN iffD1]) simp_all
  then show "a + n \<le> 100" "n \<le> 100" using n by (simp_all add: word_le_nat_alt)
qed

lemma merge_stack_ok:
  assumes "world_ok R g" "is_served to g" "isStackable R g i" "m \<le> 255"
    "\<And>j. toItem = Some j \<Longrightarrow> j \<noteq> i \<and> s_parent (g_store g) j = Some to \<and> (isStackable R g j \<longrightarrow> item_count g j \<le> 100)"
  shows "\<exists>n g'. merge_stack R to i toItem m g = Some (n, g') \<and> world_ok R g' \<and> n \<le> m \<and>
    s_parent (g_store g') = s_parent (g_store g) \<and> item_of g' i = item_of g i \<and>
    (\<forall>ty. in_all g' ty = in_all g ty + (if i_id (item_of g i) = ty then unat n else 0)) \<and> kept R g g'"
proof (cases "merges_with g i toItem")
  case False
  then have "merge_stack R to i toItem m g = Some (0, g)" by (cases toItem) (simp_all add: merge_stack_def)
  moreover have "kept R g g" by (simp add: kept_def)
  ultimately show ?thesis using assms(1) by simp
next
  case True
  then obtain j where j: "toItem = Some j" "item_equals (item_of g i) (item_of g j)"
    by (auto simp: merges_with_def split: option.splits)
  let ?n = "min (100 - item_count g j) m"
  have id: "i_id (item_of g i) = i_id (item_of g j)" using item_equals_id [OF j(2)] .
  have at: "j \<noteq> i" "s_parent (g_store g) j = Some to" "item_count g j \<le> 100"
    using assms(5) [OF j(1)] assms(3) id by (simp_all add: isStackable_def)
  have n: "ucast (i_count (item_of g j)) + ?n \<le> 100" "?n \<le> 100"
    using stack_sum [OF at(3), of ?n] by (simp_all add: item_count_def)
  obtain g' where g': "cyl_updateThing R to j (i_id (item_of g j)) (ucast (i_count (item_of g j)) + ?n) g = Some g'"
    "world_ok R g'" "s_parent (g_store g') = s_parent (g_store g)" "\<forall>k. k \<noteq> j \<longrightarrow> item_of g' k = item_of g k"
    "\<forall>ty. games.total g' ty = games.total g ty + (if i_id (item_of g j) = ty then unat ?n else 0)" "kept R g g'"
    using games.grow [OF assms(1,2) at(2) _ n] assms(3) id by (auto simp: isStackable_def)
  then have "merge_stack R to i toItem m g = Some (?n, g')"
    using j(1) True by (simp add: merge_stack_def item_count_def)
  then show ?thesis using g' at(1) id by (auto simp: games.total_def)
qed

lemma positive_rest:
  fixes m n :: u32
  assumes "n \<le> m" "unat m < 256"
  shows "0 <s m - n \<longleftrightarrow> m \<noteq> n"
proof -
  have le: "unat n \<le> unat m" using assms(1) by (simp only: word_le_nat_alt)
  have "unat (m - n) = unat m - unat n" by (rule unat_sub [OF assms(1)])
  then have "sint (m - n) = int (unat m - unat n)"
    using assms(2) by (simp add: sint_uint uint_nat signed_take_bit_int_eq_self)
  then have "0 <s m - n \<longleftrightarrow> 0 < int (unat m - unat n)" by (simp only: word_sless_alt signed_0)
  also have "\<dots> \<longleftrightarrow> unat m \<noteq> unat n" using le by linarith
  finally show ?thesis by (simp only: word_unat_eq_iff)
qed

lemma perform_move_ok:
  assumes "world_ok R g" "is_served from g" "s_parent (g_store g) i = Some from" "has_room R to index i g" "is_served to g"
    "isStackable R g i \<Longrightarrow> 0 < m \<and> m \<le> item_count g i"
    "\<And>j. toItem = Some j \<Longrightarrow> j \<noteq> i \<and> s_parent (g_store g) j = Some to \<and> (isStackable R g j \<longrightarrow> item_count g j \<le> 100)"
    "s_parent (g_store g) new = None" "free_address R new g"
  shows "\<exists>r g'. perform_move R from to index i toItem m new g = Some (r, g') \<and> world_ok R g' \<and> (\<forall>ty. in_all g' ty = in_all g ty)"
proof -
  let ?x = "item_of g i"
  have p: "if it_stackable (type_of (r_types R) ?x) then m \<le> ucast (i_count ?x) else True"
    using assms(6) by (simp add: isStackable_def item_count_def)
  obtain g1 where g1: "cyl_removeThing R from i m g = Some g1" "world_ok R g1" "kept R g g1"
    "\<forall>j. j \<noteq> i \<longrightarrow> s_parent (g_store g1) j = s_parent (g_store g) j \<and> item_of g1 j = item_of g j"
    "i_id (item_of g1 i) = i_id ?x" "i_count ?x \<noteq> 0 \<longrightarrow> i_count (item_of g1 i) \<noteq> 0"
    "it_stackable (type_of (r_types R) ?x) \<and> m < ucast (i_count ?x) \<or> s_parent (g_store g1) i = None \<and> item_of g1 = item_of g"
    and t1: "\<forall>ty. games.total g1 ty + (if i_id ?x = ty then if it_stackable (type_of (r_types R) ?x) then unat m
      else unat (i_count ?x) else 0) = games.total g ty"
    using games.take_out [OF assms(1-3) p] by blast
  have room: "has_room R to index i g1" by (rule games.keeps_room [OF g1(3) assms(4)])
  show ?thesis
  proof (cases "isStackable R g i")
    case False
    then have "s_parent (g_store g1) i = None" "item_of g1 = item_of g" "\<not> isStackable R g1 i"
      using g1(5,7) by (auto simp: isStackable_def)
    then obtain g2 where "cyl_addThing R to index i g1 = Some g2" "world_ok R g2"
      "\<forall>ty. games.total g2 ty = games.total g1 ty + share ty ?x"
      using games.put_in [OF g1(2) _ room] by auto
    moreover have "games.total g1 ty + share ty ?x = games.total g ty" for ty
      using t1 [rule_format, of ty] False by (simp add: share_def isStackable_def split: if_splits)
    ultimately show ?thesis
      using g1(1) \<open>\<not> isStackable R g1 i\<close> by (simp add: perform_move_def games.total_def)
  next
    case True
    let ?T = "r_types R"
    have m: "0 < m" "m \<le> item_count g i" using assms(6) [OF True] by simp_all
    have small: "unat m \<le> unat (i_count ?x)" "unat m < 256" "i_count ?x \<noteq> 0"
    proof -
      show "unat m \<le> unat (i_count ?x)" using m(2) by (simp add: item_count_def word_le_nat_alt byte_up)
      then show "unat m < 256" using byte_bound [of "i_count ?x"] by simp
      have "unat m \<noteq> 0" using m(1) by (simp add: word_less_nat_alt)
      then show "i_count ?x \<noteq> 0" using \<open>unat m \<le> unat (i_count ?x)\<close> by auto
    qed
    have s1: "isStackable R g1 i" using True g1(5) by (simp add: isStackable_def)
    have to1: "is_served to g1" by (rule games.keeps_served [OF g1(3) assms(5)])
    have m255: "m \<le> 255" using small(2) by (simp add: word_le_nat_alt)
    have q: "j \<noteq> i \<and> s_parent (g_store g1) j = Some to \<and> (isStackable R g1 j \<longrightarrow> item_count g1 j \<le> 100)"
      if "toItem = Some j" for j
      using assms(7) [OF that] g1(4) by (simp add: item_count_def isStackable_def)
    have "\<exists>n g'. merge_stack R to i toItem m g1 = Some (n, g') \<and> world_ok R g' \<and> n \<le> m \<and>
        s_parent (g_store g') = s_parent (g_store g1) \<and> item_of g' i = item_of g1 i \<and>
        (\<forall>ty. in_all g' ty = in_all g1 ty + (if i_id (item_of g1 i) = ty then unat n else 0)) \<and> kept R g1 g'"
      by (rule merge_stack_ok [OF g1(2) to1 s1 m255 q])
    then obtain n g2 where g2: "merge_stack R to i toItem m g1 = Some (n, g2)" "world_ok R g2" "n \<le> m" "kept R g1 g2"
      "s_parent (g_store g2) = s_parent (g_store g1)" "item_of g2 i = item_of g1 i"
      and t2: "\<forall>ty. in_all g2 ty = in_all g1 ty + (if i_id ?x = ty then unat n else 0)"
      unfolding g1(5) by (elim exE conjE)
    have rest: "unat (m - n) = unat m - unat n" using g2(3) by (simp add: unat_sub)
    have newCount: "0 <s m - n \<longleftrightarrow> m \<noteq> n" by (rule positive_rest [OF g2(3) small(2)])
    show ?thesis
    proof (cases "m = n")
      case True
      then have "perform_move R from to index i toItem m new g = Some (None, g2)"
        using g1(1) s1 g2(1) newCount by (simp add: perform_move_def Let_def)
      moreover have "in_all g2 ty = in_all g ty" for ty
        using t1 [rule_format, of ty] t2 [rule_format, of ty] True \<open>isStackable R g i\<close>
        by (simp add: games.total_def isStackable_def split: if_splits)
      ultimately show ?thesis using g2(2) by auto
    next
      case False
      have x2: "i_count (item_of g2 i) \<noteq> 0" "i_id (item_of g2 i) = i_id ?x" "it_stackable (type_of ?T (item_of g2 i))"
        using g1(5,6) small(3) g2(6) s1 by (simp_all add: isStackable_def)
      obtain y where y: "clone_item ?T (item_of g2 i) = Some y" "i_id y = i_id ?x"
        using clone_some [OF _ x2(3,1)] g2(2) x2(2) by (auto simp: world_ok_def)
      let ?y = "setItemCount (ucast (m - n)) y"
      have free: "s_parent (g_store g2) new = None" "free_address R new g2" "i \<noteq> new"
      proof -
        show "i \<noteq> new" using assms(3,8) by auto
        then show "s_parent (g_store g2) new = None" using assms(8) g1(4) g2(5) by simp
        show "free_address R new g2" by (rule games.keeps_fresh [OF g2(4) games.keeps_fresh [OF g1(3) assms(9)]])
      qed
      have "unat (ucast (m - n) :: byte) = unat m - unat n" using small(2) rest by (subst byte_down) simp_all
      then have share: "share ty ?y = (if i_id ?x = ty then unat m - unat n else 0)" for ty
        using y(2) by (simp add: share_def setItemCount_def)
      obtain g3 where g3: "cyl_addThing R to index new (g2\<lparr>g_store := set_item new ?y (g_store g2)\<rparr>) = Some g3" "world_ok R g3"
        "\<forall>ty. games.total g3 ty = games.total g2 ty + share ty ?y"
        using games.put_copy [OF g2(2) free(1,2) games.keeps_room [OF g2(4) room] free(3), of ?y] y(2) x2(2,3) by auto
      have "unat n \<le> unat m" using g2(3) by (simp add: word_le_nat_alt)
      then have "in_all g3 ty = in_all g ty" for ty
        using t1 [rule_format, of ty] t2 [rule_format, of ty] g3(3) [rule_format, of ty] share [of ty] \<open>isStackable R g i\<close>
        by (simp add: games.total_def isStackable_def split: if_splits)
      moreover have "perform_move R from to index i toItem m new g = Some (Some new, g3)"
        using g1(1) s1 g2(1) newCount False y(1) g3(1) by (simp add: perform_move_def Let_def)
      ultimately show ?thesis using g3(2) by auto
    qed
  qed
qed

section \<open>The mark of decay changes nothing else\<close>

lemma assign_first_find:
  "assign_first u v as = Some bs \<Longrightarrow> t \<noteq> u \<Longrightarrow> find (\<lambda>(w, x). w = t) bs = find (\<lambda>(w, x). w = t) as"
  by (induction u v as arbitrary: bs rule: assign_first.induct) (auto split: if_splits)

lemma find_append_other: "\<not> P x \<Longrightarrow> find P (as @ [x]) = find P as"
  by (induction as) auto

lemma set_attr_other:
  assumes "t \<noteq> u"
  shows "hasAttribute t (set_attr u v a) = hasAttribute t a" "getExistingAttr t (set_attr u v a) = getExistingAttr t a"
proof -
  show has: "hasAttribute t (set_attr u v a) = hasAttribute t a"
    using assms hasAttribute_or [of t a u] by (auto simp: set_attr_def hasAttribute_def split: option.split)
  show "getExistingAttr t (set_attr u v a) = getExistingAttr t a"
    unfolding getExistingAttr_def has using assms assign_first_find [of u v "attributes a" _ t]
    by (auto simp: set_attr_def find_append_other split: option.split)
qed

lemma setDecaying_other:
  assumes "t \<noteq> ITEM_ATTRIBUTE_DECAYSTATE"
  shows "item_hasAttribute t (setDecaying b x) = item_hasAttribute t x" "item_getIntAttr t (setDecaying b x) = item_getIntAttr t x"
proof -
  have none: "\<not> hasAttribute t no_attributes" "getIntAttr t no_attributes = 0"
    by (simp_all add: hasAttribute_def no_attributes_def getIntAttr_def getExistingAttr_def)
  have set: "hasAttribute t (setIntAttr ITEM_ATTRIBUTE_DECAYSTATE n a) = hasAttribute t a"
    "getIntAttr t (setIntAttr ITEM_ATTRIBUTE_DECAYSTATE n a) = getIntAttr t a" for n a
    using set_attr_other [OF assms] by (simp_all add: setIntAttr_def Let_def getIntAttr_def)
  show "item_hasAttribute t (setDecaying b x) = item_hasAttribute t x" "item_getIntAttr t (setDecaying b x) = item_getIntAttr t x"
    by (simp_all add: setDecaying_def item_setIntAttr_def with_attributes_def item_hasAttribute_def item_getIntAttr_def set
        getAttributes_def none split: option.split)
qed

lemma setDecaying_fields [simp]: "i_id (setDecaying b x) = i_id x" "i_count (setDecaying b x) = i_count x"
  by (simp_all add: setDecaying_def item_setIntAttr_def with_attributes_def)

lemma setDecaying_same: "hasProperty T (setDecaying b x) p = hasProperty T x p" "getWeight T (setDecaying b x) = getWeight T x"
  by (simp_all add: hasProperty_def getWeight_def getBaseWeight_def own_or_def setDecaying_other Let_def cong: item_property.case_cong)

lemma begin_decay_ok:
  assumes "world_ok R g"
  shows "world_ok R (begin_decay j g) \<and> (\<forall>ty. in_all (begin_decay j g) ty = in_all g ty)"
proof -
  let ?y = "setDecaying DECAYING_TRUE (item_of g j)" and ?T = "r_types R"
  let ?s = "set_item j ?y (g_store g)"
  have "item_weight ?T ?s = item_weight ?T (g_store g)" by (auto simp: item_weight_def setDecaying_same)
  then have "missing ?T ?s = missing ?T (g_store g)" by (intro ext) (simp only: missing_def held_weight_def set_item_simps)
  then have "store_ok ?T ?s" using assms by (simp add: world_ok_def store_ok_missing store_wf_def inside_def)
  moreover have "tile_ok ?T (r_class R) k (g_tiles g k, ?s)" if "is_tile g k" for k
    using world_ok_tileD(1) [OF assms that] core_same_kind [of ?T "r_class R" "g_store g" "g_tiles g k" ?y j]
    by (simp add: tile_ok_def setDecaying_same)
  ultimately have "world_ok R (g\<lparr>g_store := ?s\<rparr>)" using assms by (simp add: world_ok_def is_tile_def)
  moreover have "in_all (g\<lparr>g_store := ?s\<rparr>) ty = in_all g ty" for ty
    by (simp, rule amount_same_share) (simp add: share_def)
  ultimately show ?thesis using assms by (simp add: begin_decay_def)
qed

section \<open>The questions get an answer\<close>

lemma queryAdd_total:
  assumes "store_wf s" "shallow s"
  shows "\<exists>r. queryAdd T ask s c index (ItemThing i) n flags = Some r"
  using holds_above_total [OF assms] getTopParent_total [OF assms, of c]
  by (auto simp: queryAdd_def split: bool.split cylinder.split)

lemma queryMaxCount_total:
  assumes "store_wf s" "shallow s"
  shows "\<exists>r m. queryMaxCount T ask s c index (ItemThing i) n flags = Some (r, m)"
proof -
  let ?f = "\<lambda>j acc. case acc of None \<Rightarrow> None
     | Some (slotIndex, k) \<Rightarrow>
         if j \<noteq> i \<and> item_equals (s_item s j) (s_item s i) \<and> i_count (s_item s j) < 100
         then (case queryAdd T ask s c slotIndex (ItemThing i) n flags of None \<Rightarrow> None
               | Some r \<Rightarrow> Some (slotIndex + 1, if r = RETURNVALUE_NOERROR then k + (100 - ucast (i_count (s_item s j)) :: u32) else k))
         else Some (slotIndex, k)"
  have step: "\<exists>z. ?f j (Some (a :: int, b)) = Some z" for j a b
    using queryAdd_total [OF assms, of T ask c a i n flags] by (auto split: option.split)
  have "\<exists>z. fold ?f xs (Some w) = Some z" for xs and w :: "int \<times> u32"
  proof (induction xs arbitrary: w)
    case (Cons x xs)
    obtain z where "?f x (Some w) = Some z" using step [of x "fst w" "snd w"] by auto
    then show ?case using Cons.IH [of z] by simp
  qed simp
  then obtain z where z: "fold ?f (items_of s c) (Some (0, 0)) = Some z" by blast
  obtain r where "queryAdd T ask s c index (ItemThing i) n flags = Some r"
    using queryAdd_total [OF assms] by blast
  then show ?thesis
    using z by (auto simp: queryMaxCount_def Let_def split: option.splits)
qed

lemma holds_above_served: "store_wf s \<Longrightarrow> shallow s \<Longrightarrow> \<exists>b. holds_above s i (Some c) = Some b"
  using holds_above_total [of s i] holds_above_outside [of s i]
  by (cases c) (auto simp: holds_above.simps [of s i "Some (Box _)"])

lemma cyl_answers:
  assumes "world_ok R g" "shallow (g_store g)" "is_served c g"
  shows "\<exists>r. cyl_queryAdd R c index i n flags g = Some r" "\<exists>r m. cyl_queryMaxCount R c index i n flags g = Some (r, m)"
    "\<exists>r. cyl_queryRemove R c i n flags g = Some r"
proof -
  have wf: "store_wf (g_store g)" using assms(1) by (simp add: world_ok_def store_ok_def)
  show "\<exists>r. cyl_queryAdd R c index i n flags g = Some r" "\<exists>r m. cyl_queryMaxCount R c index i n flags g = Some (r, m)"
    using assms(3) queryAdd_total [OF wf assms(2)] queryMaxCount_total [OF wf assms(2)]
    by (auto simp: cyl_queryAdd_def cyl_queryMaxCount_def is_served_def tile_queryMaxCount_def split: cylinder.splits)
  show "\<exists>r. cyl_queryRemove R c i n flags g = Some r"
  proof (cases c)
    case (Box b)
    obtain t where "getTopParent (g_store g) b = Some t" using getTopParent_total [OF wf assms(2)] by blast
    then show ?thesis by (simp add: Box cyl_queryRemove_def queryRemove_def)
  qed (use assms(3) in \<open>simp add: cyl_queryRemove_def is_served_def\<close>)
qed

lemma queryRemove_count:
  "cyl_queryRemove R c i n flags g = Some RETURNVALUE_NOERROR \<Longrightarrow> n \<noteq> 0 \<and> (isStackable R g i \<longrightarrow> n \<le> item_count g i)"
  by (cases c) (auto simp: cyl_queryRemove_def queryRemove_def tile_queryRemove_def isStackable_def item_count_def Let_def
      split: if_splits)

section \<open>The way to the destination\<close>

text \<open>
  What the moves rely on beyond the containers and the tiles: nothing holds a tile, a container is not overfull, the map
  holds tiles, stacks are of 100 at most, and what is in a container or topmost on a tile is no ground, splash or field.
\<close>

definition orderly :: "rules \<Rightarrow> game \<Rightarrow> bool" where
  "orderly R g \<longleftrightarrow> shallow (g_store g) \<and>
     (\<forall>c. s_box (g_store g) c \<noteq> None \<longrightarrow> 0 \<le> sint (capacity (g_store g) c) \<and>
        int (length (items_of (g_store g) c)) \<le> sint (capacity (g_store g) c)) \<and>
     (\<forall>x y z k. getTile (r_map R) x y z = Some k \<longrightarrow> is_tile g k) \<and>
     (\<forall>i. s_parent (g_store g) i \<noteq> None \<longrightarrow> isStackable R g i \<longrightarrow> item_count g i \<le> 100) \<and>
     (\<forall>j. (\<exists>c. s_parent (g_store g) j = Some (Box c)) \<or> (\<exists>k. is_tile g k \<and> getTopDownItem (g_tiles g k) = Some j) \<longrightarrow>
        lies_plainly (r_types R) (r_class R) (g_store g) j)"

definition proper :: "cylinder \<Rightarrow> game \<Rightarrow> bool" where
  "proper cyl g \<longleftrightarrow> (case cyl of Box c \<Rightarrow> s_box (g_store g) c \<noteq> None | Outside k \<Rightarrow> is_tile g k)"

definition found_at :: "rules \<Rightarrow> game \<Rightarrow> cylinder \<Rightarrow> nat option \<Rightarrow> bool" where
  "found_at R g to toItem \<longleftrightarrow> (\<forall>j. toItem = Some j \<longrightarrow> s_parent (g_store g) j = Some to \<and>
     lies_plainly (r_types R) (r_class R) (g_store g) j)"

definition index_fits :: "game \<Rightarrow> cylinder \<Rightarrow> int \<Rightarrow> bool" where
  "index_fits g cyl index \<longleftrightarrow> (\<forall>c. cyl = Box c \<longrightarrow> index < sint (capacity (g_store g) c))"

definition arrived :: "rules \<Rightarrow> game \<Rightarrow> cylinder \<times> int \<times> nat option \<times> u32 \<Rightarrow> bool" where
  "arrived R g d \<longleftrightarrow> (case d of (to, index, toItem, flags) \<Rightarrow>
     proper to g \<and> index_fits g to index \<and> found_at R g to toItem \<and> \<not> hasBitSet FLAG_CHILDISOWNER flags)"

lemma find_stack_found:
  "find_stack T s i n xs = Some (k, j) \<Longrightarrow> j \<in> set xs \<and> k < n + int (length xs)"
  by (induction xs arbitrary: n) (fastforce split: if_splits)+

lemma no_limit_child: "hasBitSet FLAG_CHILDISOWNER (flags OR FLAG_NOLIMIT) = hasBitSet FLAG_CHILDISOWNER flags"
proof -
  have "FLAG_NOLIMIT AND FLAG_CHILDISOWNER = 0" by (simp add: FLAG_NOLIMIT_def FLAG_CHILDISOWNER_def)
  then show ?thesis by (simp add: hasBitSet_def bit.conj_disj_distrib2)
qed

lemma box_step:
  assumes "world_ok R g" "orderly R g" "s_box (g_store g) c \<noteq> None" "found_at R g (Box c) toItem"
    "queryDestination (r_types R) (g_store g) c index (ItemThing i) toItem flags = (d, index', toItem')"
  shows "proper (Box d) g \<and> index_fits g (Box d) index' \<and> found_at R g (Box d) toItem'"
proof -
  let ?s = "g_store g"
  have wf: "store_wf ?s" using assms(1) by (simp add: world_ok_def store_ok_def)
  have fit: "-1 < sint (capacity ?s x)" "int (length (items_of ?s x)) \<le> sint (capacity ?s x)" if "s_box ?s x \<noteq> None" for x
  proof -
    have "0 \<le> sint (capacity ?s x) \<and> int (length (items_of ?s x)) \<le> sint (capacity ?s x)"
      using assms(2) that by (simp only: orderly_def) blast
    then show "-1 < sint (capacity ?s x)" "int (length (items_of ?s x)) \<le> sint (capacity ?s x)" by simp_all
  qed
  have at: "found_at R g (Box x) (Some j)" if "j \<in> set (items_of ?s x)" for j x
    using that wf assms(2) by (auto simp: found_at_def orderly_def store_wf_def)
  have none: "found_at R g x None" for x by (simp add: found_at_def)
  show ?thesis
  proof (cases "index = 254")
    case True
    then show ?thesis
      using assms(3,5) fit none box_of_inside [OF wf]
      by (auto simp: queryDestination_def proper_def index_fits_def INDEX_WHEREEVER_def split: option.splits cylinder.splits)
  next
    case False
    obtain ix where ix_def: "ix = (if index = 255 \<or> index \<ge> sint (capacity ?s c) then INDEX_WHEREEVER else index)" by blast
    obtain it0 where it0_def: "it0 = (if index = 255 \<or> index \<ge> sint (capacity ?s c) then None else toItem)" by blast
    obtain it where it_def: "it = (if ix \<noteq> INDEX_WHEREEVER
      then (case getItemByIndex ?s c (nat ix) of Some i \<Rightarrow> Some i | None \<Rightarrow> it0) else it0)" by blast
    have ix: "ix < sint (capacity ?s c)" using fit(1) [OF assms(3)] by (simp add: ix_def INDEX_WHEREEVER_def)
    have it: "found_at R g (Box c) it"
      using assms(4) none at by (auto simp: it_def it0_def getItemByIndex_def split: option.splits)
    have pair: "(if index = 255 \<or> index \<ge> sint (capacity ?s c) then (INDEX_WHEREEVER, None) else (index, toItem)) = (ix, it0)"
      by (simp add: ix_def it0_def)
    let ?P = "\<not> hasBitSet FLAG_IGNOREAUTOSTACK flags \<and> it_stackable (type_of (r_types R) (s_item ?s i)) \<and> s_parent ?s i \<noteq> Some (Box c)"
    let ?Q = "case it of None \<Rightarrow> False | Some j \<Rightarrow> item_equals (s_item ?s j) (s_item ?s i) \<and> i_count (s_item ?s j) < 100"
    have qd: "(d, index', toItem') =
      (if ix \<noteq> INDEX_WHEREEVER \<and> (case it of Some i \<Rightarrow> s_box ?s i \<noteq> None | None \<Rightarrow> False) then (the it, INDEX_WHEREEVER, None)
       else if ?P then (if ?Q then (c, ix, it) else case find_stack (r_types R) ?s i 0 (items_of ?s c) of
          Some (k, j) \<Rightarrow> (c, k, Some j) | None \<Rightarrow> (c, ix, it)) else (c, ix, it))"
      using assms(5) [symmetric] False
      by (simp only: queryDestination_def pair Let_def prod.case thing.case it_def [symmetric] if_False)
    have split: "\<lbrakk>x = (if A then a else if P then (if Q then b else case r of Some (k, j) \<Rightarrow> f k j | None \<Rightarrow> b) else b);
        A \<Longrightarrow> x = a \<Longrightarrow> th; x = b \<Longrightarrow> th; \<And>k j. r = Some (k, j) \<Longrightarrow> x = f k j \<Longrightarrow> th\<rbrakk> \<Longrightarrow> th"
      for x a b :: "nat \<times> int \<times> nat option" and f and r :: "(int \<times> nat) option" and A P Q th
      by (auto split: if_splits option.splits)
    consider (nested) j where "it = Some j" "s_box ?s j \<noteq> None" "(d, index', toItem') = (j, INDEX_WHEREEVER, None)"
      | (here) "(d, index', toItem') = (c, ix, it)"
      | (stack) k j where "find_stack (r_types R) ?s i 0 (items_of ?s c) = Some (k, j)" "(d, index', toItem') = (c, k, Some j)"
      by (rule split [OF qd]) (auto split: option.splits)
    then show ?thesis
    proof cases
      case nested
      then show ?thesis using fit(1) none by (auto simp: proper_def index_fits_def INDEX_WHEREEVER_def)
    next
      case here
      then show ?thesis using ix it assms(3) by (simp add: proper_def index_fits_def)
    next
      case stack
      then show ?thesis
        using find_stack_found [OF stack(1)] fit(2) [OF assms(3)] at assms(3) by (auto simp: proper_def index_fits_def)
    qed
  qed
qed

lemma step_arrives:
  assumes "world_ok R g" "orderly R g" "proper cyl g" "found_at R g cyl toItem" "\<not> hasBitSet FLAG_CHILDISOWNER flags"
  shows "arrived R g (cyl_queryDestination R cyl index i toItem flags g)"
proof (cases cyl)
  case (Box c)
  obtain d index' toItem' where q: "queryDestination (r_types R) (g_store g) c index (ItemThing i) toItem flags = (d, index', toItem')"
    by (cases "queryDestination (r_types R) (g_store g) c index (ItemThing i) toItem flags") auto
  then show ?thesis
    using box_step [OF assms(1,2) _ _ q] assms(3-5) Box by (simp add: cyl_queryDestination_def arrived_def proper_def)
next
  case (Outside k)
  obtain d toItem' flags' where q: "tile_queryDestination (g_tiles g) (r_map R) flags k = (d, toItem', flags')"
    by (cases "tile_queryDestination (g_tiles g) (r_map R) flags k") auto
  then have d: "is_tile g d" "toItem' = getTopDownItem (g_tiles g d)" "\<not> hasBitSet FLAG_CHILDISOWNER flags'"
    using assms(2,3,5) Outside
    by (auto simp: tile_queryDestination_def proper_def orderly_def no_limit_child split: option.splits prod.splits bind_splits)
  have "s_parent (g_store g) j = Some (Outside d)" if "getTopDownItem (g_tiles g d) = Some j" for j
  proof -
    have ok: "tile_ok (r_types R) (r_class R) d (g_tiles g d, g_store g)" by (rule world_ok_tileD(1) [OF assms(1) d(1)])
    have "0 < downItemCount (g_tiles g d)" "j = hd (t_items (g_tiles g d))"
      using that by (auto simp: getTopDownItem_def word_neq_0_conv split: if_splits)
    then have "j \<in> set (t_items (g_tiles g d))"
      using ok by (cases "t_items (g_tiles g d)") (auto simp: tile_ok_def core_ok_def stack_ok_def word_less_nat_alt)
    then show ?thesis using ok by (auto simp: tile_ok_def held_here_def on_tile_set_def)
  qed
  then show ?thesis
    using q d assms(2) Outside
    by (auto simp: cyl_queryDestination_def arrived_def proper_def index_fits_def found_at_def orderly_def)
qed

lemma destination_arrives:
  assumes "world_ok R g" "orderly R g"
  shows "proper cyl g \<Longrightarrow> found_at R g cyl toItem \<Longrightarrow> \<not> hasBitSet FLAG_CHILDISOWNER flags \<Longrightarrow>
    arrived R g (destination_loop R n cyl index i toItem flags g)"
  using assms
proof (induction R n cyl index i toItem flags g rule: destination_loop.induct)
  case (1 R n cyl index i toItem flags g)
  obtain sub index' toItem' flags' where q: "cyl_queryDestination R cyl index i toItem flags g = (sub, index', toItem', flags')"
    by (metis prod_cases4)
  have here: "arrived R g (sub, index', toItem', flags')"
    using step_arrives [OF "1.prems"(4,5,1,2,3), of index i] by (simp add: q)
  have none: "\<not> hasBitSet FLAG_CHILDISOWNER 0" by (simp add: hasBitSet_def)
  show ?case
  proof (cases "sub = cyl")
    case True
    then show ?thesis using here q by (subst destination_loop.simps) simp
  next
    case False
    show ?thesis
    proof (cases "n + 1 \<ge> MAP_MAX_LAYERS")
      case True
      then show ?thesis using False here q none by (subst destination_loop.simps) (simp add: arrived_def)
    next
      case go: False
      have "arrived R g (destination_loop R (n + 1) sub index' i toItem' 0 g)"
        using "1.IH" [OF q [symmetric] refl refl False go] "1.prems"(4,5) here none by (simp add: arrived_def)
      then show ?thesis using False go q by (subst destination_loop.simps) simp
    qed
  qed
qed

section \<open>The whole move\<close>

text \<open>An answer that is no refusal, be it for an exchange, means that there is room.\<close>

lemma accepted_room:
  assumes "cyl_queryAdd R to index' i n flags g = Some r" "r = RETURNVALUE_NOERROR \<or> r = RETURNVALUE_NEEDEXCHANGE"
    "proper to g" "index_fits g to index" "\<not> hasBitSet FLAG_CHILDISOWNER flags"
    "lies_plainly (r_types R) (r_class R) (g_store g) i"
  shows "has_room R to index i g"
proof (cases to)
  case (Box c)
  have "i \<noteq> c" "holds_above (g_store g) i (s_parent (g_store g) c) = Some False"
    using assms(1,2,5) Box by (auto simp: cyl_queryAdd_def queryAdd_def split: if_splits option.splits bool.splits)
  then have "(c, i) \<notin> (inside (g_store g))\<^sup>*" using holds_above_inside by (metis rtranclD)
  then show ?thesis using Box assms(3,4) by (simp add: has_room_def proper_def index_fits_def)
next
  case (Outside k)
  then show ?thesis
    using assms by (auto simp: cyl_queryAdd_def has_room_def proper_def item_queryAdd_def Let_def not_less split: if_splits)
qed

lemma proper_served: "proper c g \<Longrightarrow> is_served c g"
  by (simp add: proper_def is_served_def split: cylinder.splits)

lemma moved_part_ok:
  assumes "world_ok R g" "shallow (g_store g)" "is_served from g" "s_parent (g_store g) i = Some from"
    "has_room R to index i g" "proper to g"
    "\<And>j. toItem = Some j \<Longrightarrow> j \<noteq> i \<and> s_parent (g_store g) j = Some to \<and> (isStackable R g j \<longrightarrow> item_count g j \<le> 100)"
    "s_parent (g_store g) new = None" "free_address R new g"
  shows "\<exists>r g'. moved_part R from to index i count toItem flags tradeItem new g = Some (r, g') \<and> world_ok R g' \<and>
    (\<forall>ty. in_all g' ty = in_all g ty)"
proof -
  have served: "is_served to g" using proper_served [OF assms(6)] .
  obtain retMax maxCount where max: "cyl_queryMaxCount R to index i count flags g = Some (retMax, maxCount)"
    using cyl_answers(2) [OF assms(1,2) served] by blast
  obtain m where m_def: "m = (if isStackable R g i then min count maxCount else maxCount)" by blast
  obtain ret where ret: "cyl_queryRemove R from i m flags g = Some ret"
    using cyl_answers(3) [OF assms(1-3)] by blast
  have wf: "store_wf (g_store g)" using assms(1) by (simp add: world_ok_def store_ok_def)
  obtain inTrade where trade: "(case tradeItem of None \<Rightarrow> Some False | Some ti \<Rightarrow> holds_above (g_store g) ti (Some to)) = Some inTrade"
    using holds_above_served [OF wf assms(2)] by (cases tradeItem) auto
  show ?thesis
  proof (cases "ret = RETURNVALUE_NOERROR \<and> \<not> inTrade \<and> \<not> (retMax \<noteq> RETURNVALUE_NOERROR \<and> maxCount = 0)")
    case False
    then have "\<exists>r. moved_part R from to index i count toItem flags tradeItem new g = Some (r, g)"
      using ret trade by (auto simp: moved_part_def Let_def max m_def [symmetric])
    then show ?thesis using assms(1) by blast
  next
    case True
    have "m \<noteq> 0 \<and> (isStackable R g i \<longrightarrow> m \<le> item_count g i)"
      using queryRemove_count ret True by blast
    then have pos: "0 < m \<and> m \<le> item_count g i" if "isStackable R g i"
      using that unfolding word_gt_0 by metis
    have "\<exists>r g'. perform_move R from to index i toItem m new g = Some (r, g') \<and> world_ok R g' \<and>
      (\<forall>ty. in_all g' ty = in_all g ty)"
      by (rule perform_move_ok [OF assms(1,3,4,5) served pos assms(7,8,9)])
    then obtain r g' where p: "perform_move R from to index i toItem m new g = Some (r, g')" "world_ok R g'"
      "\<forall>ty. in_all g' ty = in_all g ty" by blast
    let ?r = "if isStackable R g' i \<and> maxCount < count then (retMax, g')
      else (ret, case r of Some j \<Rightarrow> begin_decay j g' | None \<Rightarrow> g')"
    have "moved_part R from to index i count toItem flags tradeItem new g = Some ?r"
      using ret trade True p(1) by (auto simp: moved_part_def Let_def max m_def [symmetric])
    moreover have "world_ok R (snd ?r)" "\<forall>ty. in_all (snd ?r) ty = in_all g ty"
      using p(2,3) begin_decay_ok [OF p(2)] by (auto split: option.split)
    ultimately show ?thesis by (metis prod.collapse)
  qed
qed

lemma exchange_moves:
  assumes "world_ok R g" "shallow (g_store g)" "proper from g" "s_parent (g_store g) i = Some from" "index_fits g from 0"
    "proper to g" "found_at R g to (Some j)" "j \<noteq> i"
  shows "\<exists>stop ret toItem' g'. exchange_item R script from to index i count (Some j) flags g = Some (stop, ret, toItem', g') \<and>
    world_ok R g' \<and> (\<forall>ty. in_all g' ty = in_all g ty) \<and>
    (g' = g \<and> toItem' = Some j \<or>
     toItem' = None \<and> cyl_queryAdd R to index i count flags g' = Some ret \<and>
     same_boxes (g_store g) (g_store g') \<and> s_parent (g_store g') = (s_parent (g_store g))(j := Some from) \<and> item_of g' = item_of g)"
proof -
  let ?c = "item_count g j"
  have served: "is_served from g" "is_served to g" using assms(3,6) by (simp_all add: proper_served)
  have j: "s_parent (g_store g) j = Some to" "lies_plainly (r_types R) (r_class R) (g_store g) j"
    using assms(7) by (simp_all add: found_at_def)
  obtain ret where ret: "cyl_queryAdd R from (cyl_getThingIndex R from i g) j ?c 0 g = Some ret"
    using cyl_answers(1) [OF assms(1,2) served(1)] by blast
  obtain retMax maxCount where max: "cyl_queryMaxCount R from INDEX_WHEREEVER j ?c 0 g = Some (retMax, maxCount)"
    using cyl_answers(2) [OF assms(1,2) served(1)] by blast
  obtain retRemove where rem: "cyl_queryRemove R to j ?c flags g = Some retRemove"
    using cyl_answers(3) [OF assms(1,2) served(2)] by blast
  show ?thesis
  proof (cases "ret = RETURNVALUE_NOERROR \<and> script j \<and> \<not> (retMax \<noteq> RETURNVALUE_NOERROR \<and> maxCount = 0) \<and>
      retRemove = RETURNVALUE_NOERROR")
    case False
    then have "\<exists>stop r. exchange_item R script from to index i count (Some j) flags g = Some (stop, r, Some j, g)"
      using ret max rem by (auto simp: exchange_item_def Let_def)
    then show ?thesis using assms(1) by blast
  next
    case True
    have child: "\<not> hasBitSet FLAG_CHILDISOWNER 0" by (simp add: hasBitSet_def)
    have room: "has_room R from 0 j g"
      using accepted_room [OF ret _ assms(3,5) child j(2)] True by simp
    obtain g1 where g1: "cyl_removeThing R to j ?c g = Some g1" "world_ok R g1" "item_of g1 = item_of g"
      "s_parent (g_store g1) = (s_parent (g_store g))(j := None)" "kept R g g1" "same_boxes (g_store g) (g_store g1)"
      using remove_whole_law [OF assms(1) served(2) j(1), of ?c] by (auto simp: item_count_def)
    obtain g2 where g2: "cyl_addThing R from 0 j g1 = Some g2" "world_ok R g2" "item_of g2 = item_of g1"
      "s_parent (g_store g2) = (s_parent (g_store g1))(j := Some from)" "same_boxes (g_store g1) (g_store g2)"
      using add_law [OF g1(2) _ games.keeps_room [OF g1(5) room]] g1(4) by auto
    have boxes: "same_boxes (g_store g) (g_store g2)" using g1(6) g2(5) by (simp add: same_boxes_def)
    then have "shallow (g_store g2)" "is_served to g2"
      using assms(2) served(2) by (auto simp: same_boxes_def shallow_def is_served_def is_tile_def split: cylinder.splits)
    then obtain again where again: "cyl_queryAdd R to index i count flags g2 = Some again"
      using cyl_answers(1) [OF g2(2)] by blast
    have "in_all g2 ty = in_all g ty" for ty
      using amount_drop [of "s_parent (g_store g)" j "item_of g" ty] amount_put [of "s_parent (g_store g1)" j "from" "item_of g" ty]
        games.placed_finite [OF assms(1)] games.placed_finite [OF g1(2)] j(1) g1(3,4) g2(3,4) by simp
    moreover have "exchange_item R script from to index i count (Some j) flags g = Some (False, again, None, g2)"
      using ret max rem True g1(1) g2(1) again by (simp add: exchange_item_def Let_def)
    moreover have "s_parent (g_store g2) = (s_parent (g_store g))(j := Some from)" using g1(4) g2(4) by simp
    ultimately show ?thesis using g2(2,3) g1(3) again boxes by auto
  qed
qed

text \<open>
  C39: Moving an item between containers and tiles, over floor changes and into nested containers, with stacks that are
  split and merged and hangable items exchanged, comes to an end, leaves containers and tiles in order, and
  neither loses nor makes anything: for every item identifier the sum of the counts of all that is held somewhere is as
  before, whatever the answer; except where the exchange meets a tile on which nothing lies topmost.
\<close>

theorem move_conserves:
  assumes "world_ok R g" "orderly R g" "proper from g" "s_parent (g_store g) i = Some from" "proper to g"
    "lies_plainly (r_types R) (r_class R) (g_store g) i" "\<not> hasBitSet FLAG_CHILDISOWNER flags"
    "s_parent (g_store g) new = None" "free_address R new g"
  shows "(\<exists>r g'. internalMoveItem R script from to index i count flags tradeItem new g = Some (r, g') \<and>
      world_ok R g' \<and> (\<forall>ty. in_all g' ty = in_all g ty)) \<or>
    (case destination_loop R 0 to index i None flags g of (d, index', toItem, flags') \<Rightarrow>
      toItem = None \<and> cyl_queryAdd R d index' i count flags' g = Some RETURNVALUE_NEEDEXCHANGE)"
proof -
  obtain d index' toItem flags' where dest: "destination_loop R 0 to index i None flags g = (d, index', toItem, flags')"
    by (metis prod_cases4)
  have "arrived R g (destination_loop R 0 to index i None flags g)"
    using destination_arrives [OF assms(1,2,5) _ assms(7)] by (simp add: found_at_def)
  then have arr: "proper d g" "index_fits g d index'" "found_at R g d toItem" "\<not> hasBitSet FLAG_CHILDISOWNER flags'"
    unfolding dest arrived_def by simp_all
  have sh: "shallow (g_store g)" and hundred: "\<And>x. s_parent (g_store g) x \<noteq> None \<Longrightarrow> isStackable R g x \<Longrightarrow> item_count g x \<le> 100"
    using assms(2) by (simp_all only: orderly_def) blast+
  have served: "is_served from g" "is_served d g" using assms(3) arr(1) by (simp_all add: proper_served)
  obtain ret where ret: "cyl_queryAdd R d index' i count flags' g = Some ret"
    using cyl_answers(1) [OF assms(1) sh served(2)] by blast
  have onto: "s_parent (g_store g) j = Some d \<and> (isStackable R g j \<longrightarrow> item_count g j \<le> 100)" if "toItem = Some j" for j
    using that arr(3) hundred [of j] by (simp add: found_at_def)
  show ?thesis
  proof (cases "script i \<and> toItem \<noteq> Some i \<and> (ret = RETURNVALUE_NOERROR \<or> ret = RETURNVALUE_NEEDEXCHANGE)")
    case False
    then have "\<exists>r. internalMoveItem R script from to index i count flags tradeItem new g = Some (r, g)"
      using dest ret by (auto simp: internalMoveItem_def)
    then show ?thesis using assms(1) by blast
  next
    case ask: True
    have room: "has_room R d index' i g"
      using accepted_room [OF ret _ arr(1,2,4) assms(6)] ask by blast
    have here: "\<exists>r g'. moved_part R from d index' i count toItem flags' tradeItem new g = Some (r, g') \<and> world_ok R g' \<and>
        (\<forall>ty. in_all g' ty = in_all g ty)"
      using onto ask by (intro moved_part_ok [OF assms(1) sh served(1) assms(4) room arr(1) _ assms(8,9)]) auto
    show ?thesis
    proof (cases "ret = RETURNVALUE_NEEDEXCHANGE")
      case False
      then show ?thesis using here ask dest ret by (simp add: internalMoveItem_def)
    next
      case exch: True
      show ?thesis
      proof (cases toItem)
        case None
        then show ?thesis using dest ret exch by simp
      next
        case (Some j)
        have fits: "index_fits g from 0"
        proof (cases "from")
          case (Box b)
          have "i \<in> set (items_of (g_store g) b)"
            using assms(1,4) Box by (simp add: world_ok_def store_ok_def store_wf_def)
          then have "0 < length (items_of (g_store g) b)" by (cases "items_of (g_store g) b") auto
          moreover have "int (length (items_of (g_store g) b)) \<le> sint (capacity (g_store g) b)"
            using assms(2,3) Box by (simp only: orderly_def proper_def cylinder.case) blast
          ultimately have "0 < sint (capacity (g_store g) b)" by linarith
          then show ?thesis using Box by (simp add: index_fits_def)
        qed (simp add: index_fits_def)
        obtain stop ret' toItem' g' where x: "exchange_item R script from d index' i count (Some j) flags' g = Some (stop, ret', toItem', g')"
          "world_ok R g'" "\<forall>ty. in_all g' ty = in_all g ty"
          and how: "g' = g \<and> toItem' = Some j \<or> toItem' = None \<and> cyl_queryAdd R d index' i count flags' g' = Some ret' \<and>
            same_boxes (g_store g) (g_store g') \<and> s_parent (g_store g') = (s_parent (g_store g))(j := Some from) \<and> item_of g' = item_of g"
          using exchange_moves [OF assms(1) sh assms(3,4) fits arr(1), of j script index' count flags'] arr(3) Some ask by blast
        have "\<exists>r g''. moved_part R from d index' i count toItem' flags' tradeItem new g' = Some (r, g'') \<and> world_ok R g'' \<and>
            (\<forall>ty. in_all g'' ty = in_all g ty)" if ok: "ret' = RETURNVALUE_NOERROR"
          using how
        proof
          assume "g' = g \<and> toItem' = Some j"
          then show ?thesis using here Some by simp
        next
          assume new: "toItem' = None \<and> cyl_queryAdd R d index' i count flags' g' = Some ret' \<and>
            same_boxes (g_store g) (g_store g') \<and> s_parent (g_store g') = (s_parent (g_store g))(j := Some from) \<and> item_of g' = item_of g"
          have same: "is_tile g' = is_tile g" "shallow (g_store g')" "proper d g'" "index_fits g' d index'" "is_served from g'"
            using new sh arr(1,2) served(1)
            by (auto simp: same_boxes_def is_tile_def shallow_def proper_def index_fits_def is_served_def split: cylinder.splits)
          have plain: "lies_plainly (r_types R) (r_class R) (g_store g') i"
            using assms(6) new by (simp add: lies_plainly_def field_single_def)
          have room': "has_room R d index' i g'"
            using accepted_room [of R d index' i count flags' g' ret', OF _ _ same(3,4) arr(4) plain] new ok by blast
          have par: "s_parent (g_store g') i = Some from" "s_parent (g_store g') new = None"
            using new assms(4,8) onto [OF Some] ask Some by auto
          have "\<exists>r g''. moved_part R from d index' i count None flags' tradeItem new g' = Some (r, g'') \<and> world_ok R g'' \<and>
            (\<forall>ty. in_all g'' ty = in_all g' ty)"
            using free_address_mono [OF assms(9)] new
            by (intro moved_part_ok [OF x(2) same(2,5) par(1) room' same(3) _ par(2)]) auto
          then show ?thesis using new x(3) by simp
        qed
        then show ?thesis
          using ask dest ret exch Some x by (cases "stop \<or> ret' \<noteq> RETURNVALUE_NOERROR") (auto simp: internalMoveItem_def)
      qed
    qed
  qed
qed

section \<open>What the exchange misses\<close>

text \<open>The exchange asks the item that lies topmost, which a null pointer is not.\<close>

theorem exchange_without_item:
  assumes "script i" "destination_loop R 0 to index i None flags g = (d, index', None, flags')"
    "cyl_queryAdd R d index' i count flags' g = Some RETURNVALUE_NEEDEXCHANGE"
  shows "internalMoveItem R script from to index i count flags tradeItem new g = None"
  using assms by (simp add: internalMoveItem_def exchange_item_def)

text \<open>When the item in the way cannot be removed the answer is that of the source, and the move goes on as if there were room.\<close>

theorem exchange_refused_moves_on:
  assumes "cyl_queryAdd R from (cyl_getThingIndex R from i g) j (item_count g j) 0 g = Some RETURNVALUE_NOERROR" "script j"
    "cyl_queryMaxCount R from INDEX_WHEREEVER j (item_count g j) 0 g = Some (RETURNVALUE_NOERROR, m)"
    "cyl_queryRemove R to j (item_count g j) flags g = Some r" "r \<noteq> RETURNVALUE_NOERROR"
  shows "exchange_item R script from to index i count (Some j) flags g = Some (False, RETURNVALUE_NOERROR, Some j, g)"
  using assms by (simp add: exchange_item_def Let_def)

section \<open>Taking away\<close>

text \<open>
  C40: \<open>internalRemoveItem\<close> ends, leaves everything as it was unless it agrees, and when it agrees takes exactly the
  number asked for of a stack, or the item itself, and nothing else, out of the world, which stays in order.
\<close>

theorem remove_takes_exactly:
  assumes "world_ok R g" "shallow (g_store g)" "s_parent (g_store g) i = Some c" "is_served c g" "\<not> test"
  shows "\<exists>r g'. internalRemoveItem R canRemove i count test flags g = Some (r, g') \<and> world_ok R g' \<and>
    (if r = RETURNVALUE_NOERROR
     then let n = (if count = -1 then item_count g i else word_of_int count) in
       \<forall>ty. in_all g' ty + (if i_id (item_of g i) = ty then if isStackable R g i then unat n else unat (i_count (item_of g i)) else 0)
         = in_all g ty
     else g' = g)"
proof -
  obtain n where n: "n = (if count = -1 then item_count g i else word_of_int count)" by blast
  obtain ret where ret: "cyl_queryRemove R c i n (flags OR FLAG_IGNORENOTMOVEABLE) g = Some ret"
    using cyl_answers(3) [OF assms(1,2,4)] by blast
  show ?thesis
  proof (cases "ret = RETURNVALUE_NOERROR \<and> canRemove i")
    case False
    then have "\<exists>r. r \<noteq> RETURNVALUE_NOERROR \<and> internalRemoveItem R canRemove i count test flags g = Some (r, g)"
      using ret assms(3) by (auto simp: internalRemoveItem_def Let_def n [symmetric])
    then show ?thesis using assms(1) by auto
  next
    case True
    then have whole: "if it_stackable (type_of (r_types R) (item_of g i)) then n \<le> ucast (i_count (item_of g i)) else True"
      using queryRemove_count ret unfolding isStackable_def item_count_def by metis
    obtain g' where g': "cyl_removeThing R c i n g = Some g'" "world_ok R g'"
      "\<forall>ty. in_all g' ty + (if i_id (item_of g i) = ty then if isStackable R g i then unat n
        else unat (i_count (item_of g i)) else 0) = in_all g ty"
      using games.take_out [OF assms(1,4,3) whole] unfolding games.total_def isStackable_def by blast
    moreover have "internalRemoveItem R canRemove i count test flags g = Some (RETURNVALUE_NOERROR, g')"
      using True ret assms(3,5) g'(1) by (simp add: internalRemoveItem_def Let_def n [symmetric])
    ultimately show ?thesis
      unfolding Let_def n [symmetric] by (intro exI [of _ RETURNVALUE_NOERROR] exI [of _ g']) (simp only: simp_thms if_True)
  qed
qed

section \<open>Witnesses\<close>

definition coin_types :: items_table where
  "coin_types = \<lparr>items = [new_item_type, new_item_type\<lparr>it_id := 1, it_stackable := True, it_pickupable := True, it_moveable := True\<rparr>],
     clientIdToServerIdMap = [], majorVersion = 0, minorVersion = 0, buildNumber = 0\<rparr>"

definition purses :: game where
  "purses = \<lparr>g_tiles = (\<lambda>_. bare_tile),
     g_store = \<lparr>s_item = (\<lambda>i. \<lparr>i_id = 1, i_count = 10, i_attributes = None, i_loadedFromMap = False\<rparr>),
       s_parent = (\<lambda>i. if i = 2 then Some (Box 0) else None), s_outer = (\<lambda>_. None),
       s_box = (\<lambda>c. if c < 2 then Some \<lparr>itemlist = (if c = 0 then [2] else []), maxSize = 8, totalWeight = 0\<rparr> else None)\<rparr>\<rparr>"

definition no_rules :: rules where
  "no_rules = \<lparr>r_types = coin_types, r_class = (\<lambda>_. PlainItem), r_creatures = (\<lambda>_. visitor),
     r_ask = (\<lambda>_ _ _ _. RETURNVALUE_NOERROR), r_house = (\<lambda>_. None), r_map = new_world\<rparr>"

lemma new_item_type_more [simp]: "it_id new_item_type = 0" "it_weight new_item_type = 0" "\<not> it_pickupable new_item_type"
  by (simp_all add: new_item_type_def)

lemma coin_at: "items_at coin_types ty = (if ty = 1
    then new_item_type\<lparr>it_id := 1, it_stackable := True, it_pickupable := True, it_moveable := True\<rparr> else new_item_type)"
proof -
  have "unat ty = 1 \<longleftrightarrow> ty = 1" "unat ty = 0 \<longleftrightarrow> ty = 0" using word_unat_eq_iff [of ty 1] by (simp_all add: unsigned_eq_0_iff)
  then show ?thesis by (auto simp: items_at_def getItemType_def coin_types_def nth_Cons' less_Suc_eq)
qed

lemma coins_sound: "sound_stacks coin_types"
  by (simp add: word_le_nat_alt sound_stacks_def coin_at Let_def isFluidContainer_def isSplash_def CreateItem_def isContainer_def isMagicField_def)

lemma purse_items [simp]: "items_of (g_store purses) c = (if c = 0 then [2] else [])"
  by (simp add: items_of_def purses_def)

lemma purse_parent [simp]: "s_parent (g_store purses) i = (if i = 2 then Some (Box 0) else None)"
  by (simp add: purses_def)

lemma purse_box: "(s_box (g_store purses) c \<noteq> None) = (c < 2)"
  by (simp add: purses_def)

lemma purses_ok: "world_ok no_rules purses"
proof -
  let ?s = "g_store purses"
  have weight: "item_weight coin_types ?s i = 0" for i
    by (simp add: item_weight_def purses_def getWeight_def getBaseWeight_def own_or_def item_hasAttribute_def coin_at)
  have inside: "inside ?s = {(2, 0)}" by (auto simp: inside_def purses_def split: if_splits)
  have "finite {c. s_box ?s c \<noteq> None}"
    by (rule finite_subset [of _ "{..<2}"]) (auto simp: purses_def split: if_splits)
  moreover have "acyclic {(2 :: nat, 0 :: nat)}" by (subst acyclic_insert) (simp add: acyclic_def)
  ultimately have "store_wf ?s"
    unfolding store_wf_def inside by (simp add: purse_box)
  then have "store_ok coin_types ?s"
    by (auto simp: store_ok_def held_weight_def weight) (auto simp: purses_def split: if_splits)
  moreover have "tile_ok coin_types (\<lambda>_. PlainItem) k (bare_tile, ?s)" for k
    by (rule tile_ok_frame [OF bare_tile_ok]) (simp_all add: purses_def)
  ultimately show ?thesis
    using coins_sound by (simp add: world_ok_def no_rules_def) (simp add: purses_def bare_tile_def)
qed

lemma purses_orderly: "orderly no_rules purses"
proof -
  have empty: "getTile new_world x y z = (None :: nat option)" for x y z
    by (simp add: getTile_def new_world_def leaf_at_def empty_node_def getLeaf.simps qchild.simps)
  have cap: "capacity (g_store purses) c = (if c < 2 then 8 else 0)" for c by (simp add: capacity_def purses_def)
  show ?thesis
    unfolding orderly_def
    by (auto simp: cap no_rules_def empty shallow_def) (auto simp: purses_def isStackable_def item_count_def is_tile_def
        bare_tile_def getTopDownItem_def lies_plainly_def coin_at isGroundTile_def isSplash_def isMagicField_def
        field_single_def split: if_splits)
qed

theorem move_conserves_witness:
  "\<exists>r g'. internalMoveItem no_rules (\<lambda>_. True) (Box 0) (Box 1) 255 2 3 0 None 5 purses = Some (r, g') \<and>
     world_ok no_rules g' \<and> (\<forall>ty. in_all g' ty = in_all purses ty)"
proof -
  let ?d = "destination_loop no_rules 0 (Box 1) 255 2 None 0 purses"
  have types: "r_types no_rules = coin_types" by (simp add: no_rules_def)
  have "proper (Box 0) purses" "proper (Box 1) purses" "s_parent (g_store purses) 2 = Some (Box 0)"
    "s_parent (g_store purses) 5 = None" "free_address no_rules 5 purses"
    by (simp_all add: proper_def purses_def free_address_def no_rules_def)
  moreover have "\<not> hasBitSet FLAG_CHILDISOWNER 0" by (simp add: hasBitSet_def)
  moreover have "lies_plainly (r_types no_rules) (r_class no_rules) (g_store purses) 2"
    by (simp add: lies_plainly_def types purses_def coin_at isGroundTile_def isSplash_def isMagicField_def field_single_def no_rules_def)
  ultimately have "(\<exists>r g'. internalMoveItem no_rules (\<lambda>_. True) (Box 0) (Box 1) 255 2 3 0 None 5 purses = Some (r, g') \<and>
      world_ok no_rules g' \<and> (\<forall>ty. in_all g' ty = in_all purses ty)) \<or>
    (case ?d of (d, index', toItem, flags') \<Rightarrow>
      toItem = None \<and> cyl_queryAdd no_rules d index' 2 3 flags' purses = Some RETURNVALUE_NEEDEXCHANGE)"
    by (intro move_conserves [OF purses_ok purses_orderly])
  moreover have "?d = (Box 1, -1, None, 0)"
    by (subst destination_loop.simps) (simp add: cyl_queryDestination_def queryDestination_def INDEX_WHEREEVER_def Let_def types)
  moreover have "cyl_queryAdd no_rules (Box 1) (-1) 2 3 0 purses = Some RETURNVALUE_NOERROR"
    by (simp add: cyl_queryAdd_def queryAdd_def types hasBitSet_def holds_above.simps getTopParent_def capacity_def INDEX_WHEREEVER_def)
      (simp add: purses_def coin_at holds_above.simps getTopParent_def)
  ultimately show ?thesis by simp
qed

theorem remove_takes_exactly_witness:
  "\<exists>r g'. internalRemoveItem no_rules (\<lambda>_. True) 2 4 False 0 purses = Some (r, g') \<and> world_ok no_rules g'"
proof -
  have "shallow (g_store purses)" "s_parent (g_store purses) 2 = Some (Box 0)" "is_served (Box 0) purses"
    by (simp_all add: shallow_def is_served_def purses_def)
  from remove_takes_exactly [OF purses_ok this, of False "\<lambda>_. True" 4 0] show ?thesis by auto
qed

end
