(* ===== verification/Spec2Isabelle.thy ===== *)
theory Spec2Isabelle
  imports Connection Ban File_Loader Registry Party Spectators Pathfinding Item_Storage Game_Requests Client_View Containers Game_Login Tiles Tile_Query Game_Moves
begin

text \<open>
  A model of The Forgotten Server, the C++ game server under \<open>src/src\<close>, in the parts that do not
  depend on a database or on scripts. Every theory models the functions of the files it names, one
  definition per function under the function's name, with the machine integers at their widths, the
  errors as values and the state passed explicitly.

  The network. \<open>Prelude\<close> has the little-endian images of integers and the reads and writes of byte
  buffers that the rest shares. \<open>Xtea\<close> is the cipher (\<open>xtea.cpp\<close>), \<open>Net_Message\<close> the fixed message
  buffer with its readers and writers (\<open>networkmessage.h\<close>, \<open>networkmessage.cpp\<close>,
  \<open>outputmessage.h\<close>), \<open>Checksum\<close> the Adler-32 checksum (\<open>tools.cpp\<close>), \<open>Protocol\<close> the framing of a
  packet: padding, encryption, checksum, length (\<open>protocol.cpp\<close>), \<open>Connection\<close> the read and write
  handlers of a connection (\<open>connection.cpp\<close>), \<open>Ban\<close> the throttling of connection attempts
  (\<open>ban.cpp\<close>). The lemmas show that the cipher is XTEA and its decryption the inverse, that the values
  written to a message are read back in order and no read leaves the buffer, that a packet one side
  sends is what the other side's protocol gets, in order, and that an address cannot disturb another.

  Files and items. \<open>File_Loader\<close> has the property streams and the OTB node tree (\<open>fileloader.h\<close>,
  \<open>fileloader.cpp\<close>); the interface \<open>prop_codec\<close> says what a writer and a reader of a stream owe each
  other. \<open>Item_Types\<close> is the table of item types and its loader (\<open>items.h\<close>, \<open>items.cpp\<close>,
  \<open>itemloader.h\<close>), built on the node tree. \<open>Item_Attributes\<close> is the list of attributes of an item with
  its bit set (\<open>item.h\<close>, \<open>item.cpp\<close>), shown to be a map from types to values, the interface
  \<open>keyed_store\<close>; \<open>Item\<close> has the items and their storage, and \<open>Item_Storage\<close> shows that an item
  written to a stream is read back, and what the comparison of two items decides.

  Players. \<open>Text\<close> has the string routines of \<open>tools.cpp\<close>. \<open>Wildcard_Tree\<close> is the tree of names of the
  players online (\<open>wildcardtree.cpp\<close>), shown to be a set of names with the search for a unique
  completion, the interface \<open>name_index\<close>; \<open>Registry\<close> has the tables of players of \<open>game.cpp\<close> that use
  it. \<open>Party\<close> is \<open>party.cpp\<close> with the party handlers of \<open>game.cpp\<close> and \<open>player.cpp\<close>, over an explicit
  store of parties and players, since both keep pointers to each other; its invariant says that they
  always agree.

  The game protocol. \<open>Game_Requests\<close> has the dispatch of a packet and every parse function
  (\<open>protocolgame.cpp\<close>) as parsers in the state monad: every request a client can make is parsed back
  to its task, and no packet does more than a player in his state may do. \<open>Map_Description\<close> and
  \<open>Client_View\<close> are the way back: what a client is told of tiles, creatures and floors, shown to be
  readable, to agree with the server on the creatures known, and to cover after every step exactly
  what the player can see.

  The map. \<open>Geometry\<close> has positions and directions (\<open>position.h\<close>, \<open>tools.cpp\<close>), \<open>Map_Tree\<close> the quad tree
  and \<open>Map_World\<close> its leaves with their links, the tiles by position and the creatures
  (\<open>map.h\<close>, \<open>map.cpp\<close>); \<open>Spectators\<close> shows for every reachable map that it is a function from positions
  to tiles and that the scan over linked leaves finds exactly the creatures in range. \<open>Pathfinding\<close> is
  the A* search for a way: it always ends, and the way it finds can be walked.

  Loops are structural recursion or have a termination proof, except for \<open>replaceString\<close> and
  \<open>explodeString\<close>, where not returning is \<open>None\<close>: the first does not return for an empty pattern. No
  definition uses fuel; the quad tree has the 13 levels below its root that its 16-bit coordinates
  need.

  Not modelled: the socket, timers and threads of \<open>boost::asio\<close>; the RSA primitive, which is a
  parameter; Lua scripts, which are parameters where a handler asks one for its consent; the database;
  the XML files; combat and monsters; floating-point code.
\<close>

end
